(* ===== verification/Prelude.thy ===== *)
theory Prelude
  imports Complex_Main "HOL-Library.Word" "HOL-Library.Char_ord"
    "HOL-Library.List_Lexorder" "HOL-Library.Product_Lexorder" "HOL-Library.Sublist"
begin

text \<open>
  Shared vocabulary of the development: machine integers, the outcome of a fallible Rust
  function (\<open>Ok\<close>, \<open>Err\<close> or a panic), little-endian byte strings, the standard library's
  ordered map \<open>BTreeMap\<close> as a sorted association list with its interface as a locale, and
  the generic list facts the component theories use.
\<close>

section \<open>Machine integers\<close>

type_synonym u8 = "8 word"
type_synonym u16 = "16 word"
type_synonym u32 = "32 word"
type_synonym u64 = "64 word"

text \<open>
  Lengths and sizes (\<open>usize\<close>, 64 bits wide) are natural numbers. A subtraction on \<open>usize\<close> wraps
  around in a release build; the wrap-around is written out where the code subtracts.
\<close>

definition usize_sub :: "nat \<Rightarrow> nat \<Rightarrow> nat" where
  "usize_sub a b = (if b \<le> a then a - b else a + 2 ^ 64 - b)"

text \<open>The cast \<open>n as u16\<close> truncates.\<close>

definition as_u16 :: "nat \<Rightarrow> u16" where
  "as_u16 n = of_nat n"

definition as_u32 :: "nat \<Rightarrow> u32" where
  "as_u32 n = of_nat n"

section \<open>Outcomes\<close>

text \<open>
  \<open>anyhow::Error\<close> carries a message only; the constructors name the failure sites of the code.
  A failed \<open>assert!\<close>, an \<open>unwrap\<close> of \<open>None\<close> and an out-of-range slice are panics;
  \<open>Diverges\<close> is the outcome of a loop that never returns.
\<close>

datatype error =
    BufferTooShort
  | InvalidIpVersion u8
  | StringBufferTooShort
  | InvalidUtf8
  | InvalidDeletionStatus u8
  | UnknownDeltaOpTag u8
  | InvalidBlockType
  | BlockBufferTooShort
  | DecompressFailed
  | DuplicateNode
  | OpWithoutNode
  | VersionNotIncreasing
  | MessageTooSmall
  | InvalidMagicNumber
  | InvalidProtocolVersion
  | InvalidMessageType

datatype panic =
    AssertionFailed
  | SliceOutOfRange
  | UnwrapFailed
  | Diverges

datatype 'a result = Ok 'a | Err error | Panic panic

fun and_then :: "'a result \<Rightarrow> ('a \<Rightarrow> 'b result) \<Rightarrow> 'b result" where
  "and_then (Ok x) f = f x"
| "and_then (Err e) f = Err e"
| "and_then (Panic p) f = Panic p"

fun map_result :: "('a \<Rightarrow> 'b) \<Rightarrow> 'a result \<Rightarrow> 'b result" where
  "map_result f (Ok x) = Ok (f x)"
| "map_result f (Err e) = Err e"
| "map_result f (Panic p) = Panic p"

definition is_panic :: "'a result \<Rightarrow> bool" where
  "is_panic r = (case r of Panic _ \<Rightarrow> True | _ \<Rightarrow> False)"

lemma and_then_eq_Ok_iff: "and_then r f = Ok y \<longleftrightarrow> (\<exists>x. r = Ok x \<and> f x = Ok y)"
  by (cases r) auto

lemma and_then_assoc: "and_then (and_then r f) g = and_then r (\<lambda>x. and_then (f x) g)"
  by (cases r) auto

lemma is_panic_simps [simp]:
  "\<not> is_panic (Ok x)" "\<not> is_panic (Err e)" "is_panic (Panic p)"
  by (auto simp: is_panic_def)

lemma is_panic_and_then:
  "is_panic (and_then r f) \<longleftrightarrow> is_panic r \<or> (\<exists>x. r = Ok x \<and> is_panic (f x))"
  by (cases r) auto

section \<open>Little-endian bytes\<close>

text \<open>\<open>to_le_bytes\<close> and \<open>from_le_bytes\<close> of an \<open>n\<close>-byte integer, on its value.\<close>

fun le_bytes :: "nat \<Rightarrow> nat \<Rightarrow> u8 list" where
  "le_bytes 0 x = []"
| "le_bytes (Suc n) x = of_nat (x mod 256) # le_bytes n (x div 256)"

fun le_nat :: "u8 list \<Rightarrow> nat" where
  "le_nat [] = 0"
| "le_nat (b # bs) = unat b + 256 * le_nat bs"

lemma length_le_bytes [simp]: "length (le_bytes n x) = n"
  by (induction n arbitrary: x) auto

lemma le_bytes_inverse: "x < 256 ^ n \<Longrightarrow> le_nat (le_bytes n x) = x"
proof (induction n arbitrary: x)
  case 0
  then show ?case by simp
next
  case (Suc n)
  then have "x div 256 < 256 ^ n"
    by (simp add: less_mult_imp_div_less mult.commute)
  then have "le_nat (le_bytes n (x div 256)) = x div 256"
    by (rule Suc.IH)
  then show ?case
    by (simp add: unat_of_nat)
qed

lemma le_nat_bound: "le_nat bs < 256 ^ length bs"
proof (induction bs)
  case Nil
  then show ?case by simp
next
  case (Cons b bs)
  have "unat b < 256"
    using unsigned_less [of b] by simp
  then show ?case
    using Cons by simp
qed

lemma le_nat_inverse: "le_bytes (length bs) (le_nat bs) = bs"
proof (induction bs)
  case Nil
  then show ?case by simp
next
  case (Cons b bs)
  have "unat b < 256"
    using unsigned_less [of b] by simp
  then show ?case
    using Cons by simp
qed

section \<open>Ordered maps\<close>

text \<open>
  \<open>std::collections::BTreeMap\<close>: entries in strictly increasing order of their keys. The
  same representation is used for a \<open>HashMap\<close> whose iteration order nothing depends on.
\<close>

type_synonym ('k, 'v) btree = "('k \<times> 'v) list"

definition bt_get :: "('k, 'v) btree \<Rightarrow> 'k \<Rightarrow> 'v option" where
  "bt_get m k = map_of m k"

fun bt_insert :: "'k::linorder \<Rightarrow> 'v \<Rightarrow> ('k, 'v) btree \<Rightarrow> ('k, 'v) btree" where
  "bt_insert k v [] = [(k, v)]"
| "bt_insert k v ((k', v') # m) =
     (if k < k' then (k, v) # (k', v') # m
      else if k = k' then (k, v) # m
      else (k', v') # bt_insert k v m)"

definition bt_remove :: "'k \<Rightarrow> ('k, 'v) btree \<Rightarrow> ('k, 'v) btree" where
  "bt_remove k m = filter (\<lambda>kv. fst kv \<noteq> k) m"

definition bt_retain :: "('k \<Rightarrow> 'v \<Rightarrow> bool) \<Rightarrow> ('k, 'v) btree \<Rightarrow> ('k, 'v) btree" where
  "bt_retain P m = filter (\<lambda>kv. P (fst kv) (snd kv)) m"

definition bt_map_values :: "('v \<Rightarrow> 'w) \<Rightarrow> ('k, 'v) btree \<Rightarrow> ('k, 'w) btree" where
  "bt_map_values f m = map (\<lambda>kv. (fst kv, f (snd kv))) m"

definition bt_of_list :: "('k::linorder \<times> 'v) list \<Rightarrow> ('k, 'v) btree" where
  "bt_of_list kvs = fold (\<lambda>kv m. bt_insert (fst kv) (snd kv) m) kvs []"

definition bt_wf :: "('k::linorder, 'v) btree \<Rightarrow> bool" where
  "bt_wf m = sorted_wrt (<) (map fst m)"

text \<open>The interface the code relies on, and what follows from it alone.\<close>

locale ordered_map =
  fixes empty :: "'m"
    and get :: "'m \<Rightarrow> 'k::linorder \<Rightarrow> 'v option"
    and insert :: "'k \<Rightarrow> 'v \<Rightarrow> 'm \<Rightarrow> 'm"
    and remove :: "'k \<Rightarrow> 'm \<Rightarrow> 'm"
    and entries :: "'m \<Rightarrow> ('k \<times> 'v) list"
    and inv :: "'m \<Rightarrow> bool"
  assumes inv_empty: "inv empty"
    and inv_insert: "inv m \<Longrightarrow> inv (insert k v m)"
    and inv_remove: "inv m \<Longrightarrow> inv (remove k m)"
    and entries_sorted: "inv m \<Longrightarrow> sorted_wrt (<) (map fst (entries m))"
    and get_entries: "inv m \<Longrightarrow> get m k = map_of (entries m) k"
    and entries_empty: "entries empty = []"
    and get_insert: "inv m \<Longrightarrow> get (insert k v m) j = (if j = k then Some v else get m j)"
    and get_remove: "inv m \<Longrightarrow> get (remove k m) j = (if j = k then None else get m j)"
begin

lemma distinct_keys: "inv m \<Longrightarrow> distinct (map fst (entries m))"
  using entries_sorted strict_sorted_iff by blast

lemma get_iff: "inv m \<Longrightarrow> get m k = Some v \<longleftrightarrow> (k, v) \<in> set (entries m)"
  using distinct_keys get_entries by (simp add: map_of_eq_Some_iff)

lemma get_empty: "get empty k = None"
  using get_entries [OF inv_empty] entries_empty by simp

text \<open>An ordered map is determined by its lookups: two maps that agree iterate alike.\<close>

lemma entries_ext:
  assumes "inv m" "inv m'" and same: "\<And>k. get m k = get m' k"
  shows "entries m = entries m'"
proof -
  have "set (entries m) = set (entries m')"
  proof (rule set_eqI)
    fix kv
    show "kv \<in> set (entries m) \<longleftrightarrow> kv \<in> set (entries m')"
      using get_iff [OF assms(1)] get_iff [OF assms(2)] same by (cases kv) metis
  qed
  moreover have "sorted (map fst (entries m))" "sorted (map fst (entries m'))"
    using entries_sorted assms(1,2) strict_sorted_imp_sorted by blast+
  ultimately show ?thesis
    using distinct_keys [OF assms(1)] distinct_keys [OF assms(2)]
    by (metis distinct_map inj_on_Un map_sorted_distinct_set_unique sup.idem)
qed

lemma insert_remove_entries:
  "inv m \<Longrightarrow> entries (insert k v (remove k m)) = entries (insert k v m)"
  by (rule entries_ext) (simp_all add: inv_insert inv_remove get_insert get_remove)

end

lemma bt_wf_simps [simp]:
  "bt_wf []"
  "bt_wf ((k, v) # m) \<longleftrightarrow> (\<forall>k' \<in> fst ` set m. k < k') \<and> bt_wf m"
  by (auto simp: bt_wf_def)

lemma bt_get_simps [simp]:
  "bt_get [] k = None"
  "bt_get ((k', v) # m) k = (if k = k' then Some v else bt_get m k)"
  by (auto simp: bt_get_def)

lemma fst_set_bt_insert: "fst ` set (bt_insert k v m) = insert k (fst ` set m)"
  by (induction k v m rule: bt_insert.induct) (auto split: if_splits)

lemma bt_wf_insert: "bt_wf m \<Longrightarrow> bt_wf (bt_insert k v m)"
proof (induction m)
  case Nil
  then show ?case by simp
next
  case (Cons kv m)
  then show ?case
    by (cases kv) (auto simp: fst_set_bt_insert)
qed

lemma bt_get_insert: "bt_get (bt_insert k v m) j = (if j = k then Some v else bt_get m j)"
  by (induction m) auto

lemma bt_wf_filter: "bt_wf m \<Longrightarrow> bt_wf (filter P m)"
  by (induction m) auto

lemma bt_get_remove: "bt_get (bt_remove k m) j = (if j = k then None else bt_get m j)"
  by (induction m) (auto simp: bt_remove_def)

lemma bt_wf_remove: "bt_wf m \<Longrightarrow> bt_wf (bt_remove k m)"
  by (simp add: bt_remove_def bt_wf_filter)

lemma bt_get_iff: "bt_wf m \<Longrightarrow> bt_get m k = Some v \<longleftrightarrow> (k, v) \<in> set m"
  by (simp add: bt_get_def bt_wf_def map_of_eq_Some_iff strict_sorted_iff)

lemma bt_get_retain:
  "bt_wf m \<Longrightarrow>
   bt_get (bt_retain P m) k = (case bt_get m k of None \<Rightarrow> None | Some v \<Rightarrow> if P k v then Some v else None)"
proof (induction m)
  case Nil
  then show ?case by (simp add: bt_retain_def)
next
  case (Cons kv m)
  then show ?case
    by (cases kv) (force simp: bt_retain_def bt_get_iff bt_wf_filter split: option.splits)
qed

lemma bt_get_map_values: "bt_get (bt_map_values f m) k = map_option f (bt_get m k)"
  by (induction m) (auto simp: bt_map_values_def)

lemma bt_wf_map_values: "bt_wf m \<Longrightarrow> bt_wf (bt_map_values f m)"
  by (simp add: bt_wf_def bt_map_values_def comp_def)

lemma bt_insert_snoc: "\<forall>k' \<in> fst ` set m. k' < k \<Longrightarrow> bt_insert k v m = m @ [(k, v)]"
  by (induction m) (auto dest: less_asym)

lemma bt_wf_append:
  "bt_wf (m @ m') \<longleftrightarrow> bt_wf m \<and> bt_wf m' \<and> (\<forall>k \<in> fst ` set m. \<forall>k' \<in> fst ` set m'. k < k')"
  by (auto simp: bt_wf_def sorted_wrt_append)

lemma bt_wf_of_list: "bt_wf (bt_of_list kvs)"
proof -
  have "bt_wf m \<Longrightarrow> bt_wf (fold (\<lambda>kv m. bt_insert (fst kv) (snd kv) m) kvs m)" for m
    by (induction kvs arbitrary: m) (auto simp: bt_wf_insert)
  then show ?thesis
    by (simp add: bt_of_list_def)
qed

interpretation bt: ordered_map "[]" bt_get bt_insert bt_remove "\<lambda>m. m" bt_wf
  by unfold_locales
    (simp_all add: bt_wf_insert bt_get_insert bt_get_remove bt_get_def [symmetric],
      simp add: bt_remove_def bt_wf_filter, simp add: bt_wf_def)

end
