(* ===== verification/Types.thy ===== *)
theory Types
  imports Prelude
begin

text \<open>
  The data model of \<open>chitchat/src/types.rs\<close>: node identities, versioned values with their
  deletion status, key-value mutations and heartbeats, together with the standard library's
  socket addresses. Instants and durations are natural numbers of nanoseconds on the clock's
  time line; a function of the code that reads the clock takes the reading as an argument.
\<close>

type_synonym instant = nat
type_synonym duration = nat
type_synonym version = u64
type_synonym heartbeat = u64

section \<open>Addresses and node identities\<close>

datatype ip_addr = IpV4 u32 | IpV6 "128 word"

text \<open>A version 6 socket address carries a flow label and a scope besides address and port.\<close>

datatype socket_addr =
    SocketAddrV4 u32 u16
  | SocketAddrV6 "128 word" u16 u32 u32

fun socket_ip :: "socket_addr \<Rightarrow> ip_addr" where
  "socket_ip (SocketAddrV4 ip p) = IpV4 ip"
| "socket_ip (SocketAddrV6 ip p f s) = IpV6 ip"

fun socket_port :: "socket_addr \<Rightarrow> u16" where
  "socket_port (SocketAddrV4 ip p) = p"
| "socket_port (SocketAddrV6 ip p f s) = p"

text \<open>\<open>SocketAddr::new\<close> builds a version 6 address with flow label and scope zero.\<close>

fun socket_addr_new :: "ip_addr \<Rightarrow> u16 \<Rightarrow> socket_addr" where
  "socket_addr_new (IpV4 ip) p = SocketAddrV4 ip p"
| "socket_addr_new (IpV6 ip) p = SocketAddrV6 ip p 0 0"

text \<open>The derived order: version 4 before version 6, then field by field.\<close>

fun socket_addr_key :: "socket_addr \<Rightarrow> bool \<times> nat \<times> nat \<times> nat \<times> nat" where
  "socket_addr_key (SocketAddrV4 ip p) = (False, unat ip, unat p, 0, 0)"
| "socket_addr_key (SocketAddrV6 ip p f s) = (True, unat ip, unat p, unat f, unat s)"

lemma socket_addr_key_inject: "socket_addr_key a = socket_addr_key b \<Longrightarrow> a = b"
  by (cases a; cases b) (auto simp: word_unat_eq_iff)

instantiation socket_addr :: linorder
begin

definition less_eq_socket_addr :: "socket_addr \<Rightarrow> socket_addr \<Rightarrow> bool" where
  "less_eq_socket_addr a b = (socket_addr_key a \<le> socket_addr_key b)"

definition less_socket_addr :: "socket_addr \<Rightarrow> socket_addr \<Rightarrow> bool" where
  "less_socket_addr a b = (socket_addr_key a < socket_addr_key b)"

instance
proof
  fix a b c :: socket_addr
  show "(a < b) = (a \<le> b \<and> \<not> b \<le> a)"
    by (simp only: less_eq_socket_addr_def less_socket_addr_def less_le_not_le)
  show "a \<le> a"
    by (simp add: less_eq_socket_addr_def)
  show "a \<le> b \<Longrightarrow> b \<le> c \<Longrightarrow> a \<le> c"
    unfolding less_eq_socket_addr_def by (rule order_trans)
  show "a \<le> b \<Longrightarrow> b \<le> a \<Longrightarrow> a = b"
    unfolding less_eq_socket_addr_def by (rule socket_addr_key_inject) (rule antisym)
  show "a \<le> b \<or> b \<le> a"
    unfolding less_eq_socket_addr_def by (rule linear)
qed

end

datatype chitchat_id =
  ChitchatId (node_id: string) (generation_id: u64) (gossip_advertise_addr: socket_addr)

fun chitchat_id_key :: "chitchat_id \<Rightarrow> string \<times> nat \<times> socket_addr" where
  "chitchat_id_key (ChitchatId n g a) = (n, unat g, a)"

lemma chitchat_id_key_inject: "chitchat_id_key a = chitchat_id_key b \<Longrightarrow> a = b"
  by (cases a; cases b) (auto simp: word_unat_eq_iff)

instantiation chitchat_id :: linorder
begin

definition less_eq_chitchat_id :: "chitchat_id \<Rightarrow> chitchat_id \<Rightarrow> bool" where
  "less_eq_chitchat_id a b = (chitchat_id_key a \<le> chitchat_id_key b)"

definition less_chitchat_id :: "chitchat_id \<Rightarrow> chitchat_id \<Rightarrow> bool" where
  "less_chitchat_id a b = (chitchat_id_key a < chitchat_id_key b)"

instance
proof
  fix a b c :: chitchat_id
  show "(a < b) = (a \<le> b \<and> \<not> b \<le> a)"
    by (simp only: less_eq_chitchat_id_def less_chitchat_id_def less_le_not_le)
  show "a \<le> a"
    by (simp add: less_eq_chitchat_id_def)
  show "a \<le> b \<Longrightarrow> b \<le> c \<Longrightarrow> a \<le> c"
    unfolding less_eq_chitchat_id_def by (rule order_trans)
  show "a \<le> b \<Longrightarrow> b \<le> a \<Longrightarrow> a = b"
    unfolding less_eq_chitchat_id_def by (rule chitchat_id_key_inject) (rule antisym)
  show "a \<le> b \<or> b \<le> a"
    unfolding less_eq_chitchat_id_def by (rule linear)
qed

end

section \<open>Versioned values\<close>

datatype deletion_status =
    StatusSet
  | StatusDeleted instant
  | StatusDeleteAfterTtl instant

fun time_of_start_scheduled_for_deletion :: "deletion_status \<Rightarrow> instant option" where
  "time_of_start_scheduled_for_deletion StatusSet = None"
| "time_of_start_scheduled_for_deletion (StatusDeleted t) = Some t"
| "time_of_start_scheduled_for_deletion (StatusDeleteAfterTtl t) = Some t"

record versioned_value =
  vv_value :: string
  vv_version :: version
  vv_status :: deletion_status

definition versioned_value_new :: "string \<Rightarrow> version \<Rightarrow> bool \<Rightarrow> instant \<Rightarrow> versioned_value" where
  "versioned_value_new v ver is_tombstone now =
     \<lparr>vv_value = v, vv_version = ver,
      vv_status = (if is_tombstone then StatusDeleted now else StatusSet)\<rparr>"

definition is_deleted :: "versioned_value \<Rightarrow> bool" where
  "is_deleted vv = (case vv_status vv of
      StatusSet \<Rightarrow> False | StatusDeleted _ \<Rightarrow> True | StatusDeleteAfterTtl _ \<Rightarrow> False)"

section \<open>Mutations\<close>

datatype deletion_status_mutation = MutSet | MutDelete | MutDeleteAfterTtl

fun into_status :: "deletion_status_mutation \<Rightarrow> instant \<Rightarrow> deletion_status" where
  "into_status MutSet now = StatusSet"
| "into_status MutDeleteAfterTtl now = StatusDeleteAfterTtl now"
| "into_status MutDelete now = StatusDeleted now"

fun scheduled_for_deletion :: "deletion_status_mutation \<Rightarrow> bool" where
  "scheduled_for_deletion MutSet = False"
| "scheduled_for_deletion MutDelete = True"
| "scheduled_for_deletion MutDeleteAfterTtl = True"

fun mutation_of_status :: "deletion_status \<Rightarrow> deletion_status_mutation" where
  "mutation_of_status StatusSet = MutSet"
| "mutation_of_status (StatusDeleteAfterTtl _) = MutDeleteAfterTtl"
| "mutation_of_status (StatusDeleted _) = MutDelete"

fun mutation_try_from :: "u8 \<Rightarrow> deletion_status_mutation option" where
  "mutation_try_from code =
     (if code = 0 then Some MutSet
      else if code = 1 then Some MutDelete
      else if code = 2 then Some MutDeleteAfterTtl
      else None)"

fun mutation_to_u8 :: "deletion_status_mutation \<Rightarrow> u8" where
  "mutation_to_u8 MutSet = 0"
| "mutation_to_u8 MutDelete = 1"
| "mutation_to_u8 MutDeleteAfterTtl = 2"

record key_value_mutation =
  kvm_key :: string
  kvm_value :: string
  kvm_version :: version
  kvm_status :: deletion_status_mutation

text \<open>The form in which a versioned value is exported by \<open>serde\<close>: without its instant.\<close>

record versioned_value_for_serialization =
  vvs_value :: string
  vvs_version :: version
  vvs_status :: deletion_status_mutation

definition versioned_value_from_serialization ::
  "versioned_value_for_serialization \<Rightarrow> instant \<Rightarrow> versioned_value" where
  "versioned_value_from_serialization v now =
     \<lparr>vv_value = vvs_value v, vv_version = vvs_version v,
      vv_status = into_status (vvs_status v) now\<rparr>"

definition versioned_value_to_serialization ::
  "versioned_value \<Rightarrow> versioned_value_for_serialization" where
  "versioned_value_to_serialization v =
     \<lparr>vvs_value = vv_value v, vvs_version = vv_version v,
      vvs_status = mutation_of_status (vv_status v)\<rparr>"

definition heartbeat_inc :: "heartbeat \<Rightarrow> heartbeat" where
  "heartbeat_inc h = h + 1"

section \<open>Facts\<close>

lemma mutation_of_into_status [simp]: "mutation_of_status (into_status m now) = m"
  by (cases m) auto

lemma scheduled_iff_time:
  "scheduled_for_deletion (mutation_of_status s) \<longleftrightarrow> time_of_start_scheduled_for_deletion s \<noteq> None"
  by (cases s) auto

lemma mutation_code_roundtrip: "mutation_try_from (mutation_to_u8 m) = Some m"
  by (cases m) auto

lemma is_deleted_iff: "is_deleted vv \<longleftrightarrow> mutation_of_status (vv_status vv) = MutDelete"
  by (auto simp: is_deleted_def split: deletion_status.splits)

text \<open>Exporting and importing a value keeps everything but the start of its grace period.\<close>

lemma versioned_value_serialization_roundtrip:
  "versioned_value_to_serialization (versioned_value_from_serialization v now) = v"
  by (simp add: versioned_value_to_serialization_def versioned_value_from_serialization_def)

end
