(* ===== verification/Serialize.thy ===== *)
theory Serialize
  imports Types
begin

text \<open>
  The binary format of \<open>chitchat/src/serialize.rs\<close> for integers, addresses, strings and node
  identities. A serializer returns the bytes it appends to the output buffer; a deserializer
  takes the cursor and returns the item with the advanced cursor. The traits \<open>Serializable\<close> and
  \<open>Deserializable\<close> are the locales \<open>codec\<close> (the length announced is the length written, and
  reading back what was written returns it and stops right after it) and \<open>parser\<close> (reading
  never panics and consumes a non-empty prefix); every format is an interpretation of both.
\<close>

section \<open>The traits\<close>

locale codec =
  fixes ser :: "'a \<Rightarrow> u8 list"
    and de :: "u8 list \<Rightarrow> ('a \<times> u8 list) result"
    and slen :: "'a \<Rightarrow> nat"
    and valid :: "'a \<Rightarrow> bool"
  assumes ser_len: "valid x \<Longrightarrow> length (ser x) = slen x"
    and de_ser: "valid x \<Longrightarrow> de (ser x @ rest) = Ok (x, rest)"
begin

lemma de_ser_nil: "valid x \<Longrightarrow> de (ser x) = Ok (x, [])"
  using de_ser [of x "[]"] by simp

text \<open>The format is prefix free: a stream of items can be cut in one way only.\<close>

lemma prefix_free:
  assumes "valid x" "valid y" and eq: "ser x @ r = ser y @ s"
  shows "x = y \<and> r = s"
proof -
  have "Ok (x, r) = de (ser y @ s)"
    using de_ser [OF assms(1), of r] eq by simp
  then show ?thesis
    using de_ser [OF assms(2), of s] by simp
qed

end

locale weak_parser =
  fixes de :: "u8 list \<Rightarrow> ('a \<times> u8 list) result"
  assumes no_panic: "\<not> is_panic (de buf)"
    and consumes: "de buf = Ok (x, rest) \<Longrightarrow> \<exists>pre. buf = pre @ rest"

locale parser = weak_parser +
  assumes progress: "de buf = Ok (x, rest) \<Longrightarrow> length rest < length buf"
begin

lemma empty_fails: "de [] \<noteq> Ok (x, rest)"
  using progress by fastforce

end

section \<open>Fixed-size arrays and integers\<close>

definition bytes_deserialize :: "nat \<Rightarrow> u8 list \<Rightarrow> (u8 list \<times> u8 list) result" where
  "bytes_deserialize n buf =
     (if length buf < n then Err BufferTooShort else Ok (take n buf, drop n buf))"

definition u8_serialize :: "u8 \<Rightarrow> u8 list" where
  "u8_serialize x = [x]"

definition u8_deserialize :: "u8 list \<Rightarrow> (u8 \<times> u8 list) result" where
  "u8_deserialize buf = and_then (bytes_deserialize 1 buf) (\<lambda>(bs, rest). Ok (hd bs, rest))"

definition u16_serialize :: "u16 \<Rightarrow> u8 list" where
  "u16_serialize x = le_bytes 2 (unat x)"

definition u16_deserialize :: "u8 list \<Rightarrow> (u16 \<times> u8 list) result" where
  "u16_deserialize buf =
     and_then (bytes_deserialize 2 buf) (\<lambda>(bs, rest). Ok (of_nat (le_nat bs), rest))"

definition u32_serialize :: "u32 \<Rightarrow> u8 list" where
  "u32_serialize x = le_bytes 4 (unat x)"

definition u32_deserialize :: "u8 list \<Rightarrow> (u32 \<times> u8 list) result" where
  "u32_deserialize buf =
     and_then (bytes_deserialize 4 buf) (\<lambda>(bs, rest). Ok (of_nat (le_nat bs), rest))"

definition u64_serialize :: "u64 \<Rightarrow> u8 list" where
  "u64_serialize x = le_bytes 8 (unat x)"

definition u64_deserialize :: "u8 list \<Rightarrow> (u64 \<times> u8 list) result" where
  "u64_deserialize buf =
     and_then (bytes_deserialize 8 buf) (\<lambda>(bs, rest). Ok (of_nat (le_nat bs), rest))"

definition bool_serialize :: "bool \<Rightarrow> u8 list" where
  "bool_serialize b = [if b then 1 else 0]"

definition bool_deserialize :: "u8 list \<Rightarrow> (bool \<times> u8 list) result" where
  "bool_deserialize buf = and_then (bytes_deserialize 1 buf) (\<lambda>(bs, rest). Ok (hd bs \<noteq> 0, rest))"

definition u8_serialized_len :: "u8 \<Rightarrow> nat" where "u8_serialized_len x = 1"

definition u16_serialized_len :: "u16 \<Rightarrow> nat" where "u16_serialized_len x = 2"

definition u32_serialized_len :: "u32 \<Rightarrow> nat" where "u32_serialized_len x = 4"

definition u64_serialized_len :: "u64 \<Rightarrow> nat" where "u64_serialized_len x = 8"

definition bool_serialized_len :: "bool \<Rightarrow> nat" where "bool_serialized_len x = 1"

section \<open>Addresses\<close>

datatype ip_version = IpVersionV4 | IpVersionV6

fun ip_version_try_from :: "u8 \<Rightarrow> ip_version result" where
  "ip_version_try_from b =
     (if b = 4 then Ok IpVersionV4 else if b = 6 then Ok IpVersionV6 else Err (InvalidIpVersion b))"

text \<open>\<open>octets()\<close> lists an address most significant byte first.\<close>

fun ip_addr_serialize :: "ip_addr \<Rightarrow> u8 list" where
  "ip_addr_serialize (IpV4 ip) = 4 # rev (le_bytes 4 (unat ip))"
| "ip_addr_serialize (IpV6 ip) = 6 # rev (le_bytes 16 (unat ip))"

fun ip_addr_serialized_len :: "ip_addr \<Rightarrow> nat" where
  "ip_addr_serialized_len (IpV4 ip) = 1 + 4"
| "ip_addr_serialized_len (IpV6 ip) = 1 + 16"

definition ip_addr_deserialize :: "u8 list \<Rightarrow> (ip_addr \<times> u8 list) result" where
  "ip_addr_deserialize buf =
     and_then (bytes_deserialize 1 buf) (\<lambda>(vb, buf).
     and_then (ip_version_try_from (hd vb)) (\<lambda>ver.
     case ver of
       IpVersionV4 \<Rightarrow>
         and_then (bytes_deserialize 4 buf) (\<lambda>(bs, buf). Ok (IpV4 (of_nat (le_nat (rev bs))), buf))
     | IpVersionV6 \<Rightarrow>
         and_then (bytes_deserialize 16 buf) (\<lambda>(bs, buf). Ok (IpV6 (of_nat (le_nat (rev bs))), buf))))"

definition socket_addr_serialize :: "socket_addr \<Rightarrow> u8 list" where
  "socket_addr_serialize a = ip_addr_serialize (socket_ip a) @ u16_serialize (socket_port a)"

definition socket_addr_serialized_len :: "socket_addr \<Rightarrow> nat" where
  "socket_addr_serialized_len a =
     ip_addr_serialized_len (socket_ip a) + u16_serialized_len (socket_port a)"

definition socket_addr_deserialize :: "u8 list \<Rightarrow> (socket_addr \<times> u8 list) result" where
  "socket_addr_deserialize buf =
     and_then (ip_addr_deserialize buf) (\<lambda>(ip, buf).
     and_then (u16_deserialize buf) (\<lambda>(port, buf).
     Ok (socket_addr_new ip port, buf)))"

section \<open>Strings\<close>

text \<open>
  A Rust string is its UTF-8 encoding: a list of bytes, written as characters of eight bits.
  \<open>from_utf8\<close> accepts exactly the well-formed byte sequences of the Unicode standard.
\<close>

definition as_bytes :: "string \<Rightarrow> u8 list" where
  "as_bytes s = map (\<lambda>c. of_nat (of_char c)) s"

definition string_of_bytes :: "u8 list \<Rightarrow> string" where
  "string_of_bytes bs = map (\<lambda>b. char_of (unat b)) bs"

definition utf8_cont :: "u8 \<Rightarrow> bool" where
  "utf8_cont b = (0x80 \<le> b \<and> b \<le> 0xBF)"

fun utf8_valid :: "u8 list \<Rightarrow> bool" where
  "utf8_valid [] = True"
| "utf8_valid (b # bs) =
     (if b < 0x80 then utf8_valid bs
      else if 0xC2 \<le> b \<and> b \<le> 0xDF then
        (case bs of c1 # r \<Rightarrow> utf8_cont c1 \<and> utf8_valid r | _ \<Rightarrow> False)
      else if 0xE0 \<le> b \<and> b \<le> 0xEF then
        (case bs of
           c1 # c2 # r \<Rightarrow>
             (if b = 0xE0 then 0xA0 \<le> c1 \<and> c1 \<le> 0xBF
              else if b = 0xED then 0x80 \<le> c1 \<and> c1 \<le> 0x9F
              else utf8_cont c1)
             \<and> utf8_cont c2 \<and> utf8_valid r
         | _ \<Rightarrow> False)
      else if 0xF0 \<le> b \<and> b \<le> 0xF4 then
        (case bs of
           c1 # c2 # c3 # r \<Rightarrow>
             (if b = 0xF0 then 0x90 \<le> c1 \<and> c1 \<le> 0xBF
              else if b = 0xF4 then 0x80 \<le> c1 \<and> c1 \<le> 0x8F
              else utf8_cont c1)
             \<and> utf8_cont c2 \<and> utf8_cont c3 \<and> utf8_valid r
         | _ \<Rightarrow> False)
      else False)"

definition str_serialize :: "string \<Rightarrow> u8 list" where
  "str_serialize s = u16_serialize (as_u16 (length (as_bytes s))) @ as_bytes s"

definition str_serialized_len :: "string \<Rightarrow> nat" where
  "str_serialized_len s = 2 + length (as_bytes s)"

definition string_deserialize :: "u8 list \<Rightarrow> (string \<times> u8 list) result" where
  "string_deserialize buf =
     and_then (u16_deserialize buf) (\<lambda>(len16, buf).
     let len = unat len16 in
     if length buf < len then Err StringBufferTooShort
     else if \<not> utf8_valid (take len buf) then Err InvalidUtf8
     else Ok (string_of_bytes (take len buf), drop len buf))"

text \<open>
  What a string must satisfy to survive the format: it is UTF-8, as every Rust string is, and
  its length fits the 16-bit length field, which the serializer does not check.
\<close>

definition str_valid :: "string \<Rightarrow> bool" where
  "str_valid s = (utf8_valid (as_bytes s) \<and> length s < 2 ^ 16)"

section \<open>Node identities and heartbeats\<close>

definition chitchat_id_serialize :: "chitchat_id \<Rightarrow> u8 list" where
  "chitchat_id_serialize c =
     str_serialize (node_id c) @ u64_serialize (generation_id c)
     @ socket_addr_serialize (gossip_advertise_addr c)"

definition chitchat_id_serialized_len :: "chitchat_id \<Rightarrow> nat" where
  "chitchat_id_serialized_len c =
     str_serialized_len (node_id c) + u64_serialized_len (generation_id c)
     + socket_addr_serialized_len (gossip_advertise_addr c)"

definition chitchat_id_deserialize :: "u8 list \<Rightarrow> (chitchat_id \<times> u8 list) result" where
  "chitchat_id_deserialize buf =
     and_then (string_deserialize buf) (\<lambda>(nid, buf).
     and_then (u64_deserialize buf) (\<lambda>(gen, buf).
     and_then (socket_addr_deserialize buf) (\<lambda>(addr, buf).
     Ok (ChitchatId nid gen addr, buf))))"

definition heartbeat_serialize :: "heartbeat \<Rightarrow> u8 list" where
  "heartbeat_serialize h = u64_serialize h"

definition heartbeat_serialized_len :: "heartbeat \<Rightarrow> nat" where
  "heartbeat_serialized_len h = u64_serialized_len h"

definition heartbeat_deserialize :: "u8 list \<Rightarrow> (heartbeat \<times> u8 list) result" where
  "heartbeat_deserialize buf = and_then (u64_deserialize buf) (\<lambda>(h, buf). Ok (h, buf))"

definition socket_addr_valid :: "socket_addr \<Rightarrow> bool" where
  "socket_addr_valid a = (case a of
      SocketAddrV4 _ _ \<Rightarrow> True | SocketAddrV6 _ _ f s \<Rightarrow> f = 0 \<and> s = 0)"

definition chitchat_id_valid :: "chitchat_id \<Rightarrow> bool" where
  "chitchat_id_valid c =
     (str_valid (node_id c) \<and> socket_addr_valid (gossip_advertise_addr c))"

section \<open>The formats obey the traits\<close>

named_theorems serde_simps

lemma bytes_deserialize_append [serde_simps]:
  "length bs = n \<Longrightarrow> bytes_deserialize n (bs @ rest) = Ok (bs, rest)"
  by (simp add: bytes_deserialize_def)

lemma bytes_deserialize_OkD:
  "bytes_deserialize n buf = Ok (bs, rest) \<Longrightarrow> buf = bs @ rest \<and> length bs = n"
  by (auto simp: bytes_deserialize_def split: if_splits)

lemma bytes_deserialize_no_panic [simp]: "\<not> is_panic (bytes_deserialize n buf)"
  by (simp add: bytes_deserialize_def)

lemma as_bytes_length [simp]: "length (as_bytes s) = length s"
  by (simp add: as_bytes_def)

lemma string_of_as_bytes [simp]: "string_of_bytes (as_bytes s) = s"
proof -
  have "char_of (unat (of_nat (of_char c) :: u8)) = c" for c
  proof -
    have "of_char c < (256 :: nat)" by simp
    then show ?thesis by (simp add: unat_of_nat)
  qed
  then show ?thesis
    by (simp add: string_of_bytes_def as_bytes_def comp_def)
qed

lemma u8_u16_u32_u64_len [simp]:
  "length (u8_serialize a) = 1" "length (u16_serialize b) = 2" "length (u32_serialize c) = 4"
  "length (u64_serialize d) = 8" "length (bool_serialize e) = 1"
  by (simp_all add: u8_serialize_def u16_serialize_def u32_serialize_def u64_serialize_def
      bool_serialize_def)

lemmas serialized_len_defs [simp] =
  u8_serialized_len_def u16_serialized_len_def u32_serialized_len_def u64_serialized_len_def
  bool_serialized_len_def

lemma le_word_roundtrip:
  fixes x :: "'a::len word"
  assumes "LENGTH('a) = 8 * n"
  shows "of_nat (le_nat (le_bytes n (unat x))) = x"
proof -
  have "unat x < 2 ^ LENGTH('a)" by (rule unsigned_less)
  also have "(2::nat) ^ LENGTH('a) = 256 ^ n"
    by (simp add: assms power_mult)
  finally show ?thesis
    by (simp add: le_bytes_inverse)
qed

interpretation u8_codec: codec u8_serialize u8_deserialize u8_serialized_len "\<lambda>_. True"
  by unfold_locales
    (simp_all add: u8_serialize_def u8_deserialize_def u8_serialized_len_def bytes_deserialize_def)

interpretation u16_codec: codec u16_serialize u16_deserialize u16_serialized_len "\<lambda>_. True"
  by unfold_locales
    (simp_all add: u16_serialize_def u16_deserialize_def u16_serialized_len_def serde_simps
      le_word_roundtrip)

interpretation u32_codec: codec u32_serialize u32_deserialize u32_serialized_len "\<lambda>_. True"
  by unfold_locales
    (simp_all add: u32_serialize_def u32_deserialize_def u32_serialized_len_def serde_simps
      le_word_roundtrip)

interpretation u64_codec: codec u64_serialize u64_deserialize u64_serialized_len "\<lambda>_. True"
  by unfold_locales
    (simp_all add: u64_serialize_def u64_deserialize_def u64_serialized_len_def serde_simps
      le_word_roundtrip)

interpretation bool_codec: codec bool_serialize bool_deserialize bool_serialized_len "\<lambda>_. True"
  by unfold_locales
    (simp_all add: bool_serialize_def bool_deserialize_def bool_serialized_len_def
      bytes_deserialize_def)

interpretation ip_addr_codec:
  codec ip_addr_serialize ip_addr_deserialize ip_addr_serialized_len "\<lambda>_. True"
proof
  fix x :: ip_addr and rest
  show "length (ip_addr_serialize x) = ip_addr_serialized_len x"
    by (cases x) simp_all
  show "ip_addr_deserialize (ip_addr_serialize x @ rest) = Ok (x, rest)"
    by (cases x) (simp_all add: ip_addr_deserialize_def bytes_deserialize_def le_word_roundtrip)
qed

interpretation socket_addr_codec:
  codec socket_addr_serialize socket_addr_deserialize socket_addr_serialized_len socket_addr_valid
proof
  fix x :: socket_addr and rest
  assume v: "socket_addr_valid x"
  show "length (socket_addr_serialize x) = socket_addr_serialized_len x"
    by (simp add: socket_addr_serialize_def socket_addr_serialized_len_def ip_addr_codec.ser_len
        u16_codec.ser_len)
  show "socket_addr_deserialize (socket_addr_serialize x @ rest) = Ok (x, rest)"
    using v
    by (cases x) (simp_all add: socket_addr_deserialize_def socket_addr_serialize_def
        ip_addr_codec.de_ser u16_codec.de_ser socket_addr_valid_def
        del: ip_addr_serialize.simps)
qed

interpretation string_codec: codec str_serialize string_deserialize str_serialized_len str_valid
proof
  fix x :: string and rest
  assume v: "str_valid x"
  show "length (str_serialize x) = str_serialized_len x"
    by (simp add: str_serialize_def str_serialized_len_def)
  from v have "unat (as_u16 (length x)) = length x"
    by (simp add: str_valid_def as_u16_def unat_of_nat)
  with v show "string_deserialize (str_serialize x @ rest) = Ok (x, rest)"
    by (simp add: string_deserialize_def str_serialize_def u16_codec.de_ser str_valid_def)
qed

interpretation chitchat_id_codec:
  codec chitchat_id_serialize chitchat_id_deserialize chitchat_id_serialized_len chitchat_id_valid
  by unfold_locales
    (simp_all add: chitchat_id_serialize_def chitchat_id_deserialize_def chitchat_id_valid_def
      chitchat_id_serialized_len_def string_codec.ser_len u64_codec.ser_len
      socket_addr_codec.ser_len string_codec.de_ser u64_codec.de_ser socket_addr_codec.de_ser)

interpretation heartbeat_codec:
  codec heartbeat_serialize heartbeat_deserialize heartbeat_serialized_len "\<lambda>_. True"
  by unfold_locales
    (simp_all add: heartbeat_serialize_def heartbeat_deserialize_def heartbeat_serialized_len_def
      u64_codec.ser_len u64_codec.de_ser)

section \<open>Reading never panics\<close>

text \<open>
  The parsers are compositions of \<open>bytes_deserialize\<close>; the rules below follow the composition,
  so that each format is a parser by its definition.
\<close>

named_theorems parser_intros

lemma parser_weak: "parser p \<Longrightarrow> weak_parser p"
  by (rule parser.axioms)

lemma weak_parser_return [parser_intros]: "weak_parser (\<lambda>buf. Ok (x, buf))"
  by unfold_locales auto

lemma weak_parser_err [parser_intros]: "weak_parser (\<lambda>buf. Err e)"
  by unfold_locales auto

lemma weak_parser_bind [parser_intros]:
  assumes p: "weak_parser p" and f: "\<And>x. weak_parser (f x)"
  shows "weak_parser (\<lambda>buf. and_then (p buf) (\<lambda>(x, buf). f x buf))"
proof
  fix buf
  show "\<not> is_panic (and_then (p buf) (\<lambda>(x, buf). f x buf))"
    using weak_parser.no_panic [OF p] weak_parser.no_panic [OF f]
    by (auto simp: is_panic_and_then)
  fix y rest
  assume "and_then (p buf) (\<lambda>(x, buf). f x buf) = Ok (y, rest)"
  then obtain x mid where x: "p buf = Ok (x, mid)" and y: "f x mid = Ok (y, rest)"
    by (auto simp: and_then_eq_Ok_iff)
  show "\<exists>pre. buf = pre @ rest"
    using weak_parser.consumes [OF p x] weak_parser.consumes [OF f y] by auto
qed

lemma weak_parser_pure [parser_intros]:
  assumes "\<not> is_panic r" and f: "\<And>x. weak_parser (f x)"
  shows "weak_parser (\<lambda>buf. and_then r (\<lambda>x. f x buf))"
  using assms(1) f by (cases r) (auto intro: weak_parser_err)

lemma parser_bind [parser_intros]:
  assumes p: "parser p" and f: "\<And>x. weak_parser (f x)"
  shows "parser (\<lambda>buf. and_then (p buf) (\<lambda>(x, buf). f x buf))"
proof (rule parser.intro)
  show "weak_parser (\<lambda>buf. and_then (p buf) (\<lambda>(x, buf). f x buf))"
    by (rule weak_parser_bind [OF parser_weak [OF p] f])
  show "parser_axioms (\<lambda>buf. and_then (p buf) (\<lambda>(x, buf). f x buf))"
  proof
    fix buf y rest
    assume "and_then (p buf) (\<lambda>(x, buf). f x buf) = Ok (y, rest)"
    then obtain x mid where x: "p buf = Ok (x, mid)" and y: "f x mid = Ok (y, rest)"
      by (auto simp: and_then_eq_Ok_iff)
    show "length rest < length buf"
      using parser.progress [OF p x] weak_parser.consumes [OF f y] by auto
  qed
qed

lemma parser_bytes [parser_intros]: "0 < n \<Longrightarrow> parser (bytes_deserialize n)"
  by unfold_locales (auto dest!: bytes_deserialize_OkD)

interpretation u8_parser: parser u8_deserialize
  unfolding u8_deserialize_def [abs_def] by (intro parser_intros) simp

interpretation u16_parser: parser u16_deserialize
  unfolding u16_deserialize_def [abs_def] by (intro parser_intros) simp

interpretation u32_parser: parser u32_deserialize
  unfolding u32_deserialize_def [abs_def] by (intro parser_intros) simp

interpretation u64_parser: parser u64_deserialize
  unfolding u64_deserialize_def [abs_def] by (intro parser_intros) simp

interpretation bool_parser: parser bool_deserialize
  unfolding bool_deserialize_def [abs_def] by (intro parser_intros) simp

interpretation heartbeat_parser: parser heartbeat_deserialize
  unfolding heartbeat_deserialize_def [abs_def]
  by (intro parser_intros u64_parser.parser_axioms)

interpretation ip_addr_parser: parser ip_addr_deserialize
proof -
  have "weak_parser (\<lambda>buf. case ver of
      IpVersionV4 \<Rightarrow>
        and_then (bytes_deserialize 4 buf) (\<lambda>(bs, buf). Ok (IpV4 (of_nat (le_nat (rev bs))), buf))
    | IpVersionV6 \<Rightarrow>
        and_then (bytes_deserialize 16 buf)
          (\<lambda>(bs, buf). Ok (IpV6 (of_nat (le_nat (rev bs))), buf)))" for ver
    by (cases ver) (auto intro!: parser_intros parser_weak)
  then show "parser ip_addr_deserialize"
    unfolding ip_addr_deserialize_def [abs_def] by (intro parser_intros) auto
qed

interpretation socket_addr_parser: parser socket_addr_deserialize
  unfolding socket_addr_deserialize_def [abs_def]
  by (intro parser_intros parser_weak ip_addr_parser.parser_axioms u16_parser.parser_axioms)

interpretation string_parser: parser string_deserialize
proof -
  have "weak_parser (\<lambda>buf. let len = unat len16 in
      if length buf < len then Err StringBufferTooShort
      else if \<not> utf8_valid (take len buf) then Err InvalidUtf8
      else Ok (string_of_bytes (take len buf), drop len buf))" for len16 :: u16
    by unfold_locales (auto simp: Let_def split: if_splits intro: append_take_drop_id [symmetric])
  then show "parser string_deserialize"
    unfolding string_deserialize_def [abs_def]
    by (intro parser_intros u16_parser.parser_axioms)
qed

interpretation chitchat_id_parser: parser chitchat_id_deserialize
  unfolding chitchat_id_deserialize_def [abs_def]
  by (intro parser_intros parser_weak string_parser.parser_axioms u64_parser.parser_axioms
      socket_addr_parser.parser_axioms)

end
