(* ===== verification/Compressed_Stream.thy ===== *)
theory Compressed_Stream
  imports Serialize
begin

text \<open>
  The block-compressed stream of \<open>chitchat/src/serialize.rs\<close> (\<open>CompressedStreamWriter\<close>,
  \<open>deserialize_stream\<close>, \<open>BlockType\<close>). The \<open>zstd\<close> library is a parameter, a record of the four
  functions the code calls; \<open>zstd_ok\<close> states what its documentation promises: a compressed
  block fits the buffer it was given, and decompression inverts compression.
\<close>

section \<open>The compression library\<close>

record zstd =
  bulk_compress :: "u8 list \<Rightarrow> nat \<Rightarrow> u8 list option"
  bulk_decompress :: "u8 list \<Rightarrow> nat \<Rightarrow> u8 list option"
  encode_all :: "u8 list \<Rightarrow> u8 list option"
  decode_all :: "u8 list \<Rightarrow> u8 list option"

definition zstd_ok :: "zstd \<Rightarrow> bool" where
  "zstd_ok z \<longleftrightarrow>
     (\<forall>src cap out. bulk_compress z src cap = Some out \<longrightarrow>
        length out \<le> cap \<and> (\<forall>dcap \<ge> length src. bulk_decompress z out dcap = Some src)) \<and>
     (\<forall>src. \<exists>out. encode_all z src = Some out \<and> decode_all z out = Some src)"

section \<open>Blocks\<close>

datatype block_type = NoMoreBlocks | Compressed | Uncompressed

fun block_type_code :: "block_type \<Rightarrow> u8" where
  "block_type_code NoMoreBlocks = 0"
| "block_type_code Compressed = 1"
| "block_type_code Uncompressed = 2"

definition block_type_serialize :: "block_type \<Rightarrow> u8 list" where
  "block_type_serialize t = u8_serialize (block_type_code t)"

definition block_type_deserialize :: "u8 list \<Rightarrow> (block_type \<times> u8 list) result" where
  "block_type_deserialize buf =
     and_then (u8_deserialize buf) (\<lambda>(b, buf).
     if b = 0 then Ok (NoMoreBlocks, buf)
     else if b = 1 then Ok (Compressed, buf)
     else if b = 2 then Ok (Uncompressed, buf)
     else Err InvalidBlockType)"

section \<open>The writer\<close>

text \<open>
  The scratch buffer \<open>compressed_block\<close> of the code is overwritten by every flush before it is
  read; it carries no state from one call to the next and has no field here.
\<close>

record compressed_stream_writer =
  csw_output :: "u8 list"
  csw_uncompressed_block :: "u8 list"
  csw_block_threshold :: nat

definition with_block_threshold :: "u16 \<Rightarrow> compressed_stream_writer" where
  "with_block_threshold t =
     \<lparr>csw_output = [], csw_uncompressed_block = [], csw_block_threshold = unat t\<rparr>"

definition serialized_len_upperbound_after ::
  "compressed_stream_writer \<Rightarrow> nat \<Rightarrow> nat result" where
  "serialized_len_upperbound_after w item_len =
     (if \<not> 0 < item_len then Panic AssertionFailed
      else let new_block_needed =
             length (csw_uncompressed_block w) + item_len > csw_block_threshold w
           in Ok (if new_block_needed
                  then 3 + length (csw_output w) + length (csw_uncompressed_block w)
                       + 3 + item_len + 1
                  else 3 + length (csw_output w) + length (csw_uncompressed_block w)
                       + item_len + 1))"

definition flush_block ::
  "zstd \<Rightarrow> compressed_stream_writer \<Rightarrow> compressed_stream_writer result" where
  "flush_block z w =
     (if csw_uncompressed_block w = [] then Ok w
      else
        let n = min (length (csw_uncompressed_block w)) (csw_block_threshold w);
            src = take n (csw_uncompressed_block w);
            w' = w\<lparr>csw_uncompressed_block := drop n (csw_uncompressed_block w)\<rparr>
        in case bulk_compress z src n of
             Some out \<Rightarrow>
               (if length out > 65535 then Panic UnwrapFailed
                else Ok (w'\<lparr>csw_output := csw_output w @ block_type_serialize Compressed
                               @ u16_serialize (as_u16 (length out)) @ out\<rparr>))
           | None \<Rightarrow>
               (if n > 65535 then Panic UnwrapFailed
                else Ok (w'\<lparr>csw_output := csw_output w @ block_type_serialize Uncompressed
                               @ u16_serialize (as_u16 n) @ src\<rparr>)))"

lemma flush_block_uncompressed:
  "flush_block z w = Ok w' \<Longrightarrow>
   csw_uncompressed_block w' =
     drop (min (length (csw_uncompressed_block w)) (csw_block_threshold w)) (csw_uncompressed_block w)
   \<and> csw_block_threshold w' = csw_block_threshold w"
  by (auto simp: flush_block_def Let_def split: if_splits option.splits)

text \<open>
  The loop of \<open>append\<close>. With a threshold of zero a flush removes nothing and the loop does not
  return; \<open>Diverges\<close> is that outcome.
\<close>

function flush_loop ::
  "zstd \<Rightarrow> compressed_stream_writer \<Rightarrow> compressed_stream_writer result" where
  "flush_loop z w =
     (if length (csw_uncompressed_block w) > csw_block_threshold w then
        (if csw_block_threshold w = 0 then Panic Diverges
         else case flush_block z w of
                Ok w' \<Rightarrow> flush_loop z w' | Err e \<Rightarrow> Err e | Panic p \<Rightarrow> Panic p)
      else Ok w)"
  by pat_completeness auto
termination
  by (relation "measure (\<lambda>(z, w). length (csw_uncompressed_block w))")
    (auto dest: flush_block_uncompressed)

declare flush_loop.simps [simp del]

lemma flush_loop_threshold:
  "flush_loop z w = Ok w' \<Longrightarrow> csw_block_threshold w' = csw_block_threshold w"
proof (induction z w rule: flush_loop.induct)
  case (1 z w)
  then show ?case
    by (auto simp: flush_loop.simps [of z w] dest: flush_block_uncompressed
        split: if_splits result.splits)
qed

definition csw_append ::
  "zstd \<Rightarrow> u8 list \<Rightarrow> nat \<Rightarrow> compressed_stream_writer \<Rightarrow> compressed_stream_writer result" where
  "csw_append z item_bytes item_len w =
     (if item_len > 65535 then Panic AssertionFailed
      else flush_loop z
             (w\<lparr>csw_uncompressed_block := csw_uncompressed_block w @ item_bytes\<rparr>))"

definition csw_finish :: "zstd \<Rightarrow> compressed_stream_writer \<Rightarrow> u8 list result" where
  "csw_finish z w =
     and_then (flush_block z w) (\<lambda>w. Ok (csw_output w @ block_type_serialize NoMoreBlocks))"

section \<open>The reader\<close>

text \<open>One turn of the block loop of \<open>deserialize_stream\<close>; \<open>None\<close> is the break.\<close>

definition read_block :: "zstd \<Rightarrow> u8 list \<Rightarrow> (u8 list option \<times> u8 list) result" where
  "read_block z buf =
     and_then (block_type_deserialize buf) (\<lambda>(t, buf).
     case t of
       Compressed \<Rightarrow>
         and_then (u16_deserialize buf) (\<lambda>(len16, buf).
           if length buf < unat len16 then Err BlockBufferTooShort
           else case bulk_decompress z (take (unat len16) buf) 65535 of
                  None \<Rightarrow> Err DecompressFailed
                | Some d \<Rightarrow> Ok (Some d, drop (unat len16) buf))
     | Uncompressed \<Rightarrow>
         and_then (u16_deserialize buf) (\<lambda>(len16, buf).
           if length buf < unat len16 then Err BlockBufferTooShort
           else Ok (Some (take (unat len16) buf), drop (unat len16) buf))
     | NoMoreBlocks \<Rightarrow> Ok (None, buf))"

interpretation block_type_parser: parser block_type_deserialize
proof -
  have "weak_parser (\<lambda>buf. if b = 0 then Ok (NoMoreBlocks, buf)
     else if b = 1 then Ok (Compressed, buf)
     else if b = 2 then Ok (Uncompressed, buf)
     else Err InvalidBlockType)" for b :: u8
    by unfold_locales (auto split: if_splits)
  then show "parser block_type_deserialize"
    unfolding block_type_deserialize_def [abs_def]
    by (intro parser_intros u8_parser.parser_axioms)
qed

lemma take_block_weak_parser:
  "weak_parser (\<lambda>buf. if length buf < n then Err e
     else case f (take n buf) of None \<Rightarrow> Err e' | Some d \<Rightarrow> Ok (g d, drop n buf))"
  by unfold_locales
    (auto split: if_splits option.splits intro: append_take_drop_id [symmetric])

lemma take_raw_weak_parser:
  "weak_parser (\<lambda>buf. if length buf < n then Err e else Ok (g (take n buf), drop n buf))"
  by unfold_locales (auto split: if_splits intro: append_take_drop_id [symmetric])

interpretation block_parser: parser "read_block z" for z
proof -
  have "weak_parser (\<lambda>buf. case t of
       Compressed \<Rightarrow>
         and_then (u16_deserialize buf) (\<lambda>(len16, buf).
           if length buf < unat len16 then Err BlockBufferTooShort
           else case bulk_decompress z (take (unat len16) buf) 65535 of
                  None \<Rightarrow> Err DecompressFailed
                | Some d \<Rightarrow> Ok (Some d, drop (unat len16) buf))
     | Uncompressed \<Rightarrow>
         and_then (u16_deserialize buf) (\<lambda>(len16, buf).
           if length buf < unat len16 then Err BlockBufferTooShort
           else Ok (Some (take (unat len16) buf), drop (unat len16) buf))
     | NoMoreBlocks \<Rightarrow> Ok (None, buf))" for t
  proof (cases t)
    case NoMoreBlocks
    then show ?thesis by (simp add: weak_parser_return)
  next
    case Compressed
    show ?thesis
      unfolding Compressed block_type.case
      by (intro weak_parser_bind parser_weak [OF u16_parser.parser_axioms]
          take_block_weak_parser [where f = "\<lambda>bs. bulk_decompress z bs 65535"])
  next
    case Uncompressed
    show ?thesis
      unfolding Uncompressed block_type.case
      by (intro weak_parser_bind parser_weak [OF u16_parser.parser_axioms]
          take_raw_weak_parser)
  qed
  then show "parser (read_block z)"
    unfolding read_block_def [abs_def]
    by (intro parser_bind block_type_parser.parser_axioms)
qed

function read_blocks :: "zstd \<Rightarrow> u8 list \<Rightarrow> u8 list \<Rightarrow> (u8 list \<times> u8 list) result" where
  "read_blocks z acc buf =
     (case read_block z buf of
        Ok (None, buf') \<Rightarrow> Ok (acc, buf')
      | Ok (Some d, buf') \<Rightarrow> read_blocks z (acc @ d) buf'
      | Err e \<Rightarrow> Err e
      | Panic p \<Rightarrow> Panic p)"
  by pat_completeness auto
termination
  by (relation "measure (\<lambda>(z, acc, buf). length buf)") (auto dest: block_parser.progress)

declare read_blocks.simps [simp del]

section \<open>What the writer writes, the reader reads\<close>

text \<open>The state every writer of the code is in between two calls.\<close>

definition csw_wf :: "compressed_stream_writer \<Rightarrow> bool" where
  "csw_wf w = (0 < csw_block_threshold w \<and> csw_block_threshold w \<le> 65535
     \<and> length (csw_uncompressed_block w) \<le> csw_block_threshold w)"

text \<open>
  \<open>csw_repr z w data\<close>: the items appended so far are the bytes \<open>data\<close>; the flushed blocks decode
  to a prefix of them and the rest is still uncompressed.
\<close>

definition csw_repr :: "zstd \<Rightarrow> compressed_stream_writer \<Rightarrow> u8 list \<Rightarrow> bool" where
  "csw_repr z w data = (\<exists>D. data = D @ csw_uncompressed_block w \<and>
     (\<forall>acc rest. read_blocks z acc (csw_output w @ rest) = read_blocks z (acc @ D) rest))"

lemma block_type_roundtrip:
  "block_type_deserialize (block_type_serialize t @ rest) = Ok (t, rest)"
  by (cases t) (simp_all add: block_type_deserialize_def block_type_serialize_def u8_codec.de_ser)

lemma length_block_type_serialize [simp]: "length (block_type_serialize t) = 1"
  by (simp add: block_type_serialize_def)

lemma unat_as_u16: "n \<le> 65535 \<Longrightarrow> unat (as_u16 n) = n"
  by (simp add: as_u16_def unat_of_nat)

lemma read_blocks_end: "read_blocks z acc (block_type_serialize NoMoreBlocks @ rest) = Ok (acc, rest)"
  by (simp add: read_blocks.simps read_block_def block_type_roundtrip)

lemma read_blocks_compressed:
  assumes "length out \<le> 65535" "bulk_decompress z out 65535 = Some d"
  shows "read_blocks z acc
      (block_type_serialize Compressed @ u16_serialize (as_u16 (length out)) @ out @ rest)
    = read_blocks z (acc @ d) rest"
  using assms
  by (subst read_blocks.simps)
    (simp add: read_block_def block_type_roundtrip u16_codec.de_ser unat_as_u16)

lemma read_blocks_uncompressed:
  assumes "length d \<le> 65535"
  shows "read_blocks z acc
      (block_type_serialize Uncompressed @ u16_serialize (as_u16 (length d)) @ d @ rest)
    = read_blocks z (acc @ d) rest"
  using assms
  by (subst read_blocks.simps)
    (simp add: read_block_def block_type_roundtrip u16_codec.de_ser unat_as_u16)

lemma zstd_okD:
  assumes "zstd_ok z" "bulk_compress z src cap = Some out"
  shows "length out \<le> cap" "length src \<le> dcap \<Longrightarrow> bulk_decompress z out dcap = Some src"
  using assms unfolding zstd_ok_def by blast+

text \<open>
  A flush succeeds, keeps what the writer represents, and costs at most three bytes of block
  header.
\<close>

lemma flush_block_ok:
  assumes z: "zstd_ok z" and thr: "csw_block_threshold w \<le> 65535"
    and repr: "csw_repr z w data"
  obtains w' where "flush_block z w = Ok w'" "csw_repr z w' data"
    "length (csw_output w') + length (csw_uncompressed_block w')
       \<le> length (csw_output w) + length (csw_uncompressed_block w) + 3"
proof (cases "csw_uncompressed_block w = []")
  case True
  then show ?thesis using that [of w] repr by (simp add: flush_block_def)
next
  case False
  define n where "n = min (length (csw_uncompressed_block w)) (csw_block_threshold w)"
  define src where "src = take n (csw_uncompressed_block w)"
  have n: "n \<le> 65535" "length src = n"
    using thr by (auto simp: n_def src_def)
  obtain D where D: "data = D @ csw_uncompressed_block w"
    and dec: "\<And>acc rest. read_blocks z acc (csw_output w @ rest) = read_blocks z (acc @ D) rest"
    using repr by (auto simp: csw_repr_def)
  have data: "data = (D @ src) @ drop n (csw_uncompressed_block w)"
    by (simp add: D src_def)
  let ?w = "w\<lparr>csw_uncompressed_block := drop n (csw_uncompressed_block w)\<rparr>"
  have len: "length (csw_uncompressed_block w) = n + length (drop n (csw_uncompressed_block w))"
    by (simp add: n_def)
  show ?thesis
  proof (cases "bulk_compress z src n")
    case None
    let ?blk = "block_type_serialize Uncompressed @ u16_serialize (as_u16 (length src)) @ src"
    have "flush_block z w = Ok (?w\<lparr>csw_output := csw_output w @ ?blk\<rparr>)"
      using False n None
      by (simp add: flush_block_def Let_def n_def [symmetric] src_def [symmetric])
    moreover have "csw_repr z (?w\<lparr>csw_output := csw_output w @ ?blk\<rparr>) data"
      unfolding csw_repr_def
      by (rule exI [of _ "D @ src"]) (use n in \<open>simp add: data dec read_blocks_uncompressed [of src, unfolded n(2)]\<close>)
    ultimately show ?thesis
      by (rule that) (use n len in simp)
  next
    case (Some out)
    note bounds = zstd_okD [OF z Some]
    let ?blk = "block_type_serialize Compressed @ u16_serialize (as_u16 (length out)) @ out"
    have "flush_block z w = Ok (?w\<lparr>csw_output := csw_output w @ ?blk\<rparr>)"
      using False n Some bounds(1)
      by (simp add: flush_block_def Let_def n_def [symmetric] src_def [symmetric])
    moreover have "csw_repr z (?w\<lparr>csw_output := csw_output w @ ?blk\<rparr>) data"
      unfolding csw_repr_def
      by (rule exI [of _ "D @ src"])
        (use n bounds in \<open>simp add: data dec read_blocks_compressed [where d = src]\<close>)
    ultimately show ?thesis
      by (rule that) (use n len bounds(1) in simp)
  qed
qed

lemma flush_loop_ok:
  assumes "zstd_ok z" "0 < csw_block_threshold w" "csw_block_threshold w \<le> 65535"
    and "csw_repr z w data"
  obtains w' where "flush_loop z w = Ok w'" "csw_repr z w' data" "csw_wf w'"
    "csw_block_threshold w' = csw_block_threshold w"
  using assms
proof (induction z w arbitrary: thesis rule: flush_loop.induct)
  case (1 z w)
  show ?case
  proof (cases "length (csw_uncompressed_block w) > csw_block_threshold w")
    case False
    then have "flush_loop z w = Ok w"
      by (simp add: flush_loop.simps)
    then show ?thesis
      by (rule "1.prems"(1)) (use "1.prems"(3-5) False in \<open>simp_all add: csw_wf_def\<close>)
  next
    case True
    obtain w1 where w1: "flush_block z w = Ok w1" "csw_repr z w1 data"
      by (rule flush_block_ok [OF "1.prems"(2,4,5)])
    have thr: "csw_block_threshold w1 = csw_block_threshold w"
      using flush_block_uncompressed [OF w1(1)] by simp
    have step: "flush_loop z w = flush_loop z w1"
      using True w1 "1.prems"(3) by (simp add: flush_loop.simps [of z w])
    show ?thesis
    proof (rule "1.IH" [OF True _ w1(1)])
      show "csw_block_threshold w \<noteq> 0" using "1.prems"(3) by simp
      fix w'
      assume "flush_loop z w1 = Ok w'" "csw_repr z w' data" "csw_wf w'"
        "csw_block_threshold w' = csw_block_threshold w1"
      then show ?thesis using "1.prems"(1) step thr by simp
    qed (use "1.prems" w1 thr in simp_all)
  qed
qed

lemma csw_repr_add_bytes:
  "csw_repr z w data \<Longrightarrow>
   csw_repr z (w\<lparr>csw_uncompressed_block := csw_uncompressed_block w @ bs\<rparr>) (data @ bs)"
  by (auto simp: csw_repr_def)

lemma csw_append_ok:
  assumes "zstd_ok z" "csw_wf w" "csw_repr z w data" "len \<le> 65535"
  obtains w' where "csw_append z bs len w = Ok w'" "csw_repr z w' (data @ bs)" "csw_wf w'"
    "csw_block_threshold w' = csw_block_threshold w"
proof -
  obtain w' where
    "flush_loop z (w\<lparr>csw_uncompressed_block := csw_uncompressed_block w @ bs\<rparr>) = Ok w'"
    "csw_repr z w' (data @ bs)" "csw_wf w'" "csw_block_threshold w' = csw_block_threshold w"
    by (rule flush_loop_ok [OF assms(1) _ _ csw_repr_add_bytes [OF assms(3), of bs]])
      (use assms(2) in \<open>auto simp: csw_wf_def\<close>)
  then show ?thesis
    using that assms(4) by (simp add: csw_append_def)
qed

lemma csw_finish_ok:
  assumes "zstd_ok z" "csw_wf w" "csw_repr z w data"
  obtains out where "csw_finish z w = Ok out"
    "\<And>rest. read_blocks z [] (out @ rest) = Ok (data, rest)"
    "length out \<le> length (csw_output w) + length (csw_uncompressed_block w) + 4"
proof -
  have thr: "csw_block_threshold w \<le> 65535"
    using assms(2) by (simp add: csw_wf_def)
  obtain w' where w': "flush_block z w = Ok w'" "csw_repr z w' data"
    "length (csw_output w') + length (csw_uncompressed_block w')
       \<le> length (csw_output w) + length (csw_uncompressed_block w) + 3"
    by (rule flush_block_ok [OF assms(1) thr assms(3)])
  have ub: "csw_uncompressed_block w' = []"
    using flush_block_uncompressed [OF w'(1)] assms(2) by (simp add: csw_wf_def min_def)
  have fin: "csw_finish z w = Ok (csw_output w' @ block_type_serialize NoMoreBlocks)"
    by (simp add: csw_finish_def w'(1))
  show ?thesis
  proof (rule that [OF fin])
    fix rest
    show "read_blocks z [] ((csw_output w' @ block_type_serialize NoMoreBlocks) @ rest)
        = Ok (data, rest)"
      using w'(2) ub by (auto simp: csw_repr_def read_blocks_end)
    show "length (csw_output w' @ block_type_serialize NoMoreBlocks)
        \<le> length (csw_output w) + length (csw_uncompressed_block w) + 4"
      using w'(3) ub by simp
  qed
qed

lemma with_block_threshold_wf: "0 < t \<Longrightarrow> csw_wf (with_block_threshold t)"
proof -
  assume "0 < t"
  moreover have "unat t < 65536"
    using unsigned_less [of t] by simp
  ultimately show ?thesis
    by (simp add: csw_wf_def with_block_threshold_def unat_gt_0)
qed

lemma with_block_threshold_repr: "csw_repr z (with_block_threshold t) []"
  by (simp add: csw_repr_def with_block_threshold_def)

text \<open>
  Sizes. Appending an item no longer than a block flushes at most one block, so the bytes on
  their way out grow by the item and at most one block header.
\<close>

lemma csw_append_size:
  assumes z: "zstd_ok z" and wf: "csw_wf w" and repr: "csw_repr z w data"
    and fits: "length bs \<le> csw_block_threshold w" "length bs \<le> 65535"
    and app: "csw_append z bs (length bs) w = Ok w'"
  shows "length (csw_output w') + length (csw_uncompressed_block w')
     \<le> length (csw_output w) + length (csw_uncompressed_block w) + length bs
       + (if length (csw_uncompressed_block w) + length bs > csw_block_threshold w then 3 else 0)"
proof -
  let ?w1 = "w\<lparr>csw_uncompressed_block := csw_uncompressed_block w @ bs\<rparr>"
  have app': "flush_loop z ?w1 = Ok w'"
    using app fits by (simp add: csw_append_def)
  show ?thesis
  proof (cases "length (csw_uncompressed_block w) + length bs > csw_block_threshold w")
    case False
    then have "w' = ?w1"
      using app' by (simp add: flush_loop.simps)
    then show ?thesis by simp
  next
    case True
    obtain w2 where w2: "flush_block z ?w1 = Ok w2"
      "length (csw_output w2) + length (csw_uncompressed_block w2)
         \<le> length (csw_output ?w1) + length (csw_uncompressed_block ?w1) + 3"
      using flush_block_ok [OF z _ csw_repr_add_bytes [OF repr, of bs]] wf
      by (auto simp: csw_wf_def)
    have "length (csw_uncompressed_block w2) \<le> csw_block_threshold w2"
      using flush_block_uncompressed [OF w2(1)] True fits wf by (auto simp: csw_wf_def)
    then have "flush_loop z w2 = Ok w2"
      by (simp add: flush_loop.simps)
    moreover have "flush_loop z ?w1 = flush_loop z w2"
      using True w2(1) wf by (simp add: flush_loop.simps [of z ?w1] csw_wf_def)
    ultimately have "w' = w2" using app' by simp
    then show ?thesis using w2(2) True by simp
  qed
qed

end
