(* ===== verification/Digest.thy ===== *)
theory Digest
  imports Compressed_Stream
begin

text \<open>
  Digests (\<open>chitchat/src/digest.rs\<close>): the summary a node sends of every node state it holds,
  and its compressed wire format.
\<close>

section \<open>Model\<close>

record node_digest =
  nd_heartbeat :: heartbeat
  nd_last_gc_version :: version
  nd_max_version :: version

record digest =
  node_digests :: "(chitchat_id, node_digest) btree"

definition node_digest_serialize :: "node_digest \<Rightarrow> u8 list" where
  "node_digest_serialize d =
     heartbeat_serialize (nd_heartbeat d) @ u64_serialize (nd_last_gc_version d)
     @ u64_serialize (nd_max_version d)"

definition node_digest_serialized_len :: "node_digest \<Rightarrow> nat" where
  "node_digest_serialized_len d =
     heartbeat_serialized_len (nd_heartbeat d) + u64_serialized_len (nd_last_gc_version d)
     + u64_serialized_len (nd_max_version d)"

definition node_digest_deserialize :: "u8 list \<Rightarrow> (node_digest \<times> u8 list) result" where
  "node_digest_deserialize buf =
     and_then (heartbeat_deserialize buf) (\<lambda>(h, buf).
     and_then (u64_deserialize buf) (\<lambda>(g, buf).
     and_then (u64_deserialize buf) (\<lambda>(m, buf).
     Ok (\<lparr>nd_heartbeat = h, nd_last_gc_version = g, nd_max_version = m\<rparr>, buf))))"

definition digest_serialize_uncompressed :: "digest \<Rightarrow> u8 list" where
  "digest_serialize_uncompressed d =
     u16_serialize (as_u16 (length (node_digests d)))
     @ concat (map (\<lambda>(i, nd). chitchat_id_serialize i @ node_digest_serialize nd) (node_digests d))"

text \<open>The loop over the announced number of nodes.\<close>

fun digest_read_nodes ::
  "nat \<Rightarrow> (chitchat_id, node_digest) btree \<Rightarrow> u8 list \<Rightarrow>
   ((chitchat_id, node_digest) btree \<times> u8 list) result" where
  "digest_read_nodes 0 m buf = Ok (m, buf)"
| "digest_read_nodes (Suc n) m buf =
     and_then (chitchat_id_deserialize buf) (\<lambda>(i, buf).
     and_then (node_digest_deserialize buf) (\<lambda>(nd, buf).
     digest_read_nodes n (bt_insert i nd m) buf))"

definition digest_deserialize_uncompressed :: "u8 list \<Rightarrow> (digest \<times> u8 list) result" where
  "digest_deserialize_uncompressed buf =
     and_then (u16_deserialize buf) (\<lambda>(n, buf).
     and_then (digest_read_nodes (unat n) [] buf) (\<lambda>(m, buf).
     Ok (\<lparr>node_digests = m\<rparr>, buf)))"

definition digest_serialize :: "zstd \<Rightarrow> digest \<Rightarrow> u8 list" where
  "digest_serialize z d =
     (let compressed = (case encode_all z (digest_serialize_uncompressed d) of
                          Some out \<Rightarrow> out | None \<Rightarrow> [])
      in u32_serialize (as_u32 (length compressed)) @ compressed)"

definition digest_serialized_len :: "zstd \<Rightarrow> digest \<Rightarrow> nat" where
  "digest_serialized_len z d = length (digest_serialize z d)"

text \<open>\<open>split_at\<close> panics when the announced length exceeds what is left of the buffer.\<close>

definition digest_deserialize :: "zstd \<Rightarrow> u8 list \<Rightarrow> (digest \<times> u8 list) result" where
  "digest_deserialize z buf =
     and_then (u32_deserialize buf) (\<lambda>(len32, buf).
     let len = unat len32 in
     if length buf < len then Panic SliceOutOfRange
     else
       let uncompressed = (case decode_all z (take len buf) of Some bs \<Rightarrow> bs | None \<Rightarrow> [])
       in and_then (digest_deserialize_uncompressed uncompressed) (\<lambda>(d, _). Ok (d, drop len buf)))"

text \<open>Digests that fit the format: at most 65535 nodes, addressable compressed size.\<close>

definition digest_valid :: "zstd \<Rightarrow> digest \<Rightarrow> bool" where
  "digest_valid z d \<longleftrightarrow>
     bt_wf (node_digests d) \<and> (\<forall>i \<in> fst ` set (node_digests d). chitchat_id_valid i)
     \<and> length (node_digests d) < 2 ^ 16 \<and> digest_serialized_len z d < 2 ^ 32"

section \<open>Round trip\<close>

interpretation node_digest_codec:
  codec node_digest_serialize node_digest_deserialize node_digest_serialized_len "\<lambda>_. True"
  by unfold_locales
    (simp_all add: node_digest_serialize_def node_digest_deserialize_def
      node_digest_serialized_len_def heartbeat_codec.ser_len heartbeat_codec.de_ser
      u64_codec.de_ser)

interpretation node_digest_parser: parser node_digest_deserialize
  unfolding node_digest_deserialize_def [abs_def]
  by (intro parser_intros parser_weak heartbeat_parser.parser_axioms u64_parser.parser_axioms)

lemma digest_read_nodes_serialized:
  assumes "bt_wf (m @ nds)" "\<forall>i \<in> fst ` set nds. chitchat_id_valid i"
  shows "digest_read_nodes (length nds) m
      (concat (map (\<lambda>(i, nd). chitchat_id_serialize i @ node_digest_serialize nd) nds) @ rest)
    = Ok (m @ nds, rest)"
  using assms
proof (induction nds arbitrary: m)
  case Nil
  then show ?case by simp
next
  case (Cons x nds)
  obtain i nd where x: "x = (i, nd)" by (cases x)
  have ins: "bt_insert i nd m = m @ [(i, nd)]"
    by (rule bt_insert_snoc) (use Cons.prems(1) x in \<open>auto simp: bt_wf_append\<close>)
  have "digest_read_nodes (length nds) (m @ [(i, nd)])
      (concat (map (\<lambda>(i, nd). chitchat_id_serialize i @ node_digest_serialize nd) nds) @ rest)
    = Ok ((m @ [(i, nd)]) @ nds, rest)"
    by (rule Cons.IH) (use Cons.prems x in simp_all)
  then show ?case
    using Cons.prems x ins by (simp add: chitchat_id_codec.de_ser node_digest_codec.de_ser)
qed

lemma digest_uncompressed_roundtrip:
  assumes "bt_wf (node_digests d)" "\<forall>i \<in> fst ` set (node_digests d). chitchat_id_valid i"
    "length (node_digests d) < 2 ^ 16"
  shows "digest_deserialize_uncompressed (digest_serialize_uncompressed d) = Ok (d, [])"
proof -
  have "unat (as_u16 (length (node_digests d))) = length (node_digests d)"
    using assms(3) by (simp add: as_u16_def unat_of_nat)
  then show ?thesis
    using digest_read_nodes_serialized [of "[]" "node_digests d" "[]"] assms(1,2)
    by (simp add: digest_deserialize_uncompressed_def digest_serialize_uncompressed_def
        u16_codec.de_ser)
qed

interpretation digest_codec:
  codec "digest_serialize z" "digest_deserialize z" "digest_serialized_len z"
    "\<lambda>d. zstd_ok z \<and> digest_valid z d" for z
proof
  fix d rest
  assume v: "zstd_ok z \<and> digest_valid z d"
  show "length (digest_serialize z d) = digest_serialized_len z d"
    by (simp add: digest_serialized_len_def)
  obtain out where out: "encode_all z (digest_serialize_uncompressed d) = Some out"
    "decode_all z out = Some (digest_serialize_uncompressed d)"
    using v unfolding zstd_ok_def by blast
  have "length out < 2 ^ 32"
    using v out by (simp add: digest_valid_def digest_serialized_len_def digest_serialize_def)
  then have "unat (as_u32 (length out)) = length out"
    by (simp add: as_u32_def unat_of_nat)
  then show "digest_deserialize z (digest_serialize z d @ rest) = Ok (d, rest)"
    using v out digest_uncompressed_roundtrip [of d]
    by (simp add: digest_deserialize_def digest_serialize_def u32_codec.de_ser digest_valid_def)
qed

text \<open>
  What reading a digest can do on an arbitrary buffer: it panics exactly when the length
  field promises more bytes than there are.
\<close>

lemma digest_read_nodes_no_panic: "\<not> is_panic (digest_read_nodes n m buf)"
  by (induction n arbitrary: m buf)
    (auto simp: is_panic_and_then chitchat_id_parser.no_panic node_digest_parser.no_panic)

lemma digest_deserialize_uncompressed_no_panic: "\<not> is_panic (digest_deserialize_uncompressed buf)"
  by (auto simp: digest_deserialize_uncompressed_def is_panic_and_then u16_parser.no_panic
      digest_read_nodes_no_panic)

lemma digest_deserialize_panic_iff:
  "is_panic (digest_deserialize z buf) \<longleftrightarrow>
   4 \<le> length buf \<and> length buf - 4 < le_nat (take 4 buf)"
proof -
  have "le_nat (take 4 buf) < 2 ^ 32"
    using le_nat_bound [of "take 4 buf"] power_increasing [of "length (take 4 buf)" 4 "256::nat"]
    by simp
  then have "unat (of_nat (le_nat (take 4 buf)) :: u32) = le_nat (take 4 buf)"
    by (simp add: unat_of_nat)
  then show ?thesis
    by (auto simp: digest_deserialize_def u32_deserialize_def bytes_deserialize_def Let_def
        is_panic_and_then digest_deserialize_uncompressed_no_panic)
qed

end
