(* ===== verification/Delta.thy ===== *)
theory Delta
  imports Digest
begin

text \<open>
  Deltas (\<open>chitchat/src/delta.rs\<close>): the update a node sends to another one, its encoding as a
  stream of operations, the builder that reads the operations back, and the serializer that
  cuts a delta to the size of a datagram. Operations and their borrowed form
  (\<open>DeltaOp\<close>, \<open>DeltaOpRef\<close>) are one type here.
\<close>

section \<open>Operations\<close>

datatype delta_op =
    OpNode chitchat_id version version
  | OpKeyValue key_value_mutation
  | OpSetMaxVersion version

definition deletion_status_mutation_serialize :: "deletion_status_mutation \<Rightarrow> u8 list" where
  "deletion_status_mutation_serialize m = [mutation_to_u8 m]"

definition deletion_status_mutation_deserialize ::
  "u8 list \<Rightarrow> (deletion_status_mutation \<times> u8 list) result" where
  "deletion_status_mutation_deserialize buf =
     and_then (u8_deserialize buf) (\<lambda>(code, buf).
     case mutation_try_from code of
       Some m \<Rightarrow> Ok (m, buf) | None \<Rightarrow> Err (InvalidDeletionStatus code))"

definition deletion_status_mutation_serialized_len :: "deletion_status_mutation \<Rightarrow> nat" where
  "deletion_status_mutation_serialized_len m = 1"

definition key_value_mutation_serialize :: "key_value_mutation \<Rightarrow> u8 list" where
  "key_value_mutation_serialize kv =
     str_serialize (kvm_key kv) @ str_serialize (kvm_value kv)
     @ u64_serialize (kvm_version kv) @ deletion_status_mutation_serialize (kvm_status kv)"

definition key_value_mutation_serialized_len :: "key_value_mutation \<Rightarrow> nat" where
  "key_value_mutation_serialized_len kv =
     str_serialized_len (kvm_key kv) + str_serialized_len (kvm_value kv)
     + u64_serialized_len (kvm_version kv)
     + deletion_status_mutation_serialized_len (kvm_status kv)"

definition key_value_mutation_deserialize ::
  "u8 list \<Rightarrow> (key_value_mutation \<times> u8 list) result" where
  "key_value_mutation_deserialize buf =
     and_then (string_deserialize buf) (\<lambda>(k, buf).
     and_then (string_deserialize buf) (\<lambda>(v, buf).
     and_then (u64_deserialize buf) (\<lambda>(ver, buf).
     and_then (deletion_status_mutation_deserialize buf) (\<lambda>(st, buf).
     Ok (\<lparr>kvm_key = k, kvm_value = v, kvm_version = ver, kvm_status = st\<rparr>, buf)))))"

datatype delta_op_tag = TagNode | TagKeyValue | TagSetMaxVersion

fun delta_op_tag_try_from :: "u8 \<Rightarrow> delta_op_tag result" where
  "delta_op_tag_try_from b =
     (if b = 0 then Ok TagNode else if b = 1 then Ok TagKeyValue
      else if b = 2 then Ok TagSetMaxVersion else Err (UnknownDeltaOpTag b))"

fun delta_op_tag_to_u8 :: "delta_op_tag \<Rightarrow> u8" where
  "delta_op_tag_to_u8 TagNode = 0"
| "delta_op_tag_to_u8 TagKeyValue = 1"
| "delta_op_tag_to_u8 TagSetMaxVersion = 2"

fun delta_op_serialize :: "delta_op \<Rightarrow> u8 list" where
  "delta_op_serialize (OpNode i gc from_v) =
     delta_op_tag_to_u8 TagNode # chitchat_id_serialize i @ u64_serialize gc @ u64_serialize from_v"
| "delta_op_serialize (OpKeyValue kv) =
     delta_op_tag_to_u8 TagKeyValue # key_value_mutation_serialize kv"
| "delta_op_serialize (OpSetMaxVersion m) =
     delta_op_tag_to_u8 TagSetMaxVersion # u64_serialize m"

fun delta_op_serialized_len :: "delta_op \<Rightarrow> nat" where
  "delta_op_serialized_len (OpNode i gc from_v) =
     1 + (chitchat_id_serialized_len i + u64_serialized_len gc + u64_serialized_len from_v)"
| "delta_op_serialized_len (OpKeyValue kv) = 1 + key_value_mutation_serialized_len kv"
| "delta_op_serialized_len (OpSetMaxVersion m) = 1 + u64_serialized_len m"

definition delta_op_deserialize :: "u8 list \<Rightarrow> (delta_op \<times> u8 list) result" where
  "delta_op_deserialize buf =
     and_then (bytes_deserialize 1 buf) (\<lambda>(tb, buf).
     and_then (delta_op_tag_try_from (hd tb)) (\<lambda>tag.
     case tag of
       TagNode \<Rightarrow>
         and_then (chitchat_id_deserialize buf) (\<lambda>(i, buf).
         and_then (u64_deserialize buf) (\<lambda>(gc, buf).
         and_then (u64_deserialize buf) (\<lambda>(from_v, buf).
         Ok (OpNode i gc from_v, buf))))
     | TagKeyValue \<Rightarrow>
         and_then (key_value_mutation_deserialize buf) (\<lambda>(kv, buf). Ok (OpKeyValue kv, buf))
     | TagSetMaxVersion \<Rightarrow>
         and_then (u64_deserialize buf) (\<lambda>(m, buf). Ok (OpSetMaxVersion m, buf))))"

section \<open>Deltas\<close>

record node_delta =
  ndl_chitchat_id :: chitchat_id
  ndl_from_version_excluded :: version
  ndl_last_gc_version :: version
  ndl_key_values :: "key_value_mutation list"
  ndl_max_version :: "version option"

record delta =
  node_deltas :: "node_delta list"
  delta_serialized_len :: nat

definition delta_default :: delta where
  "delta_default = \<lparr>node_deltas = [], delta_serialized_len = 1\<rparr>"

definition node_delta_operations :: "node_delta \<Rightarrow> delta_op list" where
  "node_delta_operations nd =
     [OpNode (ndl_chitchat_id nd) (ndl_last_gc_version nd) (ndl_from_version_excluded nd)]
     @ map OpKeyValue (ndl_key_values nd)
     @ (case ndl_max_version nd of None \<Rightarrow> [] | Some m \<Rightarrow> [OpSetMaxVersion m])"

definition get_operations :: "node_delta list \<Rightarrow> delta_op list" where
  "get_operations nds = concat (map node_delta_operations nds)"

section \<open>The builder\<close>

record delta_builder =
  db_existing_nodes :: "chitchat_id set"
  db_delta :: delta
  db_current_node_delta :: "node_delta option"

definition delta_builder_default :: delta_builder where
  "delta_builder_default =
     \<lparr>db_existing_nodes = {}, db_delta = delta_default, db_current_node_delta = None\<rparr>"

definition builder_flush :: "delta_builder \<Rightarrow> delta_builder" where
  "builder_flush b = (case db_current_node_delta b of
      None \<Rightarrow> b
    | Some nd \<Rightarrow>
        b\<lparr>db_current_node_delta := None,
          db_delta := (db_delta b)\<lparr>node_deltas := node_deltas (db_delta b) @ [nd]\<rparr>\<rparr>)"

definition builder_finish :: "delta_builder \<Rightarrow> nat \<Rightarrow> delta" where
  "builder_finish b len = (db_delta (builder_flush b))\<lparr>delta_serialized_len := len\<rparr>"

fun apply_op :: "delta_builder \<Rightarrow> delta_op \<Rightarrow> delta_builder result" where
  "apply_op b (OpNode i gc from_v) =
     (let b = builder_flush b in
      if i \<in> db_existing_nodes b then Err DuplicateNode
      else Ok (b\<lparr>db_existing_nodes := insert i (db_existing_nodes b),
                 db_current_node_delta := Some
                   \<lparr>ndl_chitchat_id = i, ndl_from_version_excluded = from_v,
                    ndl_last_gc_version = gc, ndl_key_values = [], ndl_max_version = None\<rparr>\<rparr>))"
| "apply_op b (OpKeyValue kv) =
     (case db_current_node_delta b of
        None \<Rightarrow> Err OpWithoutNode
      | Some nd \<Rightarrow>
          if ndl_key_values nd \<noteq> [] \<and> \<not> kvm_version (last (ndl_key_values nd)) < kvm_version kv
          then Err VersionNotIncreasing
          else Ok (b\<lparr>db_current_node_delta :=
                       Some (nd\<lparr>ndl_key_values := ndl_key_values nd @ [kv]\<rparr>)\<rparr>))"
| "apply_op b (OpSetMaxVersion m) =
     (case db_current_node_delta b of
        None \<Rightarrow> Err OpWithoutNode
      | Some nd \<Rightarrow> Ok (b\<lparr>db_current_node_delta := Some (nd\<lparr>ndl_max_version := Some m\<rparr>)\<rparr>))"

fun apply_ops :: "delta_builder \<Rightarrow> delta_op list \<Rightarrow> delta_builder result" where
  "apply_ops b [] = Ok b"
| "apply_ops b (op # ops) = and_then (apply_op b op) (\<lambda>b. apply_ops b ops)"

section \<open>The wire format of a delta\<close>

fun csw_append_ops ::
  "zstd \<Rightarrow> delta_op list \<Rightarrow> compressed_stream_writer \<Rightarrow> compressed_stream_writer result" where
  "csw_append_ops z [] w = Ok w"
| "csw_append_ops z (op # ops) w =
     and_then (csw_append z (delta_op_serialize op) (delta_op_serialized_len op) w)
       (csw_append_ops z ops)"

definition delta_serialize :: "zstd \<Rightarrow> delta \<Rightarrow> u8 list result" where
  "delta_serialize z d =
     and_then (csw_append_ops z (get_operations (node_deltas d)) (with_block_threshold 16384)) (\<lambda>w.
     and_then (csw_finish z w) (\<lambda>payload.
     if length payload \<noteq> delta_serialized_len d then Panic AssertionFailed else Ok payload))"

interpretation deletion_status_mutation_parser: parser deletion_status_mutation_deserialize
proof -
  have "weak_parser (\<lambda>buf. case mutation_try_from code of
       Some m \<Rightarrow> Ok (m, buf) | None \<Rightarrow> Err (InvalidDeletionStatus code))" for code
    by (cases "mutation_try_from code") (simp_all add: weak_parser_return weak_parser_err)
  then show "parser deletion_status_mutation_deserialize"
    unfolding deletion_status_mutation_deserialize_def [abs_def]
    by (intro parser_intros u8_parser.parser_axioms)
qed

interpretation key_value_mutation_parser: parser key_value_mutation_deserialize
  unfolding key_value_mutation_deserialize_def [abs_def]
  by (intro parser_intros parser_weak string_parser.parser_axioms u64_parser.parser_axioms
      deletion_status_mutation_parser.parser_axioms)

lemmas delta_op_field_parsers =
  chitchat_id_parser.parser_axioms u64_parser.parser_axioms key_value_mutation_parser.parser_axioms

interpretation delta_op_parser: parser delta_op_deserialize
proof -
  have "weak_parser (\<lambda>buf. case tag of
       TagNode \<Rightarrow>
         and_then (chitchat_id_deserialize buf) (\<lambda>(i, buf).
         and_then (u64_deserialize buf) (\<lambda>(gc, buf).
         and_then (u64_deserialize buf) (\<lambda>(from_v, buf).
         Ok (OpNode i gc from_v, buf))))
     | TagKeyValue \<Rightarrow>
         and_then (key_value_mutation_deserialize buf) (\<lambda>(kv, buf). Ok (OpKeyValue kv, buf))
     | TagSetMaxVersion \<Rightarrow>
         and_then (u64_deserialize buf) (\<lambda>(m, buf). Ok (OpSetMaxVersion m, buf)))" for tag
    by (cases tag)
      (simp_all only: delta_op_tag.case,
        (intro weak_parser_bind weak_parser_return parser_weak delta_op_field_parsers)+)
  then show "parser delta_op_deserialize"
    unfolding delta_op_deserialize_def [abs_def]
    by (intro parser_bind parser_bytes weak_parser_pure) auto
qed

text \<open>The item loop of \<open>deserialize_stream\<close>; it ends because every operation takes at least one byte.\<close>

function read_ops :: "u8 list \<Rightarrow> delta_op list result" where
  "read_ops buf =
     (if buf = [] then Ok []
      else case delta_op_deserialize buf of
             Ok (op, buf') \<Rightarrow> and_then (read_ops buf') (\<lambda>ops. Ok (op # ops))
           | Err e \<Rightarrow> Err e
           | Panic p \<Rightarrow> Panic p)"
  by pat_completeness auto
termination
  by (relation "measure length") (auto dest: delta_op_parser.progress)

declare read_ops.simps [simp del]

definition deserialize_stream :: "zstd \<Rightarrow> u8 list \<Rightarrow> (delta_op list \<times> u8 list) result" where
  "deserialize_stream z buf =
     and_then (read_blocks z [] buf) (\<lambda>(data, buf).
     and_then (read_ops data) (\<lambda>ops. Ok (ops, buf)))"

definition delta_deserialize :: "zstd \<Rightarrow> u8 list \<Rightarrow> (delta \<times> u8 list) result" where
  "delta_deserialize z buf =
     and_then (deserialize_stream z buf) (\<lambda>(ops, buf').
     let consumed_len = length buf - length buf' in
     and_then (apply_ops delta_builder_default ops) (\<lambda>b.
     Ok (builder_finish b consumed_len, buf')))"

section \<open>Cutting a delta to a datagram\<close>

record delta_serializer =
  ds_mtu :: nat
  ds_delta_builder :: delta_builder
  ds_compressed_stream_writer :: compressed_stream_writer

definition BLOCK_THRESHOLD :: nat where
  "BLOCK_THRESHOLD = 16384"

definition with_mtu :: "nat \<Rightarrow> delta_serializer result" where
  "with_mtu mtu =
     (if \<not> mtu \<ge> 100 then Panic AssertionFailed
      else Ok \<lparr>ds_mtu = mtu, ds_delta_builder = delta_builder_default,
               ds_compressed_stream_writer =
                 with_block_threshold (as_u16 (min BLOCK_THRESHOLD mtu))\<rparr>)"

definition try_add_op ::
  "zstd \<Rightarrow> delta_op \<Rightarrow> delta_serializer \<Rightarrow> (bool \<times> delta_serializer) result" where
  "try_add_op z op s =
     and_then (serialized_len_upperbound_after (ds_compressed_stream_writer s)
                 (delta_op_serialized_len op)) (\<lambda>bound.
     if bound > ds_mtu s then Ok (False, s)
     else and_then (csw_append z (delta_op_serialize op) (delta_op_serialized_len op)
                      (ds_compressed_stream_writer s)) (\<lambda>w.
          case apply_op (ds_delta_builder s) op of
            Ok b \<Rightarrow> Ok (True, s\<lparr>ds_compressed_stream_writer := w, ds_delta_builder := b\<rparr>)
          | _ \<Rightarrow> Panic AssertionFailed))"

definition try_set_max_version ::
  "zstd \<Rightarrow> version \<Rightarrow> delta_serializer \<Rightarrow> (bool \<times> delta_serializer) result" where
  "try_set_max_version z m s = try_add_op z (OpSetMaxVersion m) s"

definition mutation_of :: "string \<Rightarrow> versioned_value \<Rightarrow> key_value_mutation" where
  "mutation_of k vv = \<lparr>kvm_key = k, kvm_value = vv_value vv, kvm_version = vv_version vv,
     kvm_status = mutation_of_status (vv_status vv)\<rparr>"

definition try_add_kv ::
  "zstd \<Rightarrow> string \<Rightarrow> versioned_value \<Rightarrow> delta_serializer \<Rightarrow> (bool \<times> delta_serializer) result" where
  "try_add_kv z k vv s = try_add_op z (OpKeyValue (mutation_of k vv)) s"

definition try_add_node ::
  "zstd \<Rightarrow> chitchat_id \<Rightarrow> version \<Rightarrow> version \<Rightarrow> delta_serializer \<Rightarrow>
   (bool \<times> delta_serializer) result" where
  "try_add_node z i gc from_v s = try_add_op z (OpNode i gc from_v) s"

definition ds_finish :: "zstd \<Rightarrow> delta_serializer \<Rightarrow> delta result" where
  "ds_finish z s =
     and_then (csw_finish z (ds_compressed_stream_writer s)) (\<lambda>buffer.
     Ok (builder_finish (ds_delta_builder s) (length buffer)))"

end
