(* ===== verification/Delta_Correct.thy ===== *)
theory Delta_Correct
  imports Delta
begin

text \<open>
  Correctness of the delta format: reading back what was written returns the delta, the
  builder accepts exactly well-formed operation streams, and the serializer keeps its size
  promise and produces deltas whose own \<open>serialize\<close> meets its assertion.
\<close>

section \<open>Operations\<close>

fun delta_op_valid :: "delta_op \<Rightarrow> bool" where
  "delta_op_valid (OpNode i gc from_v) = chitchat_id_valid i"
| "delta_op_valid (OpKeyValue kv) = (str_valid (kvm_key kv) \<and> str_valid (kvm_value kv))"
| "delta_op_valid (OpSetMaxVersion m) = True"

interpretation deletion_status_mutation_codec:
  codec deletion_status_mutation_serialize deletion_status_mutation_deserialize
    deletion_status_mutation_serialized_len "\<lambda>_. True"
proof
  fix x rest
  show "length (deletion_status_mutation_serialize x) = deletion_status_mutation_serialized_len x"
    by (simp add: deletion_status_mutation_serialize_def deletion_status_mutation_serialized_len_def)
  show "deletion_status_mutation_deserialize (deletion_status_mutation_serialize x @ rest)
      = Ok (x, rest)"
    by (cases x)
      (simp_all add: deletion_status_mutation_serialize_def deletion_status_mutation_deserialize_def
        u8_deserialize_def bytes_deserialize_def)
qed

interpretation key_value_mutation_codec:
  codec key_value_mutation_serialize key_value_mutation_deserialize
    key_value_mutation_serialized_len "\<lambda>kv. str_valid (kvm_key kv) \<and> str_valid (kvm_value kv)"
  by unfold_locales
    (simp_all add: key_value_mutation_serialize_def key_value_mutation_deserialize_def
      key_value_mutation_serialized_len_def string_codec.ser_len string_codec.de_ser
      u64_codec.de_ser deletion_status_mutation_codec.ser_len
      deletion_status_mutation_codec.de_ser)

interpretation delta_op_codec:
  codec delta_op_serialize delta_op_deserialize delta_op_serialized_len delta_op_valid
proof
  fix x rest
  assume v: "delta_op_valid x"
  then show "length (delta_op_serialize x) = delta_op_serialized_len x"
    by (cases x) (simp_all add: chitchat_id_codec.ser_len key_value_mutation_codec.ser_len)
  from v show "delta_op_deserialize (delta_op_serialize x @ rest) = Ok (x, rest)"
    by (cases x)
      (simp_all add: delta_op_deserialize_def bytes_deserialize_def chitchat_id_codec.de_ser
        u64_codec.de_ser key_value_mutation_codec.de_ser)
qed

lemma delta_op_serialize_nonempty: "delta_op_serialize op \<noteq> []"
  by (cases op) auto

lemma delta_op_serialized_len_pos: "0 < delta_op_serialized_len op"
  by (cases op) auto

text \<open>The length an operation announces is the length it writes, even for strings that are too long.\<close>

lemma delta_op_length: "length (delta_op_serialize op) = delta_op_serialized_len op"
  by (cases op)
    (simp_all add: chitchat_id_serialize_def chitchat_id_serialized_len_def
      key_value_mutation_serialize_def key_value_mutation_serialized_len_def str_serialize_def
      str_serialized_len_def socket_addr_serialize_def socket_addr_serialized_len_def
      deletion_status_mutation_serialize_def deletion_status_mutation_serialized_len_def
      ip_addr_codec.ser_len)

lemma read_ops_serialized:
  "\<forall>op \<in> set ops. delta_op_valid op \<Longrightarrow> read_ops (concat (map delta_op_serialize ops)) = Ok ops"
proof (induction ops)
  case Nil
  then show ?case by (simp add: read_ops.simps)
next
  case (Cons op ops)
  then show ?case
    by (subst read_ops.simps) (simp add: delta_op_serialize_nonempty delta_op_codec.de_ser)
qed

section \<open>The builder\<close>

text \<open>The node deltas a builder stands for.\<close>

definition built :: "delta_builder \<Rightarrow> node_delta list" where
  "built b = node_deltas (db_delta b)
     @ (case db_current_node_delta b of None \<Rightarrow> [] | Some nd \<Rightarrow> [nd])"

definition builder_wf :: "delta_builder \<Rightarrow> bool" where
  "builder_wf b \<longleftrightarrow> db_existing_nodes b = ndl_chitchat_id ` set (built b)"

definition node_delta_wf :: "node_delta \<Rightarrow> bool" where
  "node_delta_wf nd \<longleftrightarrow> sorted_wrt (<) (map kvm_version (ndl_key_values nd))"

lemma built_default [simp]: "built delta_builder_default = []"
  by (simp add: built_def delta_builder_default_def delta_default_def)

lemma builder_wf_default [simp]: "builder_wf delta_builder_default"
  by (simp add: builder_wf_def) (simp add: delta_builder_default_def)

lemma node_deltas_builder_finish [simp]: "node_deltas (builder_finish b n) = built b"
  by (simp add: builder_finish_def builder_flush_def built_def split: option.splits)

lemma builder_finish_eq: "builder_finish b n = \<lparr>node_deltas = built b, delta_serialized_len = n\<rparr>"
  using node_deltas_builder_finish [of b n]
  by (simp add: builder_finish_def)

lemma apply_op_node:
  assumes "builder_wf b" "i \<notin> ndl_chitchat_id ` set (built b)"
  shows "\<exists>b'. apply_op b (OpNode i gc from_v) = Ok b'
    \<and> built b' = built b @ [\<lparr>ndl_chitchat_id = i, ndl_from_version_excluded = from_v,
          ndl_last_gc_version = gc, ndl_key_values = [], ndl_max_version = None\<rparr>]
    \<and> builder_wf b' \<and> db_current_node_delta b' = Some \<lparr>ndl_chitchat_id = i,
          ndl_from_version_excluded = from_v, ndl_last_gc_version = gc, ndl_key_values = [],
          ndl_max_version = None\<rparr>"
  using assms
  by (auto simp: Let_def builder_wf_def built_def builder_flush_def split: option.splits)

text \<open>Operations on the current node delta.\<close>

lemma built_current:
  "db_current_node_delta b = Some nd \<Longrightarrow>
   built (b\<lparr>db_current_node_delta := Some nd'\<rparr>) = butlast (built b) @ [nd']
   \<and> last (built b) = nd \<and> built b \<noteq> []"
  by (simp add: built_def)

lemma builder_wf_current:
  "builder_wf b \<Longrightarrow> db_current_node_delta b = Some nd \<Longrightarrow>
   ndl_chitchat_id nd' = ndl_chitchat_id nd \<Longrightarrow>
   builder_wf (b\<lparr>db_current_node_delta := Some nd'\<rparr>)"
  by (auto simp: builder_wf_def built_def)

lemma apply_ops_key_values:
  assumes "db_current_node_delta b = Some nd" "builder_wf b"
    and "sorted_wrt (<) (map kvm_version (ndl_key_values nd @ kvs))"
  shows "apply_ops b (map OpKeyValue kvs @ ops) =
     apply_ops (b\<lparr>db_current_node_delta :=
       Some (nd\<lparr>ndl_key_values := ndl_key_values nd @ kvs\<rparr>)\<rparr>) ops"
  using assms
proof (induction kvs arbitrary: b nd)
  case Nil
  have "b\<lparr>db_current_node_delta := Some nd\<rparr> = b"
    using Nil.prems(1) by (cases b) simp
  then show ?case by simp
next
  case (Cons kv kvs)
  let ?nd = "nd\<lparr>ndl_key_values := ndl_key_values nd @ [kv]\<rparr>"
  let ?b = "b\<lparr>db_current_node_delta := Some ?nd\<rparr>"
  have "\<not> (ndl_key_values nd \<noteq> [] \<and> \<not> kvm_version (last (ndl_key_values nd)) < kvm_version kv)"
    using Cons.prems(3) by (simp add: sorted_wrt_append) (metis last_in_set)
  then have step: "apply_op b (OpKeyValue kv) = Ok ?b"
    using Cons.prems(1) by simp
  have "apply_ops ?b (map OpKeyValue kvs @ ops) =
      apply_ops (?b\<lparr>db_current_node_delta :=
        Some (?nd\<lparr>ndl_key_values := ndl_key_values ?nd @ kvs\<rparr>)\<rparr>) ops"
    by (rule Cons.IH) (use Cons.prems builder_wf_current [of b nd ?nd] in simp_all)
  then show ?case using step by simp
qed

lemma apply_ops_node_delta:
  assumes wf: "builder_wf b" and new: "ndl_chitchat_id nd \<notin> ndl_chitchat_id ` set (built b)"
    and nd: "node_delta_wf nd"
  obtains b' where "\<And>ops. apply_ops b (node_delta_operations nd @ ops) = apply_ops b' ops"
    "built b' = built b @ [nd]" "builder_wf b'"
proof -
  let ?nd0 = "nd\<lparr>ndl_key_values := [], ndl_max_version := None\<rparr>"
  let ?nd1 = "nd\<lparr>ndl_max_version := None\<rparr>"
  obtain b1 where b1: "apply_op b (OpNode (ndl_chitchat_id nd) (ndl_last_gc_version nd)
        (ndl_from_version_excluded nd)) = Ok b1"
    "built b1 = built b @ [?nd0]" "builder_wf b1" "db_current_node_delta b1 = Some ?nd0"
    using apply_op_node [OF wf new, of "ndl_last_gc_version nd" "ndl_from_version_excluded nd"]
    by auto
  let ?b2 = "b1\<lparr>db_current_node_delta := Some ?nd1\<rparr>"
  have kvs: "apply_ops b1 (map OpKeyValue (ndl_key_values nd) @ ops) = apply_ops ?b2 ops" for ops
    using apply_ops_key_values [OF b1(4,3), of "ndl_key_values nd" ops] nd
    by (simp add: node_delta_wf_def)
  have b2: "built ?b2 = built b @ [?nd1]" "builder_wf ?b2"
    using built_current [OF b1(4), of ?nd1] builder_wf_current [OF b1(3,4), of ?nd1] b1(2) by simp_all
  show ?thesis
  proof (cases "ndl_max_version nd")
    case None
    then have nd1: "?nd1 = nd" by (cases nd) simp
    show ?thesis
    proof (rule that [of ?b2])
      fix ops
      show "apply_ops b (node_delta_operations nd @ ops) = apply_ops ?b2 ops"
        using b1(1) kvs None by (simp add: node_delta_operations_def)
    qed (use b2 nd1 in simp_all)
  next
    case (Some m)
    let ?b3 = "?b2\<lparr>db_current_node_delta := Some nd\<rparr>"
    from Some have nd1: "?nd1\<lparr>ndl_max_version := Some m\<rparr> = nd" by (cases nd) simp
    have last: "apply_op ?b2 (OpSetMaxVersion m) = Ok ?b3"
      using nd1 by simp
    show ?thesis
    proof (rule that [of ?b3])
      fix ops
      show "apply_ops b (node_delta_operations nd @ ops) = apply_ops ?b3 ops"
        using b1(1) kvs [of "OpSetMaxVersion m # ops"] last Some
        by (simp add: node_delta_operations_def del: apply_op.simps)
      show "built ?b3 = built b @ [nd]" "builder_wf ?b3"
        using b2 built_current [of ?b2 ?nd1 nd] builder_wf_current [of ?b2 ?nd1 nd] by simp_all
    qed
  qed
qed

lemma apply_ops_get_operations:
  assumes "builder_wf b" "\<forall>nd \<in> set nds. node_delta_wf nd"
    and "distinct (map ndl_chitchat_id nds)"
    and "ndl_chitchat_id ` set (built b) \<inter> ndl_chitchat_id ` set nds = {}"
  shows "\<exists>b'. apply_ops b (get_operations nds) = Ok b' \<and> built b' = built b @ nds"
  using assms
proof (induction nds arbitrary: b)
  case Nil
  then show ?case by (simp add: get_operations_def)
next
  case (Cons nd nds)
  obtain b1 where b1: "\<And>ops. apply_ops b (node_delta_operations nd @ ops) = apply_ops b1 ops"
    "built b1 = built b @ [nd]" "builder_wf b1"
    by (rule apply_ops_node_delta [of b nd]) (use Cons.prems in auto)
  have "\<exists>b'. apply_ops b1 (get_operations nds) = Ok b' \<and> built b' = built b1 @ nds"
    by (rule Cons.IH) (use Cons.prems b1 in auto)
  then show ?case
    using b1 by (simp add: get_operations_def)
qed

section \<open>Round trip of a delta\<close>

definition delta_wf :: "node_delta list \<Rightarrow> bool" where
  "delta_wf nds \<longleftrightarrow> distinct (map ndl_chitchat_id nds)
     \<and> (\<forall>nd \<in> set nds. node_delta_wf nd)
     \<and> (\<forall>op \<in> set (get_operations nds). delta_op_valid op \<and> delta_op_serialized_len op \<le> 65535)"

lemma csw_append_ops_ok:
  assumes "zstd_ok z" "csw_wf w" "csw_repr z w data"
    and "\<forall>op \<in> set ops. delta_op_serialized_len op \<le> 65535"
  obtains w' where "csw_append_ops z ops w = Ok w'" "csw_wf w'"
    "csw_repr z w' (data @ concat (map delta_op_serialize ops))"
  using assms
proof (induction ops arbitrary: w data thesis)
  case Nil
  show ?case by (rule Nil.prems(1)) (use Nil.prems in simp_all)
next
  case (Cons op ops)
  obtain w1 where w1: "csw_append z (delta_op_serialize op) (delta_op_serialized_len op) w = Ok w1"
    "csw_repr z w1 (data @ delta_op_serialize op)" "csw_wf w1"
    by (rule csw_append_ok [OF Cons.prems(2-4)]) (use Cons.prems(5) in auto)
  obtain w2 where "csw_append_ops z ops w1 = Ok w2" "csw_wf w2"
    "csw_repr z w2 ((data @ delta_op_serialize op) @ concat (map delta_op_serialize ops))"
    by (rule Cons.IH [OF _ Cons.prems(2) w1(3,2)]) (use Cons.prems(5) in auto)
  then show ?case
    by (intro Cons.prems(1) [of w2]) (simp_all add: w1)
qed

lemma delta_payload:
  assumes "zstd_ok z" "\<forall>op \<in> set ops. delta_op_serialized_len op \<le> 65535"
  obtains w out where "csw_append_ops z ops (with_block_threshold 16384) = Ok w"
    "csw_finish z w = Ok out"
    "\<forall>rest. read_blocks z [] (out @ rest) = Ok (concat (map delta_op_serialize ops), rest)"
proof -
  have wf: "csw_wf (with_block_threshold 16384)"
    by (rule with_block_threshold_wf) simp
  obtain w where w: "csw_append_ops z ops (with_block_threshold 16384) = Ok w" "csw_wf w"
    "csw_repr z w ([] @ concat (map delta_op_serialize ops))"
    by (rule csw_append_ops_ok [OF assms(1) wf with_block_threshold_repr assms(2)])
  obtain out where "csw_finish z w = Ok out"
    "\<forall>rest. read_blocks z [] (out @ rest) = Ok ([] @ concat (map delta_op_serialize ops), rest)"
    using csw_finish_ok [OF assms(1) w(2,3)] by blast
  then show ?thesis
    by (intro that [OF w(1)]) simp_all
qed

lemma delta_deserialize_serialize:
  assumes z: "zstd_ok z" and wf: "delta_wf (node_deltas d)"
    and ser: "delta_serialize z d = Ok bs"
  shows "delta_deserialize z (bs @ rest) = Ok (d, rest)"
proof -
  let ?ops = "get_operations (node_deltas d)"
  have len: "\<forall>op \<in> set ?ops. delta_op_serialized_len op \<le> 65535"
    and valid: "\<forall>op \<in> set ?ops. delta_op_valid op"
    using wf by (simp_all add: delta_wf_def)
  obtain w out where w: "csw_append_ops z ?ops (with_block_threshold 16384) = Ok w"
    "csw_finish z w = Ok out"
    "\<forall>rest. read_blocks z [] (out @ rest) = Ok (concat (map delta_op_serialize ?ops), rest)"
    by (rule delta_payload [OF z len])
  have bs: "bs = out" "length bs = delta_serialized_len d"
    using ser w by (auto simp: delta_serialize_def split: if_splits)
  obtain b where b: "apply_ops delta_builder_default ?ops = Ok b" "built b = node_deltas d"
    using apply_ops_get_operations [of delta_builder_default "node_deltas d"] wf
    by (auto simp: delta_wf_def)
  show ?thesis
    using w(3) bs b read_ops_serialized [OF valid]
    by (simp add: delta_deserialize_def deserialize_stream_def builder_finish_eq)
qed

end
