(* ===== verification/Node_State.thy ===== *)
theory Node_State
  imports Delta
begin

text \<open>
  The state a node keeps about one node of the cluster (\<open>NodeState\<close> of
  \<open>chitchat/src/state.rs\<close>): its key-values with versions and tombstones, its heartbeat, the
  highest version it has seen and the version up to which tombstones were collected.

  The handle to the cluster's listeners is shared by all node states; here it is the list of
  events triggered through this node state, in order. Which callbacks an event reaches is
  modelled in theory \<open>Listener\<close>.
\<close>

section \<open>Model\<close>

record key_change_event =
  kce_key :: string
  kce_value :: string
  kce_node :: chitchat_id

record node_state =
  ns_chitchat_id :: chitchat_id
  ns_heartbeat :: heartbeat
  ns_key_values :: "(string, versioned_value) btree"
  ns_listeners :: "key_change_event list"
  ns_max_version :: version
  ns_last_gc_version :: version

definition node_state_new :: "chitchat_id \<Rightarrow> key_change_event list \<Rightarrow> node_state" where
  "node_state_new i ls =
     \<lparr>ns_chitchat_id = i, ns_heartbeat = 0, ns_key_values = [], ns_listeners = ls,
      ns_max_version = 0, ns_last_gc_version = 0\<rparr>"

definition set_last_gc_version :: "version \<Rightarrow> node_state \<Rightarrow> node_state" where
  "set_last_gc_version v s = s\<lparr>ns_last_gc_version := v\<rparr>"

definition set_max_version :: "version \<Rightarrow> node_state \<Rightarrow> node_state" where
  "set_max_version v s = s\<lparr>ns_max_version := v\<rparr>"

definition key_values_including_deleted :: "node_state \<Rightarrow> (string \<times> versioned_value) list" where
  "key_values_including_deleted s = ns_key_values s"

definition key_values :: "node_state \<Rightarrow> (string \<times> string) list" where
  "key_values s = map (\<lambda>(k, vv). (k, vv_value vv))
     (filter (\<lambda>(_, vv). \<not> is_deleted vv) (key_values_including_deleted s))"

definition num_key_values :: "node_state \<Rightarrow> nat" where
  "num_key_values s = length (key_values s)"

definition get_versioned :: "node_state \<Rightarrow> string \<Rightarrow> versioned_value option" where
  "get_versioned s k = bt_get (ns_key_values s) k"

definition ns_get :: "node_state \<Rightarrow> string \<Rightarrow> string option" where
  "ns_get s k = (case get_versioned s k of
      None \<Rightarrow> None
    | Some vv \<Rightarrow> if is_deleted vv then None else Some (vv_value vv))"

definition contains_key :: "node_state \<Rightarrow> string \<Rightarrow> bool" where
  "contains_key s k = (ns_get s k \<noteq> None)"

text \<open>A range scan from the prefix on, as long as keys start with it.\<close>

definition iter_prefix :: "node_state \<Rightarrow> string \<Rightarrow> (string \<times> versioned_value) list" where
  "iter_prefix s p =
     filter (\<lambda>(_, vv). \<not> is_deleted vv)
       (takeWhile (\<lambda>(k, _). prefix p k)
         (dropWhile (\<lambda>(k, _). k < p) (ns_key_values s)))"

definition set_versioned_value :: "string \<Rightarrow> versioned_value \<Rightarrow> node_state \<Rightarrow> node_state" where
  "set_versioned_value k vv s =
     (let event = \<lparr>kce_key = k, kce_value = vv_value vv, kce_node = ns_chitchat_id s\<rparr>;
          s1 = s\<lparr>ns_max_version := max (vv_version vv) (ns_max_version s)\<rparr>;
          stored = s1\<lparr>ns_key_values := bt_insert k vv (ns_key_values s1),
                      ns_listeners := ns_listeners s1 @ (if is_deleted vv then [] else [event])\<rparr>
      in case bt_get (ns_key_values s) k of
           Some old \<Rightarrow> if vv_version old \<ge> vv_version vv then s1 else stored
         | None \<Rightarrow> stored)"

definition set_with_version :: "string \<Rightarrow> string \<Rightarrow> version \<Rightarrow> node_state \<Rightarrow> node_state result" where
  "set_with_version k v ver s =
     (if \<not> ver > ns_max_version s then Panic AssertionFailed
      else Ok (set_versioned_value k
                 \<lparr>vv_value = v, vv_version = ver, vv_status = StatusSet\<rparr> s))"

definition ns_set :: "string \<Rightarrow> string \<Rightarrow> node_state \<Rightarrow> node_state result" where
  "ns_set k v s =
     (case get_versioned s k of
        Some prev \<Rightarrow>
          if vv_value prev = v \<and> vv_status prev = StatusSet then Ok s
          else set_with_version k v (ns_max_version s + 1) s
      | None \<Rightarrow> set_with_version k v (ns_max_version s + 1) s)"

definition is_delete_after_ttl :: "deletion_status \<Rightarrow> bool" where
  "is_delete_after_ttl st = (case st of StatusDeleteAfterTtl _ \<Rightarrow> True | _ \<Rightarrow> False)"

definition set_with_ttl :: "string \<Rightarrow> string \<Rightarrow> instant \<Rightarrow> node_state \<Rightarrow> node_state" where
  "set_with_ttl k v now s =
     (let store = set_versioned_value k
            \<lparr>vv_value = v, vv_version = ns_max_version s + 1,
             vv_status = StatusDeleteAfterTtl now\<rparr> s
      in case get_versioned s k of
           Some prev \<Rightarrow>
             if vv_value prev = v \<and> is_delete_after_ttl (vv_status prev) then s else store
         | None \<Rightarrow> store)"

definition ns_delete :: "string \<Rightarrow> instant \<Rightarrow> node_state \<Rightarrow> node_state" where
  "ns_delete k now s =
     (case bt_get (ns_key_values s) k of
        None \<Rightarrow> s
      | Some vv \<Rightarrow>
          let m = ns_max_version s + 1
          in s\<lparr>ns_max_version := m,
               ns_key_values := bt_insert k
                 (vv\<lparr>vv_version := m, vv_value := '''', vv_status := into_status MutDelete now\<rparr>)
                 (ns_key_values s)\<rparr>)"

definition delete_after_ttl :: "string \<Rightarrow> instant \<Rightarrow> node_state \<Rightarrow> node_state" where
  "delete_after_ttl k now s =
     (case bt_get (ns_key_values s) k of
        None \<Rightarrow> s
      | Some vv \<Rightarrow>
          let m = ns_max_version s + 1
          in s\<lparr>ns_max_version := m,
               ns_key_values := bt_insert k
                 (vv\<lparr>vv_version := m, vv_status := into_status MutDeleteAfterTtl now\<rparr>)
                 (ns_key_values s)\<rparr>)"

definition inc_heartbeat :: "node_state \<Rightarrow> node_state" where
  "inc_heartbeat s = s\<lparr>ns_heartbeat := heartbeat_inc (ns_heartbeat s)\<rparr>"

definition try_set_heartbeat :: "heartbeat \<Rightarrow> node_state \<Rightarrow> bool \<times> node_state" where
  "try_set_heartbeat h s =
     (if ns_heartbeat s = 0 then (False, s\<lparr>ns_heartbeat := h\<rparr>)
      else if h > ns_heartbeat s then (True, s\<lparr>ns_heartbeat := h\<rparr>)
      else (False, s))"

definition ns_digest :: "node_state \<Rightarrow> node_digest" where
  "ns_digest s = \<lparr>nd_heartbeat = ns_heartbeat s, nd_last_gc_version = ns_last_gc_version s,
     nd_max_version = ns_max_version s\<rparr>"

text \<open>\<open>gc_keep\<close> is the closure passed to \<open>retain\<close>; what it drops raises \<open>max_deleted_version\<close>.\<close>

definition gc_keep :: "instant \<Rightarrow> duration \<Rightarrow> versioned_value \<Rightarrow> bool" where
  "gc_keep now grace vv =
     (case time_of_start_scheduled_for_deletion (vv_status vv) of
        None \<Rightarrow> True
      | Some start \<Rightarrow> now < start + grace)"

definition gc_keys_marked_for_deletion :: "instant \<Rightarrow> duration \<Rightarrow> node_state \<Rightarrow> node_state" where
  "gc_keys_marked_for_deletion now grace s =
     s\<lparr>ns_key_values := bt_retain (\<lambda>_ vv. gc_keep now grace vv) (ns_key_values s),
       ns_last_gc_version :=
         fold (\<lambda>(_, vv) m. if gc_keep now grace vv then m else max (vv_version vv) m)
           (ns_key_values s) (ns_last_gc_version s)\<rparr>"

definition remove_key_value_internal :: "string \<Rightarrow> node_state \<Rightarrow> node_state" where
  "remove_key_value_internal k s = s\<lparr>ns_key_values := bt_remove k (ns_key_values s)\<rparr>"

definition stale_key_values :: "node_state \<Rightarrow> version \<Rightarrow> (string \<times> versioned_value) list" where
  "stale_key_values s floor_version =
     filter (\<lambda>(_, vv). vv_version vv > floor_version) (key_values_including_deleted s)"

section \<open>Applying a delta\<close>

fun versions_max :: "version list \<Rightarrow> version option" where
  "versions_max [] = None"
| "versions_max (v # vs) = Some (fold max vs v)"

definition node_delta_max_version :: "node_delta \<Rightarrow> version option" where
  "node_delta_max_version nd =
     (case versions_max (map kvm_version (ndl_key_values nd)) of
        Some m \<Rightarrow> Some m | None \<Rightarrow> ndl_max_version nd)"

definition prepare_apply_delta :: "node_delta \<Rightarrow> node_state \<Rightarrow> bool \<times> node_state" where
  "prepare_apply_delta nd s =
     (if ndl_from_version_excluded nd > ns_max_version s then (False, s)
      else if ns_max_version s > ndl_last_gc_version nd then (True, s)
      else if ns_last_gc_version s \<ge> ndl_last_gc_version nd then (True, s)
      else case node_delta_max_version nd of
             None \<Rightarrow> (False, s)
           | Some delta_max_version \<Rightarrow>
               if (ndl_last_gc_version nd, delta_max_version)
                    \<le> (ns_last_gc_version s, ns_max_version s)
               then (False, s)
               else
                 let fresh = node_state_new (ndl_chitchat_id nd) (ns_listeners s);
                     bumped = (case ndl_max_version nd of
                                 Some m \<Rightarrow> if ndl_key_values nd = [] then fresh\<lparr>ns_max_version := m\<rparr>
                                           else fresh
                               | None \<Rightarrow> fresh)
                 in (True, bumped\<lparr>ns_last_gc_version := ndl_last_gc_version nd\<rparr>))"

text \<open>One turn of the loop over the mutations; \<open>cur\<close> is \<open>current_max_version\<close>, read before the loop.\<close>

definition apply_mutation :: "version \<Rightarrow> instant \<Rightarrow> key_value_mutation \<Rightarrow> node_state \<Rightarrow> node_state" where
  "apply_mutation cur now kv s =
     (if kvm_version kv \<le> cur then s
      else if scheduled_for_deletion (kvm_status kv) \<and> kvm_version kv \<le> ns_last_gc_version s then s
      else set_versioned_value (kvm_key kv)
             \<lparr>vv_value = kvm_value kv, vv_version = kvm_version kv,
              vv_status = into_status (kvm_status kv) now\<rparr> s)"

definition ns_apply_delta :: "node_delta \<Rightarrow> instant \<Rightarrow> node_state \<Rightarrow> node_state" where
  "ns_apply_delta nd now s =
     (case prepare_apply_delta nd s of
        (False, s') \<Rightarrow> s'
      | (True, s') \<Rightarrow> fold (apply_mutation (ns_max_version s') now) (ndl_key_values nd) s')"

section \<open>Reads\<close>

text \<open>
  The invariant of a node state: entries in key order, no entry newer than \<open>max_version\<close>,
  and no two entries with the same version (each write has a version of its own).
\<close>

definition ns_inv :: "node_state \<Rightarrow> bool" where
  "ns_inv s \<longleftrightarrow> bt_wf (ns_key_values s)
     \<and> (\<forall>k vv. bt_get (ns_key_values s) k = Some vv \<longrightarrow> vv_version vv \<le> ns_max_version s)
     \<and> (\<forall>k vv k' vv'. bt_get (ns_key_values s) k = Some vv \<and> bt_get (ns_key_values s) k' = Some vv'
          \<and> vv_version vv = vv_version vv' \<longrightarrow> k = k')"

lemma ns_inv_new: "ns_inv (node_state_new i ls)"
  by (simp add: ns_inv_def node_state_new_def)

lemma append_ge: "p \<le> p @ (r :: string)"
  by (induction p) auto

lemma prefix_less_extend: "prefix p k \<Longrightarrow> p \<le> (k :: string)"
  by (auto elim!: prefixE intro: append_ge)

lemma prefix_interval:
  "prefix p c \<Longrightarrow> p \<le> b \<Longrightarrow> b \<le> c \<Longrightarrow> prefix p (b :: string)"
proof (induction p arbitrary: b c)
  case Nil
  then show ?case by simp
next
  case (Cons x p)
  then obtain c' where c: "c = x # c'" "prefix p c'" by (cases c) auto
  from Cons.prems obtain y b' where b: "b = y # b'" by (cases b) auto
  with Cons.prems c have "y = x" by auto
  with Cons b c show ?case by auto
qed

lemma takeWhile_prefix_sorted:
  assumes "bt_wf m" "\<forall>k \<in> fst ` set m. p \<le> k"
  shows "takeWhile (\<lambda>(k, _). prefix p k) m = filter (\<lambda>(k, _). prefix p k) (m :: (string \<times> 'v) list)"
  using assms
proof (induction m)
  case Nil
  then show ?case by simp
next
  case (Cons kv m)
  obtain k v where kv: "kv = (k, v)" by (cases kv)
  show ?case
  proof (cases "prefix p k")
    case True
    with Cons kv show ?thesis by auto
  next
    case False
    have "\<not> prefix p k'" if "k' \<in> fst ` set m" for k'
      using prefix_interval [of p k' k] False Cons.prems kv that by (auto intro: less_imp_le)
    then have "filter (\<lambda>(k, _). prefix p k) m = []"
      by (force simp: filter_empty_conv)
    with False kv show ?thesis by simp
  qed
qed

lemma dropWhile_less_sorted:
  assumes "bt_wf m"
  shows "dropWhile (\<lambda>(k, _). k < p) m = filter (\<lambda>(k, _). \<not> k < p) m"
  using assms
proof (induction m)
  case Nil
  then show ?case by simp
next
  case (Cons kv m)
  obtain k v where kv: "kv = (k, v)" by (cases kv)
  show ?case
  proof (cases "k < p")
    case True
    with Cons kv show ?thesis by simp
  next
    case False
    have "filter (\<lambda>(k, _). \<not> k < p) m = m"
      using Cons.prems False kv by (force simp: filter_id_conv dest: less_trans)
    with False kv show ?thesis by simp
  qed
qed

lemma iter_prefix_filter:
  assumes "bt_wf (ns_key_values s)"
  shows "iter_prefix s p =
    filter (\<lambda>(k, vv). prefix p k \<and> \<not> is_deleted vv) (ns_key_values s)"
proof -
  let ?ge = "filter (\<lambda>(k, _). \<not> k < p) (ns_key_values s)"
  have "takeWhile (\<lambda>(k, _). prefix p k) ?ge = filter (\<lambda>(k, _). prefix p k) ?ge"
    by (rule takeWhile_prefix_sorted) (use assms in \<open>auto simp: bt_wf_filter\<close>)
  moreover have "prefix p k \<Longrightarrow> \<not> k < p" for k
    using prefix_less_extend leD by blast
  ultimately show ?thesis
    unfolding iter_prefix_def dropWhile_less_sorted [OF assms]
    by (auto simp: case_prod_beta intro!: filter_cong)
qed

end
