(* ===== verification/Node_State_Correct.thy ===== *)
theory Node_State_Correct
  imports Node_State
begin

text \<open>
  What the operations of a node state do, on every branch, and that each keeps the invariant
  \<open>ns_inv\<close>: entries in key order, no entry newer than \<open>max_version\<close>, versions unique.
\<close>

section \<open>Storing a versioned value\<close>

text \<open>A value is stored when the key is absent or holds an older version.\<close>

definition accepts_version :: "node_state \<Rightarrow> string \<Rightarrow> version \<Rightarrow> bool" where
  "accepts_version s k v = (case get_versioned s k of None \<Rightarrow> True | Some old \<Rightarrow> vv_version old < v)"

lemma svv_fields [simp]:
  "ns_max_version (set_versioned_value k vv s) = max (vv_version vv) (ns_max_version s)"
  "ns_last_gc_version (set_versioned_value k vv s) = ns_last_gc_version s"
  "ns_chitchat_id (set_versioned_value k vv s) = ns_chitchat_id s"
  "ns_heartbeat (set_versioned_value k vv s) = ns_heartbeat s"
  by (simp_all add: set_versioned_value_def Let_def split: option.splits)

lemma get_svv:
  "get_versioned (set_versioned_value k vv s) j =
     (if j = k \<and> accepts_version s k (vv_version vv) then Some vv else get_versioned s j)"
  by (auto simp: set_versioned_value_def Let_def get_versioned_def accepts_version_def bt_get_insert
      split: option.splits)

lemma bt_wf_svv: "bt_wf (ns_key_values s) \<Longrightarrow> bt_wf (ns_key_values (set_versioned_value k vv s))"
  by (simp add: set_versioned_value_def Let_def bt_wf_insert split: option.splits)

lemma listeners_svv:
  "ns_listeners (set_versioned_value k vv s) = ns_listeners s @
     (if accepts_version s k (vv_version vv) \<and> \<not> is_deleted vv
      then [\<lparr>kce_key = k, kce_value = vv_value vv, kce_node = ns_chitchat_id s\<rparr>] else [])"
  by (auto simp: set_versioned_value_def Let_def get_versioned_def accepts_version_def
      split: option.splits)

lemma ns_inv_get:
  "ns_inv s \<longleftrightarrow> bt_wf (ns_key_values s)
     \<and> (\<forall>k vv. get_versioned s k = Some vv \<longrightarrow> vv_version vv \<le> ns_max_version s)
     \<and> (\<forall>k vv k' vv'. get_versioned s k = Some vv \<and> get_versioned s k' = Some vv'
          \<and> vv_version vv = vv_version vv' \<longrightarrow> k = k')"
  by (simp add: ns_inv_def get_versioned_def)

lemma ns_inv_version_le: "ns_inv s \<Longrightarrow> get_versioned s k = Some vv \<Longrightarrow> vv_version vv \<le> ns_max_version s"
  by (auto simp: ns_inv_get)

lemma ns_inv_accepts: "ns_inv s \<Longrightarrow> ns_max_version s < v \<Longrightarrow> accepts_version s k v"
  using ns_inv_version_le [of s k]
  by (auto simp: accepts_version_def split: option.splits)

lemma ns_inv_svv:
  assumes "ns_inv s"
    and "\<And>k' vv'. get_versioned s k' = Some vv' \<Longrightarrow> k' \<noteq> k \<Longrightarrow> vv_version vv' \<noteq> vv_version vv"
  shows "ns_inv (set_versioned_value k vv s)"
  using assms unfolding ns_inv_get
  by (auto simp: get_svv bt_wf_svv le_max_iff_disj split: if_splits) metis+

lemma ns_inv_svv_newer:
  "ns_inv s \<Longrightarrow> ns_max_version s < vv_version vv \<Longrightarrow> ns_inv (set_versioned_value k vv s)"
  by (rule ns_inv_svv) (auto dest: ns_inv_version_le)

section \<open>Owner operations\<close>

lemma word_less_Suc: "(x :: u64) \<noteq> - 1 \<Longrightarrow> x < x + 1"
proof -
  assume "x \<noteq> - 1"
  then have "1 + x \<noteq> 0"
    using max_word_wrap [of x] by (auto simp: add.commute)
  then have "unat (x + 1) = Suc (unat x)"
    by (simp add: unatSuc add.commute)
  then show ?thesis
    by (simp add: word_less_nat_alt)
qed

text \<open>What \<open>set\<close> does: nothing, a new version, or a panic once versions are exhausted.\<close>

definition already_set :: "node_state \<Rightarrow> string \<Rightarrow> string \<Rightarrow> bool" where
  "already_set s k v = (case get_versioned s k of
      Some vv \<Rightarrow> vv_value vv = v \<and> vv_status vv = StatusSet | None \<Rightarrow> False)"

lemma ns_set_cases:
  "ns_set k v s =
     (if already_set s k v then Ok s
      else if ns_max_version s = - 1 then Panic AssertionFailed
      else Ok (set_versioned_value k
             \<lparr>vv_value = v, vv_version = ns_max_version s + 1, vv_status = StatusSet\<rparr> s))"
  by (auto simp: ns_set_def set_with_version_def already_set_def word_less_Suc
      split: option.splits)

lemma ns_set_inv:
  assumes "ns_inv s" "ns_set k v s = Ok s'"
  shows "ns_inv s'"
  using assms
  by (auto simp: ns_set_cases word_less_Suc intro!: ns_inv_svv_newer split: if_splits)

lemma ns_set_get:
  assumes "ns_inv s" "ns_set k v s = Ok s'"
  shows "ns_get s' j = (if j = k then Some v else ns_get s j)"
proof (cases "already_set s k v")
  case True
  with assms show ?thesis
    by (auto simp: ns_set_cases already_set_def ns_get_def is_deleted_def split: option.splits)
next
  case False
  with assms have "ns_max_version s \<noteq> - 1"
    and s': "s' = set_versioned_value k
      \<lparr>vv_value = v, vv_version = ns_max_version s + 1, vv_status = StatusSet\<rparr> s"
    by (auto simp: ns_set_cases split: if_splits)
  then have "accepts_version s k (ns_max_version s + 1)"
    using ns_inv_accepts [OF assms(1)] word_less_Suc by blast
  then show ?thesis
    by (simp add: s' ns_get_def get_svv is_deleted_def)
qed

lemma ns_update_inv:
  assumes "ns_inv s" "ns_max_version s \<noteq> - 1" "vv_version vv = ns_max_version s + 1"
  shows "ns_inv (s\<lparr>ns_max_version := ns_max_version s + 1,
      ns_key_values := bt_insert k vv (ns_key_values s)\<rparr>)"
proof -
  have "ns_max_version s < ns_max_version s + 1"
    by (rule word_less_Suc [OF assms(2)])
  then have "vv_version vv' < ns_max_version s + 1"
    if "bt_get (ns_key_values s) k' = Some vv'" for k' vv'
    using assms(1) that unfolding ns_inv_def by (meson le_less_trans)
  then have new: "vv_version vv' \<le> ns_max_version s + 1" "vv_version vv' \<noteq> ns_max_version s + 1"
    if "bt_get (ns_key_values s) k' = Some vv'" for k' vv'
    using that by (auto intro: less_imp_le dest: less_imp_neq)
  from assms(1) show ?thesis
    unfolding ns_inv_def by (simp add: bt_wf_insert bt_get_insert assms(3)) (blast dest: new sym)
qed

lemma ns_delete_inv: "ns_inv s \<Longrightarrow> ns_max_version s \<noteq> - 1 \<Longrightarrow> ns_inv (ns_delete k now s)"
  by (auto simp: ns_delete_def Let_def split: option.splits intro!: ns_update_inv)

lemma delete_after_ttl_inv:
  "ns_inv s \<Longrightarrow> ns_max_version s \<noteq> - 1 \<Longrightarrow> ns_inv (delete_after_ttl k now s)"
  by (auto simp: delete_after_ttl_def Let_def split: option.splits intro!: ns_update_inv)

lemma set_with_ttl_inv:
  "ns_inv s \<Longrightarrow> ns_max_version s \<noteq> - 1 \<Longrightarrow> ns_inv (set_with_ttl k v now s)"
  by (auto simp: set_with_ttl_def Let_def word_less_Suc split: option.splits intro!: ns_inv_svv_newer)

lemma ns_delete_get:
  "ns_get (ns_delete k now s) j = (if j = k then None else ns_get s j)"
  by (auto simp: ns_delete_def Let_def ns_get_def get_versioned_def bt_get_insert is_deleted_def
      split: option.splits)

lemma delete_after_ttl_get:
  "ns_get (delete_after_ttl k now s) j =
     (if j = k then map_option vv_value (get_versioned s k) else ns_get s j)"
  by (auto simp: delete_after_ttl_def Let_def ns_get_def get_versioned_def bt_get_insert
      is_deleted_def split: option.splits)

section \<open>Garbage collection\<close>

lemma gc_max_deleted:
  "fold (\<lambda>(_, vv) m. if P vv then m else max (vv_version vv) m) kvs g
     = fold max (map (\<lambda>(_, vv). vv_version vv) (filter (\<lambda>(_, vv). \<not> P vv) kvs)) g"
  by (induction kvs arbitrary: g) auto

lemma fold_max_ge: "(x :: 'a::linorder) \<le> fold max xs x" "y \<in> set xs \<Longrightarrow> y \<le> fold max xs x"
proof (induction xs arbitrary: x)
  case (Cons a xs)
  {
    case 1
    show ?case using Cons(1) [of "max a x"] by (simp add: max.coboundedI1)
  next
    case 2
    then show ?case
      using Cons(1,2) [of "max a x"] by (auto intro: order_trans [OF max.cobounded1])
  }
qed simp_all

lemma fold_max_cases: "fold max xs (x :: 'a::linorder) = x \<or> fold max xs x \<in> set xs"
proof (induction xs arbitrary: x)
  case (Cons a xs)
  then show ?case
    using Cons [of "max a x"] by (auto simp: max_def split: if_splits)
qed simp

lemma gc_get:
  "bt_wf (ns_key_values s) \<Longrightarrow>
   get_versioned (gc_keys_marked_for_deletion now grace s) k =
     (case get_versioned s k of None \<Rightarrow> None
      | Some vv \<Rightarrow> if gc_keep now grace vv then Some vv else None)"
  by (simp add: get_versioned_def gc_keys_marked_for_deletion_def bt_get_retain)

lemma gc_fields [simp]:
  "ns_max_version (gc_keys_marked_for_deletion now grace s) = ns_max_version s"
  "ns_chitchat_id (gc_keys_marked_for_deletion now grace s) = ns_chitchat_id s"
  "ns_heartbeat (gc_keys_marked_for_deletion now grace s) = ns_heartbeat s"
  "ns_listeners (gc_keys_marked_for_deletion now grace s) = ns_listeners s"
  by (simp_all add: gc_keys_marked_for_deletion_def)

lemma gc_wf:
  "bt_wf (ns_key_values s) \<Longrightarrow> bt_wf (ns_key_values (gc_keys_marked_for_deletion now grace s))"
  by (simp add: gc_keys_marked_for_deletion_def bt_retain_def bt_wf_filter)

lemma gc_last_gc_version:
  assumes "bt_wf (ns_key_values s)"
  shows "ns_last_gc_version s \<le> ns_last_gc_version (gc_keys_marked_for_deletion now grace s)"
    and "get_versioned s k = Some vv \<Longrightarrow> \<not> gc_keep now grace vv \<Longrightarrow>
      vv_version vv \<le> ns_last_gc_version (gc_keys_marked_for_deletion now grace s)"
    and "ns_last_gc_version (gc_keys_marked_for_deletion now grace s) = ns_last_gc_version s \<or>
      (\<exists>k vv. get_versioned s k = Some vv \<and> \<not> gc_keep now grace vv \<and>
         vv_version vv = ns_last_gc_version (gc_keys_marked_for_deletion now grace s))"
proof -
  let ?dropped = "map (\<lambda>(_, vv). vv_version vv)
    (filter (\<lambda>(_, vv). \<not> gc_keep now grace vv) (ns_key_values s))"
  have eq: "ns_last_gc_version (gc_keys_marked_for_deletion now grace s)
      = fold max ?dropped (ns_last_gc_version s)"
    by (simp add: gc_keys_marked_for_deletion_def gc_max_deleted)
  show "ns_last_gc_version s \<le> ns_last_gc_version (gc_keys_marked_for_deletion now grace s)"
    unfolding eq by (rule fold_max_ge)
  show "vv_version vv \<le> ns_last_gc_version (gc_keys_marked_for_deletion now grace s)"
    if "get_versioned s k = Some vv" "\<not> gc_keep now grace vv"
    unfolding eq using that assms
    by (intro fold_max_ge) (force simp: get_versioned_def bt_get_iff)
  show "ns_last_gc_version (gc_keys_marked_for_deletion now grace s) = ns_last_gc_version s \<or>
      (\<exists>k vv. get_versioned s k = Some vv \<and> \<not> gc_keep now grace vv \<and>
         vv_version vv = ns_last_gc_version (gc_keys_marked_for_deletion now grace s))"
    unfolding eq using fold_max_cases [of ?dropped "ns_last_gc_version s"]
  proof
    assume "fold max ?dropped (ns_last_gc_version s) \<in> set ?dropped"
    then obtain k vv where "(k, vv) \<in> set (ns_key_values s)" "\<not> gc_keep now grace vv"
      "vv_version vv = fold max ?dropped (ns_last_gc_version s)"
      by auto
    then show "fold max ?dropped (ns_last_gc_version s) = ns_last_gc_version s \<or>
        (\<exists>k vv. get_versioned s k = Some vv \<and> \<not> gc_keep now grace vv \<and>
           vv_version vv = fold max ?dropped (ns_last_gc_version s))"
      using assms by (metis bt_get_iff get_versioned_def)
  qed blast
qed

lemma gc_inv: "ns_inv s \<Longrightarrow> ns_inv (gc_keys_marked_for_deletion now grace s)"
  unfolding ns_inv_get
  by (auto simp: gc_wf gc_get split: option.splits if_splits)

text \<open>Only values scheduled for deletion are ever dropped.\<close>

lemma gc_drops_scheduled:
  "\<not> gc_keep now grace vv \<Longrightarrow> scheduled_for_deletion (mutation_of_status (vv_status vv))"
  by (auto simp: gc_keep_def scheduled_iff_time split: option.splits)

end
