(* ===== verification/Cluster_State.thy ===== *)
theory Cluster_State
  imports Node_State
begin

text \<open>
  What a node knows of the whole cluster (\<open>ClusterState\<close> of \<open>chitchat/src/state.rs\<close>) and the
  Scuttlebutt reconciliation: digests, the choice of stale nodes in order of staleness and the
  partial delta that fits a datagram.

  The shuffle of equally stale nodes is a parameter: \<open>sh key ns\<close> is the order the random
  generator gives to the group of nodes with staleness \<open>key\<close>.
\<close>

section \<open>State\<close>

record cluster_state =
  cs_node_states :: "(chitchat_id, node_state) btree"
  cs_seed_addrs :: "socket_addr set"

definition with_seed_addrs :: "socket_addr set \<Rightarrow> cluster_state" where
  "with_seed_addrs seeds = \<lparr>cs_node_states = [], cs_seed_addrs = seeds\<rparr>"

text \<open>
  \<open>node_state_mut\<close> returns a mutable reference to the entry, created when absent; \<open>f\<close> is what
  the caller does through the reference.
\<close>

definition node_state_or_new :: "chitchat_id \<Rightarrow> cluster_state \<Rightarrow> node_state" where
  "node_state_or_new i cs = (case bt_get (cs_node_states cs) i of
      Some s \<Rightarrow> s | None \<Rightarrow> node_state_new i [])"

definition node_state_mut ::
  "chitchat_id \<Rightarrow> (node_state \<Rightarrow> node_state) \<Rightarrow> cluster_state \<Rightarrow> cluster_state" where
  "node_state_mut i f cs =
     cs\<lparr>cs_node_states := bt_insert i (f (node_state_or_new i cs)) (cs_node_states cs)\<rparr>"

definition cs_node_state :: "cluster_state \<Rightarrow> chitchat_id \<Rightarrow> node_state option" where
  "cs_node_state cs i = bt_get (cs_node_states cs) i"

definition cs_nodes :: "cluster_state \<Rightarrow> chitchat_id list" where
  "cs_nodes cs = map fst (cs_node_states cs)"

definition remove_node :: "chitchat_id \<Rightarrow> cluster_state \<Rightarrow> cluster_state" where
  "remove_node i cs = cs\<lparr>cs_node_states := bt_remove i (cs_node_states cs)\<rparr>"

definition cs_apply_delta :: "delta \<Rightarrow> instant \<Rightarrow> cluster_state \<Rightarrow> cluster_state" where
  "cs_apply_delta d now cs =
     fold (\<lambda>nd cs. node_state_mut (ndl_chitchat_id nd) (ns_apply_delta nd now) cs)
       (node_deltas d) cs"

definition compute_digest :: "chitchat_id set \<Rightarrow> cluster_state \<Rightarrow> digest" where
  "compute_digest sched cs =
     \<lparr>node_digests = bt_map_values ns_digest
        (bt_retain (\<lambda>i _. i \<notin> sched) (cs_node_states cs))\<rparr>"

definition cs_gc_keys_marked_for_deletion ::
  "instant \<Rightarrow> duration \<Rightarrow> cluster_state \<Rightarrow> cluster_state" where
  "cs_gc_keys_marked_for_deletion now grace cs =
     cs\<lparr>cs_node_states :=
         bt_map_values (gc_keys_marked_for_deletion now grace) (cs_node_states cs)\<rparr>"

section \<open>Staleness\<close>

record staleness =
  st_is_unknown :: bool
  st_max_version :: version
  st_num_stale_key_values :: nat

text \<open>
  \<open>Ord for Staleness\<close> as a key: unknown nodes above known ones, among unknown nodes the lowest
  \<open>max_version\<close> on top, among known nodes the most stale key-values on top. Two staleness values
  the comparison calls equal are one key of the map of groups.
\<close>

type_synonym staleness_key = "bool \<times> int"

definition staleness_cmp_key :: "staleness \<Rightarrow> staleness_key" where
  "staleness_cmp_key st =
     (if st_is_unknown st then (True, - int (unat (st_max_version st)))
      else (False, int (st_num_stale_key_values st)))"

definition staleness_score :: "node_state \<Rightarrow> version \<Rightarrow> staleness option" where
  "staleness_score s floor_version =
     (if ns_max_version s \<le> floor_version then None
      else
        let is_unknown = (floor_version = 0);
            n = (if is_unknown then num_key_values s
                 else length (Node_State.stale_key_values s floor_version))
        in Some \<lparr>st_is_unknown = is_unknown, st_max_version = ns_max_version s,
                 st_num_stale_key_values = n\<rparr>)"

record stale_node =
  sn_chitchat_id :: chitchat_id
  sn_node_state :: node_state
  sn_from_version_excluded :: version

type_synonym sorted_stale_nodes = "(staleness_key, stale_node list) btree"

definition offer ::
  "chitchat_id \<Rightarrow> node_state \<Rightarrow> version \<Rightarrow> sorted_stale_nodes \<Rightarrow> sorted_stale_nodes" where
  "offer i s from_v groups =
     (case staleness_score s from_v of
        None \<Rightarrow> groups
      | Some st \<Rightarrow>
          let key = staleness_cmp_key st;
              sn = \<lparr>sn_chitchat_id = i, sn_node_state = s, sn_from_version_excluded = from_v\<rparr>;
              grp = (case bt_get groups key of Some g \<Rightarrow> g | None \<Rightarrow> [])
          in bt_insert key (grp @ [sn]) groups)"

type_synonym shuffle = "staleness_key \<Rightarrow> stale_node list \<Rightarrow> stale_node list"

definition stale_nodes_into_iter :: "shuffle \<Rightarrow> sorted_stale_nodes \<Rightarrow> stale_node list" where
  "stale_nodes_into_iter sh groups = concat (map (\<lambda>(key, g). sh key g) (rev groups))"

text \<open>\<open>StaleNode::stale_key_values\<close>: oldest version first.\<close>

definition sn_stale_key_values :: "stale_node \<Rightarrow> (string \<times> versioned_value) list" where
  "sn_stale_key_values sn =
     sort_key (\<lambda>(_, vv). vv_version vv)
       (Node_State.stale_key_values (sn_node_state sn) (sn_from_version_excluded sn))"

section \<open>The partial delta\<close>

definition delta_from_version :: "digest \<Rightarrow> chitchat_id \<Rightarrow> node_state \<Rightarrow> version option" where
  "delta_from_version dg i s =
     (let (digest_gc, digest_max) =
            (case bt_get (node_digests dg) i of
               Some nd \<Rightarrow> (nd_last_gc_version nd, nd_max_version nd) | None \<Rightarrow> (0, 0))
      in if ns_max_version s \<le> digest_max then None
         else
           let should_reset =
                 digest_gc < ns_last_gc_version s \<and> digest_max < ns_last_gc_version s
           in Some (if should_reset then 0 else digest_max))"

definition collect_stale_nodes ::
  "digest \<Rightarrow> chitchat_id set \<Rightarrow> cluster_state \<Rightarrow> sorted_stale_nodes" where
  "collect_stale_nodes dg sched cs =
     fold (\<lambda>(i, s) groups.
         if i \<in> sched then groups
         else case delta_from_version dg i s of
                None \<Rightarrow> groups | Some from_v \<Rightarrow> offer i s from_v groups)
       (cs_node_states cs) []"

text \<open>
  The loop over the key-values of one stale node: whether all were added, whether any was, and
  the serializer.
\<close>

fun add_kvs ::
  "zstd \<Rightarrow> (string \<times> versioned_value) list \<Rightarrow> bool \<Rightarrow> delta_serializer \<Rightarrow>
   (bool \<times> bool \<times> delta_serializer) result" where
  "add_kvs z [] added s = Ok (True, added, s)"
| "add_kvs z ((k, vv) # kvs) added s =
     and_then (try_add_kv z k vv s) (\<lambda>(fits, s).
     if \<not> fits then Ok (False, added, s) else add_kvs z kvs True s)"

fun add_stale_nodes :: "zstd \<Rightarrow> stale_node list \<Rightarrow> delta_serializer \<Rightarrow> delta result" where
  "add_stale_nodes z [] s = ds_finish z s"
| "add_stale_nodes z (sn # sns) s =
     and_then (try_add_node z (sn_chitchat_id sn) (ns_last_gc_version (sn_node_state sn))
                 (sn_from_version_excluded sn) s) (\<lambda>(fits, s).
     if \<not> fits then ds_finish z s
     else and_then (add_kvs z (sn_stale_key_values sn) False s) (\<lambda>(all_added, added_something, s).
          if \<not> all_added then ds_finish z s
          else if added_something then add_stale_nodes z sns s
          else and_then (try_set_max_version z (ns_max_version (sn_node_state sn)) s) (\<lambda>(_, s).
               add_stale_nodes z sns s)))"

definition compute_partial_delta_respecting_mtu ::
  "zstd \<Rightarrow> shuffle \<Rightarrow> digest \<Rightarrow> nat \<Rightarrow> chitchat_id set \<Rightarrow> cluster_state \<Rightarrow> delta result" where
  "compute_partial_delta_respecting_mtu z sh dg mtu sched cs =
     (let stale = stale_nodes_into_iter sh (collect_stale_nodes dg sched cs)
      in and_then (with_mtu mtu) (\<lambda>s. add_stale_nodes z stale s))"

record cluster_state_snapshot =
  snap_node_states :: "node_state list"
  snap_seed_addrs :: "socket_addr set"

definition cluster_state_snapshot_of :: "cluster_state \<Rightarrow> cluster_state_snapshot" where
  "cluster_state_snapshot_of cs =
     \<lparr>snap_node_states = map snd (cs_node_states cs), snap_seed_addrs = cs_seed_addrs cs\<rparr>"

end
