(* ===== verification/Stale_Nodes.thy ===== *)
theory Stale_Nodes
  imports Cluster_State "HOL-Library.Multiset"
begin

text \<open>
  Which nodes a delta may be about, and in which order: the stale nodes come out in decreasing
  order of staleness, each exactly once, for every shuffle of equally stale nodes.
\<close>

section \<open>Groups of equally stale nodes\<close>

definition group_members :: "sorted_stale_nodes \<Rightarrow> stale_node multiset" where
  "group_members groups = mset (concat (map snd groups))"

definition stale_key :: "stale_node \<Rightarrow> staleness_key option" where
  "stale_key sn = map_option staleness_cmp_key
     (staleness_score (sn_node_state sn) (sn_from_version_excluded sn))"

definition groups_wf :: "sorted_stale_nodes \<Rightarrow> bool" where
  "groups_wf groups \<longleftrightarrow> bt_wf groups
     \<and> (\<forall>(key, g) \<in> set groups. \<forall>sn \<in> set g. stale_key sn = Some key)"

lemma group_members_push:
  assumes "bt_wf groups"
  shows "group_members (bt_insert key
      ((case bt_get groups key of Some g \<Rightarrow> g | None \<Rightarrow> []) @ [sn]) groups)
    = add_mset sn (group_members groups)"
  using assms
proof (induction groups)
  case Nil
  then show ?case by (simp add: group_members_def)
next
  case (Cons kg groups)
  obtain k g where kg: "kg = (k, g)" by (cases kg)
  have "bt_get groups key = None" if "key < k"
    using Cons.prems kg that
    by (auto simp: bt_get_def map_of_eq_None_iff dest: less_asym)
  then show ?case
    using Cons kg by (auto simp: group_members_def)
qed

lemma offer_wf:
  assumes "groups_wf groups"
  shows "groups_wf (offer i s from_v groups)"
proof (cases "staleness_score s from_v")
  case None
  then show ?thesis using assms by (simp add: offer_def)
next
  case (Some st)
  let ?key = "staleness_cmp_key st"
  let ?sn = "\<lparr>sn_chitchat_id = i, sn_node_state = s, sn_from_version_excluded = from_v\<rparr>"
  let ?g = "(case bt_get groups ?key of Some g \<Rightarrow> g | None \<Rightarrow> []) @ [?sn]"
  have wf: "bt_wf groups" "bt_wf (bt_insert ?key ?g groups)"
    using assms bt_wf_insert by (auto simp: groups_wf_def)
  have old: "stale_key sn = Some key" if "bt_get groups key = Some g" "sn \<in> set g" for key g sn
    using assms that bt_get_iff [OF wf(1)] by (auto simp: groups_wf_def)
  have "stale_key sn = Some key"
    if kg: "(key, g) \<in> set (bt_insert ?key ?g groups)" "sn \<in> set g" for key g sn
  proof -
    have "bt_get (bt_insert ?key ?g groups) key = Some g" using kg(1) bt_get_iff [OF wf(2)] by blast
    then have "if key = ?key then g = ?g else bt_get groups key = Some g"
      by (auto simp: bt_get_insert split: if_splits)
    moreover have "stale_key ?sn = Some ?key" using Some by (simp add: stale_key_def)
    ultimately show ?thesis
      using kg(2) old [of key _ sn] by (auto split: if_splits option.splits)
  qed
  then show ?thesis
    using wf(2) Some by (auto simp: offer_def Let_def groups_wf_def)
qed

lemma offer_members:
  assumes "groups_wf groups"
  shows "group_members (offer i s from_v groups) =
    (if staleness_score s from_v = None then group_members groups
     else add_mset \<lparr>sn_chitchat_id = i, sn_node_state = s, sn_from_version_excluded = from_v\<rparr>
       (group_members groups))"
  using assms group_members_push
  by (auto simp: offer_def Let_def groups_wf_def split: option.splits)

section \<open>The stale nodes of a digest\<close>

definition stale_candidate :: "digest \<Rightarrow> chitchat_id set \<Rightarrow> chitchat_id \<times> node_state \<Rightarrow> stale_node option"
where
  "stale_candidate dg sched p =
     (if fst p \<in> sched then None
      else map_option (\<lambda>from_v. \<lparr>sn_chitchat_id = fst p, sn_node_state = snd p,
             sn_from_version_excluded = from_v\<rparr>) (delta_from_version dg (fst p) (snd p)))"

definition candidates :: "digest \<Rightarrow> chitchat_id set \<Rightarrow> cluster_state \<Rightarrow> stale_node list" where
  "candidates dg sched cs = List.map_filter (stale_candidate dg sched) (cs_node_states cs)"

text \<open>A node that is behind always has a staleness.\<close>

lemma delta_from_version_stale:
  "delta_from_version dg i s = Some from_v \<Longrightarrow> staleness_score s from_v \<noteq> None"
proof -
  assume "delta_from_version dg i s = Some from_v"
  then have "from_v < ns_max_version s"
    by (auto simp: delta_from_version_def Let_def not_le word_neq_0_conv
        split: if_splits option.splits intro: le_less_trans [OF word_zero_le])
  then show ?thesis by (simp add: staleness_score_def Let_def)
qed

lemma collect_fold:
  assumes "groups_wf groups"
  shows "groups_wf (fold (\<lambda>(i, s) groups.
         if i \<in> sched then groups
         else case delta_from_version dg i s of
                None \<Rightarrow> groups | Some from_v \<Rightarrow> offer i s from_v groups) nodes groups)
    \<and> group_members (fold (\<lambda>(i, s) groups.
         if i \<in> sched then groups
         else case delta_from_version dg i s of
                None \<Rightarrow> groups | Some from_v \<Rightarrow> offer i s from_v groups) nodes groups)
      = group_members groups + mset (List.map_filter (stale_candidate dg sched) nodes)"
  using assms
proof (induction nodes arbitrary: groups)
  case Nil
  then show ?case by simp
next
  case (Cons p nodes)
  obtain i s where p: "p = (i, s)" by (cases p)
  show ?case
  proof (cases "i \<in> sched \<or> delta_from_version dg i s = None")
    case True
    then show ?thesis
      using Cons p by (auto simp: stale_candidate_def split: if_splits)
  next
    case False
    then obtain from_v where f: "i \<notin> sched" "delta_from_version dg i s = Some from_v" by auto
    then show ?thesis
      using Cons.IH [OF offer_wf [OF Cons.prems, of i s from_v]] Cons.prems p
        delta_from_version_stale [OF f(2)]
      by (simp add: stale_candidate_def offer_members)
  qed
qed

lemma collect_wf: "groups_wf (collect_stale_nodes dg sched cs)"
  and collect_members:
    "group_members (collect_stale_nodes dg sched cs) = mset (candidates dg sched cs)"
  using collect_fold [of "[]" sched dg "cs_node_states cs"]
  by (simp_all add: collect_stale_nodes_def candidates_def groups_wf_def group_members_def)

section \<open>The order\<close>

definition shuffles :: "shuffle \<Rightarrow> bool" where
  "shuffles sh \<longleftrightarrow> (\<forall>key g. mset (sh key g) = mset g)"

lemma into_iter_members:
  assumes "shuffles sh"
  shows "mset (stale_nodes_into_iter sh groups) = group_members groups"
proof -
  have "mset (concat (map (\<lambda>(key, g). sh key g) gs)) = mset (concat (map snd gs))" for gs
    using assms by (induction gs) (auto simp: shuffles_def)
  moreover have rev_groups: "mset (concat (map snd (rev gs))) = mset (concat (map snd gs))"
    for gs :: sorted_stale_nodes
    by (induction gs) simp_all
  ultimately show ?thesis
    by (simp only: stale_nodes_into_iter_def group_members_def rev_groups)
qed

lemma into_iter_mset:
  "shuffles sh \<Longrightarrow>
   mset (stale_nodes_into_iter sh (collect_stale_nodes dg sched cs)) = mset (candidates dg sched cs)"
  by (simp add: into_iter_members collect_members)

lemma into_iter_sorted:
  assumes "shuffles sh" "groups_wf groups"
  shows "sorted_wrt (\<lambda>a b. the (stale_key b) \<le> the (stale_key a)) (stale_nodes_into_iter sh groups)"
  using assms(2)
proof (induction groups)
  case Nil
  then show ?case by (simp add: stale_nodes_into_iter_def)
next
  case (Cons kg groups)
  obtain key g where kg: "kg = (key, g)" by (cases kg)
  have same: "set (sh k g) = set g" for k g
    using assms(1) by (metis mset_eq_setD shuffles_def)
  have split: "stale_nodes_into_iter sh (kg # groups)
      = stale_nodes_into_iter sh groups @ sh key g"
    by (simp add: stale_nodes_into_iter_def kg)
  have g: "stale_key sn = Some key" if "sn \<in> set g" for sn
    using Cons.prems kg that by (auto simp: groups_wf_def)
  have above: "key < the (stale_key sn)" if "sn \<in> set (stale_nodes_into_iter sh groups)" for sn
    using Cons.prems kg that same by (fastforce simp: stale_nodes_into_iter_def groups_wf_def)
  have "sorted_wrt (\<lambda>a b. the (stale_key b) \<le> the (stale_key a)) (sh key g)"
    by (rule sorted_wrt_true [THEN sorted_wrt_mono_rel [rotated]]) (use g same in auto)
  moreover have "groups_wf groups" using Cons.prems kg by (auto simp: groups_wf_def)
  ultimately show ?case
    using Cons.IH above g same by (auto simp: split sorted_wrt_append dest: less_imp_le)
qed

text \<open>What is in the list, and that nothing is in it twice.\<close>

lemma candidate_iff:
  "sn \<in> set (candidates dg sched cs) \<longleftrightarrow>
     (sn_chitchat_id sn, sn_node_state sn) \<in> set (cs_node_states cs)
     \<and> sn_chitchat_id sn \<notin> sched
     \<and> delta_from_version dg (sn_chitchat_id sn) (sn_node_state sn)
         = Some (sn_from_version_excluded sn)"
  by (cases sn)
    (force simp: candidates_def List.map_filter_def stale_candidate_def image_iff split: if_splits)

lemma candidates_ids: "bt_wf (cs_node_states cs) \<Longrightarrow> distinct (map sn_chitchat_id (candidates dg sched cs))"
proof -
  assume wf: "bt_wf (cs_node_states cs)"
  have sub: "set (map sn_chitchat_id (List.map_filter (stale_candidate dg sched) nodes))
      \<subseteq> fst ` set nodes" for nodes
    by (induction nodes) (auto simp: stale_candidate_def split: option.splits if_splits)
  have "distinct (map fst nodes) \<Longrightarrow>
      distinct (map sn_chitchat_id (List.map_filter (stale_candidate dg sched) nodes))" for nodes
  proof (induction nodes)
    case (Cons p nodes)
    have "sn_chitchat_id sn = fst p" if "stale_candidate dg sched p = Some sn" for sn
      using that by (auto simp: stale_candidate_def split: if_splits)
    then show ?case
      using sub [of nodes] Cons by (cases "stale_candidate dg sched p") auto
  qed simp
  then show ?thesis using bt.distinct_keys [OF wf] by (simp add: candidates_def)
qed

lemma into_iter_distinct:
  assumes "shuffles sh" "bt_wf (cs_node_states cs)"
  shows "distinct (map sn_chitchat_id (stale_nodes_into_iter sh (collect_stale_nodes dg sched cs)))"
  using candidates_ids [OF assms(2), of dg sched] into_iter_mset [OF assms(1), of dg sched cs]
  by (metis mset_eq_imp_distinct_iff mset_map)

end
