(* ===== verification/Replication.thy ===== *)
theory Replication
  imports Node_State_Correct Cluster_State
begin

text \<open>
  The specification of replication and its refinement by the code. The abstract object is the
  history of a node: the writes its owner made, each with the version it was given. A copy of
  the node's state on some node of the cluster is \<open>consistent\<close> with the history when it makes
  good on its two marks, \<open>max_version\<close> and \<open>last_gc_version\<close>, as the comment on
  \<open>NodeState::last_gc_version\<close> describes them. The owner's operations extend the history and
  keep its own state consistent; garbage collection keeps any copy consistent; applying a delta
  computed from one consistent copy to another keeps it consistent, for every cut of the delta,
  under two conditions stated with the theorem.
\<close>

section \<open>Histories\<close>

type_synonym history = "key_value_mutation list"

definition history_wf :: "history \<Rightarrow> bool" where
  "history_wf H \<longleftrightarrow> (\<forall>w \<in> set H. 0 < kvm_version w)
     \<and> (\<forall>w \<in> set H. \<forall>w' \<in> set H. kvm_version w = kvm_version w' \<longrightarrow> w = w')"

text \<open>The last write to its key.\<close>

definition latest :: "history \<Rightarrow> key_value_mutation \<Rightarrow> bool" where
  "latest H w \<longleftrightarrow> w \<in> set H
     \<and> (\<forall>w' \<in> set H. kvm_key w' = kvm_key w \<longrightarrow> kvm_version w' \<le> kvm_version w)"

definition holds :: "node_state \<Rightarrow> key_value_mutation \<Rightarrow> bool" where
  "holds s w \<longleftrightarrow> (\<exists>vv. get_versioned s (kvm_key w) = Some vv \<and> mutation_of (kvm_key w) vv = w)"

text \<open>
  A consistent copy holds only writes of the history, none newer than \<open>max_version\<close>. A last
  write at or below \<open>max_version\<close> is held, unless it deleted its key and was collected. A key
  whose last write is at or below \<open>last_gc_version\<close> is not held in an older version.
\<close>

definition consistent :: "history \<Rightarrow> node_state \<Rightarrow> bool" where
  "consistent H s \<longleftrightarrow> bt_wf (ns_key_values s)
     \<and> (\<forall>k vv. get_versioned s k = Some vv \<longrightarrow>
          mutation_of k vv \<in> set H \<and> vv_version vv \<le> ns_max_version s)
     \<and> (\<forall>w \<in> set H. latest H w \<and> kvm_version w \<le> ns_max_version s \<longrightarrow>
          holds s w \<or> (scheduled_for_deletion (kvm_status w)
            \<and> kvm_version w \<le> ns_last_gc_version s \<and> get_versioned s (kvm_key w) = None))
     \<and> (\<forall>w \<in> set H. latest H w \<and> kvm_version w \<le> ns_last_gc_version s \<longrightarrow>
          get_versioned s (kvm_key w) = None \<or> holds s w)"

lemma mutation_of_simps [simp]:
  "kvm_key (mutation_of k vv) = k" "kvm_value (mutation_of k vv) = vv_value vv"
  "kvm_version (mutation_of k vv) = vv_version vv"
  "kvm_status (mutation_of k vv) = mutation_of_status (vv_status vv)"
  by (simp_all add: mutation_of_def)

lemma consistent_wf: "consistent H s \<Longrightarrow> bt_wf (ns_key_values s)"
  by (simp add: consistent_def)

lemma consistent_held:
  "consistent H s \<Longrightarrow> get_versioned s k = Some vv \<Longrightarrow>
   mutation_of k vv \<in> set H \<and> vv_version vv \<le> ns_max_version s"
  by (simp add: consistent_def)

lemma consistent_latest:
  "consistent H s \<Longrightarrow> latest H w \<Longrightarrow> kvm_version w \<le> ns_max_version s \<Longrightarrow>
   holds s w \<or> (scheduled_for_deletion (kvm_status w)
     \<and> kvm_version w \<le> ns_last_gc_version s \<and> get_versioned s (kvm_key w) = None)"
  by (auto simp: consistent_def latest_def)

lemma consistent_collected:
  "consistent H s \<Longrightarrow> latest H w \<Longrightarrow> kvm_version w \<le> ns_last_gc_version s \<Longrightarrow>
   get_versioned s (kvm_key w) = None \<or> holds s w"
  by (auto simp: consistent_def latest_def)

lemma consistentI:
  assumes "bt_wf (ns_key_values s)"
    and "\<And>k vv. get_versioned s k = Some vv \<Longrightarrow>
      mutation_of k vv \<in> set H \<and> vv_version vv \<le> ns_max_version s"
    and "\<And>w. latest H w \<Longrightarrow> kvm_version w \<le> ns_max_version s \<Longrightarrow>
      holds s w \<or> (scheduled_for_deletion (kvm_status w)
        \<and> kvm_version w \<le> ns_last_gc_version s \<and> get_versioned s (kvm_key w) = None)"
    and "\<And>w. latest H w \<Longrightarrow> kvm_version w \<le> ns_last_gc_version s \<Longrightarrow>
      get_versioned s (kvm_key w) = None \<or> holds s w"
  shows "consistent H s"
  using assms unfolding consistent_def by blast

lemma holds_version: "consistent H s \<Longrightarrow> holds s w \<Longrightarrow> kvm_version w \<le> ns_max_version s"
  by (metis consistent_held holds_def mutation_of_simps(3))

lemma consistent_ns_inv:
  assumes "history_wf H" "consistent H s"
  shows "ns_inv s"
  unfolding ns_inv_get
  using consistent_wf [OF assms(2)] consistent_held [OF assms(2)] assms(1)
  by (metis history_wf_def mutation_of_simps(1,3))

lemma consistent_new: "history_wf H \<Longrightarrow> consistent H (node_state_new i ls)"
  by (rule consistentI)
    (auto simp: node_state_new_def get_versioned_def latest_def history_wf_def word_le_0_iff)

section \<open>Deltas computed from a copy\<close>

text \<open>The mutations a copy offers above a version, oldest first.\<close>

definition offered :: "node_state \<Rightarrow> version \<Rightarrow> key_value_mutation list" where
  "offered s from_v = map (\<lambda>(k, vv). mutation_of k vv)
     (sort_key (\<lambda>(_, vv). vv_version vv) (Node_State.stale_key_values s from_v))"

text \<open>
  A delta a copy may emit above version \<open>from_v\<close>: its own \<open>last_gc_version\<close>, a prefix of what
  it offers, and a \<open>max_version\<close> only when it has nothing to offer.
\<close>

definition emits :: "node_state \<Rightarrow> version \<Rightarrow> node_delta \<Rightarrow> bool" where
  "emits s from_v nd \<longleftrightarrow> ndl_from_version_excluded nd = from_v
     \<and> ndl_last_gc_version nd = ns_last_gc_version s
     \<and> prefix (ndl_key_values nd) (offered s from_v)
     \<and> (ndl_max_version nd = None
        \<or> ndl_max_version nd = Some (ns_max_version s) \<and> offered s from_v = [])"

lemma set_offered:
  assumes "bt_wf (ns_key_values s)"
  shows "kv \<in> set (offered s from_v) \<longleftrightarrow> holds s kv \<and> from_v < kvm_version kv"
proof
  assume "kv \<in> set (offered s from_v)"
  then obtain k vv where "(k, vv) \<in> set (ns_key_values s)" "from_v < vv_version vv"
    and kv: "kv = mutation_of k vv"
    by (auto simp: offered_def Node_State.stale_key_values_def key_values_including_deleted_def)
  then show "holds s kv \<and> from_v < kvm_version kv"
    using bt_get_iff [OF assms] by (auto simp: holds_def get_versioned_def kv)
next
  assume "holds s kv \<and> from_v < kvm_version kv"
  then obtain vv where vv: "bt_get (ns_key_values s) (kvm_key kv) = Some vv"
    and kv: "mutation_of (kvm_key kv) vv = kv" and v: "from_v < kvm_version kv"
    by (auto simp: holds_def get_versioned_def)
  have "(kvm_key kv, vv) \<in> set (ns_key_values s)" using vv bt_get_iff [OF assms] by simp
  moreover have "from_v < vv_version vv" using v kv by (metis mutation_of_simps(3))
  ultimately have "(kvm_key kv, vv) \<in> set (sort_key (\<lambda>(_, vv). vv_version vv)
      (Node_State.stale_key_values s from_v))"
    by (simp add: Node_State.stale_key_values_def key_values_including_deleted_def)
  then have "mutation_of (kvm_key kv) vv \<in> set (offered s from_v)"
    unfolding offered_def set_map by (rule rev_image_eqI) simp
  then show "kv \<in> set (offered s from_v)" using kv by simp
qed

lemma offered_sorted: "sorted (map kvm_version (offered s from_v))"
proof -
  have "map kvm_version (offered s from_v) =
      map (\<lambda>(_, vv). vv_version vv)
        (sort_key (\<lambda>(_, vv). vv_version vv) (Node_State.stale_key_values s from_v))"
    by (simp add: offered_def case_prod_beta comp_def)
  then show ?thesis by simp
qed

lemma holds_key_unique: "holds s w \<Longrightarrow> holds s w' \<Longrightarrow> kvm_key w = kvm_key w' \<Longrightarrow> w = w'"
  by (auto simp: holds_def)

lemma offered_distinct_keys:
  assumes "bt_wf (ns_key_values s)"
  shows "distinct (map kvm_key (offered s from_v))"
proof -
  have "distinct (map fst (ns_key_values s))"
    using bt.distinct_keys [OF assms] .
  then have "distinct (map fst (Node_State.stale_key_values s from_v))"
    by (simp add: Node_State.stale_key_values_def key_values_including_deleted_def
        distinct_map_filter)
  then have "distinct (map fst
      (sort_key (\<lambda>(_, vv). vv_version vv) (Node_State.stale_key_values s from_v)))"
    by (simp add: distinct_map)
  then show ?thesis
    by (simp add: offered_def case_prod_beta comp_def)
qed

text \<open>A prefix of a sorted list contains everything not above one of its members.\<close>

lemma sorted_prefix_closed:
  assumes "prefix xs ys" "sorted (map f ys)" "inj_on f (set ys)" "a \<in> set xs" "b \<in> set ys"
    and "f b \<le> (f a :: 'b::linorder)"
  shows "b \<in> set xs"
proof -
  obtain zs where ys: "ys = xs @ zs" using assms(1) by (auto elim: prefixE)
  show ?thesis
  proof (rule ccontr)
    assume "b \<notin> set xs"
    then have "b \<in> set zs" using assms(5) ys by simp
    then have "f a \<le> f b" using assms(2,4) ys by (auto simp: sorted_append)
    then have "f a = f b" using assms(6) by simp
    then have "a = b" using assms(3-5) ys by (auto dest: inj_onD)
    then show False using \<open>b \<notin> set xs\<close> assms(4) by simp
  qed
qed

section \<open>The loop over the mutations\<close>

definition stored_value :: "key_value_mutation \<Rightarrow> instant \<Rightarrow> versioned_value" where
  "stored_value kv now = \<lparr>vv_value = kvm_value kv, vv_version = kvm_version kv,
     vv_status = into_status (kvm_status kv) now\<rparr>"

lemma mutation_of_stored [simp]: "mutation_of (kvm_key kv) (stored_value kv now) = kv"
  by (simp add: mutation_of_def stored_value_def)

lemma stored_value_version [simp]: "vv_version (stored_value kv now) = kvm_version kv"
  by (simp add: stored_value_def)

text \<open>Which mutations the loop stores.\<close>

definition applies :: "version \<Rightarrow> version \<Rightarrow> key_value_mutation \<Rightarrow> bool" where
  "applies cur gc kv \<longleftrightarrow> cur < kvm_version kv
     \<and> \<not> (scheduled_for_deletion (kvm_status kv) \<and> kvm_version kv \<le> gc)"

lemma apply_mutation_alt:
  "apply_mutation cur now kv s =
     (if applies cur (ns_last_gc_version s) kv
      then set_versioned_value (kvm_key kv) (stored_value kv now) s else s)"
  by (auto simp: apply_mutation_def applies_def stored_value_def)

lemma fold_apply_fields [simp]:
  "ns_last_gc_version (fold (apply_mutation cur now) kvs s) = ns_last_gc_version s"
  "ns_chitchat_id (fold (apply_mutation cur now) kvs s) = ns_chitchat_id s"
  "ns_heartbeat (fold (apply_mutation cur now) kvs s) = ns_heartbeat s"
  by (induction kvs arbitrary: s) (simp_all add: apply_mutation_alt)

lemma fold_apply_wf:
  "bt_wf (ns_key_values s) \<Longrightarrow> bt_wf (ns_key_values (fold (apply_mutation cur now) kvs s))"
  by (induction kvs arbitrary: s) (simp_all add: apply_mutation_alt bt_wf_svv)

lemma fold_apply_max:
  "ns_max_version (fold (apply_mutation cur now) kvs s) =
     fold max (map kvm_version (filter (applies cur (ns_last_gc_version s)) kvs)) (ns_max_version s)"
  by (induction kvs arbitrary: s) (simp_all add: apply_mutation_alt)

lemma fold_apply_get:
  assumes "distinct (map kvm_key kvs)"
    and "\<And>kv vv. kv \<in> set kvs \<Longrightarrow> get_versioned s (kvm_key kv) = Some vv \<Longrightarrow> vv_version vv \<le> cur"
  shows "get_versioned (fold (apply_mutation cur now) kvs s) k =
    (case find (\<lambda>kv. kvm_key kv = k \<and> applies cur (ns_last_gc_version s) kv) kvs of
       Some kv \<Rightarrow> Some (stored_value kv now) | None \<Rightarrow> get_versioned s k)"
  using assms
proof (induction kvs arbitrary: s)
  case Nil
  then show ?case by simp
next
  case (Cons kv kvs)
  let ?s = "apply_mutation cur now kv s"
  have other: "get_versioned ?s j = get_versioned s j" if "j \<noteq> kvm_key kv" for j
    using that by (simp add: apply_mutation_alt get_svv)
  have gc: "ns_last_gc_version ?s = ns_last_gc_version s"
    by (simp add: apply_mutation_alt)
  have IH: "get_versioned (fold (apply_mutation cur now) kvs ?s) k =
    (case find (\<lambda>kv. kvm_key kv = k \<and> applies cur (ns_last_gc_version ?s) kv) kvs of
       Some kv \<Rightarrow> Some (stored_value kv now) | None \<Rightarrow> get_versioned ?s k)"
  proof (rule Cons.IH)
    show "distinct (map kvm_key kvs)" using Cons.prems(1) by simp
    fix kv' vv
    assume kv': "kv' \<in> set kvs" and "get_versioned ?s (kvm_key kv') = Some vv"
    moreover have "kvm_key kv \<noteq> kvm_key kv'" using kv' Cons.prems(1) by (auto simp: image_iff)
    ultimately show "vv_version vv \<le> cur"
      using other [of "kvm_key kv'"] Cons.prems(2) [of kv' vv] by simp
  qed
  show ?case
  proof (cases "k = kvm_key kv")
    case True
    have none: "find (\<lambda>kv. kvm_key kv = k \<and> applies cur (ns_last_gc_version s) kv) kvs = None"
      unfolding find_None_iff
    proof
      assume "\<exists>kv'. kv' \<in> set kvs \<and> kvm_key kv' = k \<and> applies cur (ns_last_gc_version s) kv'"
      then show False using Cons.prems(1) True by (auto simp: image_iff)
    qed
    have "accepts_version s (kvm_key kv) (kvm_version kv)" if "cur < kvm_version kv"
      using Cons.prems(2) [of kv] that
      by (auto simp: accepts_version_def split: option.splits intro: le_less_trans)
    then have "get_versioned ?s k = (if applies cur (ns_last_gc_version s) kv
        then Some (stored_value kv now) else get_versioned s k)"
      using True by (auto simp: apply_mutation_alt get_svv applies_def)
    then show ?thesis using IH gc none True by simp
  next
    case False
    then show ?thesis using IH gc other [OF False] by (simp split: option.split)
  qed
qed

section \<open>Applying a delta keeps a copy consistent\<close>

text \<open>
  What a copy holds after the loop, for mutations that another consistent copy offers: the
  mutation of the delta when it applies, and otherwise what it held before.
\<close>

lemma fold_apply_held:
  assumes "bt_wf (ns_key_values S)" "prefix kvs (offered S from_v)"
    and "\<And>k vv. get_versioned R k = Some vv \<Longrightarrow> vv_version vv \<le> ns_max_version R"
  obtains (new) kv where "kv \<in> set kvs" "kvm_key kv = k"
      "applies (ns_max_version R) (ns_last_gc_version R) kv" "holds S kv"
      "get_versioned (fold (apply_mutation (ns_max_version R) now) kvs R) k
         = Some (stored_value kv now)"
  | (old) "\<And>kv. kv \<in> set kvs \<Longrightarrow> kvm_key kv = k \<Longrightarrow>
        \<not> applies (ns_max_version R) (ns_last_gc_version R) kv"
      "get_versioned (fold (apply_mutation (ns_max_version R) now) kvs R) k = get_versioned R k"
proof -
  obtain rest where rest: "offered S from_v = kvs @ rest"
    using assms(2) by (auto elim: prefixE)
  have "distinct (map kvm_key kvs)"
    using offered_distinct_keys [OF assms(1), of from_v] rest by simp
  note get = fold_apply_get [OF this, of R "ns_max_version R" now k]
  show thesis
  proof (cases "find (\<lambda>kv. kvm_key kv = k
      \<and> applies (ns_max_version R) (ns_last_gc_version R) kv) kvs")
    case None
    then have "get_versioned (fold (apply_mutation (ns_max_version R) now) kvs R) k
        = get_versioned R k"
      using get assms(3) by simp
    with None show thesis using old by (auto simp: find_None_iff)
  next
    case (Some kv)
    then have kv: "kv \<in> set kvs" "kvm_key kv = k"
      "applies (ns_max_version R) (ns_last_gc_version R) kv"
      by (auto simp: find_Some_iff)
    have "holds S kv" using kv(1) rest set_offered [OF assms(1), of kv from_v] by simp
    then show thesis using new kv get assms(3) Some by auto
  qed
qed

lemma fold_apply_max_cases:
  obtains (same) "ns_max_version (fold (apply_mutation cur now) kvs R) = ns_max_version R"
  | (raised) kv where "kv \<in> set kvs" "applies cur (ns_last_gc_version R) kv"
      "ns_max_version (fold (apply_mutation cur now) kvs R) = kvm_version kv"
  using fold_max_cases [of "map kvm_version (filter (applies cur (ns_last_gc_version R)) kvs)"
      "ns_max_version R"]
  by (auto simp: fold_apply_max)

text \<open>
  The loop, from a copy that has everything up to \<open>from_v\<close>. Either all that the sender collected
  was below \<open>max_version\<close> or this copy collected as much; and this copy did not collect beyond
  what the sender has seen.
\<close>

lemma consistent_latest_newest:
  "consistent H s \<Longrightarrow> latest H w \<Longrightarrow> holds s kv \<Longrightarrow> kvm_key kv = kvm_key w \<Longrightarrow>
   kvm_version kv \<le> kvm_version w"
  using consistent_held by (fastforce simp: holds_def latest_def)

definition exchange ::
  "history \<Rightarrow> node_state \<Rightarrow> node_state \<Rightarrow> version \<Rightarrow> key_value_mutation list \<Rightarrow> bool" where
  "exchange H R S from_v kvs \<longleftrightarrow> history_wf H \<and> consistent H R \<and> consistent H S
     \<and> prefix kvs (offered S from_v) \<and> from_v \<le> ns_max_version R
     \<and> (ns_last_gc_version S < ns_max_version R \<or> ns_last_gc_version S \<le> ns_last_gc_version R)
     \<and> (ns_last_gc_version R \<le> ns_max_version S \<or> ns_last_gc_version R \<le> ns_last_gc_version S)"

definition receive :: "instant \<Rightarrow> key_value_mutation list \<Rightarrow> node_state \<Rightarrow> node_state" where
  "receive now kvs R = fold (apply_mutation (ns_max_version R) now) kvs R"

lemma receive_gc [simp]: "ns_last_gc_version (receive now kvs R) = ns_last_gc_version R"
  by (simp add: receive_def)

lemma receive_get:
  assumes "exchange H R S from_v kvs"
  obtains (new) kv where "kv \<in> set kvs" "kvm_key kv = k"
      "applies (ns_max_version R) (ns_last_gc_version R) kv" "holds S kv"
      "get_versioned (receive now kvs R) k = Some (stored_value kv now)"
  | (old) "\<And>kv. kv \<in> set kvs \<Longrightarrow> kvm_key kv = k \<Longrightarrow>
        \<not> applies (ns_max_version R) (ns_last_gc_version R) kv"
      "get_versioned (receive now kvs R) k = get_versioned R k"
proof -
  have S: "bt_wf (ns_key_values S)" "prefix kvs (offered S from_v)" and R: "consistent H R"
    using assms consistent_wf unfolding exchange_def by blast+
  show thesis
  proof (rule fold_apply_held [OF S, of R k now])
    show "vv_version vv \<le> ns_max_version R" if "get_versioned R k = Some vv" for k vv
      using consistent_held [OF R that] by simp
  qed (use new old in \<open>unfold receive_def\<close>, blast+)
qed

lemma receive_max:
  "ns_max_version R \<le> ns_max_version (receive now kvs R)"
  "kv \<in> set kvs \<Longrightarrow> applies (ns_max_version R) (ns_last_gc_version R) kv \<Longrightarrow>
   kvm_version kv \<le> ns_max_version (receive now kvs R)"
  by (auto simp: receive_def fold_apply_max intro: fold_max_ge)

lemma exchange_kvs_closed:
  assumes "exchange H R S from_v kvs" "a \<in> set kvs" "holds S w"
    and "from_v < kvm_version w" "kvm_version w \<le> kvm_version a"
  shows "w \<in> set kvs"
proof -
  have wf: "history_wf H" and S: "consistent H S" and kvs: "prefix kvs (offered S from_v)"
    using assms(1) by (simp_all add: exchange_def)
  note offered_iff = set_offered [OF consistent_wf [OF S]]
  have "kv \<in> set H" if "kv \<in> set (offered S from_v)" for kv
    using that consistent_held [OF S] offered_iff by (fastforce simp: holds_def)
  then have "inj_on kvm_version (set (offered S from_v))"
    using wf by (fastforce simp: history_wf_def inj_on_def)
  moreover have "w \<in> set (offered S from_v)"
    using assms offered_iff by simp
  ultimately show ?thesis
    using sorted_prefix_closed [OF kvs offered_sorted _ assms(2)] assms(5) by blast
qed

text \<open>Keys whose last write was already seen are left alone.\<close>

lemma receive_seen:
  assumes "exchange H R S from_v kvs" "latest H w" "kvm_version w \<le> ns_max_version R"
  shows "get_versioned (receive now kvs R) (kvm_key w) = get_versioned R (kvm_key w)"
proof (cases rule: receive_get [OF assms(1), of "kvm_key w" now])
  case (1 kv)
  have "kvm_version kv \<le> kvm_version w"
    using consistent_latest_newest [of H S w kv] assms(1,2) 1 by (simp add: exchange_def)
  with 1(3) assms(3) have False by (auto simp: applies_def)
  then show ?thesis ..
qed

text \<open>A last write that a copy has not seen but collected leaves no trace of its key.\<close>

lemma unseen_collected_none:
  assumes "consistent H R" "latest H w" "ns_max_version R < kvm_version w"
    and "kvm_version w \<le> ns_last_gc_version R"
  shows "get_versioned R (kvm_key w) = None"
  using consistent_collected [OF assms(1,2,4)] holds_version [OF assms(1), of w] assms(3) by auto

lemma holds_stored: "get_versioned s (kvm_key kv) = Some (stored_value kv now) \<Longrightarrow> holds s kv"
  by (simp add: holds_def)

text \<open>A last write that this copy has not seen, and that the sender has.\<close>

lemma receive_unseen:
  assumes x: "exchange H R S from_v kvs" and w: "latest H w"
    and new: "ns_max_version R < kvm_version w" and le: "kvm_version w \<le> ns_max_version S"
    and reached: "holds S w \<Longrightarrow> w \<in> set kvs"
  shows "holds (receive now kvs R) w \<or> (scheduled_for_deletion (kvm_status w)
     \<and> kvm_version w \<le> ns_last_gc_version R
     \<and> get_versioned (receive now kvs R) (kvm_key w) = None)"
proof (cases rule: receive_get [OF x, of "kvm_key w" now])
  case (1 kv)
  have S: "consistent H S" using x by (simp add: exchange_def)
  have "holds S w" using consistent_latest [OF S w le] 1 by (auto simp: holds_def)
  then have "w = kv" using holds_key_unique [of S w kv] 1 by simp
  then show ?thesis using 1 holds_stored by blast
next
  case 2
  have R: "consistent H R" and S: "consistent H S" using x by (simp_all add: exchange_def)
  consider "holds S w"
    | "scheduled_for_deletion (kvm_status w)" "kvm_version w \<le> ns_last_gc_version S"
    using consistent_latest [OF S w le] by blast
  then have gone: "scheduled_for_deletion (kvm_status w) \<and> kvm_version w \<le> ns_last_gc_version R"
  proof cases
    assume "holds S w"
    then show ?thesis using 2(1) reached new by (auto simp: applies_def)
  next
    assume "scheduled_for_deletion (kvm_status w)" "kvm_version w \<le> ns_last_gc_version S"
    then show ?thesis using x new by (auto simp: exchange_def)
  qed
  then show ?thesis using unseen_collected_none [OF R w new] 2(2) by simp
qed

theorem receive_consistent:
  assumes x: "exchange H R S from_v kvs"
  shows "consistent H (receive now kvs R)"
proof (rule consistentI)
  let ?R = "receive now kvs R"
  have wf: "history_wf H" and R: "consistent H R" and S: "consistent H S"
    and from_le: "from_v \<le> ns_max_version R"
    using x by (simp_all add: exchange_def)
  show "bt_wf (ns_key_values ?R)"
    using fold_apply_wf [OF consistent_wf [OF R]] by (simp add: receive_def)
  show "mutation_of k vv \<in> set H \<and> vv_version vv \<le> ns_max_version ?R"
    if vv: "get_versioned ?R k = Some vv" for k vv
  proof (cases rule: receive_get [OF x, of k now])
    case (1 kv)
    have "kv \<in> set H" using 1(4) consistent_held [OF S] by (fastforce simp: holds_def)
    then show ?thesis using vv 1 receive_max(2) [OF 1(1,3), of now] by auto
  next
    case 2
    then show ?thesis
      using vv consistent_held [OF R, of k vv] receive_max(1) [of R now kvs] by auto
  qed
  show "holds ?R w \<or> (scheduled_for_deletion (kvm_status w)
      \<and> kvm_version w \<le> ns_last_gc_version ?R \<and> get_versioned ?R (kvm_key w) = None)"
    if w: "latest H w" and le: "kvm_version w \<le> ns_max_version ?R" for w
  proof (cases "kvm_version w \<le> ns_max_version R")
    case True
    then show ?thesis
      using consistent_latest [OF R w True] receive_seen [OF x w True] by (simp add: holds_def)
  next
    case False
    then obtain a where a: "a \<in> set kvs" "kvm_version w \<le> kvm_version a"
      using le fold_apply_max_cases [of "ns_max_version R" now kvs R]
      unfolding receive_def by (metis order.trans le_less_linear)
    have "holds S a"
      using a(1) x set_offered [OF consistent_wf [OF S]] set_mono_prefix
      by (fastforce simp: exchange_def)
    then have "kvm_version w \<le> ns_max_version S" using a(2) holds_version [OF S] by fastforce
    then show ?thesis
      using receive_unseen [OF x w, of now] exchange_kvs_closed [OF x a(1) _ _ a(2)] False from_le
      by auto
  qed
  show "get_versioned ?R (kvm_key w) = None \<or> holds ?R w"
    if w: "latest H w" and le: "kvm_version w \<le> ns_last_gc_version ?R" for w
  proof (cases rule: receive_get [OF x, of "kvm_key w" now])
    case (1 kv)
    have "kvm_version w \<le> ns_max_version S \<or> kvm_version w \<le> ns_last_gc_version S"
      using x le by (auto simp: exchange_def)
    then have "holds S w"
      using consistent_latest [OF S w] consistent_collected [OF S w] 1 by (auto simp: holds_def)
    then have "w = kv" using holds_key_unique [of S w kv] 1 by simp
    then show ?thesis using 1 holds_stored by blast
  next
    case 2
    then show ?thesis
      using consistent_collected [OF R w] le by (auto simp: holds_def)
  qed
qed

section \<open>Whole deltas\<close>

text \<open>The state a reset starts from.\<close>

definition reset_state :: "node_delta \<Rightarrow> node_state \<Rightarrow> node_state" where
  "reset_state nd R = (node_state_new (ndl_chitchat_id nd) (ns_listeners R))
     \<lparr>ns_max_version := (case ndl_max_version nd of
          Some m \<Rightarrow> if ndl_key_values nd = [] then m else 0 | None \<Rightarrow> 0),
      ns_last_gc_version := ndl_last_gc_version nd\<rparr>"

lemma reset_state_get [simp]: "get_versioned (reset_state nd R) k = None"
  by (simp add: reset_state_def get_versioned_def node_state_new_def)

lemma reset_state_wf [simp]: "bt_wf (ns_key_values (reset_state nd R))"
  by (simp add: reset_state_def node_state_new_def)

lemma reset_state_gc [simp]: "ns_last_gc_version (reset_state nd R) = ndl_last_gc_version nd"
  by (simp add: reset_state_def)

lemma ns_apply_delta_cases:
  obtains (ignored) "ns_apply_delta nd now R = R"
      "ns_max_version R < ndl_from_version_excluded nd
       \<or> ns_max_version R \<le> ndl_last_gc_version nd \<and> ns_last_gc_version R < ndl_last_gc_version nd
         \<and> node_delta_max_version nd = None"
  | (incremental) "ns_apply_delta nd now R = receive now (ndl_key_values nd) R"
      "ndl_from_version_excluded nd \<le> ns_max_version R"
      "ndl_last_gc_version nd < ns_max_version R
       \<or> ndl_last_gc_version nd \<le> ns_last_gc_version R"
  | (reset) "ns_apply_delta nd now R = receive now (ndl_key_values nd) (reset_state nd R)"
      "ndl_from_version_excluded nd \<le> ns_max_version R"
      "ns_max_version R \<le> ndl_last_gc_version nd"
      "ns_last_gc_version R < ndl_last_gc_version nd" "node_delta_max_version nd \<noteq> None"
proof -
  consider "ns_max_version R < ndl_from_version_excluded nd"
    | "ndl_from_version_excluded nd \<le> ns_max_version R"
      "ndl_last_gc_version nd < ns_max_version R \<or> ndl_last_gc_version nd \<le> ns_last_gc_version R"
    | "ndl_from_version_excluded nd \<le> ns_max_version R" "ns_max_version R \<le> ndl_last_gc_version nd"
      "ns_last_gc_version R < ndl_last_gc_version nd"
    by force
  then show thesis
  proof cases
    case 1
    then show thesis by (intro ignored) (simp_all add: ns_apply_delta_def prepare_apply_delta_def)
  next
    case 2
    then have "prepare_apply_delta nd R = (True, R)" by (auto simp: prepare_apply_delta_def)
    then show thesis using 2 incremental by (simp add: ns_apply_delta_def receive_def)
  next
    case 3
    show thesis
    proof (cases "node_delta_max_version nd")
      case None
      with 3 show thesis
        by (intro ignored) (simp_all add: ns_apply_delta_def prepare_apply_delta_def)
    next
      case (Some m)
      with 3 have "prepare_apply_delta nd R = (True, reset_state nd R)"
        by (auto simp: prepare_apply_delta_def reset_state_def node_state_new_def
            split: option.splits)
      then show thesis using 3 Some reset by (simp add: ns_apply_delta_def receive_def)
    qed
  qed
qed

lemma reset_exchange:
  assumes wf: "history_wf H" and S: "consistent H S" and nd: "emits S 0 nd"
  shows "exchange H (reset_state nd R) S 0 (ndl_key_values nd)"
proof -
  have none: "\<not> holds S w" if "offered S 0 = []" "latest H w" for w
    using that wf set_offered [OF consistent_wf [OF S], of w 0]
    by (auto simp: latest_def history_wf_def)
  have "consistent H (reset_state nd R)"
  proof (rule consistentI)
    fix w assume w: "latest H w" and le: "kvm_version w \<le> ns_max_version (reset_state nd R)"
    have pos: "0 < kvm_version w" using w wf by (simp add: latest_def history_wf_def)
    then have m: "ns_max_version (reset_state nd R) = ns_max_version S" and "offered S 0 = []"
      using le nd by (auto simp: reset_state_def emits_def split: option.splits if_splits)
    then show "holds (reset_state nd R) w \<or> (scheduled_for_deletion (kvm_status w)
        \<and> kvm_version w \<le> ns_last_gc_version (reset_state nd R)
        \<and> get_versioned (reset_state nd R) (kvm_key w) = None)"
      using none [OF _ w] consistent_latest [OF S w] le nd by (simp add: emits_def)
  qed simp_all
  then show ?thesis
    using assms by (simp add: exchange_def emits_def reset_state_def)
qed

text \<open>
  A delta one consistent copy emits keeps another consistent, whatever prefix of the mutations
  it carries. The delta must start at 0 whenever it makes the receiver reset, and the receiver
  must not have collected beyond everything the sender knows of.
\<close>

theorem ns_apply_delta_consistent:
  assumes "history_wf H" "consistent H R" "consistent H S" "emits S from_v nd"
    and "from_v = 0 \<or> ns_last_gc_version S < ns_max_version R
      \<or> ns_last_gc_version S \<le> ns_last_gc_version R"
    and "ns_last_gc_version R \<le> max (ns_max_version S) (ns_last_gc_version S)"
  shows "consistent H (ns_apply_delta nd now R)"
proof -
  have nd: "ndl_from_version_excluded nd = from_v"
    "ndl_last_gc_version nd = ns_last_gc_version S" "prefix (ndl_key_values nd) (offered S from_v)"
    using assms(4) by (simp_all add: emits_def)
  show ?thesis
  proof (cases rule: ns_apply_delta_cases [of nd now R])
    case ignored
    then show ?thesis using assms(2) by simp
  next
    case incremental
    then have "exchange H R S from_v (ndl_key_values nd)"
      using assms nd by (auto simp: exchange_def le_max_iff_disj)
    then show ?thesis using incremental receive_consistent by metis
  next
    case reset
    then have "emits S 0 nd" using assms(4,5) nd by auto
    from reset_exchange [OF assms(1,3) this] show ?thesis
      using reset receive_consistent by metis
  qed
qed

text \<open>
  The version a sender starts from, for the digest the receiver computed of its current copy:
  the delta starts at 0 or can be applied without a reset, unless the receiver stands exactly at
  the version the sender collected up to.
\<close>

lemma delta_from_version_starts:
  assumes "delta_from_version dg i S = Some from_v"
    and "bt_get (node_digests dg) i = Some (ns_digest R)"
    and "\<not> (ns_max_version R = ns_last_gc_version S
      \<and> ns_last_gc_version R < ns_last_gc_version S)"
  shows "from_v = 0 \<or> ns_last_gc_version S < ns_max_version R
    \<or> ns_last_gc_version S \<le> ns_last_gc_version R"
  using assms by (auto simp: delta_from_version_def ns_digest_def Let_def split: if_splits)

section \<open>Convergence\<close>

text \<open>A delta that was not cut: all that is offered, and \<open>max_version\<close> if that is nothing.\<close>

definition uncut :: "node_state \<Rightarrow> version \<Rightarrow> node_delta \<Rightarrow> bool" where
  "uncut s from_v nd \<longleftrightarrow> emits s from_v nd \<and> ndl_key_values nd = offered s from_v
     \<and> (offered s from_v = [] \<longrightarrow> ndl_max_version nd = Some (ns_max_version s))"

lemma versions_max_Some: "xs \<noteq> [] \<Longrightarrow> versions_max xs \<noteq> None"
  by (cases xs) auto

lemma uncut_max_version: "uncut s from_v nd \<Longrightarrow> node_delta_max_version nd \<noteq> None"
  using versions_max_Some [of "map kvm_version (ndl_key_values nd)"]
  by (cases "ndl_key_values nd")
    (auto simp: uncut_def node_delta_max_version_def split: option.splits)

text \<open>
  What reads see of a key whose last write is \<open>w\<close>. A key that expires after its time to live is
  left out: it is visible until it is collected, which copies do at times of their own.
\<close>

definition settled :: "node_state \<Rightarrow> key_value_mutation \<Rightarrow> bool" where
  "settled s w \<longleftrightarrow> holds s w
     \<or> scheduled_for_deletion (kvm_status w) \<and> get_versioned s (kvm_key w) = None"

lemma settled_get:
  assumes "settled s w" "kvm_status w \<noteq> MutDeleteAfterTtl"
  shows "ns_get s (kvm_key w) = (if kvm_status w = MutSet then Some (kvm_value w) else None)"
proof -
  consider vv where "get_versioned s (kvm_key w) = Some vv" "mutation_of (kvm_key w) vv = w"
    | "kvm_status w = MutDelete" "get_versioned s (kvm_key w) = None"
    using assms by (cases "kvm_status w") (auto simp: settled_def holds_def)
  then show ?thesis
  proof cases
    case 1
    then have "kvm_value w = vv_value vv" "kvm_status w = mutation_of_status (vv_status vv)"
      by (metis mutation_of_simps(2), metis mutation_of_simps(4))
    with 1 assms(2) show ?thesis
      by (cases "vv_status vv") (auto simp: ns_get_def is_deleted_def)
  next
    case 2
    then show ?thesis by (simp add: ns_get_def)
  qed
qed

lemma consistent_settled:
  "consistent H s \<Longrightarrow> latest H w \<Longrightarrow> kvm_version w \<le> ns_max_version s \<Longrightarrow> settled s w"
  using consistent_latest [of H s w] by (auto simp: settled_def)

lemma receive_settled:
  assumes x: "exchange H R S from_v (offered S from_v)" and w: "latest H w"
    and le: "kvm_version w \<le> ns_max_version S"
  shows "settled (receive now (offered S from_v) R) w"
proof (cases "kvm_version w \<le> ns_max_version R")
  case True
  have "consistent H R" using x by (simp add: exchange_def)
  from consistent_settled [OF this w True] show ?thesis
    using receive_seen [OF x w True] by (simp add: settled_def holds_def)
next
  case False
  have "from_v < kvm_version w" "bt_wf (ns_key_values S)"
    using False x consistent_wf by (auto simp: exchange_def)
  then show ?thesis
    using receive_unseen [OF x w, of now] le False set_offered by (auto simp: settled_def)
qed

theorem ns_apply_delta_settles:
  assumes "history_wf H" "consistent H R" "consistent H S" "uncut S from_v nd"
    and "from_v \<le> ns_max_version R"
    and "from_v = 0 \<or> ns_last_gc_version S < ns_max_version R
      \<or> ns_last_gc_version S \<le> ns_last_gc_version R"
    and "ns_last_gc_version R \<le> max (ns_max_version S) (ns_last_gc_version S)"
    and "latest H w" "kvm_version w \<le> ns_max_version S"
  shows "settled (ns_apply_delta nd now R) w"
proof -
  have nd: "emits S from_v nd" "ndl_key_values nd = offered S from_v"
    "ndl_from_version_excluded nd = from_v" "ndl_last_gc_version nd = ns_last_gc_version S"
    using assms(4) by (simp_all add: uncut_def emits_def)
  show ?thesis
  proof (cases rule: ns_apply_delta_cases [of nd now R])
    case ignored
    then show ?thesis using uncut_max_version [OF assms(4)] nd assms(5) by auto
  next
    case incremental
    then have "exchange H R S from_v (offered S from_v)"
      using assms nd by (auto simp: exchange_def le_max_iff_disj)
    from receive_settled [OF this assms(8,9), of now] show ?thesis using incremental nd by simp
  next
    case reset
    then have from_v: "from_v = 0" using assms(6) nd by auto
    then have "exchange H (reset_state nd R) S 0 (offered S 0)"
      using reset_exchange [OF assms(1,3), of nd R] nd by simp
    from receive_settled [OF this assms(8,9), of now] show ?thesis
      using reset nd from_v by simp
  qed
qed

section \<open>Garbage collection and the owner's writes\<close>

lemma gc_consistent:
  assumes "consistent H s"
  shows "consistent H (gc_keys_marked_for_deletion now grace s)" (is "consistent H ?s")
proof (rule consistentI)
  note wf = consistent_wf [OF assms]
  note gc = gc_last_gc_version [OF wf, where now = now and grace = grace]
  have dropped: "holds ?s w \<or> scheduled_for_deletion (kvm_status w)
      \<and> kvm_version w \<le> ns_last_gc_version ?s \<and> get_versioned ?s (kvm_key w) = None"
    if held: "holds s w" for w
  proof -
    obtain vv where vv: "get_versioned s (kvm_key w) = Some vv" "mutation_of (kvm_key w) vv = w"
      using held by (auto simp: holds_def)
    then have "kvm_version w = vv_version vv" "kvm_status w = mutation_of_status (vv_status vv)"
      by (metis mutation_of_simps(3), metis mutation_of_simps(4))
    then show ?thesis
      using vv gc(2) [OF vv(1)] gc_drops_scheduled [of now grace vv]
      by (cases "gc_keep now grace vv") (auto simp: holds_def gc_get [OF wf])
  qed
  have none: "get_versioned s k = None \<Longrightarrow> get_versioned ?s k = None" for k
    by (simp add: gc_get [OF wf])
  show "bt_wf (ns_key_values ?s)" by (rule gc_wf [OF wf])
  show "mutation_of k vv \<in> set H \<and> vv_version vv \<le> ns_max_version ?s"
    if "get_versioned ?s k = Some vv" for k vv
    using that consistent_held [OF assms, of k vv]
    by (auto simp: gc_get [OF wf] split: option.splits if_splits)
  show "holds ?s w \<or> (scheduled_for_deletion (kvm_status w)
      \<and> kvm_version w \<le> ns_last_gc_version ?s \<and> get_versioned ?s (kvm_key w) = None)"
    if "latest H w" "kvm_version w \<le> ns_max_version ?s" for w
    using consistent_latest [OF assms that(1)] that(2) dropped none gc(1) by fastforce
  show "get_versioned ?s (kvm_key w) = None \<or> holds ?s w"
    if w: "latest H w" and le: "kvm_version w \<le> ns_last_gc_version ?s" for w
  proof -
    have "kvm_version w \<le> ns_last_gc_version s \<or> kvm_version w \<le> ns_max_version s"
      using gc(3) le consistent_held [OF assms] by (metis order.trans)
    then show ?thesis
      using consistent_collected [OF assms w] consistent_latest [OF assms w] dropped none by blast
  qed
qed

text \<open>A write of the owner beyond the marks of a copy changes nothing for it.\<close>

lemma latest_append_old:
  "latest (H @ [w]) w' \<Longrightarrow> w' \<noteq> w \<Longrightarrow> latest H w'"
  by (auto simp: latest_def)

lemma consistent_extend:
  assumes "consistent H s" "ns_max_version s < kvm_version w" "ns_last_gc_version s < kvm_version w"
  shows "consistent (H @ [w]) s"
proof (rule consistentI)
  show "bt_wf (ns_key_values s)" by (rule consistent_wf [OF assms(1)])
  have old: "latest H w'" if "latest (H @ [w]) w'"
    "kvm_version w' \<le> ns_max_version s \<or> kvm_version w' \<le> ns_last_gc_version s" for w'
    using that assms(2,3) by (intro latest_append_old [of H w w']) auto
  show "mutation_of k vv \<in> set (H @ [w]) \<and> vv_version vv \<le> ns_max_version s"
    if "get_versioned s k = Some vv" for k vv
    using consistent_held [OF assms(1) that] by simp
  show "holds s w' \<or> (scheduled_for_deletion (kvm_status w')
      \<and> kvm_version w' \<le> ns_last_gc_version s \<and> get_versioned s (kvm_key w') = None)"
    if "latest (H @ [w]) w'" "kvm_version w' \<le> ns_max_version s" for w'
    using consistent_latest [OF assms(1) old [OF that(1)]] that(2) by blast
  show "get_versioned s (kvm_key w') = None \<or> holds s w'"
    if "latest (H @ [w]) w'" "kvm_version w' \<le> ns_last_gc_version s" for w'
    using consistent_collected [OF assms(1) old [OF that(1)]] that(2) by blast
qed

text \<open>
  The owner has seen all of the history. A write stores one value under the next version;
  \<open>writes s k s'\<close> says that of two of its states.
\<close>

definition owner :: "history \<Rightarrow> node_state \<Rightarrow> bool" where
  "owner H s \<longleftrightarrow> history_wf H \<and> consistent H s \<and> (\<forall>w \<in> set H. kvm_version w \<le> ns_max_version s)
     \<and> ns_last_gc_version s \<le> ns_max_version s"

definition writes :: "node_state \<Rightarrow> string \<Rightarrow> versioned_value \<Rightarrow> node_state \<Rightarrow> bool" where
  "writes s k vv s' \<longleftrightarrow> ns_max_version s < vv_version vv \<and> ns_max_version s' = vv_version vv
     \<and> ns_last_gc_version s' = ns_last_gc_version s \<and> bt_wf (ns_key_values s')
     \<and> get_versioned s' = (get_versioned s)(k \<mapsto> vv)"

lemma owner_write:
  assumes "owner H s" "writes s k vv s'"
  shows "owner (H @ [mutation_of k vv]) s'"
proof -
  have o: "history_wf H" "consistent H s" "\<And>w. w \<in> set H \<Longrightarrow> kvm_version w \<le> ns_max_version s"
    "ns_last_gc_version s \<le> ns_max_version s"
    using assms(1) by (auto simp: owner_def)
  have s': "ns_max_version s < vv_version vv" "ns_max_version s' = vv_version vv"
    "ns_last_gc_version s' = ns_last_gc_version s" "bt_wf (ns_key_values s')"
    "get_versioned s' = (get_versioned s)(k \<mapsto> vv)"
    using assms(2) by (auto simp: writes_def)
  have newer: "kvm_version w < vv_version vv" if "w \<in> set H" for w
    using o(3) [OF that] s'(1) by simp
  let ?H = "H @ [mutation_of k vv]"
  have wf: "history_wf ?H"
    using o(1) le_less_trans [OF word_zero_le s'(1)] less_imp_neq [OF newer]
    unfolding history_wf_def by (metis Un_iff append.simps empty_iff empty_set insert_iff
        list.simps(15) mutation_of_simps(3) set_append)
  have lat: "w = mutation_of k vv \<or> latest H w \<and> kvm_key w \<noteq> k" if "latest ?H w" for w
    using that newer latest_append_old [OF that] by (force simp: latest_def)
  have keep: "holds s' w = holds s w" "get_versioned s' (kvm_key w) = get_versioned s (kvm_key w)"
    if "kvm_key w \<noteq> k" for w
    using that s'(5) by (simp_all add: holds_def)
  have "holds s' (mutation_of k vv)" using s'(5) by (simp add: holds_def)
  moreover have "kvm_version w \<le> ns_max_version s" if "latest H w" for w
    using that o(3) by (simp add: latest_def)
  ultimately have "consistent ?H s'"
    using consistent_latest [OF o(2)] consistent_collected [OF o(2)] consistent_held [OF o(2)]
      lat keep s' o(3)
    by (intro consistentI)
      (fastforce split: if_splits dest: less_imp_le)+
  then show ?thesis
    using wf o newer s' unfolding owner_def by (auto dest: less_imp_le)
qed

lemma writes_svv:
  assumes "bt_wf (ns_key_values s)" "ns_max_version s < vv_version vv"
    and "\<And>old. get_versioned s k = Some old \<Longrightarrow> vv_version old \<le> ns_max_version s"
  shows "writes s k vv (set_versioned_value k vv s)"
proof -
  have "accepts_version s k (vv_version vv)"
    using assms(2,3) by (fastforce simp: accepts_version_def split: option.splits)
  then show ?thesis
    using assms by (auto simp: writes_def get_svv bt_wf_svv fun_eq_iff)
qed

lemma writes_update:
  assumes "bt_wf (ns_key_values s)" "ns_max_version s \<noteq> - 1" "vv_version vv = ns_max_version s + 1"
  shows "writes s k vv (s\<lparr>ns_max_version := ns_max_version s + 1,
    ns_key_values := bt_insert k vv (ns_key_values s)\<rparr>)"
  using assms word_less_Suc [OF assms(2)]
  by (auto simp: writes_def bt_wf_insert get_versioned_def bt_get_insert fun_eq_iff)

text \<open>The operations of the owner, by name.\<close>

datatype owner_op =
    OpSet string string
  | OpSetWithTtl string string
  | OpDelete string
  | OpDeleteAfterTtl string

fun op_key :: "owner_op \<Rightarrow> string" where
  "op_key (OpSet k _) = k"
| "op_key (OpSetWithTtl k _) = k"
| "op_key (OpDelete k) = k"
| "op_key (OpDeleteAfterTtl k) = k"

fun run_op :: "owner_op \<Rightarrow> instant \<Rightarrow> node_state \<Rightarrow> node_state result" where
  "run_op (OpSet k v) now s = ns_set k v s"
| "run_op (OpSetWithTtl k v) now s = Ok (set_with_ttl k v now s)"
| "run_op (OpDelete k) now s = Ok (ns_delete k now s)"
| "run_op (OpDeleteAfterTtl k) now s = Ok (delete_after_ttl k now s)"

lemma run_op_shape:
  assumes "run_op oper now s = Ok s'"
  shows "s' = s
    \<or> (\<exists>vv. vv_version vv = ns_max_version s + 1 \<and> s' = set_versioned_value (op_key oper) vv s)
    \<or> (\<exists>vv. vv_version vv = ns_max_version s + 1 \<and>
         s' = s\<lparr>ns_max_version := ns_max_version s + 1,
                ns_key_values := bt_insert (op_key oper) vv (ns_key_values s)\<rparr>)"
proof (cases oper)
  case (OpSet k v)
  then show ?thesis using assms
    by (auto simp: ns_set_cases split: if_splits intro!: exI [where x = "\<lparr>vv_value = v,
        vv_version = ns_max_version s + 1, vv_status = StatusSet\<rparr>"])
next
  case (OpSetWithTtl k v)
  then show ?thesis using assms
    by (auto simp: set_with_ttl_def Let_def split: option.splits if_splits
        intro!: exI [where x = "\<lparr>vv_value = v, vv_version = ns_max_version s + 1,
          vv_status = StatusDeleteAfterTtl now\<rparr>"])
next
  case (OpDelete k)
  then show ?thesis using assms
    by (auto simp: ns_delete_def Let_def split: option.splits intro: exI [where x = "x
          \<lparr>vv_version := y, vv_value := u, vv_status := v\<rparr>" for x y u v])
next
  case (OpDeleteAfterTtl k)
  then show ?thesis using assms
    by (auto simp: delete_after_ttl_def Let_def split: option.splits intro: exI [where x = "x
          \<lparr>vv_version := y, vv_status := v\<rparr>" for x y v])
qed

lemma run_op_cases:
  assumes "run_op oper now s = Ok s'" "consistent H s" "ns_max_version s \<noteq> - 1"
  obtains (unchanged) "s' = s"
  | (written) vv where "writes s (op_key oper) vv s'" "vv_version vv = ns_max_version s + 1"
proof -
  note wf = consistent_wf [OF assms(2)]
  note lt = word_less_Suc [OF assms(3)]
  have svv: "writes s k vv (set_versioned_value k vv s)"
    if "vv_version vv = ns_max_version s + 1" for k vv
    using writes_svv [OF wf, of vv k] consistent_held [OF assms(2), of k] lt that by auto
  show thesis
    using run_op_shape [OF assms(1)] unchanged written svv writes_update [OF wf assms(3)] by blast
qed

end
