(* ===== verification/Replication_System.thy ===== *)
theory Replication_System
  imports Replication
begin

text \<open>
  The replication of one node's state across the cluster as a transition system: the owner
  writes, any copy may be garbage collected at any time, learn a heartbeat or be forgotten, any
  copy may emit a delta above any version, and a delta in flight may be delivered to a copy at
  any later time, any number of times, in any order, or never. A message keeps the copy it was computed from, so that delivery
  can be judged against what the sender knew then.

  Delivery is restricted to the cases in which the code keeps copies consistent; the theorems
  at the end of theory \<open>Replication_Flaws\<close> show what happens in the other two. Deltas about a
  node are not delivered to the node itself.
\<close>

section \<open>Worlds\<close>

record world =
  wd_history :: history
  wd_copies :: "chitchat_id \<Rightarrow> node_state"
  wd_net :: "(node_state \<times> version \<times> node_delta) set"

definition recorded :: "node_state \<Rightarrow> string \<Rightarrow> node_state \<Rightarrow> history" where
  "recorded s k s' = (if ns_max_version s' = ns_max_version s then []
     else case get_versioned s' k of Some vv \<Rightarrow> [mutation_of k vv] | None \<Rightarrow> [])"

definition deliverable :: "node_state \<Rightarrow> version \<Rightarrow> node_state \<Rightarrow> bool" where
  "deliverable S from_v R \<longleftrightarrow>
     (from_v = 0 \<or> ns_last_gc_version S < ns_max_version R
       \<or> ns_last_gc_version S \<le> ns_last_gc_version R)
     \<and> ns_last_gc_version R \<le> max (ns_max_version S) (ns_last_gc_version S)"

inductive world_step :: "chitchat_id \<Rightarrow> world \<Rightarrow> world \<Rightarrow> bool" for i where
  owner_writes:
    "run_op oper now (wd_copies w i) = Ok s' \<Longrightarrow> ns_max_version (wd_copies w i) \<noteq> - 1 \<Longrightarrow>
     world_step i w (w\<lparr>wd_history := wd_history w @ recorded (wd_copies w i) (op_key oper) s',
       wd_copies := (wd_copies w)(i := s')\<rparr>)"
| collects:
    "world_step i w (w\<lparr>wd_copies := (wd_copies w)
       (j := gc_keys_marked_for_deletion now grace (wd_copies w j))\<rparr>)"
| sends:
    "emits (wd_copies w j) from_v nd \<Longrightarrow>
     world_step i w (w\<lparr>wd_net := insert (wd_copies w j, from_v, nd) (wd_net w)\<rparr>)"
| delivers:
    "(S, from_v, nd) \<in> wd_net w \<Longrightarrow> j \<noteq> i \<Longrightarrow> deliverable S from_v (wd_copies w j) \<Longrightarrow>
     world_step i w (w\<lparr>wd_copies := (wd_copies w)
       (j := ns_apply_delta nd now (wd_copies w j))\<rparr>)"
| beats:
    "world_step i w (w\<lparr>wd_copies := (wd_copies w)(j := wd_copies w j\<lparr>ns_heartbeat := h\<rparr>)\<rparr>)"
| forgets:
    "j \<noteq> i \<Longrightarrow> world_step i w (w\<lparr>wd_copies := (wd_copies w)(j := node_state_new i [])\<rparr>)"

inductive_cases world_stepE: "world_step i w w'"

definition initial_world :: "chitchat_id \<Rightarrow> world" where
  "initial_world i = \<lparr>wd_history = [], wd_copies = (\<lambda>_. node_state_new i []), wd_net = {}\<rparr>"

inductive reachable :: "chitchat_id \<Rightarrow> world \<Rightarrow> bool" for i where
  start: "reachable i (initial_world i)"
| next_step: "reachable i w \<Longrightarrow> world_step i w w' \<Longrightarrow> reachable i w'"

section \<open>The invariant\<close>

definition copy_of :: "history \<Rightarrow> version \<Rightarrow> node_state \<Rightarrow> bool" where
  "copy_of H m s \<longleftrightarrow> consistent H s \<and> ns_max_version s \<le> m \<and> ns_last_gc_version s \<le> m"

definition world_inv :: "chitchat_id \<Rightarrow> world \<Rightarrow> bool" where
  "world_inv i w \<longleftrightarrow> owner (wd_history w) (wd_copies w i)
     \<and> (\<forall>j. copy_of (wd_history w) (ns_max_version (wd_copies w i)) (wd_copies w j))
     \<and> (\<forall>(S, from_v, nd) \<in> wd_net w. emits S from_v nd
          \<and> copy_of (wd_history w) (ns_max_version (wd_copies w i)) S)"

lemma world_inv_initial: "world_inv i (initial_world i)"
proof -
  have "history_wf []" by (simp add: history_wf_def)
  then have "consistent [] (node_state_new i [])" by (rule consistent_new)
  with \<open>history_wf []\<close> show ?thesis
    by (simp add: world_inv_def initial_world_def owner_def copy_of_def node_state_new_def)
qed

lemma copy_of_extend:
  "copy_of H m s \<Longrightarrow> m < kvm_version w \<Longrightarrow> copy_of (H @ [w]) (kvm_version w) s"
  by (auto simp: copy_of_def intro!: consistent_extend)

lemma owner_copy_of: "owner H s \<Longrightarrow> copy_of H (ns_max_version s) s"
  by (simp add: owner_def copy_of_def)

lemma recorded_written:
  "writes s k vv s' \<Longrightarrow> recorded s k s' = [mutation_of k vv]"
  by (auto simp: writes_def recorded_def)

lemma run_op_owner:
  assumes "owner H s" "run_op oper now s = Ok s'" "ns_max_version s \<noteq> - 1"
  shows "owner (H @ recorded s (op_key oper) s') s'
    \<and> (\<forall>c. copy_of H (ns_max_version s) c \<longrightarrow>
         copy_of (H @ recorded s (op_key oper) s') (ns_max_version s') c)"
proof -
  have s: "consistent H s" using assms(1) by (simp add: owner_def)
  show ?thesis
  proof (cases rule: run_op_cases [OF assms(2) s assms(3)])
    case 1
    then show ?thesis using assms(1) by (simp add: recorded_def)
  next
    case (2 vv)
    have "ns_max_version s < vv_version vv" "ns_max_version s' = vv_version vv"
      using 2(1) by (simp_all add: writes_def)
    then show ?thesis
      using owner_write [OF assms(1) 2(1)] recorded_written [OF 2(1)]
        copy_of_extend [of H "ns_max_version s" _ "mutation_of (op_key oper) vv"]
      by simp
  qed
qed

lemma gc_last_gc_le:
  assumes "consistent H s"
  shows "ns_last_gc_version (gc_keys_marked_for_deletion now grace s)
    \<le> max (ns_last_gc_version s) (ns_max_version s)"
  using gc_last_gc_version(3) [OF consistent_wf [OF assms], of now grace]
    consistent_held [OF assms] by (metis le_max_iff_disj order.refl)

lemma gc_copy_of:
  assumes "copy_of H m s"
  shows "copy_of H m (gc_keys_marked_for_deletion now grace s)"
proof -
  have "consistent H s" using assms by (simp add: copy_of_def)
  from gc_last_gc_le [OF this, of now grace] gc_consistent [OF this, of now grace] assms
  show ?thesis by (auto simp: copy_of_def le_max_iff_disj)
qed

lemma gc_owner: "owner H s \<Longrightarrow> owner H (gc_keys_marked_for_deletion now grace s)"
  using gc_copy_of [of H "ns_max_version s" s now grace]
  by (auto simp: owner_def copy_of_def)

lemma receive_max_le:
  assumes "ns_max_version R \<le> m" "\<And>kv. kv \<in> set kvs \<Longrightarrow> kvm_version kv \<le> m"
  shows "ns_max_version (receive now kvs R) \<le> m"
  using assms fold_apply_max_cases [of "ns_max_version R" now kvs R]
  unfolding receive_def by metis

lemma emits_versions:
  assumes "emits S from_v nd" "copy_of H m S"
  shows "\<And>kv. kv \<in> set (ndl_key_values nd) \<Longrightarrow> kvm_version kv \<le> m"
    and "ns_max_version (reset_state nd R) \<le> m" "ndl_last_gc_version nd \<le> m"
proof -
  have S: "consistent H S" and le: "ns_max_version S \<le> m" "ns_last_gc_version S \<le> m"
    using assms(2) by (simp_all add: copy_of_def)
  show "kvm_version kv \<le> m" if kv: "kv \<in> set (ndl_key_values nd)" for kv
  proof -
    have "kv \<in> set (offered S from_v)"
      using kv assms(1) set_mono_prefix by (fastforce simp: emits_def)
    then have "holds S kv" using set_offered [OF consistent_wf [OF S]] by simp
    then show ?thesis using holds_version [OF S] le by fastforce
  qed
  show "ns_max_version (reset_state nd R) \<le> m" "ndl_last_gc_version nd \<le> m"
    using assms(1) le by (auto simp: reset_state_def emits_def split: option.splits)
qed

lemma ns_apply_delta_copy_of:
  assumes "history_wf H" "copy_of H m R" "copy_of H m S" "emits S from_v nd"
    and "deliverable S from_v R"
  shows "copy_of H m (ns_apply_delta nd now R)"
proof -
  have "consistent H (ns_apply_delta nd now R)"
    using ns_apply_delta_consistent [of H R S from_v nd now] assms
    by (simp add: copy_of_def deliverable_def)
  moreover have "ns_max_version (ns_apply_delta nd now R) \<le> m
      \<and> ns_last_gc_version (ns_apply_delta nd now R) \<le> m"
    using assms(2) emits_versions [OF assms(4,3)] receive_max_le
    by (cases rule: ns_apply_delta_cases [of nd now R]) (auto simp: copy_of_def)
  ultimately show ?thesis by (simp add: copy_of_def)
qed

text \<open>Heartbeats are no part of what consistency is about; a new copy is consistent.\<close>

lemma get_versioned_heartbeat [simp]: "get_versioned (s\<lparr>ns_heartbeat := h\<rparr>) = get_versioned s"
  by (simp add: get_versioned_def fun_eq_iff)

lemma consistent_heartbeat [simp]: "consistent H (s\<lparr>ns_heartbeat := h\<rparr>) = consistent H s"
  by (simp add: consistent_def holds_def)

lemma owner_heartbeat [simp]: "owner H (s\<lparr>ns_heartbeat := h\<rparr>) = owner H s"
  by (simp add: owner_def)

lemma copy_of_heartbeat [simp]: "copy_of H m (s\<lparr>ns_heartbeat := h\<rparr>) = copy_of H m s"
  by (simp add: copy_of_def)

lemma owner_new: "owner [] (node_state_new i ls)"
  using consistent_new [of "[]" i ls] by (simp add: owner_def history_wf_def node_state_new_def)

lemma owner_copy_new: "owner H s \<Longrightarrow> copy_of H (ns_max_version s) (node_state_new i ls)"
  using consistent_new [of H i ls] by (simp add: owner_def copy_of_def node_state_new_def)

lemma world_inv_step:
  assumes "world_inv i w" "world_step i w w'"
  shows "world_inv i w'"
  using assms(2)
proof cases
  case (owner_writes oper now s')
  have "owner (wd_history w) (wd_copies w i)" using assms(1) by (simp add: world_inv_def)
  from run_op_owner [OF this owner_writes(2,3)] assms(1) show ?thesis
    unfolding owner_writes(1) by (fastforce simp: world_inv_def owner_copy_of)
next
  case (collects j now grace)
  then show ?thesis
    using assms(1) gc_copy_of gc_owner by (auto simp: world_inv_def)
next
  case (sends j from_v nd)
  then show ?thesis using assms(1) by (auto simp: world_inv_def)
next
  case (delivers S from_v nd j now)
  have "copy_of (wd_history w) (ns_max_version (wd_copies w i))
      (ns_apply_delta nd now (wd_copies w j))"
    using ns_apply_delta_copy_of [of "wd_history w" _ "wd_copies w j" S from_v nd now]
      delivers assms(1) by (auto simp: world_inv_def owner_def)
  then show ?thesis using delivers assms(1) by (auto simp: world_inv_def)
next
  case (beats j h)
  then show ?thesis
    using assms(1) by (auto simp: world_inv_def)
next
  case (forgets j)
  have "copy_of (wd_history w) (ns_max_version (wd_copies w i)) (node_state_new i [])"
    using owner_copy_new assms(1) by (simp add: world_inv_def)
  then show ?thesis using forgets assms(1) by (auto simp: world_inv_def)
qed

lemma reachable_inv: "reachable i w \<Longrightarrow> world_inv i w"
  by (induction rule: reachable.induct) (blast intro: world_inv_initial world_inv_step)+

section \<open>Reads agree after an exchange with the owner\<close>

lemma latest_exists:
  assumes "w \<in> set H"
  obtains w' where "latest H w'" "kvm_key w' = kvm_key w"
proof -
  let ?W = "{w' \<in> set H. kvm_key w' = kvm_key w}"
  have "finite ?W" "?W \<noteq> {}" using assms by auto
  then have "Max (kvm_version ` ?W) \<in> kvm_version ` ?W" by (intro Max_in) auto
  then obtain w' where "w' \<in> ?W" "kvm_version w' = Max (kvm_version ` ?W)" by auto
  moreover have "\<forall>x \<in> ?W. kvm_version x \<le> Max (kvm_version ` ?W)"
    using \<open>finite ?W\<close> by simp
  ultimately have "w' \<in> ?W" "\<forall>x \<in> ?W. kvm_version x \<le> kvm_version w'" by simp_all
  then show thesis using that by (auto simp: latest_def)
qed

text \<open>Keys that expire after a time to live are excluded, see \<open>settled_get\<close>.\<close>

definition expiring :: "history \<Rightarrow> string \<Rightarrow> bool" where
  "expiring H k \<longleftrightarrow> (\<exists>w \<in> set H. latest H w \<and> kvm_key w = k \<and> kvm_status w = MutDeleteAfterTtl)"

lemma unwritten_get:
  assumes "consistent H s" "\<And>w. w \<in> set H \<Longrightarrow> kvm_key w \<noteq> k"
  shows "ns_get s k = None"
  using assms(2) consistent_held [OF assms(1), of k]
  by (cases "get_versioned s k") (fastforce simp: ns_get_def)+

lemma delta_from_version_le:
  "delta_from_version dg i S = Some from_v \<Longrightarrow> bt_get (node_digests dg) i = Some (ns_digest R) \<Longrightarrow>
   from_v \<le> ns_max_version R"
  by (auto simp: delta_from_version_def ns_digest_def Let_def split: if_splits)

lemma settled_same_get:
  assumes "consistent H s" "consistent H t" "\<not> expiring H k"
    and "\<And>w. latest H w \<Longrightarrow> settled s w \<and> settled t w"
  shows "ns_get s k = ns_get t k"
proof (cases "\<exists>w \<in> set H. kvm_key w = k")
  case True
  then obtain w where w: "latest H w" "kvm_key w = k" using latest_exists by metis
  then have "kvm_status w \<noteq> MutDeleteAfterTtl"
    using assms(3) by (auto simp: expiring_def latest_def)
  then show ?thesis using settled_get [of _ w] assms(4) [OF w(1)] w(2) by metis
next
  case False
  then show ?thesis using unwritten_get assms(1,2) by metis
qed

lemma exchange_owner_copy:
  assumes own: "owner H S" and copy: "copy_of H (ns_max_version S) R"
    and from_v: "delta_from_version dg i S = Some from_v"
    and dg: "bt_get (node_digests dg) i = Some (ns_digest R)"
    and nd: "uncut S from_v nd"
    and edge: "\<not> (ns_max_version R = ns_last_gc_version S \<and> ns_last_gc_version R < ns_last_gc_version S)"
    and ttl: "\<not> expiring H k"
  shows "ns_get (ns_apply_delta nd now R) k = ns_get S k"
proof (rule settled_same_get [OF _ _ ttl])
  have S: "history_wf H" "consistent H S" and R: "consistent H R"
    and all: "\<And>w. latest H w \<Longrightarrow> kvm_version w \<le> ns_max_version S"
    and gc: "ns_last_gc_version R \<le> max (ns_max_version S) (ns_last_gc_version S)"
    using own copy by (auto simp: owner_def copy_of_def latest_def le_max_iff_disj)
  note starts = delta_from_version_starts [OF from_v dg edge]
  show "consistent H (ns_apply_delta nd now R)"
    using ns_apply_delta_consistent [OF S(1) R S(2) _ starts gc] nd by (simp add: uncut_def)
  show "settled (ns_apply_delta nd now R) w' \<and> settled S w'" if w': "latest H w'" for w'
    using ns_apply_delta_settles
        [OF S(1) R S(2) nd delta_from_version_le [OF from_v dg] starts gc w' all [OF w']]
      consistent_settled [OF S(2) w' all [OF w']] by simp
  show "consistent H S" by (rule S(2))
qed

lemma exchange_with_owner:
  assumes "world_inv i w"
    and "delta_from_version dg i (wd_copies w i) = Some from_v"
    and "bt_get (node_digests dg) i = Some (ns_digest (wd_copies w j))"
    and "uncut (wd_copies w i) from_v nd"
    and "\<not> (ns_max_version (wd_copies w j) = ns_last_gc_version (wd_copies w i)
      \<and> ns_last_gc_version (wd_copies w j) < ns_last_gc_version (wd_copies w i))"
    and "\<not> expiring (wd_history w) k"
  shows "ns_get (ns_apply_delta nd now (wd_copies w j)) k = ns_get (wd_copies w i) k"
  using exchange_owner_copy [OF _ _ assms(2-6)] assms(1) by (simp add: world_inv_def)

text \<open>A copy that has seen all the versions of the owner reads like the owner.\<close>

lemma caught_up_same_get:
  assumes "owner H S" "copy_of H (ns_max_version S) R" "ns_max_version S \<le> ns_max_version R"
    and "\<not> expiring H k"
  shows "ns_get R k = ns_get S k"
proof (rule settled_same_get [OF _ _ assms(4)])
  show c: "consistent H R" "consistent H S"
    using assms(1,2) by (simp_all add: copy_of_def owner_def)
  show "settled R w \<and> settled S w" if w: "latest H w" for w
  proof -
    have "kvm_version w \<le> ns_max_version S"
      using assms(1) w by (simp add: owner_def latest_def)
    moreover from this have "kvm_version w \<le> ns_max_version R"
      using assms(3) by simp
    ultimately show ?thesis
      using consistent_settled [OF c(1) w] consistent_settled [OF c(2) w] by simp
  qed
qed

text \<open>
  A delta about the owner's own state leaves that state alone, unless it makes the owner reset:
  the owner has seen every version in it.
\<close>

lemma owner_ignores_delta:
  assumes "owner H R" "copy_of H (ns_max_version R) S" "emits S from_v nd"
    and "ndl_last_gc_version nd < ns_max_version R \<or> ndl_last_gc_version nd \<le> ns_last_gc_version R"
  shows "ns_apply_delta nd now R = R"
proof (cases rule: ns_apply_delta_cases [of nd now R])
  case incremental
  have "apply_mutation (ns_max_version R) now kv s = s" if "kv \<in> set (ndl_key_values nd)" for kv s
    using emits_versions(1) [OF assms(3,2) that] by (simp add: apply_mutation_def)
  then have "fold (apply_mutation (ns_max_version R) now) (ndl_key_values nd) R = R"
    by (induction "ndl_key_values nd" arbitrary: nd) (auto intro: fold_invariant [where P = "\<lambda>s. s = R"])
  then show ?thesis
    using incremental(1) by (simp add: receive_def)
next
  case reset
  then show ?thesis
    using assms(4) by auto
qed

end
