(* ===== verification/Partial_Delta.thy ===== *)
theory Partial_Delta
  imports Replication Delta_Correct Stale_Nodes
begin

text \<open>
  Correctness of \<open>compute_partial_delta_respecting_mtu\<close>: it returns (no assertion of the writer,
  the builder or the serializer fails), what it returns are deltas the copies may emit, in order
  of staleness and with at most the last one cut, it fits the datagram, and serializing it meets
  the assertion on its announced length.
\<close>

section \<open>The stream of the serializer and the stream of \<open>Delta::serialize\<close>\<close>

text \<open>
  The serializer writes with the threshold \<open>min BLOCK_THRESHOLD mtu\<close>, \<open>Delta::serialize\<close> with
  \<open>BLOCK_THRESHOLD\<close>. Where these differ nothing has been flushed.
\<close>

definition same_stream :: "compressed_stream_writer \<Rightarrow> compressed_stream_writer \<Rightarrow> bool" where
  "same_stream w w0 \<longleftrightarrow> csw_output w = csw_output w0
     \<and> csw_uncompressed_block w = csw_uncompressed_block w0
     \<and> (csw_block_threshold w = csw_block_threshold w0
        \<or> length (csw_uncompressed_block w) \<le> csw_block_threshold w
          \<and> csw_block_threshold w \<le> csw_block_threshold w0)"

lemma same_stream_eq:
  "csw_block_threshold w = csw_block_threshold w0 \<Longrightarrow> same_stream w w0 \<Longrightarrow> w = w0"
  by (cases w, cases w0) (simp add: same_stream_def)

lemma same_stream_finish:
  assumes "same_stream w w0"
  shows "csw_finish z w = csw_finish z w0"
proof (cases "csw_block_threshold w = csw_block_threshold w0")
  case True
  then show ?thesis using same_stream_eq assms by metis
next
  case False
  then have "min (length (csw_uncompressed_block w)) (csw_block_threshold w)
      = length (csw_uncompressed_block w)"
    "min (length (csw_uncompressed_block w0)) (csw_block_threshold w0)
      = length (csw_uncompressed_block w0)"
    and same: "csw_output w = csw_output w0"
      "csw_uncompressed_block w = csw_uncompressed_block w0"
    using assms by (auto simp: same_stream_def)
  then show ?thesis
    by (auto simp: csw_finish_def flush_block_def Let_def split: option.splits)
qed

lemma csw_append_no_flush:
  "len \<le> 65535 \<Longrightarrow> length (csw_uncompressed_block w) + length bs \<le> csw_block_threshold w \<Longrightarrow>
   csw_append z bs len w = Ok (w\<lparr>csw_uncompressed_block := csw_uncompressed_block w @ bs\<rparr>)"
  by (simp add: csw_append_def flush_loop.simps)

lemma same_stream_append:
  assumes "same_stream w w0" "csw_append z bs len w = Ok w'" "len \<le> 65535"
    and "csw_block_threshold w = csw_block_threshold w0
      \<or> length (csw_uncompressed_block w) + length bs \<le> csw_block_threshold w"
  obtains w0' where "csw_append z bs len w0 = Ok w0'" "same_stream w' w0'"
proof (cases "csw_block_threshold w = csw_block_threshold w0")
  case True
  then show ?thesis using same_stream_eq assms that [of w']
    by (metis same_stream_def)
next
  case False
  then have "length (csw_uncompressed_block w) + length bs \<le> csw_block_threshold w"
    "csw_block_threshold w \<le> csw_block_threshold w0"
    "csw_uncompressed_block w = csw_uncompressed_block w0"
    using assms by (auto simp: same_stream_def)
  then show ?thesis
    using that assms(1,2) csw_append_no_flush [OF assms(3), of w bs z]
      csw_append_no_flush [OF assms(3), of w0 bs z]
    by (auto simp: same_stream_def)
qed

lemma csw_append_ops_snoc:
  "csw_append_ops z (ops @ [op]) w = and_then (csw_append_ops z ops w)
     (csw_append z (delta_op_serialize op) (delta_op_serialized_len op))"
proof (induction ops arbitrary: w)
  case Nil
  then show ?case
    by (cases "csw_append z (delta_op_serialize op) (delta_op_serialized_len op) w") simp_all
next
  case (Cons a ops)
  then show ?case
    by (cases "csw_append z (delta_op_serialize a) (delta_op_serialized_len a) w") simp_all
qed

section \<open>The serializer's invariant\<close>

abbreviation op_bytes :: "delta_op list \<Rightarrow> u8 list" where
  "op_bytes ops \<equiv> concat (map delta_op_serialize ops)"

abbreviation ds_ops :: "delta_serializer \<Rightarrow> delta_op list" where
  "ds_ops s \<equiv> get_operations (built (ds_delta_builder s))"

definition ds_inv :: "zstd \<Rightarrow> delta_serializer \<Rightarrow> bool" where
  "ds_inv z s \<longleftrightarrow> builder_wf (ds_delta_builder s)
     \<and> csw_wf (ds_compressed_stream_writer s)
     \<and> csw_repr z (ds_compressed_stream_writer s) (op_bytes (ds_ops s))
     \<and> csw_block_threshold (ds_compressed_stream_writer s) = min BLOCK_THRESHOLD (ds_mtu s)
     \<and> (\<exists>w0. csw_append_ops z (ds_ops s) (with_block_threshold 16384) = Ok w0
          \<and> csw_block_threshold w0 = BLOCK_THRESHOLD
          \<and> same_stream (ds_compressed_stream_writer s) w0)"

definition ds_size :: "delta_serializer \<Rightarrow> nat" where
  "ds_size s = length (csw_output (ds_compressed_stream_writer s))
     + length (csw_uncompressed_block (ds_compressed_stream_writer s)) + 4"

lemma with_mtu_inv:
  assumes "100 \<le> mtu" "mtu \<le> 65535"
  obtains s where "with_mtu mtu = Ok s" "ds_inv z s" "ds_mtu s = mtu"
    "built (ds_delta_builder s) = []" "ds_size s \<le> mtu"
proof -
  let ?t = "as_u16 (min BLOCK_THRESHOLD mtu)"
  let ?s = "\<lparr>ds_mtu = mtu, ds_delta_builder = delta_builder_default,
    ds_compressed_stream_writer = with_block_threshold ?t\<rparr>"
  have t: "unat ?t = min BLOCK_THRESHOLD mtu"
    by (rule unat_as_u16) (simp add: BLOCK_THRESHOLD_def)
  then have "0 < unat ?t" using assms by (simp add: BLOCK_THRESHOLD_def)
  then have "0 < ?t" by (simp add: unat_gt_0 word_neq_0_conv)
  have "with_mtu mtu = Ok ?s" using assms by (simp add: with_mtu_def)
  moreover have "ds_inv z ?s"
    using with_block_threshold_wf [OF \<open>0 < ?t\<close>] with_block_threshold_repr [of z ?t] t
    by (simp add: ds_inv_def get_operations_def same_stream_def)
      (auto simp: with_block_threshold_def BLOCK_THRESHOLD_def)
  ultimately show ?thesis
    using that [of ?s] assms by (simp add: ds_size_def with_block_threshold_def)
qed

lemma try_add_op_ok:
  assumes z: "zstd_ok z" and inv: "ds_inv z s" and mtu: "ds_mtu s \<le> 65535"
    and b': "apply_op (ds_delta_builder s) op = Ok b'" "builder_wf b'"
      "get_operations (built b') = ds_ops s @ [op]"
  obtains (full) "try_add_op z op s = Ok (False, s)"
  | (added) s' where "try_add_op z op s = Ok (True, s')" "ds_inv z s'" "ds_delta_builder s' = b'"
      "ds_mtu s' = ds_mtu s"
      "delta_op_serialized_len op \<le> min BLOCK_THRESHOLD (ds_mtu s) \<Longrightarrow> ds_size s' \<le> ds_mtu s"
proof -
  let ?w = "ds_compressed_stream_writer s"
  let ?len = "delta_op_serialized_len op"
  let ?new = "length (csw_uncompressed_block ?w) + ?len > csw_block_threshold ?w"
  let ?bound = "3 + length (csw_output ?w) + length (csw_uncompressed_block ?w)
    + (if ?new then 3 else 0) + ?len + 1"
  have bound: "serialized_len_upperbound_after ?w ?len = Ok ?bound"
    using delta_op_serialized_len_pos [of op]
    by (simp add: serialized_len_upperbound_after_def Let_def)
  show thesis
  proof (cases "?bound > ds_mtu s")
    case True
    then show thesis using full bound by (simp add: try_add_op_def)
  next
    case False
    have wf: "csw_wf ?w" and repr: "csw_repr z ?w (op_bytes (ds_ops s))"
      and thr: "csw_block_threshold ?w = min BLOCK_THRESHOLD (ds_mtu s)"
      using inv by (simp_all add: ds_inv_def)
    obtain w0 where w0: "csw_append_ops z (ds_ops s) (with_block_threshold 16384) = Ok w0"
      "csw_block_threshold w0 = BLOCK_THRESHOLD" "same_stream ?w w0"
      using inv by (auto simp: ds_inv_def)
    have len: "?len \<le> 65535" using False mtu by simp
    obtain w' where w': "csw_append z (delta_op_serialize op) ?len ?w = Ok w'"
      "csw_repr z w' (op_bytes (ds_ops s) @ delta_op_serialize op)" "csw_wf w'"
      "csw_block_threshold w' = csw_block_threshold ?w"
      by (rule csw_append_ok [OF z wf repr len])
    have "csw_block_threshold ?w = csw_block_threshold w0
      \<or> length (csw_uncompressed_block ?w) + length (delta_op_serialize op)
          \<le> csw_block_threshold ?w"
      using False thr w0(2) by (auto simp: delta_op_length min_def split: if_splits)
    then obtain w0' where w0': "csw_append z (delta_op_serialize op) ?len w0 = Ok w0'"
      "same_stream w' w0'"
      by (rule same_stream_append [OF w0(3) w'(1) len])
    have thr0: "csw_block_threshold w0' = BLOCK_THRESHOLD"
      using w0(2) w0'(1) len flush_loop_threshold
      by (auto simp: csw_append_def split: if_splits)
    let ?s = "s\<lparr>ds_compressed_stream_writer := w', ds_delta_builder := b'\<rparr>"
    have ok: "try_add_op z op s = Ok (True, ?s)"
      using bound False w'(1) b'(1) by (simp add: try_add_op_def)
    have "ds_inv z ?s"
      using w' w0 w0' thr thr0 b' by (simp add: ds_inv_def csw_append_ops_snoc)
    then show thesis
    proof (rule added [OF ok])
      assume "?len \<le> min BLOCK_THRESHOLD (ds_mtu s)"
      then show "ds_size ?s \<le> ds_mtu s"
        using csw_append_size [OF z wf repr, of "delta_op_serialize op" w'] w'(1) thr len False
        by (auto simp: ds_size_def delta_op_length)
    qed simp_all
  qed
qed

section \<open>Adding a stale node\<close>

text \<open>The node delta under construction is the last one, and it has no \<open>max_version\<close> yet.\<close>

definition building :: "delta_serializer \<Rightarrow> node_delta list \<Rightarrow> node_delta \<Rightarrow> bool" where
  "building s nds nd \<longleftrightarrow> built (ds_delta_builder s) = nds @ [nd]
     \<and> db_current_node_delta (ds_delta_builder s) = Some nd \<and> ndl_max_version nd = None"

lemma get_operations_append:
  "get_operations (nds @ nds') = get_operations nds @ get_operations nds'"
  by (simp add: get_operations_def)

lemma building_update:
  assumes "building s nds nd" "builder_wf (ds_delta_builder s)"
    and "ndl_chitchat_id nd' = ndl_chitchat_id nd"
    and "node_delta_operations nd' = node_delta_operations nd @ [op]"
  shows "built (ds_delta_builder s\<lparr>db_current_node_delta := Some nd'\<rparr>) = nds @ [nd']"
    and "builder_wf (ds_delta_builder s\<lparr>db_current_node_delta := Some nd'\<rparr>)"
    and "get_operations (built (ds_delta_builder s\<lparr>db_current_node_delta := Some nd'\<rparr>))
      = ds_ops s @ [op]"
proof -
  show built': "built (ds_delta_builder s\<lparr>db_current_node_delta := Some nd'\<rparr>) = nds @ [nd']"
    using assms(1) built_current [of "ds_delta_builder s" nd nd'] by (simp add: building_def)
  show "builder_wf (ds_delta_builder s\<lparr>db_current_node_delta := Some nd'\<rparr>)"
    using builder_wf_current [OF assms(2) _ assms(3)] assms(1) by (simp add: building_def)
  show "get_operations (built (ds_delta_builder s\<lparr>db_current_node_delta := Some nd'\<rparr>))
      = ds_ops s @ [op]"
    unfolding built' using assms(1,4)
    by (simp add: building_def get_operations_append) (simp add: get_operations_def)
qed

lemma try_add_node_ok:
  assumes "zstd_ok z" "ds_inv z s" "ds_mtu s \<le> 65535"
    and "i \<notin> ndl_chitchat_id ` set (built (ds_delta_builder s))"
  obtains (full) "try_add_node z i gc from_v s = Ok (False, s)"
  | (added) s' where "try_add_node z i gc from_v s = Ok (True, s')" "ds_inv z s'"
      "building s' (built (ds_delta_builder s)) \<lparr>ndl_chitchat_id = i,
         ndl_from_version_excluded = from_v, ndl_last_gc_version = gc, ndl_key_values = [],
         ndl_max_version = None\<rparr>"
      "ds_mtu s' = ds_mtu s"
      "delta_op_serialized_len (OpNode i gc from_v) \<le> min BLOCK_THRESHOLD (ds_mtu s) \<Longrightarrow>
         ds_size s' \<le> ds_mtu s"
proof -
  have "builder_wf (ds_delta_builder s)" using assms(2) by (simp add: ds_inv_def)
  from apply_op_node [OF this assms(4), of gc from_v] obtain b' where
    b': "apply_op (ds_delta_builder s) (OpNode i gc from_v) = Ok b'" "builder_wf b'"
    and nd: "built b' = built (ds_delta_builder s) @ [\<lparr>ndl_chitchat_id = i,
         ndl_from_version_excluded = from_v, ndl_last_gc_version = gc, ndl_key_values = [],
         ndl_max_version = None\<rparr>]" "db_current_node_delta b' = Some \<lparr>ndl_chitchat_id = i,
         ndl_from_version_excluded = from_v, ndl_last_gc_version = gc, ndl_key_values = [],
         ndl_max_version = None\<rparr>"
    by blast
  have "get_operations (built b') = ds_ops s @ [OpNode i gc from_v]"
    by (simp add: nd get_operations_append) (simp add: get_operations_def node_delta_operations_def)
  from try_add_op_ok [OF assms(1-3) b' this] show thesis
    using full added nd unfolding try_add_node_def building_def
    by (metis (no_types, lifting) node_delta.select_convs(5))
qed

text \<open>
  The loop over the key-values adds a prefix of them, all of them when it says so, and says
  whether it added any.
\<close>

lemma add_kvs_ok:
  assumes "zstd_ok z" "ds_inv z s" "ds_mtu s \<le> 65535" "building s nds nd"
    and "sorted_wrt (<) (map kvm_version (ndl_key_values nd
      @ map (\<lambda>(k, vv). mutation_of k vv) kvs))"
  obtains all added s' pre where "add_kvs z kvs ad s = Ok (all, added, s')" "ds_inv z s'"
    "ds_mtu s' = ds_mtu s" "prefix pre (map (\<lambda>(k, vv). mutation_of k vv) kvs)"
    "building s' nds (nd\<lparr>ndl_key_values := ndl_key_values nd @ pre\<rparr>)"
    "all \<longleftrightarrow> pre = map (\<lambda>(k, vv). mutation_of k vv) kvs" "added \<longleftrightarrow> ad \<or> pre \<noteq> []"
    "(\<forall>(k, vv) \<in> set kvs. delta_op_serialized_len (OpKeyValue (mutation_of k vv))
        \<le> min BLOCK_THRESHOLD (ds_mtu s)) \<and> ds_size s \<le> ds_mtu s \<longrightarrow> ds_size s' \<le> ds_mtu s"
  using assms
proof (induction kvs arbitrary: s nd ad thesis)
  case Nil
  show ?case by (rule Nil.prems(1) [of True ad s "[]"]) (use Nil.prems in simp_all)
next
  case (Cons kvv kvs)
  obtain k vv where kvv: "kvv = (k, vv)" by (cases kvv)
  let ?kv = "mutation_of k vv"
  let ?nd = "nd\<lparr>ndl_key_values := ndl_key_values nd @ [?kv]\<rparr>"
  have nd: "db_current_node_delta (ds_delta_builder s) = Some nd" "ndl_max_version nd = None"
    using Cons.prems(5) by (simp_all add: building_def)
  have "ndl_key_values nd \<noteq> [] \<Longrightarrow> kvm_version (last (ndl_key_values nd)) < kvm_version ?kv"
    using Cons.prems(6) kvv by (auto simp: sorted_wrt_append)
  then have step: "apply_op (ds_delta_builder s) (OpKeyValue ?kv)
      = Ok (ds_delta_builder s\<lparr>db_current_node_delta := Some ?nd\<rparr>)"
    using nd by auto
  have "builder_wf (ds_delta_builder s)" using Cons.prems(3) by (simp add: ds_inv_def)
  note upd = building_update [OF Cons.prems(5) this, of ?nd "OpKeyValue ?kv"]
  have ops: "node_delta_operations ?nd = node_delta_operations nd @ [OpKeyValue ?kv]"
    using nd by (simp add: node_delta_operations_def)
  show ?case
  proof (cases rule: try_add_op_ok [OF Cons.prems(2-4) step])
    show "builder_wf (ds_delta_builder s\<lparr>db_current_node_delta := Some ?nd\<rparr>)"
      "get_operations (built (ds_delta_builder s\<lparr>db_current_node_delta := Some ?nd\<rparr>))
        = ds_ops s @ [OpKeyValue ?kv]"
      using upd(2,3) [OF _ ops] by simp_all
  next
    case 3
    then show thesis
      using Cons.prems(3,5) kvv
      by (intro Cons.prems(1) [of False ad s "[]"]) (simp_all add: try_add_kv_def)
  next
    case (4 s1)
    have b1: "building s1 nds ?nd"
      using upd(1) [OF _ ops] 4(3) nd by (simp add: building_def)
    obtain all added s' pre where r: "add_kvs z kvs True s1 = Ok (all, added, s')" "ds_inv z s'"
      "ds_mtu s' = ds_mtu s1" "prefix pre (map (\<lambda>(k, vv). mutation_of k vv) kvs)"
      "building s' nds (?nd\<lparr>ndl_key_values := ndl_key_values ?nd @ pre\<rparr>)"
      "all \<longleftrightarrow> pre = map (\<lambda>(k, vv). mutation_of k vv) kvs" "added \<longleftrightarrow> True \<or> pre \<noteq> []"
      "(\<forall>(k, vv) \<in> set kvs. delta_op_serialized_len (OpKeyValue (mutation_of k vv))
        \<le> min BLOCK_THRESHOLD (ds_mtu s1)) \<and> ds_size s1 \<le> ds_mtu s1 \<longrightarrow> ds_size s' \<le> ds_mtu s1"
      by (rule Cons.IH [where s = s1 and nd = ?nd and ad = True])
        (use Cons.prems(2,4,6) 4(2,4) b1 kvv in simp_all)
    show thesis
      by (rule Cons.prems(1) [of all added s' "?kv # pre"])
        (use r 4 kvv in \<open>simp_all add: try_add_kv_def\<close>)
  qed
qed

section \<open>All stale nodes\<close>

lemma ds_finish_ok:
  assumes "zstd_ok z" "ds_inv z s"
  obtains d bs where "ds_finish z s = Ok d" "node_deltas d = built (ds_delta_builder s)"
    "delta_serialize z d = Ok bs" "length bs = delta_serialized_len d" "length bs \<le> ds_size s"
proof -
  let ?w = "ds_compressed_stream_writer s"
  have wf: "csw_wf ?w" and repr: "csw_repr z ?w (op_bytes (ds_ops s))"
    using assms(2) by (simp_all add: ds_inv_def)
  obtain w0 where w0: "csw_append_ops z (ds_ops s) (with_block_threshold 16384) = Ok w0"
    "same_stream ?w w0"
    using assms(2) by (auto simp: ds_inv_def)
  obtain bs where bs: "csw_finish z ?w = Ok bs"
    "length bs \<le> length (csw_output ?w) + length (csw_uncompressed_block ?w) + 4"
    by (rule csw_finish_ok [OF assms(1) wf repr])
  have "ds_finish z s = Ok \<lparr>node_deltas = built (ds_delta_builder s),
      delta_serialized_len = length bs\<rparr>"
    using bs(1) by (simp add: ds_finish_def builder_finish_eq)
  then show thesis
    using that bs w0 same_stream_finish [OF w0(2), of z]
    by (simp add: delta_serialize_def ds_size_def)
qed

definition delta_of :: "stale_node \<Rightarrow> node_delta \<Rightarrow> bool" where
  "delta_of sn nd \<longleftrightarrow> ndl_chitchat_id nd = sn_chitchat_id sn
     \<and> emits (sn_node_state sn) (sn_from_version_excluded sn) nd"

definition whole_delta_of :: "stale_node \<Rightarrow> node_delta \<Rightarrow> bool" where
  "whole_delta_of sn nd \<longleftrightarrow> delta_of sn nd
     \<and> ndl_key_values nd = offered (sn_node_state sn) (sn_from_version_excluded sn)"

text \<open>The deltas of a run: of the first stale nodes, whole but for the last one.\<close>

definition deltas_of :: "stale_node list \<Rightarrow> node_delta list \<Rightarrow> bool" where
  "deltas_of sns nds \<longleftrightarrow> length nds \<le> length sns
     \<and> list_all2 delta_of (take (length nds) sns) nds
     \<and> list_all2 whole_delta_of (take (length nds - 1) sns) (butlast nds)"

lemma deltas_of_Nil: "deltas_of sns []"
  by (simp add: deltas_of_def)

lemma deltas_of_single: "delta_of sn nd \<Longrightarrow> deltas_of (sn # sns) [nd]"
  by (simp add: deltas_of_def)

lemma deltas_of_Cons:
  "whole_delta_of sn nd \<Longrightarrow> deltas_of sns nds \<Longrightarrow> deltas_of (sn # sns) (nd # nds)"
  by (cases nds) (auto simp: deltas_of_def whole_delta_of_def)

text \<open>Operations that fit a block, which the size estimate is right for.\<close>

definition fits_block :: "nat \<Rightarrow> stale_node \<Rightarrow> bool" where
  "fits_block mtu sn \<longleftrightarrow>
     delta_op_serialized_len (OpNode (sn_chitchat_id sn) (ns_last_gc_version (sn_node_state sn))
       (sn_from_version_excluded sn)) \<le> min BLOCK_THRESHOLD mtu
     \<and> (\<forall>(k, vv) \<in> set (sn_stale_key_values sn).
          delta_op_serialized_len (OpKeyValue (mutation_of k vv)) \<le> min BLOCK_THRESHOLD mtu)"

lemma offered_stale_node:
  "offered (sn_node_state sn) (sn_from_version_excluded sn)
     = map (\<lambda>(k, vv). mutation_of k vv) (sn_stale_key_values sn)"
  by (simp add: offered_def sn_stale_key_values_def)

lemma offered_strict_sorted:
  assumes "ns_inv s"
  shows "sorted_wrt (<) (map kvm_version (offered s from_v))"
proof -
  have wf: "bt_wf (ns_key_values s)" using assms by (simp add: ns_inv_def)
  have "kv = kv'" if "kv \<in> set (offered s from_v)" "kv' \<in> set (offered s from_v)"
    "kvm_version kv = kvm_version kv'" for kv kv'
  proof -
    have h: "holds s kv" "holds s kv'" using that set_offered [OF wf] by simp_all
    then have "kvm_key kv = kvm_key kv'"
      using assms that(3) unfolding ns_inv_get holds_def by (metis mutation_of_simps(3))
    then show ?thesis using holds_key_unique h by blast
  qed
  then have "inj_on kvm_version (set (offered s from_v))" by (auto simp: inj_on_def)
  moreover have "distinct (offered s from_v)"
    using offered_distinct_keys [OF wf, of from_v] by (simp add: distinct_map)
  ultimately have "distinct (map kvm_version (offered s from_v))" by (simp add: distinct_map)
  then show ?thesis using offered_sorted by (simp add: strict_sorted_iff)
qed

lemma try_set_max_version_ok:
  assumes "zstd_ok z" "ds_inv z s" "ds_mtu s \<le> 65535" "100 \<le> ds_mtu s" "building s nds nd"
  obtains fits s' mv where "try_set_max_version z m s = Ok (fits, s')" "ds_inv z s'"
    "ds_mtu s' = ds_mtu s" "built (ds_delta_builder s') = nds @ [nd\<lparr>ndl_max_version := mv\<rparr>]"
    "mv = None \<or> mv = Some m" "ds_size s \<le> ds_mtu s \<longrightarrow> ds_size s' \<le> ds_mtu s"
proof -
  let ?nd = "nd\<lparr>ndl_max_version := Some m\<rparr>"
  have nd: "db_current_node_delta (ds_delta_builder s) = Some nd" "ndl_max_version nd = None"
    "built (ds_delta_builder s) = nds @ [nd]"
    using assms(5) by (simp_all add: building_def)
  then have same: "nd\<lparr>ndl_max_version := None\<rparr> = nd" by (cases nd) simp
  have step: "apply_op (ds_delta_builder s) (OpSetMaxVersion m)
      = Ok (ds_delta_builder s\<lparr>db_current_node_delta := Some ?nd\<rparr>)"
    using nd by simp
  have ops: "node_delta_operations ?nd = node_delta_operations nd @ [OpSetMaxVersion m]"
    using nd by (simp add: node_delta_operations_def)
  have "builder_wf (ds_delta_builder s)" using assms(2) by (simp add: ds_inv_def)
  note upd = building_update [OF assms(5) this _ ops]
  show thesis
  proof (cases rule: try_add_op_ok [OF assms(1-3) step])
    case 3
    then show thesis
      by (intro that [of False s None]) (use assms nd same in \<open>simp_all add: try_set_max_version_def\<close>)
  next
    case (4 s1)
    then show thesis
      by (intro that [of True s1 "Some m"])
        (use upd(1) assms(4) in \<open>simp_all add: try_set_max_version_def BLOCK_THRESHOLD_def\<close>)
  qed (use upd in simp_all)
qed

text \<open>
  One stale node: its key-values and, when it has none to offer, its \<open>max_version\<close>. Either the
  run ends here, with no delta or a cut one for this node, or it goes on to the next node.
\<close>

lemma add_stale_node_step:
  assumes z: "zstd_ok z" and inv: "ds_inv z s" and mtu: "ds_mtu s \<le> 65535" "100 \<le> ds_mtu s"
    and new: "sn_chitchat_id sn \<notin> ndl_chitchat_id ` set (built (ds_delta_builder s))"
    and S: "ns_inv (sn_node_state sn)"
  obtains s' nds where "ds_inv z s'" "ds_mtu s' = ds_mtu s"
    "built (ds_delta_builder s') = built (ds_delta_builder s) @ nds"
    "fits_block (ds_mtu s) sn \<and> ds_size s \<le> ds_mtu s \<longrightarrow> ds_size s' \<le> ds_mtu s"
    "(\<forall>sns. add_stale_nodes z (sn # sns) s = ds_finish z s')
       \<and> (nds = [] \<or> (\<exists>nd. nds = [nd] \<and> delta_of sn nd))
     \<or> (\<forall>sns. add_stale_nodes z (sn # sns) s = add_stale_nodes z sns s')
       \<and> (\<exists>nd. nds = [nd] \<and> whole_delta_of sn nd)"
proof -
  let ?S = "sn_node_state sn" and ?f = "sn_from_version_excluded sn"
  let ?nd = "\<lambda>kvs mv. \<lparr>ndl_chitchat_id = sn_chitchat_id sn, ndl_from_version_excluded = ?f,
    ndl_last_gc_version = ns_last_gc_version ?S, ndl_key_values = kvs, ndl_max_version = mv\<rparr>"
  show thesis
  proof (cases rule: try_add_node_ok [OF z inv mtu(1) new, of "ns_last_gc_version ?S" ?f])
    case 1
    then show thesis using inv by (intro that [of s "[]"]) simp_all
  next
    case (2 s1)
    have srt: "sorted_wrt (<) (map kvm_version (ndl_key_values (?nd [] None)
        @ map (\<lambda>(k, vv). mutation_of k vv) (sn_stale_key_values sn)))"
      using offered_strict_sorted [OF S, of ?f] by (simp add: offered_stale_node del: map_map)
    have mtu1: "ds_mtu s1 \<le> 65535" using 2(4) mtu by simp
    obtain all added s2 pre where r0: "add_kvs z (sn_stale_key_values sn) False s1
        = Ok (all, added, s2)" "ds_inv z s2" "ds_mtu s2 = ds_mtu s1"
      "prefix pre (map (\<lambda>(k, vv). mutation_of k vv) (sn_stale_key_values sn))"
      "building s2 (built (ds_delta_builder s))
        (?nd [] None\<lparr>ndl_key_values := ndl_key_values (?nd [] None) @ pre\<rparr>)"
      "all \<longleftrightarrow> pre = map (\<lambda>(k, vv). mutation_of k vv) (sn_stale_key_values sn)"
      "added \<longleftrightarrow> False \<or> pre \<noteq> []"
      "(\<forall>(k, vv) \<in> set (sn_stale_key_values sn). delta_op_serialized_len (OpKeyValue (mutation_of k vv))
        \<le> min BLOCK_THRESHOLD (ds_mtu s1)) \<and> ds_size s1 \<le> ds_mtu s1 \<longrightarrow> ds_size s2 \<le> ds_mtu s1"
      by (rule add_kvs_ok [OF z 2(2) mtu1 2(3) srt, where ad = False])
    note r = r0(1-3) r0(4) [folded offered_stale_node] r0(5) [simplified]
      r0(6) [folded offered_stale_node] r0(7) [simplified]
    have size2: "fits_block (ds_mtu s) sn \<longrightarrow> ds_size s2 \<le> ds_mtu s"
    proof
      assume "fits_block (ds_mtu s) sn"
      then have "ds_size s1 \<le> ds_mtu s"
        and "\<forall>(k, vv) \<in> set (sn_stale_key_values sn).
          delta_op_serialized_len (OpKeyValue (mutation_of k vv)) \<le> min BLOCK_THRESHOLD (ds_mtu s)"
        using 2(5) unfolding fits_block_def by (metis, metis)
      then show "ds_size s2 \<le> ds_mtu s" using r0(8) unfolding 2(4) by metis
    qed
    have b2: "built (ds_delta_builder s2) = built (ds_delta_builder s) @ [?nd pre None]"
      using r(5) by (simp add: building_def)
    have nd: "delta_of sn (?nd pre mv)" if "mv = None \<or> mv = Some (ns_max_version ?S) \<and> offered ?S ?f = []" for mv
      using that r(4) by (auto simp: delta_of_def emits_def)
    consider "\<not> all" | "all" "added" | "all" "\<not> added" by blast
    then show thesis
    proof cases
      case 1
      then have "add_stale_nodes z (sn # sns) s = ds_finish z s2" for sns
        using 2(1) r(1) by simp
      then show thesis
        using size2 r(2,3) 2(4) b2 nd [of None] by (intro that [of s2 "[?nd pre None]"]) auto
    next
      case c: 2
      then have "add_stale_nodes z (sn # sns) s = add_stale_nodes z sns s2" for sns
        using 2(1) r(1) by simp
      then show thesis
        using size2 r(2,3,6) 2(4) b2 nd [of None] c
        by (intro that [of s2 "[?nd pre None]"]) (auto simp: whole_delta_of_def)
    next
      case c: 3
      then have none: "pre = []" "offered ?S ?f = []" using r(6,7) by auto
      have mtu2: "ds_mtu s2 \<le> 65535" "100 \<le> ds_mtu s2" using r(3) 2(4) mtu by simp_all
      obtain fits s3 mv where s3: "try_set_max_version z (ns_max_version ?S) s2 = Ok (fits, s3)"
        "ds_inv z s3" "ds_mtu s3 = ds_mtu s2"
        "built (ds_delta_builder s3) = built (ds_delta_builder s)
          @ [?nd pre None\<lparr>ndl_max_version := mv\<rparr>]"
        "mv = None \<or> mv = Some (ns_max_version ?S)" "ds_size s2 \<le> ds_mtu s2 \<longrightarrow> ds_size s3 \<le> ds_mtu s2"
        by (rule try_set_max_version_ok [OF z r(2) mtu2 r(5)])
      have "add_stale_nodes z (sn # sns) s = add_stale_nodes z sns s3" for sns
        using 2(1) r(1) s3(1) c by simp
      then show thesis
        using size2 r(2,3) 2(4) s3 nd [of mv] none
        by (intro that [of s3 "[?nd pre mv]"]) (auto simp: whole_delta_of_def)
    qed
  qed
qed

lemma add_stale_nodes_ok:
  assumes "zstd_ok z" "ds_inv z s" "ds_mtu s \<le> 65535" "100 \<le> ds_mtu s"
    and "distinct (map sn_chitchat_id sns)"
    and "sn_chitchat_id ` set sns \<inter> ndl_chitchat_id ` set (built (ds_delta_builder s)) = {}"
    and "\<forall>sn \<in> set sns. ns_inv (sn_node_state sn)"
  shows "\<exists>d nds bs. add_stale_nodes z sns s = Ok d
    \<and> node_deltas d = built (ds_delta_builder s) @ nds \<and> deltas_of sns nds
    \<and> delta_serialize z d = Ok bs \<and> length bs = delta_serialized_len d
    \<and> ((\<forall>sn \<in> set sns. fits_block (ds_mtu s) sn) \<and> ds_size s \<le> ds_mtu s \<longrightarrow> length bs \<le> ds_mtu s)"
  using assms
proof (induction sns arbitrary: s)
  case Nil
  obtain d bs where "ds_finish z s = Ok d" "node_deltas d = built (ds_delta_builder s)"
    "delta_serialize z d = Ok bs" "length bs = delta_serialized_len d" "length bs \<le> ds_size s"
    by (rule ds_finish_ok [OF Nil.prems(1,2)])
  then show ?case using deltas_of_Nil [of "[]"] by auto
next
  case (Cons sn sns)
  have sn: "sn_chitchat_id sn \<notin> ndl_chitchat_id ` set (built (ds_delta_builder s))"
    "ns_inv (sn_node_state sn)"
    using Cons.prems(6,7) by auto
  obtain s' nds where s': "ds_inv z s'" "ds_mtu s' = ds_mtu s"
    "built (ds_delta_builder s') = built (ds_delta_builder s) @ nds"
    "fits_block (ds_mtu s) sn \<and> ds_size s \<le> ds_mtu s \<longrightarrow> ds_size s' \<le> ds_mtu s"
    and step: "(\<forall>sns. add_stale_nodes z (sn # sns) s = ds_finish z s')
        \<and> (nds = [] \<or> (\<exists>nd. nds = [nd] \<and> delta_of sn nd))
      \<or> (\<forall>sns. add_stale_nodes z (sn # sns) s = add_stale_nodes z sns s')
        \<and> (\<exists>nd. nds = [nd] \<and> whole_delta_of sn nd)"
    by (rule add_stale_node_step [OF Cons.prems(1-4) sn])
  from step show ?case
  proof
    assume "(\<forall>sns. add_stale_nodes z (sn # sns) s = ds_finish z s')
        \<and> (nds = [] \<or> (\<exists>nd. nds = [nd] \<and> delta_of sn nd))"
    then have fin: "\<forall>sns. add_stale_nodes z (sn # sns) s = ds_finish z s'"
      and nds: "nds = [] \<or> (\<exists>nd. nds = [nd] \<and> delta_of sn nd)" by simp_all
    obtain d bs where d: "ds_finish z s' = Ok d" "node_deltas d = built (ds_delta_builder s')"
      "delta_serialize z d = Ok bs" "length bs = delta_serialized_len d" "length bs \<le> ds_size s'"
      by (rule ds_finish_ok [OF Cons.prems(1) s'(1)])
    have "deltas_of (sn # sns) nds"
      using nds deltas_of_Nil deltas_of_single by blast
    then show ?thesis
      using fin d s' by (intro exI [of _ d] exI [of _ nds] exI [of _ bs]) auto
  next
    assume "(\<forall>sns. add_stale_nodes z (sn # sns) s = add_stale_nodes z sns s')
        \<and> (\<exists>nd. nds = [nd] \<and> whole_delta_of sn nd)"
    then obtain nd where go: "\<forall>sns. add_stale_nodes z (sn # sns) s = add_stale_nodes z sns s'"
      and nd: "nds = [nd]" "whole_delta_of sn nd" by blast
    then have "ndl_chitchat_id nd = sn_chitchat_id sn"
      by (simp add: whole_delta_of_def delta_of_def)
    then have "sn_chitchat_id ` set sns \<inter> ndl_chitchat_id ` set (built (ds_delta_builder s')) = {}"
      using Cons.prems(5,6) s'(3) nd(1) by auto
    then obtain d nds' bs where "add_stale_nodes z sns s' = Ok d"
      "node_deltas d = built (ds_delta_builder s') @ nds'" "deltas_of sns nds'"
      "delta_serialize z d = Ok bs" "length bs = delta_serialized_len d"
      "(\<forall>sn \<in> set sns. fits_block (ds_mtu s') sn) \<and> ds_size s' \<le> ds_mtu s' \<longrightarrow> length bs \<le> ds_mtu s'"
      using Cons.IH [OF Cons.prems(1) s'(1)] Cons.prems s'(2) by auto
    then show ?thesis
      using go s' nd deltas_of_Cons
      by (intro exI [of _ d] exI [of _ "nd # nds'"] exI [of _ bs]) auto
  qed
qed

section \<open>The whole computation\<close>

definition cs_inv :: "cluster_state \<Rightarrow> bool" where
  "cs_inv cs \<longleftrightarrow> bt_wf (cs_node_states cs) \<and> (\<forall>(i, s) \<in> set (cs_node_states cs). ns_inv s)"

definition stale_list :: "shuffle \<Rightarrow> digest \<Rightarrow> chitchat_id set \<Rightarrow> cluster_state \<Rightarrow> stale_node list" where
  "stale_list sh dg sched cs = stale_nodes_into_iter sh (collect_stale_nodes dg sched cs)"

lemma stale_list_iff:
  assumes "shuffles sh"
  shows "sn \<in> set (stale_list sh dg sched cs) \<longleftrightarrow> sn \<in> set (candidates dg sched cs)"
  using into_iter_mset [OF assms, of dg sched cs] by (metis mset_eq_setD stale_list_def)

lemma compute_partial_delta_ok:
  assumes "zstd_ok z" "shuffles sh" "cs_inv cs" "100 \<le> mtu" "mtu \<le> 65535"
  shows "\<exists>d bs. compute_partial_delta_respecting_mtu z sh dg mtu sched cs = Ok d
    \<and> deltas_of (stale_list sh dg sched cs) (node_deltas d)
    \<and> delta_serialize z d = Ok bs \<and> length bs = delta_serialized_len d
    \<and> ((\<forall>sn \<in> set (stale_list sh dg sched cs). fits_block mtu sn) \<longrightarrow> length bs \<le> mtu)"
proof -
  obtain s where s: "with_mtu mtu = Ok s" "ds_inv z s" "ds_mtu s = mtu"
    "built (ds_delta_builder s) = []" "ds_size s \<le> mtu"
    by (rule with_mtu_inv [OF assms(4,5), of z])
  have "\<forall>sn \<in> set (stale_list sh dg sched cs). ns_inv (sn_node_state sn)"
    using assms(3) unfolding stale_list_iff [OF assms(2)] candidate_iff
    by (fastforce simp: cs_inv_def stale_list_iff [OF assms(2)] candidate_iff)
  moreover have "distinct (map sn_chitchat_id (stale_list sh dg sched cs))"
    using into_iter_distinct [OF assms(2)] assms(3) by (simp add: cs_inv_def stale_list_def)
  ultimately obtain d nds bs where "add_stale_nodes z (stale_list sh dg sched cs) s = Ok d"
    "node_deltas d = nds" "deltas_of (stale_list sh dg sched cs) nds"
    "delta_serialize z d = Ok bs" "length bs = delta_serialized_len d"
    "(\<forall>sn \<in> set (stale_list sh dg sched cs). fits_block mtu sn) \<longrightarrow> length bs \<le> mtu"
    using add_stale_nodes_ok [OF assms(1) s(2), of "stale_list sh dg sched cs"] s assms(4,5)
    by auto
  then show ?thesis
    using s(1) by (auto simp: compute_partial_delta_respecting_mtu_def stale_list_def Let_def)
qed

text \<open>Each delta is one a copy of the cluster state may emit for the digest.\<close>

lemma deltas_of_emitted:
  assumes "shuffles sh" "cs_inv cs" "deltas_of (stale_list sh dg sched cs) nds" "nd \<in> set nds"
  obtains s from_v where "cs_node_state cs (ndl_chitchat_id nd) = Some s"
    "ndl_chitchat_id nd \<notin> sched" "delta_from_version dg (ndl_chitchat_id nd) s = Some from_v"
    "emits s from_v nd"
proof -
  obtain sn where sn: "sn \<in> set (take (length nds) (stale_list sh dg sched cs))" "delta_of sn nd"
    using assms(3,4) unfolding deltas_of_def list_all2_conv_all_nth
    by (metis in_set_conv_nth)
  then have "sn \<in> set (candidates dg sched cs)"
    using stale_list_iff [OF assms(1)] by (metis in_set_takeD)
  then show thesis
    using that [of "sn_node_state sn" "sn_from_version_excluded sn"] sn(2) assms(2)
    by (simp add: candidate_iff delta_of_def cs_node_state_def bt_get_iff cs_inv_def)
qed

end
