(* ===== verification/Replication_Flaws.thy ===== *)
theory Replication_Flaws
  imports Replication_System Partial_Delta
begin

text \<open>
  What the replication code does in the two situations that delivery in theory
  \<open>Replication_System\<close> leaves out, and two more places where it falls short of what its comments
  say: general facts about the definitions, and runs that reach the situations.
\<close>

section \<open>A reset by a delta that does not start at 0\<close>

text \<open>
  The receiver has seen exactly what the sender collected. The sender's test
  (\<open>digest_max_version < last_gc_version\<close>) makes an incremental delta, the receiver's test
  (\<open>max_version > last_gc_version\<close>) makes a reset, and what the receiver held is gone.
\<close>

lemma inapplicable_delta_resets:
  assumes "ns_max_version R = ns_last_gc_version S" "ns_last_gc_version R < ns_last_gc_version S"
    and "emits S (ns_max_version R) nd" "ndl_key_values nd \<noteq> []"
  shows "ns_apply_delta nd now R = receive now (ndl_key_values nd) (reset_state nd R)"
proof -
  have nd: "ndl_from_version_excluded nd = ns_max_version R"
    "ndl_last_gc_version nd = ns_last_gc_version S"
    using assms(3) by (simp_all add: emits_def)
  have "node_delta_max_version nd \<noteq> None"
    using versions_max_Some [of "map kvm_version (ndl_key_values nd)"] assms(4)
    by (auto simp: node_delta_max_version_def split: option.splits)
  then show ?thesis
    using assms(1,2) nd by (cases rule: ns_apply_delta_cases [of nd now R]) auto
qed

lemma receive_other_keys:
  "k \<notin> kvm_key ` set kvs \<Longrightarrow>
   get_versioned (fold (apply_mutation cur now) kvs R) k = get_versioned R k"
  by (induction kvs arbitrary: R) (auto simp: apply_mutation_alt get_svv)

lemma inapplicable_delta_loses:
  assumes "ns_max_version R = ns_last_gc_version S" "ns_last_gc_version R < ns_last_gc_version S"
    and "emits S (ns_max_version R) nd" "ndl_key_values nd \<noteq> []"
    and "k \<notin> kvm_key ` set (ndl_key_values nd)"
  shows "ns_get (ns_apply_delta nd now R) k = None"
  unfolding inapplicable_delta_resets [OF assms(1-4)] receive_def
  using receive_other_keys [OF assms(5)] by (simp add: ns_get_def)

section \<open>Runs\<close>

fun run_ops :: "owner_op list \<Rightarrow> instant \<Rightarrow> node_state \<Rightarrow> node_state result" where
  "run_ops [] now s = Ok s"
| "run_ops (oper # opers) now s = and_then (run_op oper now s) (run_ops opers now)"

definition after_ops :: "owner_op list \<Rightarrow> node_state \<Rightarrow> node_state" where
  "after_ops opers s = (case run_ops opers 0 s of Ok s' \<Rightarrow> s' | _ \<Rightarrow> s)"

text \<open>The first \<open>n\<close> mutations of the delta of \<open>S\<close> for the digest of \<open>R\<close>, applied to \<open>R\<close>.\<close>

definition cut_delta :: "nat \<Rightarrow> chitchat_id \<Rightarrow> node_state \<Rightarrow> version \<Rightarrow> node_delta" where
  "cut_delta n i S from_v =
     \<lparr>ndl_chitchat_id = i, ndl_from_version_excluded = from_v,
      ndl_last_gc_version = ns_last_gc_version S, ndl_key_values = take n (offered S from_v),
      ndl_max_version = (if offered S from_v = [] then Some (ns_max_version S) else None)\<rparr>"

definition gossip :: "nat \<Rightarrow> chitchat_id \<Rightarrow> node_state \<Rightarrow> node_state \<Rightarrow> node_state" where
  "gossip n i S R =
     (case delta_from_version \<lparr>node_digests = [(i, ns_digest R)]\<rparr> i S of
        None \<Rightarrow> R | Some from_v \<Rightarrow> ns_apply_delta (cut_delta n i S from_v) 0 R)"

lemma cut_delta_emits: "emits S from_v (cut_delta n i S from_v)"
  by (simp add: emits_def cut_delta_def take_is_prefix)

definition node_a :: chitchat_id where
  "node_a = ChitchatId ''a'' 0 (SocketAddrV4 0 0)"

text \<open>Sets of two keys, a deletion; the replica follows; the tombstone is collected; a new key.\<close>

definition run_lossy :: "node_state \<times> node_state" where
  "run_lossy =
     (let o1 = after_ops [OpSet ''x'' ''1'', OpSet ''y'' ''1'', OpDelete ''y'']
                 (node_state_new node_a []);
          r1 = gossip 9 node_a o1 (node_state_new node_a []);
          o2 = after_ops [OpSet ''z'' ''1''] (gc_keys_marked_for_deletion 1 0 o1)
      in (o2, gossip 9 node_a o2 r1))"

lemma run_lossy_evaluated:
  "map (ns_get (fst run_lossy)) [''x'', ''y'', ''z''] = [Some ''1'', None, Some ''1'']
   \<and> map (ns_get (snd run_lossy)) [''x'', ''y'', ''z''] = [None, None, Some ''1'']
   \<and> ns_max_version (snd run_lossy) = ns_max_version (fst run_lossy)"
  by code_simp

text \<open>
  A replica is reset by a cut delta, hears of a deleted key from a copy that has not seen the
  deletion, and is then brought up to date by the owner.
\<close>

definition run_zombie :: "node_state \<times> node_state" where
  "run_zombie =
     (let o1 = after_ops [OpSet ''x'' ''1'', OpSet ''y'' ''1''] (node_state_new node_a []);
          old = gossip 9 node_a o1 (node_state_new node_a []);
          o2 = after_ops [OpSet ''z'' ''1'']
                 (gc_keys_marked_for_deletion 1 0 (after_ops [OpDelete ''y''] o1));
          r1 = gossip 1 node_a o2 (node_state_new node_a []);
          r2 = gossip 9 node_a old r1
      in (o2, gossip 9 node_a o2 r2))"

lemma run_zombie_evaluated:
  "map (ns_get (fst run_zombie)) [''x'', ''y'', ''z''] = [Some ''1'', None, Some ''1'']
   \<and> map (ns_get (snd run_zombie)) [''x'', ''y'', ''z''] = [Some ''1'', Some ''1'', Some ''1'']
   \<and> ns_max_version (snd run_zombie) = ns_max_version (fst run_zombie)"
  by code_simp

section \<open>A version that is never reached\<close>

text \<open>
  When the last write was a deletion that is collected, the deltas that follow carry only
  \<open>max_version\<close>, which is read in a reset and nowhere else.
\<close>

lemma max_version_ignored:
  assumes "ndl_key_values nd = []"
    and "ndl_last_gc_version nd < ns_max_version R \<or> ndl_last_gc_version nd \<le> ns_last_gc_version R"
  shows "ns_apply_delta nd now R = R"
  using assms
  by (cases rule: ns_apply_delta_cases [of nd now R]) (auto simp: receive_def)

definition run_stuck :: "node_state \<times> node_state" where
  "run_stuck =
     (let o1 = gc_keys_marked_for_deletion 1 0
                 (after_ops [OpSet ''x'' ''1'', OpSet ''y'' ''1'', OpDelete ''y'']
                   (node_state_new node_a []))
      in (o1, gossip 9 node_a o1 (node_state_new node_a [])))"

lemma run_stuck_evaluated:
  "ns_max_version (snd run_stuck) = 1 \<and> ns_max_version (fst run_stuck) = 3
   \<and> gossip 9 node_a (fst run_stuck) (snd run_stuck) = snd run_stuck"
  by code_simp

section \<open>The size estimate\<close>

text \<open>
  An item longer than a block is written as several blocks; the estimate counts the header of
  one. With a library that finds nothing to compress:
\<close>

definition zstd_none :: zstd where
  "zstd_none = \<lparr>bulk_compress = (\<lambda>_ _. None), bulk_decompress = (\<lambda>_ _. None),
     encode_all = Some, decode_all = Some\<rparr>"

lemma zstd_none_ok: "zstd_ok zstd_none"
  by (simp add: zstd_ok_def zstd_none_def)

lemma upperbound_exceeded:
  assumes "length bs = 40000"
  shows "serialized_len_upperbound_after (with_block_threshold 16384) 40000 = Ok 40007
    \<and> (\<exists>w out. csw_append zstd_none bs 40000 (with_block_threshold 16384) = Ok w
         \<and> csw_finish zstd_none w = Ok out \<and> length out = 40010)"
  using assms length_greater_0_conv [of bs]
  by (simp add: serialized_len_upperbound_after_def with_block_threshold_def csw_append_def
      flush_loop.simps flush_block_def zstd_none_def csw_finish_def block_type_serialize_def Let_def)

end
