(* ===== verification/Listener.thy ===== *)
theory Listener
  imports Node_State
begin

text \<open>
  Key-change listeners (\<open>chitchat/src/listener.rs\<close> and \<open>KeyChangeEvent\<close> of \<open>lib.rs\<close>):
  subscriptions by key prefix and the delivery of an event to every subscription whose prefix
  the key starts with. A callback is a value of a type parameter; triggering an event returns
  the calls made, in order. The callbacks of one prefix are in a \<open>HashMap\<close> and run in an order
  nothing depends on; here they run in order of their number.

  Node states record the events they trigger (theory \<open>Node_State\<close>); whether delivering one
  panics is decided here.
\<close>

section \<open>Model\<close>

record 'c inner_listeners =
  il_listeners :: "(string, (nat, 'c) btree) btree"
  il_listener_idx :: u64

record listener_handle =
  lh_prefix :: string
  lh_listener_id :: nat
  lh_attached :: bool

definition inner_listeners_default :: "'c inner_listeners" where
  "inner_listeners_default = \<lparr>il_listeners = [], il_listener_idx = 0\<rparr>"

definition inner_subscribe_event ::
  "string \<Rightarrow> nat \<Rightarrow> 'c \<Rightarrow> 'c inner_listeners \<Rightarrow> 'c inner_listeners" where
  "inner_subscribe_event p idx cb il =
     (case bt_get (il_listeners il) p of
        Some callbacks \<Rightarrow>
          il\<lparr>il_listeners := bt_insert p (bt_insert idx cb callbacks) (il_listeners il)\<rparr>
      | None \<Rightarrow> il\<lparr>il_listeners := bt_insert p (bt_insert idx cb []) (il_listeners il)\<rparr>)"

definition subscribe_event ::
  "string \<Rightarrow> 'c \<Rightarrow> 'c inner_listeners \<Rightarrow> listener_handle \<times> 'c inner_listeners" where
  "subscribe_event p cb il =
     (let new_idx = unat (il_listener_idx il);
          il = il\<lparr>il_listener_idx := il_listener_idx il + 1\<rparr>
      in (\<lparr>lh_prefix = p, lh_listener_id = new_idx, lh_attached = True\<rparr>,
          inner_subscribe_event p new_idx cb il))"

definition remove_listener :: "string \<Rightarrow> nat \<Rightarrow> 'c inner_listeners \<Rightarrow> 'c inner_listeners" where
  "remove_listener p idx il =
     (case bt_get (il_listeners il) p of
        Some callbacks \<Rightarrow>
          il\<lparr>il_listeners := bt_insert p (bt_remove idx callbacks) (il_listeners il)\<rparr>
      | None \<Rightarrow> il)"

definition handle_forever :: "listener_handle \<Rightarrow> listener_handle" where
  "handle_forever h = h\<lparr>lh_attached := False\<rparr>"

definition handle_drop :: "listener_handle \<Rightarrow> 'c inner_listeners \<Rightarrow> 'c inner_listeners" where
  "handle_drop h il =
     (if lh_attached h then remove_listener (lh_prefix h) (lh_listener_id h) il else il)"

definition strip_key_prefix :: "key_change_event \<Rightarrow> string \<Rightarrow> key_change_event option" where
  "strip_key_prefix ev p =
     (if prefix p (kce_key ev) then Some (ev\<lparr>kce_key := drop (length p) (kce_key ev)\<rparr>) else None)"

text \<open>\<open>&key[0..1]\<close> panics unless byte 1 starts a character or ends the string.\<close>

definition first_byte_is_char :: "string \<Rightarrow> bool" where
  "first_byte_is_char k = (case as_bytes k of
      [] \<Rightarrow> False | [b] \<Rightarrow> True | b # c # _ \<Rightarrow> \<not> utf8_cont c)"

definition run_listeners :: "(nat, 'c) btree \<Rightarrow> key_change_event \<Rightarrow> ('c \<times> key_change_event) list" where
  "run_listeners callbacks ev = map (\<lambda>(_, cb). (cb, ev)) callbacks"

fun trigger_range ::
  "(string \<times> (nat, 'c) btree) list \<Rightarrow> key_change_event \<Rightarrow> ('c \<times> key_change_event) list" where
  "trigger_range [] ev = []"
| "trigger_range ((p, callbacks) # rest) ev =
     (if p > kce_key ev then []
      else (case strip_key_prefix ev p of
              Some stripped \<Rightarrow> run_listeners callbacks stripped | None \<Rightarrow> [])
           @ trigger_range rest ev)"

definition trigger_event ::
  "'c inner_listeners \<Rightarrow> key_change_event \<Rightarrow> ('c \<times> key_change_event) list result" where
  "trigger_event il ev =
     (let catch_all = (case bt_get (il_listeners il) '''' of
                         Some callbacks \<Rightarrow> run_listeners callbacks ev | None \<Rightarrow> [])
      in if kce_key ev = [] then Ok catch_all
         else if \<not> first_byte_is_char (kce_key ev) then Panic SliceOutOfRange
         else Ok (catch_all @ trigger_range
                (filter (\<lambda>(p, _). take 1 (kce_key ev) \<le> p \<and> p \<le> kce_key ev) (il_listeners il)) ev))"

section \<open>The range scan finds every matching prefix\<close>

text \<open>The reference: all subscriptions, those whose prefix matches.\<close>

definition matching_calls ::
  "'c inner_listeners \<Rightarrow> key_change_event \<Rightarrow> ('c \<times> key_change_event) list" where
  "matching_calls il ev =
     concat (map (\<lambda>(p, callbacks).
         run_listeners callbacks (ev\<lparr>kce_key := drop (length p) (kce_key ev)\<rparr>))
       (filter (\<lambda>(p, _). prefix p (kce_key ev)) (il_listeners il)))"

lemma trigger_range_filter:
  "\<forall>(p, cbs) \<in> set ls. p \<le> kce_key ev \<Longrightarrow>
   trigger_range ls ev = concat (map (\<lambda>(p, callbacks).
       run_listeners callbacks (ev\<lparr>kce_key := drop (length p) (kce_key ev)\<rparr>))
     (filter (\<lambda>(p, _). prefix p (kce_key ev)) ls))"
  by (induction ls) (auto simp: strip_key_prefix_def)

lemma take_1_le_prefix: "prefix p k \<Longrightarrow> p \<noteq> [] \<Longrightarrow> take 1 k \<le> (p :: string)"
  by (cases p; cases k) auto

lemma matching_split:
  assumes "bt_wf ls" "k \<noteq> []"
  shows "filter (\<lambda>(p, _). prefix p k) ls =
    (case bt_get ls '''' of Some v \<Rightarrow> [('''', v)] | None \<Rightarrow> [])
    @ filter (\<lambda>(p, _). prefix p k) (filter (\<lambda>(p, _). take 1 k \<le> p \<and> p \<le> k) (ls :: (string \<times> 'v) list))"
proof -
  have later: "filter (\<lambda>(p, _). prefix p k) m
      = filter (\<lambda>(p, _). prefix p k) (filter (\<lambda>(p, _). take 1 k \<le> p \<and> p \<le> k) m)"
    if "\<forall>p \<in> fst ` set m. p \<noteq> []" for m :: "(string \<times> 'v) list"
    using that take_1_le_prefix [of _ k] prefix_less_extend [of _ k]
    by (auto simp: case_prod_beta intro!: filter_cong)
  have first: "\<not> take 1 k \<le> ''''" using assms(2) by (cases k) auto
  show ?thesis
  proof (cases ls)
    case Nil
    then show ?thesis by simp
  next
    case (Cons pv m)
    obtain p v where pv: "pv = (p, v)" by (cases pv)
    have m: "\<forall>q \<in> fst ` set m. p < q" using assms(1) Cons pv by simp
    then have "\<forall>q \<in> fst ` set m. q \<noteq> []" by (auto simp: not_less_Nil)
    note m' = later [OF this]
    show ?thesis
    proof (cases "p = []")
      case True
      then show ?thesis using Cons pv m' first by simp
    next
      case False
      then have "bt_get ls '''' = None"
        using Cons pv m by (auto simp: bt_get_def map_of_eq_None_iff not_less_Nil)
      moreover have "\<forall>q \<in> fst ` set ls. q \<noteq> []"
        using Cons pv m False by (auto simp: not_less_Nil)
      ultimately show ?thesis using later [of ls] by simp
    qed
  qed
qed

lemma key_unchanged: "kce_key ev = k \<Longrightarrow> ev\<lparr>kce_key := k\<rparr> = (ev :: key_change_event)"
  by (cases ev) simp

lemma trigger_event_matching:
  assumes "bt_wf (il_listeners il)" "kce_key ev = [] \<or> first_byte_is_char (kce_key ev)"
  shows "trigger_event il ev = Ok (matching_calls il ev)"
proof (cases "kce_key ev = []")
  case True
  have "filter (\<lambda>(p, _). prefix p []) ls = (case bt_get ls '''' of Some v \<Rightarrow> [('''', v)] | None \<Rightarrow> [])"
    if "bt_wf ls" for ls :: "(string \<times> (nat, 'a) btree) list"
    using that
  proof (induction ls)
    case (Cons pv m)
    then show ?case
      by (cases pv) (fastforce simp: filter_empty_conv bt_get_def dest: map_of_SomeD
          split: option.splits)
  qed simp
  from this [OF assms(1)] show ?thesis
    using True by (simp add: trigger_event_def matching_calls_def split: option.splits)
      (simp add: key_unchanged)
next
  case False
  then show ?thesis
    using assms matching_split [OF assms(1) False]
    by (auto simp: trigger_event_def matching_calls_def trigger_range_filter split: option.splits)
qed

section \<open>Subscriptions\<close>

text \<open>Numbers in use are below the counter, so a new subscription never replaces another.\<close>

definition subscribed :: "'c inner_listeners \<Rightarrow> string \<Rightarrow> nat \<Rightarrow> 'c option" where
  "subscribed il p idx =
     (case bt_get (il_listeners il) p of Some cbs \<Rightarrow> bt_get cbs idx | None \<Rightarrow> None)"

definition listeners_inv :: "'c inner_listeners \<Rightarrow> bool" where
  "listeners_inv il \<longleftrightarrow> bt_wf (il_listeners il)
     \<and> (\<forall>p cbs. bt_get (il_listeners il) p = Some cbs \<longrightarrow> bt_wf cbs)
     \<and> (\<forall>p idx. subscribed il p idx \<noteq> None \<longrightarrow> idx < unat (il_listener_idx il))"

lemma listeners_inv_default: "listeners_inv inner_listeners_default"
  by (simp add: listeners_inv_def inner_listeners_default_def subscribed_def)

lemma subscribed_inner:
  "subscribed (inner_subscribe_event p idx cb il) q j =
     (if q = p \<and> j = idx then Some cb else subscribed il q j)"
  by (auto simp: subscribed_def inner_subscribe_event_def bt_get_insert split: option.splits)

lemma subscribed_idx [simp]: "subscribed (il\<lparr>il_listener_idx := n\<rparr>) = subscribed il"
  by (simp add: subscribed_def fun_eq_iff)

lemma subscribed_subscribe:
  assumes "subscribe_event p cb il = (h, il')"
  shows "subscribed il' q j =
    (if q = lh_prefix h \<and> j = lh_listener_id h then Some cb else subscribed il q j)"
  using assms by (auto simp: subscribe_event_def Let_def subscribed_inner)

lemma subscribe_fresh:
  assumes "listeners_inv il" "subscribe_event p cb il = (h, il')"
  shows "subscribed il (lh_prefix h) (lh_listener_id h) = None"
proof -
  have "lh_listener_id h = unat (il_listener_idx il)"
    using assms(2) by (auto simp: subscribe_event_def Let_def)
  then show ?thesis using assms(1) unfolding listeners_inv_def by (metis less_irrefl)
qed

lemma listeners_inv_subscribe:
  assumes inv: "listeners_inv il" and sub: "subscribe_event p cb il = (h, il')"
    and room: "il_listener_idx il \<noteq> - 1"
  shows "listeners_inv il'"
proof -
  have "1 + il_listener_idx il \<noteq> 0"
    using room max_word_wrap [of "il_listener_idx il"] by (auto simp: add.commute)
  from unatSuc [OF this]
  have suc: "unat (il_listener_idx il') = Suc (unat (il_listener_idx il))"
    "lh_listener_id h = unat (il_listener_idx il)"
    using sub by (auto simp: subscribe_event_def inner_subscribe_event_def Let_def add.commute
        split: option.splits)
  have "idx < unat (il_listener_idx il')" if "subscribed il' q idx \<noteq> None" for q idx
    using that inv suc unfolding listeners_inv_def subscribed_subscribe [OF sub]
    by (metis less_Suc_eq)
  moreover have "bt_wf (il_listeners il')"
    "\<And>q cbs. bt_get (il_listeners il') q = Some cbs \<Longrightarrow> bt_wf cbs"
    using inv sub
    by (auto simp: listeners_inv_def subscribe_event_def Let_def inner_subscribe_event_def
        bt_get_insert bt_wf_insert split: option.splits if_splits)
  ultimately show ?thesis by (simp add: listeners_inv_def)
qed

lemma subscribed_remove:
  "subscribed (remove_listener p idx il) q j =
    (if q = p \<and> j = idx then None else subscribed il q j)"
  by (auto simp: subscribed_def remove_listener_def bt_get_insert bt_get_remove split: option.splits)

lemma listeners_inv_remove:
  assumes "listeners_inv il"
  shows "listeners_inv (remove_listener p idx il)"
proof -
  have "il_listener_idx (remove_listener p idx il) = il_listener_idx il"
    by (simp add: remove_listener_def split: option.splits)
  moreover have "bt_wf (il_listeners (remove_listener p idx il))"
    "\<And>q cbs. bt_get (il_listeners (remove_listener p idx il)) q = Some cbs \<Longrightarrow> bt_wf cbs"
    using assms
    by (auto simp: listeners_inv_def remove_listener_def bt_get_insert bt_wf_insert bt_wf_remove
        split: option.splits if_splits)
  ultimately show ?thesis
    using assms by (auto simp: listeners_inv_def subscribed_remove split: if_splits)
qed

text \<open>A subscription hears exactly of the keys that start with its prefix.\<close>

lemma matching_calls_iff:
  assumes "listeners_inv il"
  shows "(cb, ev') \<in> set (matching_calls il ev) \<longleftrightarrow>
    (\<exists>p idx. subscribed il p idx = Some cb \<and> prefix p (kce_key ev)
       \<and> ev' = ev\<lparr>kce_key := drop (length p) (kce_key ev)\<rparr>)"
proof -
  have wf: "bt_wf (il_listeners il)"
    and cbs: "\<And>p cbs. bt_get (il_listeners il) p = Some cbs \<Longrightarrow> bt_wf cbs"
    using assms by (auto simp: listeners_inv_def)
  have sub: "subscribed il p idx = Some cb \<longleftrightarrow>
      (\<exists>cbs. (p, cbs) \<in> set (il_listeners il) \<and> (idx, cb) \<in> set cbs)" for p idx
  proof
    assume "subscribed il p idx = Some cb"
    then obtain c where "bt_get (il_listeners il) p = Some c" "bt_get c idx = Some cb"
      by (auto simp: subscribed_def split: option.splits)
    then show "\<exists>cbs. (p, cbs) \<in> set (il_listeners il) \<and> (idx, cb) \<in> set cbs"
      using bt_get_iff [OF wf] bt_get_iff [OF cbs] by blast
  next
    assume "\<exists>cbs. (p, cbs) \<in> set (il_listeners il) \<and> (idx, cb) \<in> set cbs"
    then obtain c where "bt_get (il_listeners il) p = Some c" "(idx, cb) \<in> set c"
      using bt_get_iff [OF wf] by blast
    then show "subscribed il p idx = Some cb"
      using bt_get_iff [OF cbs, of p c idx cb] by (simp add: subscribed_def)
  qed
  show ?thesis
    unfolding sub matching_calls_def run_listeners_def by (auto simp: image_iff) force
qed

end
