(* ===== verification/Failure_Detector.thy ===== *)
theory Failure_Detector
  imports Types
begin

text \<open>
  The phi accrual failure detector (\<open>chitchat/src/failure_detector.rs\<close>). Intervals and phi
  values, \<open>f64\<close> in the code, are rational numbers: the rounding of floating point arithmetic is
  not modelled. Instants and durations are nanoseconds; the clock reading of each operation is
  an argument. The sets and maps are hash tables in the code, and nothing here depends on the
  order in which they are walked.
\<close>

section \<open>A window of the latest intervals\<close>

record bounded_array_stats =
  bas_values :: "rat list"
  bas_is_filled :: bool
  bas_index :: nat
  bas_sum :: rat

definition bas_with_capacity :: "nat \<Rightarrow> bounded_array_stats" where
  "bas_with_capacity capacity =
     \<lparr>bas_values = replicate capacity 0, bas_is_filled = False, bas_index = 0, bas_sum = 0\<rparr>"

definition bas_append :: "rat \<Rightarrow> bounded_array_stats \<Rightarrow> bounded_array_stats result" where
  "bas_append interval b =
     (if \<not> bas_index b < length (bas_values b) then Panic SliceOutOfRange
      else
        let sum0 = (if bas_is_filled b then bas_sum b - bas_values b ! bas_index b else bas_sum b);
            b' = b\<lparr>bas_values := (bas_values b)[bas_index b := interval], bas_sum := sum0 + interval\<rparr>
        in if bas_index b = length (bas_values b) - 1
           then Ok (b'\<lparr>bas_is_filled := True, bas_index := 0\<rparr>)
           else Ok (b'\<lparr>bas_index := bas_index b + 1\<rparr>))"

definition bas_clear :: "bounded_array_stats \<Rightarrow> bounded_array_stats" where
  "bas_clear b = b\<lparr>bas_index := 0, bas_is_filled := False, bas_sum := 0\<rparr>"

definition bas_len :: "bounded_array_stats \<Rightarrow> nat" where
  "bas_len b = (if bas_is_filled b then length (bas_values b) else bas_index b)"

section \<open>Sampling windows\<close>

record additive_smoothing =
  as_prior_mean :: rat
  as_prior_weight :: rat

definition compute_mean :: "additive_smoothing \<Rightarrow> nat \<Rightarrow> rat \<Rightarrow> rat" where
  "compute_mean a len s =
     (s + as_prior_weight a * as_prior_mean a) / (of_nat len + as_prior_weight a)"

definition as_secs :: "duration \<Rightarrow> rat" where
  "as_secs d = of_nat d / 1000000000"

record sampling_window =
  sw_intervals :: bounded_array_stats
  sw_last_heartbeat :: "instant option"
  sw_max_interval :: duration
  sw_additive_smoothing :: additive_smoothing

definition sampling_window_new :: "nat \<Rightarrow> duration \<Rightarrow> duration \<Rightarrow> sampling_window" where
  "sampling_window_new window_size max_interval prior_interval =
     \<lparr>sw_intervals = bas_with_capacity window_size, sw_last_heartbeat = None,
      sw_max_interval = max_interval,
      sw_additive_smoothing = \<lparr>as_prior_mean = as_secs prior_interval, as_prior_weight = 5\<rparr>\<rparr>"

text \<open>\<open>Instant::duration_since\<close> is zero when the clock went back.\<close>

definition sw_report_heartbeat :: "instant \<Rightarrow> sampling_window \<Rightarrow> sampling_window result" where
  "sw_report_heartbeat now w =
     and_then
       (case sw_last_heartbeat w of
          Some last_value \<Rightarrow>
            let interval = now - last_value in
            if interval \<le> sw_max_interval w
            then and_then (bas_append (as_secs interval) (sw_intervals w)) (\<lambda>b.
                   Ok (w\<lparr>sw_intervals := b\<rparr>))
            else Ok w
        | None \<Rightarrow> Ok w)
       (\<lambda>w. Ok (w\<lparr>sw_last_heartbeat := Some now\<rparr>))"

definition sw_reset :: "sampling_window \<Rightarrow> sampling_window" where
  "sw_reset w = w\<lparr>sw_intervals := bas_clear (sw_intervals w)\<rparr>"

text \<open>A division by a mean of zero gives infinity or no number; neither is below a threshold.\<close>

datatype phi_value = Phi rat | PhiNotFinite

definition phi_div :: "rat \<Rightarrow> rat \<Rightarrow> phi_value" where
  "phi_div x y = (if y = 0 then PhiNotFinite else Phi (x / y))"

fun phi_le :: "phi_value \<Rightarrow> rat \<Rightarrow> bool" where
  "phi_le (Phi p) threshold \<longleftrightarrow> p \<le> threshold"
| "phi_le PhiNotFinite threshold \<longleftrightarrow> False"

definition sw_phi :: "instant \<Rightarrow> sampling_window \<Rightarrow> phi_value option" where
  "sw_phi now w =
     (if bas_len (sw_intervals w) = 0 then None
      else case sw_last_heartbeat w of
             None \<Rightarrow> None
           | Some last_heartbeat \<Rightarrow>
               let interval_mean = compute_mean (sw_additive_smoothing w)
                     (bas_len (sw_intervals w)) (bas_sum (sw_intervals w))
               in Some (phi_div (as_secs (now - last_heartbeat)) interval_mean))"

section \<open>The detector\<close>

record failure_detector_config =
  fd_phi_threshold :: rat
  fd_sampling_window_size :: nat
  fd_max_interval :: duration
  fd_initial_interval :: duration
  fd_dead_node_grace_period :: duration

definition failure_detector_config_default :: failure_detector_config where
  "failure_detector_config_default =
     \<lparr>fd_phi_threshold = 8, fd_sampling_window_size = 1000, fd_max_interval = 10000000000,
      fd_initial_interval = 5000000000, fd_dead_node_grace_period = 20000000000\<rparr>"

record failure_detector =
  fd_node_samples :: "(chitchat_id, sampling_window) btree"
  fd_config :: failure_detector_config
  fd_live_nodes :: "chitchat_id set"
  fd_dead_nodes :: "(chitchat_id, instant) btree"

definition failure_detector_new :: "failure_detector_config \<Rightarrow> failure_detector" where
  "failure_detector_new c =
     \<lparr>fd_node_samples = [], fd_config = c, fd_live_nodes = {}, fd_dead_nodes = []\<rparr>"

definition get_or_create_sampling_window ::
  "chitchat_id \<Rightarrow> failure_detector \<Rightarrow> sampling_window \<times> failure_detector" where
  "get_or_create_sampling_window i fd =
     (case bt_get (fd_node_samples fd) i of
        Some w \<Rightarrow> (w, fd)
      | None \<Rightarrow>
          let w = sampling_window_new (fd_sampling_window_size (fd_config fd))
                    (fd_max_interval (fd_config fd)) (fd_initial_interval (fd_config fd))
          in (w, fd\<lparr>fd_node_samples := bt_insert i w (fd_node_samples fd)\<rparr>))"

definition fd_report_heartbeat :: "chitchat_id \<Rightarrow> instant \<Rightarrow> failure_detector \<Rightarrow> failure_detector result" where
  "fd_report_heartbeat i now fd =
     (let (w, fd) = get_or_create_sampling_window i fd
      in and_then (sw_report_heartbeat now w) (\<lambda>w.
         Ok (fd\<lparr>fd_node_samples := bt_insert i w (fd_node_samples fd)\<rparr>)))"

definition fd_phi :: "chitchat_id \<Rightarrow> instant \<Rightarrow> failure_detector \<Rightarrow> phi_value option" where
  "fd_phi i now fd =
     (case bt_get (fd_node_samples fd) i of None \<Rightarrow> None | Some w \<Rightarrow> sw_phi now w)"

definition fd_is_alive :: "chitchat_id \<Rightarrow> instant \<Rightarrow> failure_detector \<Rightarrow> bool" where
  "fd_is_alive i now fd =
     (case fd_phi i now fd of None \<Rightarrow> False | Some phi \<Rightarrow> phi_le phi (fd_phi_threshold (fd_config fd)))"

definition update_node_liveness :: "chitchat_id \<Rightarrow> instant \<Rightarrow> failure_detector \<Rightarrow> failure_detector" where
  "update_node_liveness i now fd =
     (if fd_is_alive i now fd
      then fd\<lparr>fd_live_nodes := insert i (fd_live_nodes fd),
              fd_dead_nodes := bt_remove i (fd_dead_nodes fd)\<rparr>
      else
        let fd = fd\<lparr>fd_live_nodes := fd_live_nodes fd - {i}\<rparr>;
            fd = (if bt_get (fd_dead_nodes fd) i = None
                  then fd\<lparr>fd_dead_nodes := bt_insert i now (fd_dead_nodes fd)\<rparr> else fd)
        in case bt_get (fd_node_samples fd) i of
             Some w \<Rightarrow> fd\<lparr>fd_node_samples := bt_insert i (sw_reset w) (fd_node_samples fd)\<rparr>
           | None \<Rightarrow> fd)"

definition garbage_collect :: "instant \<Rightarrow> failure_detector \<Rightarrow> chitchat_id list \<times> failure_detector" where
  "garbage_collect now fd =
     (let collected = map fst (filter (\<lambda>(_, time_of_death).
            now \<ge> time_of_death + fd_dead_node_grace_period (fd_config fd)) (fd_dead_nodes fd))
      in (collected,
          fold (\<lambda>i fd. fd\<lparr>fd_dead_nodes := bt_remove i (fd_dead_nodes fd),
                           fd_node_samples := bt_remove i (fd_node_samples fd)\<rparr>) collected fd))"

definition fd_dead_node_ids :: "failure_detector \<Rightarrow> chitchat_id list" where
  "fd_dead_node_ids fd = map fst (fd_dead_nodes fd)"

text \<open>Half of the grace period, rounded down to a nanosecond.\<close>

definition scheduled_for_deletion_nodes :: "instant \<Rightarrow> failure_detector \<Rightarrow> chitchat_id set" where
  "scheduled_for_deletion_nodes now fd =
     set (map fst (filter (\<lambda>(_, time_of_death).
       time_of_death + fd_dead_node_grace_period (fd_config fd) div 2 < now) (fd_dead_nodes fd)))"

section \<open>The window holds the latest intervals\<close>

text \<open>
  What a window stands for: the intervals since the last clear, at most as many as its
  capacity, oldest first.
\<close>

definition bas_window :: "bounded_array_stats \<Rightarrow> rat list" where
  "bas_window b =
     (if bas_is_filled b then drop (bas_index b) (bas_values b) @ take (bas_index b) (bas_values b)
      else take (bas_index b) (bas_values b))"

definition bas_inv :: "bounded_array_stats \<Rightarrow> bool" where
  "bas_inv b \<longleftrightarrow> bas_index b < length (bas_values b) \<and> bas_sum b = sum_list (bas_window b)"

lemma bas_inv_with_capacity: "0 < n \<Longrightarrow> bas_inv (bas_with_capacity n)"
  by (simp add: bas_inv_def bas_with_capacity_def bas_window_def)

lemma bas_inv_clear: "bas_inv b \<Longrightarrow> bas_inv (bas_clear b) \<and> bas_window (bas_clear b) = []"
  by (auto simp: bas_inv_def bas_clear_def bas_window_def)

lemma bas_len_window: "bas_inv b \<Longrightarrow> bas_len b = length (bas_window b)"
  by (simp add: bas_inv_def bas_len_def bas_window_def)

text \<open>The specification of \<open>append\<close>: add at the end, forget the oldest when full.\<close>

definition window_append :: "nat \<Rightarrow> rat \<Rightarrow> rat list \<Rightarrow> rat list" where
  "window_append capacity x xs = (if length xs = capacity then tl xs else xs) @ [x]"

lemma bas_append_refines:
  assumes "bas_inv b"
  obtains b' where "bas_append x b = Ok b'" "bas_inv b'"
    "bas_window b' = window_append (length (bas_values b)) x (bas_window b)"
    "length (bas_values b') = length (bas_values b)"
proof -
  let ?v = "bas_values b" and ?i = "bas_index b"
  have i: "?i < length ?v" and s: "bas_sum b = sum_list (bas_window b)"
    using assms by (simp_all add: bas_inv_def)
  define b1 where "b1 = b\<lparr>bas_values := ?v[?i := x],
    bas_sum := (if bas_is_filled b then bas_sum b - ?v ! ?i else bas_sum b) + x\<rparr>"
  define b2 where "b2 = (if ?i = length ?v - 1 then b1\<lparr>bas_is_filled := True, bas_index := 0\<rparr>
    else b1\<lparr>bas_index := ?i + 1\<rparr>)"
  have app: "bas_append x b = Ok b2"
    using i by (simp add: bas_append_def b2_def b1_def Let_def)
  have upd: "take (Suc ?i) (?v[?i := x]) = take ?i ?v @ [x]"
    using i by (simp add: take_Suc_conv_app_nth)
  have drp: "drop ?i ?v = ?v ! ?i # drop (Suc ?i) ?v"
    using i by (simp add: Cons_nth_drop_Suc)
  have win: "bas_window b2 = window_append (length ?v) x (bas_window b)"
  proof (cases "?i = length ?v - 1")
    case True
    then have len: "length ?v = Suc ?i" using i by simp
    then have v': "?v[?i := x] = take ?i ?v @ [x]"
      using upd by (metis length_list_update take_all order.refl)
    have "b2 = b1\<lparr>bas_is_filled := True, bas_index := 0\<rparr>" using len by (simp add: b2_def)
    then have "bas_window b2 = take ?i ?v @ [x]" by (simp add: b1_def bas_window_def v')
    moreover have "bas_window b = (if bas_is_filled b then ?v ! ?i # take ?i ?v else take ?i ?v)"
      using drp len by (simp add: bas_window_def)
    ultimately show ?thesis using len by (simp add: window_append_def)
  next
    case False
    then have "b2 = b1\<lparr>bas_index := ?i + 1\<rparr>" by (simp add: b2_def)
    then have "bas_window b2 = (if bas_is_filled b
        then drop (Suc ?i) ?v @ take ?i ?v @ [x] else take ?i ?v @ [x])"
      using upd by (simp add: b1_def bas_window_def)
    then show ?thesis using i drp by (auto simp: bas_window_def window_append_def)
  qed
  have "length (bas_window b) = length ?v \<longleftrightarrow> bas_is_filled b"
    using i by (auto simp: bas_window_def)
  moreover have "bas_is_filled b \<Longrightarrow> bas_window b = ?v ! ?i # tl (bas_window b)"
    using drp by (simp add: bas_window_def)
  ultimately have "sum_list (bas_window b2)
      = (if bas_is_filled b then bas_sum b - ?v ! ?i else bas_sum b) + x"
    unfolding win window_append_def s
    by (cases "bas_is_filled b") (simp_all, metis add_diff_cancel_left' sum_list.Cons)
  then have "sum_list (bas_window b2) = bas_sum b2" by (simp add: b2_def b1_def)
  moreover have "bas_index b2 < length (bas_values b2)" "length (bas_values b2) = length ?v"
    using i by (auto simp: b2_def b1_def)
  ultimately show ?thesis using that app win by (auto simp: bas_inv_def)
qed

section \<open>Liveness\<close>

text \<open>The invariant of the detector: no node is both live and dead, and windows are sound.\<close>

definition sw_inv :: "nat \<Rightarrow> sampling_window \<Rightarrow> bool" where
  "sw_inv n w \<longleftrightarrow> bas_inv (sw_intervals w) \<and> length (bas_values (sw_intervals w)) = n
     \<and> (\<forall>x \<in> set (bas_window (sw_intervals w)). 0 \<le> x)
     \<and> 0 \<le> as_prior_mean (sw_additive_smoothing w) \<and> 0 < as_prior_weight (sw_additive_smoothing w)"

definition fd_inv :: "failure_detector \<Rightarrow> bool" where
  "fd_inv fd \<longleftrightarrow> bt_wf (fd_node_samples fd) \<and> bt_wf (fd_dead_nodes fd)
     \<and> 0 < fd_sampling_window_size (fd_config fd)
     \<and> (\<forall>i w. bt_get (fd_node_samples fd) i = Some w \<longrightarrow>
          sw_inv (fd_sampling_window_size (fd_config fd)) w)
     \<and> (\<forall>i \<in> fd_live_nodes fd. bt_get (fd_dead_nodes fd) i = None)"

lemma fd_inv_new: "0 < fd_sampling_window_size c \<Longrightarrow> fd_inv (failure_detector_new c)"
  by (simp add: fd_inv_def failure_detector_new_def)

lemma sw_inv_new: "0 < n \<Longrightarrow> sw_inv n (sampling_window_new n a b)"
  using bas_inv_with_capacity [of n]
  by (simp add: sw_inv_def sampling_window_new_def bas_with_capacity_def bas_window_def as_secs_def)

lemma sw_inv_reset: "sw_inv n w \<Longrightarrow> sw_inv n (sw_reset w)"
  using bas_inv_clear by (auto simp: sw_inv_def sw_reset_def) (simp add: bas_clear_def)

lemma window_append_nonneg:
  "\<forall>y \<in> set xs. 0 \<le> y \<Longrightarrow> 0 \<le> x \<Longrightarrow> \<forall>y \<in> set (window_append n x xs). 0 \<le> y"
  by (cases xs) (auto simp: window_append_def)

lemma sw_report_heartbeat_ok:
  assumes "sw_inv n w"
  obtains w' where "sw_report_heartbeat now w = Ok w'" "sw_inv n w'"
    "sw_last_heartbeat w' = Some now"
proof -
  have b: "bas_inv (sw_intervals w)" using assms by (simp add: sw_inv_def)
  show thesis
  proof (cases "\<exists>t. sw_last_heartbeat w = Some t \<and> now - t \<le> sw_max_interval w")
    case True
    then obtain t where t: "sw_last_heartbeat w = Some t" "now - t \<le> sw_max_interval w" by blast
    obtain b' where b': "bas_append (as_secs (now - t)) (sw_intervals w) = Ok b'" "bas_inv b'"
      "bas_window b' = window_append (length (bas_values (sw_intervals w))) (as_secs (now - t))
         (bas_window (sw_intervals w))"
      "length (bas_values b') = length (bas_values (sw_intervals w))"
      by (rule bas_append_refines [OF b])
    have nonneg: "\<forall>x \<in> set (bas_window b'). 0 \<le> x"
      unfolding b'(3) by (rule window_append_nonneg)
        (use assms in \<open>simp_all add: sw_inv_def as_secs_def\<close>)
    show thesis
      by (rule that [of "w\<lparr>sw_intervals := b', sw_last_heartbeat := Some now\<rparr>"])
        (use assms t b' nonneg in \<open>simp_all add: sw_report_heartbeat_def sw_inv_def Let_def\<close>)
  next
    case False
    show thesis
      by (rule that [of "w\<lparr>sw_last_heartbeat := Some now\<rparr>"])
        (use assms False in \<open>auto simp: sw_report_heartbeat_def sw_inv_def Let_def
          split: option.splits\<close>)
  qed
qed

lemma get_or_create_inv:
  assumes "fd_inv fd" "get_or_create_sampling_window i fd = (w, fd')"
  shows "fd_inv fd'" "sw_inv (fd_sampling_window_size (fd_config fd')) w"
    "fd_live_nodes fd' = fd_live_nodes fd" "fd_dead_nodes fd' = fd_dead_nodes fd"
  using assms sw_inv_new
  by (auto simp: fd_inv_def get_or_create_sampling_window_def Let_def bt_get_insert bt_wf_insert
      split: option.splits if_splits)

lemma fd_report_heartbeat_ok:
  assumes "fd_inv fd"
  obtains fd' where "fd_report_heartbeat i now fd = Ok fd'" "fd_inv fd'"
    "fd_live_nodes fd' = fd_live_nodes fd" "fd_dead_nodes fd' = fd_dead_nodes fd"
proof -
  obtain w fd1 where g: "get_or_create_sampling_window i fd = (w, fd1)"
    by (cases "get_or_create_sampling_window i fd")
  note inv = get_or_create_inv [OF assms g]
  obtain w' where w': "sw_report_heartbeat now w = Ok w'"
    "sw_inv (fd_sampling_window_size (fd_config fd1)) w'"
    by (rule sw_report_heartbeat_ok [OF inv(2)])
  show thesis
    by (rule that [of "fd1\<lparr>fd_node_samples := bt_insert i w' (fd_node_samples fd1)\<rparr>"])
      (use inv w' g in \<open>auto simp: fd_report_heartbeat_def fd_inv_def bt_wf_insert bt_get_insert
        split: if_splits\<close>)
qed

lemma update_node_liveness_inv: "fd_inv fd \<Longrightarrow> fd_inv (update_node_liveness i now fd)"
  using sw_inv_reset
  by (auto simp: update_node_liveness_def fd_inv_def Let_def bt_get_insert bt_get_remove bt_wf_insert
      bt_wf_remove split: option.splits if_splits)

text \<open>
  A node is live after an update exactly when it has an interval in its window and the time since
  its last heartbeat is at most the threshold times the smoothed mean; otherwise it is dead.
\<close>

lemma update_node_liveness_live:
  "i \<in> fd_live_nodes (update_node_liveness i now fd) \<longleftrightarrow> fd_is_alive i now fd"
  "fd_inv fd \<Longrightarrow>
   bt_get (fd_dead_nodes (update_node_liveness i now fd)) i \<noteq> None \<longleftrightarrow> \<not> fd_is_alive i now fd"
  "j \<noteq> i \<Longrightarrow> j \<in> fd_live_nodes (update_node_liveness i now fd) \<longleftrightarrow> j \<in> fd_live_nodes fd"
  by (auto simp: update_node_liveness_def Let_def bt_get_insert bt_get_remove
      split: option.splits if_splits)

text \<open>The test for liveness, in terms of the intervals the window stands for.\<close>

definition smoothed_mean :: "sampling_window \<Rightarrow> rat" where
  "smoothed_mean w =
     (sum_list (bas_window (sw_intervals w))
       + as_prior_weight (sw_additive_smoothing w) * as_prior_mean (sw_additive_smoothing w))
     / (of_nat (length (bas_window (sw_intervals w))) + as_prior_weight (sw_additive_smoothing w))"

lemma fd_is_alive_iff:
  assumes "fd_inv fd"
  shows "fd_is_alive i now fd \<longleftrightarrow>
    (\<exists>w t. bt_get (fd_node_samples fd) i = Some w \<and> sw_last_heartbeat w = Some t
       \<and> bas_window (sw_intervals w) \<noteq> [] \<and> 0 < smoothed_mean w
       \<and> as_secs (now - t) \<le> fd_phi_threshold (fd_config fd) * smoothed_mean w)"
proof (cases "bt_get (fd_node_samples fd) i")
  case None
  then show ?thesis by (simp add: fd_is_alive_def fd_phi_def)
next
  case (Some w)
  then have inv: "bas_inv (sw_intervals w)" "\<forall>x \<in> set (bas_window (sw_intervals w)). 0 \<le> x"
    "0 \<le> as_prior_mean (sw_additive_smoothing w)" "0 < as_prior_weight (sw_additive_smoothing w)"
    using assms by (auto simp: fd_inv_def sw_inv_def)
  have mean: "compute_mean (sw_additive_smoothing w) (bas_len (sw_intervals w))
      (bas_sum (sw_intervals w)) = smoothed_mean w"
    using inv(1) bas_len_window [OF inv(1)] by (simp add: compute_mean_def smoothed_mean_def bas_inv_def)
  have "0 \<le> smoothed_mean w"
    using inv sum_list_nonneg [of "bas_window (sw_intervals w)"] by (simp add: smoothed_mean_def)
  then show ?thesis
    using Some mean bas_len_window [OF inv(1)]
    by (auto simp: fd_is_alive_def fd_phi_def sw_phi_def phi_div_def divide_le_eq Let_def split: option.splits if_splits)
qed

text \<open>A node whose heartbeats stop is not live for ever.\<close>

lemma silent_node_dies:
  assumes "fd_inv fd"
  shows "\<exists>T. \<forall>now \<ge> T. \<not> fd_is_alive i now fd"
proof (cases "\<exists>w t. bt_get (fd_node_samples fd) i = Some w \<and> sw_last_heartbeat w = Some t")
  case False
  then show ?thesis using fd_is_alive_iff [OF assms] by blast
next
  case True
  then obtain w t where w: "bt_get (fd_node_samples fd) i = Some w" "sw_last_heartbeat w = Some t"
    by blast
  obtain n :: nat where n: "fd_phi_threshold (fd_config fd) * smoothed_mean w * 1000000000 < of_nat n"
    using reals_Archimedean2 by blast
  have "\<not> fd_is_alive i now fd" if "t + n \<le> now" for now
  proof
    assume "fd_is_alive i now fd"
    then have "as_secs (now - t) \<le> fd_phi_threshold (fd_config fd) * smoothed_mean w"
      using fd_is_alive_iff [OF assms] w by auto
    then have "of_nat (now - t) \<le> fd_phi_threshold (fd_config fd) * smoothed_mean w * 1000000000"
      by (simp add: as_secs_def)
    moreover have "(of_nat n :: rat) \<le> of_nat (now - t)" using that by (simp only: of_nat_le_iff)
    ultimately show False using n by linarith
  qed
  then show ?thesis by blast
qed

lemma garbage_collect_fold:
  "bt_get (fd_dead_nodes (fold (\<lambda>i fd. fd\<lparr>fd_dead_nodes := bt_remove i (fd_dead_nodes fd),
       fd_node_samples := bt_remove i (fd_node_samples fd)\<rparr>) is fd)) j
     = (if j \<in> set is then None else bt_get (fd_dead_nodes fd) j)"
  "bt_get (fd_node_samples (fold (\<lambda>i fd. fd\<lparr>fd_dead_nodes := bt_remove i (fd_dead_nodes fd),
       fd_node_samples := bt_remove i (fd_node_samples fd)\<rparr>) is fd)) j
     = (if j \<in> set is then None else bt_get (fd_node_samples fd) j)"
  "fd_live_nodes (fold (\<lambda>i fd. fd\<lparr>fd_dead_nodes := bt_remove i (fd_dead_nodes fd),
       fd_node_samples := bt_remove i (fd_node_samples fd)\<rparr>) is fd) = fd_live_nodes fd"
  "fd_config (fold (\<lambda>i fd. fd\<lparr>fd_dead_nodes := bt_remove i (fd_dead_nodes fd),
       fd_node_samples := bt_remove i (fd_node_samples fd)\<rparr>) is fd) = fd_config fd"
  by (induction "is" arbitrary: fd) (auto simp: bt_get_remove)

lemma garbage_collect_wf:
  "bt_wf (fd_dead_nodes fd) \<Longrightarrow> bt_wf (fd_node_samples fd) \<Longrightarrow>
   bt_wf (fd_dead_nodes (fold (\<lambda>i fd. fd\<lparr>fd_dead_nodes := bt_remove i (fd_dead_nodes fd),
       fd_node_samples := bt_remove i (fd_node_samples fd)\<rparr>) is fd))
   \<and> bt_wf (fd_node_samples (fold (\<lambda>i fd. fd\<lparr>fd_dead_nodes := bt_remove i (fd_dead_nodes fd),
       fd_node_samples := bt_remove i (fd_node_samples fd)\<rparr>) is fd))"
  by (induction "is" arbitrary: fd) (simp_all add: bt_wf_remove)

lemma garbage_collect_inv:
  assumes "fd_inv fd" "garbage_collect now fd = (gone, fd')"
  shows "fd_inv fd'"
proof -
  have fd': "fd' = fold (\<lambda>i fd. fd\<lparr>fd_dead_nodes := bt_remove i (fd_dead_nodes fd),
       fd_node_samples := bt_remove i (fd_node_samples fd)\<rparr>) gone fd"
    using assms(2) by (auto simp: garbage_collect_def Let_def)
  show ?thesis
    using assms(1) garbage_collect_wf [of fd gone] unfolding fd' fd_inv_def
    by (simp add: garbage_collect_fold)
qed

lemma garbage_collect_iff:
  assumes "fd_inv fd" "garbage_collect now fd = (gone, fd')"
  shows "i \<in> set gone \<longleftrightarrow> (\<exists>t. bt_get (fd_dead_nodes fd) i = Some t
      \<and> t + fd_dead_node_grace_period (fd_config fd) \<le> now)"
    and "bt_get (fd_dead_nodes fd') i = (if i \<in> set gone then None else bt_get (fd_dead_nodes fd) i)"
    and "i \<in> set gone \<Longrightarrow> bt_get (fd_node_samples fd') i = None"
proof -
  have gone: "gone = map fst (filter (\<lambda>(_, t). now \<ge> t + fd_dead_node_grace_period (fd_config fd))
      (fd_dead_nodes fd))" and fd': "fd' = fold (\<lambda>i fd. fd\<lparr>fd_dead_nodes := bt_remove i (fd_dead_nodes fd),
       fd_node_samples := bt_remove i (fd_node_samples fd)\<rparr>) gone fd"
    using assms(2) by (auto simp: garbage_collect_def Let_def)
  show "i \<in> set gone \<longleftrightarrow> (\<exists>t. bt_get (fd_dead_nodes fd) i = Some t
      \<and> t + fd_dead_node_grace_period (fd_config fd) \<le> now)"
  proof -
    have wf: "bt_wf (fd_dead_nodes fd)" using assms(1) by (simp add: fd_inv_def)
    show ?thesis unfolding gone bt_get_iff [OF wf] by (auto simp: image_iff)
  qed
  show "bt_get (fd_dead_nodes fd') i = (if i \<in> set gone then None else bt_get (fd_dead_nodes fd) i)"
    "i \<in> set gone \<Longrightarrow> bt_get (fd_node_samples fd') i = None"
    by (simp_all add: fd' garbage_collect_fold)
qed

end
