(* ===== verification/Message.thy ===== *)
theory Message
  imports Delta_Correct
begin

text \<open>
  The messages of the gossip handshake and their wire format (\<open>chitchat/src/message.rs\<close>).
\<close>

section \<open>Model\<close>

datatype chitchat_message =
    Syn string digest
  | SynAck digest delta
  | Ack delta
  | BadCluster

definition MAGIC_NUMBER :: u16 where
  "MAGIC_NUMBER = 45139"

datatype protocol_version = V0

fun protocol_version_from_code :: "u8 \<Rightarrow> protocol_version option" where
  "protocol_version_from_code code = (if code = 0 then Some V0 else None)"

fun protocol_version_to_code :: "protocol_version \<Rightarrow> u8" where
  "protocol_version_to_code V0 = 0"

datatype message_type = TypeSyn | TypeSynAck | TypeAck | TypeBadCluster

fun message_type_from_code :: "u8 \<Rightarrow> message_type option" where
  "message_type_from_code code =
     (if code = 0 then Some TypeSyn else if code = 1 then Some TypeSynAck
      else if code = 2 then Some TypeAck else if code = 3 then Some TypeBadCluster else None)"

fun message_type_to_code :: "message_type \<Rightarrow> u8" where
  "message_type_to_code TypeSyn = 0"
| "message_type_to_code TypeSynAck = 1"
| "message_type_to_code TypeAck = 2"
| "message_type_to_code TypeBadCluster = 3"

definition message_header :: "message_type \<Rightarrow> u8 list" where
  "message_header t = u16_serialize MAGIC_NUMBER @ u8_serialize (protocol_version_to_code V0)
     @ [message_type_to_code t]"

fun message_serialize :: "zstd \<Rightarrow> chitchat_message \<Rightarrow> u8 list result" where
  "message_serialize z (Syn cluster_id d) =
     Ok (message_header TypeSyn @ digest_serialize z d @ str_serialize cluster_id)"
| "message_serialize z (SynAck d dl) =
     and_then (delta_serialize z dl) (\<lambda>bs.
     Ok (message_header TypeSynAck @ digest_serialize z d @ bs))"
| "message_serialize z (Ack dl) =
     and_then (delta_serialize z dl) (\<lambda>bs. Ok (message_header TypeAck @ bs))"
| "message_serialize z BadCluster = Ok (message_header TypeBadCluster)"

fun message_serialized_len :: "zstd \<Rightarrow> chitchat_message \<Rightarrow> nat" where
  "message_serialized_len z (Syn cluster_id d) =
     2 + 1 + (1 + str_serialized_len cluster_id + digest_serialized_len z d)"
| "message_serialized_len z (SynAck d dl) =
     2 + 1 + (1 + digest_serialized_len z d + delta_serialized_len dl)"
| "message_serialized_len z (Ack dl) = 2 + 1 + (1 + delta_serialized_len dl)"
| "message_serialized_len z BadCluster = 2 + 1 + 1"

definition message_deserialize :: "zstd \<Rightarrow> u8 list \<Rightarrow> (chitchat_message \<times> u8 list) result" where
  "message_deserialize z buf =
     (if length buf < 3 then Err MessageTooSmall
      else if (of_nat (le_nat (take 2 buf)) :: u16) \<noteq> MAGIC_NUMBER then Err InvalidMagicNumber
      else case protocol_version_from_code (buf ! 2) of
        None \<Rightarrow> Err InvalidProtocolVersion
      | Some V0 \<Rightarrow>
          (case drop 3 buf of
             [] \<Rightarrow> Err InvalidMessageType
           | code # buf \<Rightarrow>
               (case message_type_from_code code of
                  None \<Rightarrow> Err InvalidMessageType
                | Some TypeSyn \<Rightarrow>
                    and_then (digest_deserialize z buf) (\<lambda>(d, buf).
                    and_then (string_deserialize buf) (\<lambda>(cluster_id, buf).
                    Ok (Syn cluster_id d, buf)))
                | Some TypeSynAck \<Rightarrow>
                    and_then (digest_deserialize z buf) (\<lambda>(d, buf).
                    and_then (delta_deserialize z buf) (\<lambda>(dl, buf).
                    Ok (SynAck d dl, buf)))
                | Some TypeAck \<Rightarrow>
                    and_then (delta_deserialize z buf) (\<lambda>(dl, buf). Ok (Ack dl, buf))
                | Some TypeBadCluster \<Rightarrow> Ok (BadCluster, buf))))"

section \<open>Round trip\<close>

fun message_valid :: "zstd \<Rightarrow> chitchat_message \<Rightarrow> bool" where
  "message_valid z (Syn cluster_id d) \<longleftrightarrow> digest_valid z d \<and> str_valid cluster_id"
| "message_valid z (SynAck d dl) \<longleftrightarrow> digest_valid z d \<and> delta_wf (node_deltas dl)"
| "message_valid z (Ack dl) \<longleftrightarrow> delta_wf (node_deltas dl)"
| "message_valid z BadCluster \<longleftrightarrow> True"

lemma le_bytes_2: "le_bytes 2 x = [of_nat (x mod 256), of_nat (x div 256 mod 256)]"
  by (simp only: numeral_2_eq_2) simp

lemma magic_bytes: "le_bytes 2 45139 = [0x53, 0xB0]"
  by (simp add: le_bytes_2)

lemma message_header_bytes: "message_header t = [0x53, 0xB0, 0, message_type_to_code t]"
proof -
  have "u16_serialize MAGIC_NUMBER = [0x53, 0xB0]"
    by (simp add: u16_serialize_def MAGIC_NUMBER_def magic_bytes)
  then show ?thesis by (simp add: message_header_def u8_serialize_def)
qed

lemma message_type_roundtrip: "message_type_from_code (message_type_to_code t) = Some t"
  by (cases t) simp_all

lemma delta_serialize_len: "delta_serialize z d = Ok bs \<Longrightarrow> length bs = delta_serialized_len d"
  by (auto simp: delta_serialize_def and_then_eq_Ok_iff split: if_splits)

lemma message_length:
  "message_serialize z m = Ok bs \<Longrightarrow> length bs = message_serialized_len z m"
  by (cases m)
    (auto simp: message_header_bytes digest_serialized_len_def str_serialize_def
      str_serialized_len_def and_then_eq_Ok_iff dest: delta_serialize_len)

lemma message_deserialize_serialize:
  assumes "zstd_ok z" "message_valid z m" "message_serialize z m = Ok bs"
  shows "message_deserialize z (bs @ rest) = Ok (m, rest)"
  using assms
  by (cases m)
    (auto simp: message_deserialize_def message_header_bytes MAGIC_NUMBER_def
      digest_codec.de_ser string_codec.de_ser and_then_eq_Ok_iff delta_deserialize_serialize)

section \<open>Arbitrary datagrams\<close>

text \<open>Reading a delta never panics; reading a message panics only in the digest.\<close>

lemma read_ops_no_panic: "\<not> is_panic (read_ops buf)"
proof (induction buf rule: read_ops.induct)
  case (1 buf)
  then show ?case
    using delta_op_parser.no_panic [of buf]
    by (subst read_ops.simps) (auto simp: is_panic_and_then split: result.splits)
qed

lemma read_blocks_no_panic: "\<not> is_panic (read_blocks z acc buf)"
proof (induction z acc buf rule: read_blocks.induct)
  case (1 z acc buf)
  then show ?case
    using block_parser.no_panic [of z buf]
    by (subst read_blocks.simps) (auto split: result.splits option.splits)
qed

lemma apply_ops_no_panic: "\<not> is_panic (apply_ops b ops)"
proof (induction ops arbitrary: b)
  case (Cons op ops)
  have "\<not> is_panic (apply_op b op)"
    by (cases op) (auto simp: Let_def split: option.splits)
  then show ?case using Cons by (simp add: is_panic_and_then)
qed simp

lemma delta_deserialize_no_panic: "\<not> is_panic (delta_deserialize z buf)"
  by (auto simp: delta_deserialize_def deserialize_stream_def is_panic_and_then Let_def
      read_blocks_no_panic read_ops_no_panic apply_ops_no_panic)

lemma message_deserialize_panic:
  assumes "is_panic (message_deserialize z buf)"
  shows "\<exists>code rest. buf = 0x53 # 0xB0 # 0 # code # rest \<and> (code = 0 \<or> code = 1)
    \<and> is_panic (digest_deserialize z rest)"
proof -
  have len: "\<not> length buf < 3"
    and magic: "(of_nat (le_nat (take 2 buf)) :: u16) = MAGIC_NUMBER"
    and ver: "buf ! 2 = 0"
    using assms by (auto simp: message_deserialize_def split: if_splits option.splits)
  obtain code rest where rest: "drop 3 buf = code # rest"
    using assms len magic by (auto simp: message_deserialize_def split: list.splits if_splits
        option.splits protocol_version.splits)
  obtain b0 b1 b2 tl where buf: "buf = b0 # b1 # b2 # tl"
    using len by (metis Suc_le_length_iff le_less_linear numeral_3_eq_3)
  have "le_bytes 2 (le_nat [b0, b1]) = [b0, b1]" 
    using le_nat_inverse [of "[b0, b1]"] by (simp add: le_bytes_2)
  moreover have "le_nat [b0, b1] = 45139"
  proof -
    have unat16: "n < 2 ^ 16 \<Longrightarrow> unat (of_nat n :: u16) = n" for n
      by (simp add: unat_of_nat)
    have "le_nat [b0, b1] < 2 ^ 16" using le_nat_bound [of "[b0, b1]"] by simp
    then have "unat (of_nat (le_nat [b0, b1]) :: u16) = le_nat [b0, b1]" by (rule unat16)
    moreover have "(of_nat (le_nat [b0, b1]) :: u16) = 45139"
      using magic buf by (simp only: MAGIC_NUMBER_def take_Suc_Cons numeral_2_eq_2 take_0)
    ultimately show ?thesis by (simp only:) simp
  qed
  ultimately have "b0 = 0x53" "b1 = 0xB0" using magic_bytes by auto
  moreover have "tl = code # rest" "b2 = 0" using rest ver buf by simp_all
  moreover have "(code = 0 \<or> code = 1) \<and> is_panic (digest_deserialize z rest)"
    using assms len magic ver rest
    by (auto simp: message_deserialize_def is_panic_and_then delta_deserialize_no_panic
        string_parser.no_panic split: if_splits)
  ultimately show ?thesis using buf by simp
qed

section \<open>What reading a delta guarantees\<close>

lemma apply_op_keeps:
  assumes "apply_op b op = Ok b'" "builder_wf b" "distinct (map ndl_chitchat_id (built b))"
    and "\<forall>nd \<in> set (built b). node_delta_wf nd"
  shows "builder_wf b' \<and> distinct (map ndl_chitchat_id (built b'))
    \<and> (\<forall>nd \<in> set (built b'). node_delta_wf nd)"
proof (cases op)
  case (OpNode i gc from_v)
  then show ?thesis
    using assms
    by (auto simp: Let_def builder_wf_def built_def builder_flush_def node_delta_wf_def
        split: option.splits if_splits)
next
  case (OpKeyValue kv)
  then obtain nd where nd: "db_current_node_delta b = Some nd"
    and last: "ndl_key_values nd = [] \<or> kvm_version (last (ndl_key_values nd)) < kvm_version kv"
    and b': "b' = b\<lparr>db_current_node_delta := Some (nd\<lparr>ndl_key_values := ndl_key_values nd @ [kv]\<rparr>)\<rparr>"
    using assms(1) by (auto split: option.splits if_splits)
  have "node_delta_wf nd" using assms(4) nd by (simp add: built_def)
  then have "node_delta_wf (nd\<lparr>ndl_key_values := ndl_key_values nd @ [kv]\<rparr>)"
    using last by (cases "ndl_key_values nd" rule: rev_cases)
      (auto simp: node_delta_wf_def sorted_wrt_append dest: less_trans)
  then show ?thesis
    using assms(2-4) nd b' by (auto simp: builder_wf_def built_def)
next
  case (OpSetMaxVersion m)
  then show ?thesis
    using assms by (auto simp: builder_wf_def built_def node_delta_wf_def split: option.splits)
qed

lemma apply_ops_keeps:
  "apply_ops b ops = Ok b' \<Longrightarrow> builder_wf b \<Longrightarrow> distinct (map ndl_chitchat_id (built b)) \<Longrightarrow>
   \<forall>nd \<in> set (built b). node_delta_wf nd \<Longrightarrow>
   distinct (map ndl_chitchat_id (built b')) \<and> (\<forall>nd \<in> set (built b'). node_delta_wf nd)"
proof (induction ops arbitrary: b)
  case (Cons op ops)
  obtain b1 where b1: "apply_op b op = Ok b1" "apply_ops b1 ops = Ok b'"
    using Cons.prems(1) by (auto simp: and_then_eq_Ok_iff)
  show ?case
    using apply_op_keeps [OF b1(1) Cons.prems(2-4)] Cons.IH [OF b1(2)] by blast
qed simp

lemma delta_deserialize_wf:
  assumes "delta_deserialize z buf = Ok (d, rest)"
  shows "distinct (map ndl_chitchat_id (node_deltas d)) \<and> (\<forall>nd \<in> set (node_deltas d). node_delta_wf nd)"
proof -
  obtain ops b n where "apply_ops delta_builder_default ops = Ok b" "d = builder_finish b n"
    using assms by (auto simp: delta_deserialize_def and_then_eq_Ok_iff Let_def)
  then show ?thesis using apply_ops_keeps [of delta_builder_default ops b] by simp
qed

fun message_deltas :: "chitchat_message \<Rightarrow> node_delta list" where
  "message_deltas (Syn _ _) = []"
| "message_deltas (SynAck _ d) = node_deltas d"
| "message_deltas (Ack d) = node_deltas d"
| "message_deltas BadCluster = []"

lemma message_deserialize_deltas_wf:
  assumes "message_deserialize z buf = Ok (m, rest)"
  shows "\<forall>nd \<in> set (message_deltas m). node_delta_wf nd"
  using assms delta_deserialize_wf
  by (auto simp: message_deserialize_def and_then_eq_Ok_iff split: if_splits option.splits
      list.splits protocol_version.splits message_type.splits)

end
