(* ===== verification/Chitchat.thy ===== *)
theory Chitchat
  imports Message Cluster_State Failure_Detector Listener
begin

text \<open>
  A node of the cluster (\<open>Chitchat\<close> of \<open>chitchat/src/lib.rs\<close>): the cluster state, the failure
  detector, the watcher of live nodes, and the handler of gossip messages. Configuration is
  \<open>chitchat/src/configuration.rs\<close>.

  Every operation takes the clock reading as an argument. The number of runs of the catch-up
  callback is a counter. The extra liveness predicate is a function argument of the
  configuration. A panic of an event delivered to listeners makes the operation panic.
\<close>

section \<open>State\<close>

record chitchat_config =
  cfg_chitchat_id :: chitchat_id
  cfg_cluster_id :: string
  cfg_gossip_interval :: duration
  cfg_listen_addr :: socket_addr
  cfg_seed_nodes :: "string list"
  cfg_failure_detector_config :: failure_detector_config
  cfg_marked_for_deletion_grace_period :: duration
  cfg_has_catchup_callback :: bool
  cfg_extra_liveness_predicate :: "(node_state \<Rightarrow> bool) option"

record 'c chitchat =
  ch_config :: chitchat_config
  ch_cluster_state :: cluster_state
  ch_listeners :: "'c inner_listeners"
  ch_failure_detector :: failure_detector
  ch_previous_live_nodes :: "(chitchat_id, version) btree"
  ch_live_nodes_watcher :: "(chitchat_id, node_state) btree"
  ch_max_datagram_payload_size :: nat
  ch_catchup_runs :: nat

definition self_chitchat_id :: "'c chitchat \<Rightarrow> chitchat_id" where
  "self_chitchat_id c = cfg_chitchat_id (ch_config c)"

definition ch_update_cluster :: "(cluster_state \<Rightarrow> cluster_state) \<Rightarrow> 'c chitchat \<Rightarrow> 'c chitchat" where
  "ch_update_cluster f c = c\<lparr>ch_cluster_state := f (ch_cluster_state c)\<rparr>"

text \<open>\<open>self_node_state\<close> hands out a mutable reference; \<open>f\<close> is what is done through it.\<close>

definition self_node_state :: "(node_state \<Rightarrow> node_state) \<Rightarrow> 'c chitchat \<Rightarrow> 'c chitchat" where
  "self_node_state f c = ch_update_cluster (node_state_mut (self_chitchat_id c) f) c"

definition update_self_heartbeat :: "'c chitchat \<Rightarrow> 'c chitchat" where
  "update_self_heartbeat c = self_node_state inc_heartbeat c"

definition deliver_events :: "'c chitchat \<Rightarrow> 'c chitchat result" where
  "deliver_events c =
     (if \<exists>(i, s) \<in> set (cs_node_states (ch_cluster_state c)).
           \<exists>ev \<in> set (ns_listeners s). is_panic (trigger_event (ch_listeners c) ev)
      then Panic SliceOutOfRange else Ok c)"

fun set_all :: "(string \<times> string) list \<Rightarrow> node_state \<Rightarrow> node_state result" where
  "set_all [] s = Ok s"
| "set_all ((k, v) # kvs) s = and_then (ns_set k v s) (set_all kvs)"

definition with_chitchat_id_and_seeds ::
  "chitchat_config \<Rightarrow> socket_addr set \<Rightarrow> (string \<times> string) list \<Rightarrow> nat \<Rightarrow> 'c chitchat result" where
  "with_chitchat_id_and_seeds config seed_addrs initial_key_values max_datagram =
     (let c = \<lparr>ch_config = config, ch_cluster_state = with_seed_addrs seed_addrs,
               ch_listeners = inner_listeners_default,
               ch_failure_detector = failure_detector_new (cfg_failure_detector_config config),
               ch_previous_live_nodes = [], ch_live_nodes_watcher = [],
               ch_max_datagram_payload_size = max_datagram, ch_catchup_runs = 0\<rparr>;
          s = inc_heartbeat (node_state_or_new (cfg_chitchat_id config) (ch_cluster_state c))
      in and_then (set_all initial_key_values s) (\<lambda>s.
         deliver_events (self_node_state (\<lambda>_. s) c)))"

section \<open>Messages\<close>

definition ch_scheduled_for_deletion :: "instant \<Rightarrow> 'c chitchat \<Rightarrow> chitchat_id set" where
  "ch_scheduled_for_deletion now c = scheduled_for_deletion_nodes now (ch_failure_detector c)"

definition ch_compute_digest :: "chitchat_id set \<Rightarrow> 'c chitchat \<Rightarrow> digest" where
  "ch_compute_digest sched c = compute_digest sched (ch_cluster_state c)"

definition create_syn_message :: "instant \<Rightarrow> 'c chitchat \<Rightarrow> chitchat_message" where
  "create_syn_message now c =
     Syn (cfg_cluster_id (ch_config c)) (ch_compute_digest (ch_scheduled_for_deletion now c) c)"

definition report_heartbeat ::
  "instant \<Rightarrow> chitchat_id \<Rightarrow> heartbeat \<Rightarrow> 'c chitchat \<Rightarrow> 'c chitchat result" where
  "report_heartbeat now i h c =
     (if i = self_chitchat_id c then Ok c
      else
        let updated = fst (try_set_heartbeat h (node_state_or_new i (ch_cluster_state c)));
            c = ch_update_cluster (node_state_mut i (\<lambda>s. snd (try_set_heartbeat h s))) c
        in if updated
           then and_then (fd_report_heartbeat i now (ch_failure_detector c)) (\<lambda>fd.
                  Ok (c\<lparr>ch_failure_detector := fd\<rparr>))
           else Ok c)"

fun report_heartbeats ::
  "instant \<Rightarrow> (chitchat_id \<times> node_digest) list \<Rightarrow> 'c chitchat \<Rightarrow> 'c chitchat result" where
  "report_heartbeats now [] c = Ok c"
| "report_heartbeats now ((i, nd) # nds) c =
     and_then (report_heartbeat now i (nd_heartbeat nd) c) (report_heartbeats now nds)"

definition report_heartbeats_in_digest :: "instant \<Rightarrow> digest \<Rightarrow> 'c chitchat \<Rightarrow> 'c chitchat result" where
  "report_heartbeats_in_digest now dg c = report_heartbeats now (node_digests dg) c"

definition maybe_trigger_catchup_callback :: "delta \<Rightarrow> 'c chitchat \<Rightarrow> 'c chitchat" where
  "maybe_trigger_catchup_callback d c =
     (let has_reset = list_ex (\<lambda>nd. ndl_from_version_excluded nd = 0 \<and> ndl_last_gc_version nd > 0)
            (node_deltas d)
      in if has_reset \<and> cfg_has_catchup_callback (ch_config c)
         then c\<lparr>ch_catchup_runs := ch_catchup_runs c + 1\<rparr> else c)"

definition process_delta :: "instant \<Rightarrow> delta \<Rightarrow> 'c chitchat \<Rightarrow> 'c chitchat result" where
  "process_delta now d c =
     deliver_events (ch_update_cluster (cs_apply_delta d now) (maybe_trigger_catchup_callback d c))"

fun process_message ::
  "zstd \<Rightarrow> shuffle \<Rightarrow> instant \<Rightarrow> chitchat_message \<Rightarrow> 'c chitchat \<Rightarrow>
   (chitchat_message option \<times> 'c chitchat) result" where
  "process_message z sh now (Syn cluster_id dg) c =
     (let c = update_self_heartbeat c in
      if cluster_id \<noteq> cfg_cluster_id (ch_config c) then Ok (Some BadCluster, c)
      else and_then (report_heartbeats_in_digest now dg c) (\<lambda>c.
        let sched = ch_scheduled_for_deletion now c;
            self_digest = ch_compute_digest sched c;
            delta_mtu = usize_sub (usize_sub (ch_max_datagram_payload_size c) 1)
                          (digest_serialized_len z self_digest)
        in and_then (compute_partial_delta_respecting_mtu z sh dg delta_mtu sched
                       (ch_cluster_state c)) (\<lambda>d.
           Ok (Some (SynAck self_digest d), c))))"
| "process_message z sh now (SynAck dg d) c =
     (let c = update_self_heartbeat c in
      and_then (report_heartbeats_in_digest now dg c) (\<lambda>c.
      and_then (process_delta now d c) (\<lambda>c.
      let sched = ch_scheduled_for_deletion now c
      in and_then (compute_partial_delta_respecting_mtu z sh dg
                     (usize_sub (ch_max_datagram_payload_size c) 1) sched (ch_cluster_state c)) (\<lambda>d.
         Ok (Some (Ack d), c)))))"
| "process_message z sh now (Ack d) c =
     (let c = update_self_heartbeat c in
      and_then (process_delta now d c) (\<lambda>c. Ok (None, c)))"
| "process_message z sh now BadCluster c = Ok (None, update_self_heartbeat c)"

definition ch_gc_keys_marked_for_deletion :: "instant \<Rightarrow> 'c chitchat \<Rightarrow> 'c chitchat" where
  "ch_gc_keys_marked_for_deletion now c =
     ch_update_cluster (cs_gc_keys_marked_for_deletion now
       (cfg_marked_for_deletion_grace_period (ch_config c))) c"

section \<open>Liveness\<close>

definition live_nodes :: "'c chitchat \<Rightarrow> chitchat_id set" where
  "live_nodes c = insert (self_chitchat_id c) (fd_live_nodes (ch_failure_detector c))"

text \<open>
  The map of live nodes to their \<open>max_version\<close>, collected from the live nodes that have a node
  state: one entry per node state whose node is live.
\<close>

definition current_live_nodes :: "'c chitchat \<Rightarrow> (chitchat_id, version) btree" where
  "current_live_nodes c =
     bt_map_values ns_max_version
       (bt_retain (\<lambda>i _. i \<in> live_nodes c) (cs_node_states (ch_cluster_state c)))"

definition watched_live_nodes :: "'c chitchat \<Rightarrow> (chitchat_id, node_state) btree" where
  "watched_live_nodes c =
     bt_retain (\<lambda>i s. i \<in> live_nodes c
         \<and> (case cfg_extra_liveness_predicate (ch_config c) of None \<Rightarrow> True | Some P \<Rightarrow> P s))
       (cs_node_states (ch_cluster_state c))"

definition update_nodes_liveness :: "instant \<Rightarrow> 'c chitchat \<Rightarrow> 'c chitchat" where
  "update_nodes_liveness now c =
     (let c = c\<lparr>ch_failure_detector :=
            fold (\<lambda>i fd. if i \<noteq> self_chitchat_id c then update_node_liveness i now fd else fd)
              (cs_nodes (ch_cluster_state c)) (ch_failure_detector c)\<rparr>;
          current = current_live_nodes c;
          c = (if ch_previous_live_nodes c \<noteq> current
               then c\<lparr>ch_previous_live_nodes := current,
                      ch_live_nodes_watcher := watched_live_nodes c\<rparr>
               else c);
          (collected, fd) = garbage_collect now (ch_failure_detector c)
      in c\<lparr>ch_failure_detector := fd,
           ch_cluster_state := fold remove_node collected (ch_cluster_state c)\<rparr>)"

section \<open>Resetting a node state from outside\<close>

definition reset_node_state ::
  "chitchat_id \<Rightarrow> (string \<times> versioned_value) list \<Rightarrow> version \<Rightarrow> version \<Rightarrow> 'c chitchat \<Rightarrow>
   'c chitchat result" where
  "reset_node_state i kvs max_version last_gc_version c =
     (let s = node_state_or_new i (ch_cluster_state c);
          c = ch_update_cluster (node_state_mut i (\<lambda>s. s)) c
      in if ns_max_version s \<ge> max_version then Ok c
         else
           let c = c\<lparr>ch_failure_detector :=
                 snd (get_or_create_sampling_window i (ch_failure_detector c))\<rparr>;
               previous_keys = set (map fst (key_values_including_deleted s)) - set (map fst kvs);
               s1 = fold (\<lambda>(k, vv) s. set_versioned_value k vv s) kvs s;
               s2 = s1\<lparr>ns_key_values := bt_retain (\<lambda>k _. k \<notin> previous_keys) (ns_key_values s1)\<rparr>
           in deliver_events
                (ch_update_cluster (node_state_mut i (\<lambda>_. set_last_gc_version last_gc_version s2)) c))"

definition state_snapshot :: "'c chitchat \<Rightarrow> cluster_state_snapshot" where
  "state_snapshot c = cluster_state_snapshot_of (ch_cluster_state c)"

definition ch_subscribe_event :: "string \<Rightarrow> 'c \<Rightarrow> 'c chitchat \<Rightarrow> listener_handle \<times> 'c chitchat" where
  "ch_subscribe_event p cb c =
     (let (h, il) = subscribe_event p cb (ch_listeners c) in (h, c\<lparr>ch_listeners := il\<rparr>))"

end
