(* ===== verification/Chitchat_Correct.thy ===== *)
theory Chitchat_Correct
  imports Chitchat Partial_Delta
begin

text \<open>
  Correctness of the message handler: it keeps the invariants of the cluster state and the
  failure detector for every message a peer can send, and what it answers fits a datagram up to
  the size of the message header.
\<close>

section \<open>Applying any well-formed delta keeps the invariant of a node state\<close>

lemma ns_inv_fold_apply:
  assumes "ns_inv s" "sorted_wrt (<) (map kvm_version kvs)"
    and "\<forall>kv \<in> set kvs. cur < kvm_version kv \<longrightarrow> ns_max_version s < kvm_version kv"
  shows "ns_inv (fold (apply_mutation cur now) kvs s)"
  using assms
proof (induction kvs arbitrary: s)
  case (Cons kv kvs)
  let ?s = "apply_mutation cur now kv s"
  have kv: "ns_inv ?s \<and> ns_max_version ?s \<le> max (ns_max_version s) (kvm_version kv)"
    using Cons.prems(1,3) by (auto simp: apply_mutation_alt applies_def intro!: ns_inv_svv_newer)
  have "ns_max_version ?s < kvm_version kv'"
    if kv': "kv' \<in> set kvs" "cur < kvm_version kv'" for kv'
  proof -
    have "kvm_version kv < kvm_version kv'" "ns_max_version s < kvm_version kv'"
      using Cons.prems(2,3) kv' by auto
    then show ?thesis using kv by (meson max_less_iff_conj order.strict_trans1)
  qed
  then show ?case using Cons.IH [of ?s] Cons.prems(2) kv by simp
qed simp

lemma ns_inv_reset_state: "ns_inv (reset_state nd R)"
  by (simp add: ns_inv_get)

lemma ns_inv_apply_delta:
  assumes "ns_inv s" "node_delta_wf nd"
  shows "ns_inv (ns_apply_delta nd now s)"
proof -
  have srt: "sorted_wrt (<) (map kvm_version (ndl_key_values nd))"
    using assms(2) by (simp add: node_delta_wf_def)
  show ?thesis
  proof (cases rule: ns_apply_delta_cases [of nd now s])
    case ignored
    then show ?thesis using assms(1) by simp
  next
    case incremental
    then show ?thesis using ns_inv_fold_apply [OF assms(1) srt] by (simp add: receive_def)
  next
    case reset
    then show ?thesis
      using ns_inv_fold_apply [OF ns_inv_reset_state srt] by (simp add: receive_def)
  qed
qed

section \<open>Cluster states\<close>

lemma cs_inv_with_seed_addrs: "cs_inv (with_seed_addrs seeds)"
  by (simp add: cs_inv_def with_seed_addrs_def)

lemma cs_inv_get: "cs_inv cs \<longleftrightarrow> bt_wf (cs_node_states cs)
    \<and> (\<forall>i s. bt_get (cs_node_states cs) i = Some s \<longrightarrow> ns_inv s)"
  by (auto simp: cs_inv_def bt_get_iff)

lemma node_state_or_new_inv: "cs_inv cs \<Longrightarrow> ns_inv (node_state_or_new i cs)"
  by (auto simp: cs_inv_get node_state_or_new_def ns_inv_new split: option.splits)

lemma cs_inv_node_state_mut:
  assumes "cs_inv cs" "ns_inv (f (node_state_or_new i cs))"
  shows "cs_inv (node_state_mut i f cs)"
  using assms by (auto simp: cs_inv_get node_state_mut_def bt_wf_insert bt_get_insert)

lemma cs_inv_apply_delta:
  assumes "cs_inv cs" "\<forall>nd \<in> set (node_deltas d). node_delta_wf nd"
  shows "cs_inv (cs_apply_delta d now cs)"
proof -
  have "cs_inv (fold (\<lambda>nd cs. node_state_mut (ndl_chitchat_id nd) (ns_apply_delta nd now) cs) nds cs)"
    if "cs_inv cs" "\<forall>nd \<in> set nds. node_delta_wf nd" for nds cs
    using that
    by (induction nds arbitrary: cs)
      (simp_all add: cs_inv_node_state_mut ns_inv_apply_delta node_state_or_new_inv)
  then show ?thesis using assms by (simp add: cs_apply_delta_def)
qed

lemma cs_inv_gc: "cs_inv cs \<Longrightarrow> cs_inv (cs_gc_keys_marked_for_deletion now grace cs)"
  by (auto simp: cs_inv_get cs_gc_keys_marked_for_deletion_def bt_wf_map_values bt_get_map_values
      gc_inv)

lemma cs_inv_remove: "cs_inv cs \<Longrightarrow> cs_inv (remove_node i cs)"
  by (auto simp: cs_inv_get remove_node_def bt_wf_remove bt_get_remove split: if_splits)

lemma ns_inv_inc_heartbeat: "ns_inv s \<Longrightarrow> ns_inv (inc_heartbeat s)"
  unfolding ns_inv_def inc_heartbeat_def by simp blast

lemma ns_inv_try_set_heartbeat: "ns_inv s \<Longrightarrow> ns_inv (snd (try_set_heartbeat h s))"
  unfolding ns_inv_def try_set_heartbeat_def by simp blast

section \<open>The node\<close>

definition ch_inv :: "'c chitchat \<Rightarrow> bool" where
  "ch_inv c \<longleftrightarrow> cs_inv (ch_cluster_state c) \<and> fd_inv (ch_failure_detector c)
     \<and> listeners_inv (ch_listeners c)"

lemma ch_inv_update_self_heartbeat: "ch_inv c \<Longrightarrow> ch_inv (update_self_heartbeat c)"
  by (simp add: ch_inv_def update_self_heartbeat_def self_node_state_def ch_update_cluster_def
      cs_inv_node_state_mut ns_inv_inc_heartbeat node_state_or_new_inv)

definition same_frame :: "'c chitchat \<Rightarrow> 'c chitchat \<Rightarrow> bool" where
  "same_frame c c' \<longleftrightarrow> ch_config c' = ch_config c \<and> ch_listeners c' = ch_listeners c
     \<and> ch_max_datagram_payload_size c' = ch_max_datagram_payload_size c"

lemma update_self_heartbeat_frame: "same_frame c (update_self_heartbeat c)"
  by (simp add: same_frame_def update_self_heartbeat_def self_node_state_def ch_update_cluster_def)

lemma report_heartbeat_ok:
  assumes "ch_inv c"
  obtains c' where "report_heartbeat now i h c = Ok c'" "ch_inv c'" "same_frame c c'"
proof (cases "i = self_chitchat_id c")
  case True
  then show thesis using that assms by (simp add: report_heartbeat_def same_frame_def)
next
  case False
  let ?c = "ch_update_cluster (node_state_mut i (\<lambda>s. snd (try_set_heartbeat h s))) c"
  have c: "ch_inv ?c" "same_frame c ?c"
    using assms
    by (simp_all add: ch_inv_def same_frame_def ch_update_cluster_def cs_inv_node_state_mut
        ns_inv_try_set_heartbeat node_state_or_new_inv)
  have "fd_inv (ch_failure_detector ?c)" using c by (simp add: ch_inv_def)
  then obtain fd where fd: "fd_report_heartbeat i now (ch_failure_detector ?c) = Ok fd" "fd_inv fd"
    using fd_report_heartbeat_ok by blast
  show thesis
  proof (cases "fst (try_set_heartbeat h (node_state_or_new i (ch_cluster_state c)))")
    case True
    show thesis
      by (rule that [of "?c\<lparr>ch_failure_detector := fd\<rparr>"])
        (use False True fd c in \<open>simp_all add: report_heartbeat_def Let_def ch_inv_def same_frame_def\<close>)
  next
    case n: False
    show thesis
      by (rule that [OF _ c]) (use False n in \<open>simp add: report_heartbeat_def Let_def\<close>)
  qed
qed

lemma report_heartbeats_ok:
  assumes "ch_inv c"
  obtains c' where "report_heartbeats now nds c = Ok c'" "ch_inv c'" "same_frame c c'"
  using assms
proof (induction nds arbitrary: c thesis)
  case Nil
  then show ?case by (simp add: same_frame_def)
next
  case (Cons p nds)
  obtain i nd where p: "p = (i, nd)" by (cases p)
  obtain c1 where c1: "report_heartbeat now i (nd_heartbeat nd) c = Ok c1" "ch_inv c1"
    "same_frame c c1"
    by (rule report_heartbeat_ok [OF Cons.prems(2)])
  obtain c2 where "report_heartbeats now nds c1 = Ok c2" "ch_inv c2" "same_frame c1 c2"
    by (rule Cons.IH [OF _ c1(2)])
  then show ?case
    using c1 p by (intro Cons.prems(1) [of c2]) (auto simp: same_frame_def)
qed

lemma process_delta_inv:
  assumes "ch_inv c" "\<forall>nd \<in> set (node_deltas d). node_delta_wf nd" "process_delta now d c = Ok c'"
  shows "ch_inv c'" "same_frame c c'"
  using assms cs_inv_apply_delta [OF _ assms(2)]
  by (auto simp: process_delta_def deliver_events_def ch_update_cluster_def Let_def
      maybe_trigger_catchup_callback_def ch_inv_def same_frame_def split: if_splits)

text \<open>The only way for a delta to make a node panic is an event that cannot be delivered.\<close>

lemma trigger_event_panic:
  "is_panic (trigger_event il ev) \<longleftrightarrow> kce_key ev \<noteq> [] \<and> \<not> first_byte_is_char (kce_key ev)"
  by (simp add: trigger_event_def Let_def)

lemma deliver_events_panic:
  "is_panic (deliver_events c) \<longleftrightarrow>
     (\<exists>(i, s) \<in> set (cs_node_states (ch_cluster_state c)). \<exists>ev \<in> set (ns_listeners s).
        kce_key ev \<noteq> [] \<and> \<not> first_byte_is_char (kce_key ev))"
  by (simp add: deliver_events_def trigger_event_panic)

lemma process_delta_panic:
  "is_panic (process_delta now d c) \<longleftrightarrow>
     (\<exists>(i, s) \<in> set (cs_node_states (cs_apply_delta d now (ch_cluster_state c))).
        \<exists>ev \<in> set (ns_listeners s). kce_key ev \<noteq> [] \<and> \<not> first_byte_is_char (kce_key ev))"
  by (simp add: process_delta_def deliver_events_panic ch_update_cluster_def
      maybe_trigger_catchup_callback_def Let_def)

text \<open>
  One key-value whose key starts with a character outside ASCII, about a node not known before,
  is enough.
\<close>

lemma unknown_node_single_key:
  assumes "0 < kvm_version kv" "kvm_status kv = MutSet"
    and "ndl_from_version_excluded nd = 0" "ndl_last_gc_version nd = 0" "ndl_key_values nd = [kv]"
  shows "ns_listeners (ns_apply_delta nd now (node_state_new i []))
    = [\<lparr>kce_key = kvm_key kv, kce_value = kvm_value kv, kce_node = i\<rparr>]"
  using assms
  by (simp add: ns_apply_delta_def prepare_apply_delta_def apply_mutation_def node_state_new_def
      set_versioned_value_def Let_def is_deleted_def)

lemma non_ascii_key_panics:
  assumes "cs_node_state (ch_cluster_state c) (ndl_chitchat_id nd) = None" "ch_inv c"
    and "node_deltas d = [nd]" "0 < kvm_version kv" "kvm_status kv = MutSet"
    and "ndl_from_version_excluded nd = 0" "ndl_last_gc_version nd = 0" "ndl_key_values nd = [kv]"
    and "kvm_key kv \<noteq> []" "\<not> first_byte_is_char (kvm_key kv)"
  shows "is_panic (process_delta now d c)"
proof -
  let ?cs = "ch_cluster_state c" and ?i = "ndl_chitchat_id nd"
  let ?s = "ns_apply_delta nd now (node_state_new ?i [])"
  have "cs_node_states (cs_apply_delta d now ?cs) = bt_insert ?i ?s (cs_node_states ?cs)"
    using assms(1,3) by (simp add: cs_apply_delta_def node_state_mut_def node_state_or_new_def
        cs_node_state_def)
  moreover have "bt_wf (cs_node_states ?cs)" using assms(2) by (simp add: ch_inv_def cs_inv_def)
  then have "(?i, ?s) \<in> set (bt_insert ?i ?s (cs_node_states ?cs))"
    using bt_get_iff [OF bt_wf_insert] by (metis bt_get_insert)
  ultimately have "(?i, ?s) \<in> set (cs_node_states (cs_apply_delta d now ?cs))" by simp
  moreover have "\<exists>ev \<in> set (ns_listeners ?s). kce_key ev \<noteq> [] \<and> \<not> first_byte_is_char (kce_key ev)"
    using unknown_node_single_key [OF assms(4-8), of now ?i] assms(9,10) by simp
  ultimately show ?thesis unfolding process_delta_panic by blast
qed

lemma process_message_inv:
  assumes "ch_inv c" "\<forall>nd \<in> set (message_deltas msg). node_delta_wf nd"
    and "process_message z sh now msg c = Ok (reply, c')"
  shows "ch_inv c' \<and> same_frame c c'"
proof -
  let ?c = "update_self_heartbeat c"
  have h: "ch_inv ?c" "same_frame c ?c"
    using ch_inv_update_self_heartbeat [OF assms(1)] update_self_heartbeat_frame by blast+
  have rep: "ch_inv c1 \<and> same_frame ?c c1" if "report_heartbeats_in_digest now dg ?c = Ok c1" for dg c1
    using report_heartbeats_ok [OF h(1), of now "node_digests dg"] that
    by (metis report_heartbeats_in_digest_def result.inject(1))
  show ?thesis
  proof (cases msg)
    case (Syn cluster_id dg)
    then show ?thesis
      using assms(3) h rep [of dg]
      by (auto simp: Let_def and_then_eq_Ok_iff same_frame_def split: if_splits)
  next
    case (SynAck dg d)
    then obtain c1 where c1: "report_heartbeats_in_digest now dg ?c = Ok c1"
      "process_delta now d c1 = Ok c'"
      using assms(3) by (auto simp: Let_def and_then_eq_Ok_iff)
    then show ?thesis
      using rep [OF c1(1)] process_delta_inv [of c1 d now c'] assms(2) SynAck h(2)
      by (auto simp: same_frame_def)
  next
    case (Ack d)
    then show ?thesis
      using assms(2,3) process_delta_inv [OF h(1), of d now c'] h(2)
      by (auto simp: Let_def and_then_eq_Ok_iff same_frame_def)
  next
    case BadCluster
    then show ?thesis using assms(3) h by auto
  qed
qed

section \<open>What the handler answers\<close>

definition reply_fits :: "zstd \<Rightarrow> chitchat_message \<Rightarrow> nat \<Rightarrow> bool" where
  "reply_fits z m n \<longleftrightarrow> (\<exists>bs. message_serialize z m = Ok bs \<and> length bs \<le> n)"

text \<open>
  The delta of a reply is sized as if the header of a message were one byte long; it is four, so
  a reply may exceed the datagram size by three bytes and no more.
\<close>

lemma syn_reply:
  assumes "zstd_ok z" "shuffles sh" "ch_inv c"
    and rep: "report_heartbeats_in_digest now dg (update_self_heartbeat c) = Ok c1"
    and room: "101 + digest_serialized_len z (ch_compute_digest (ch_scheduled_for_deletion now c1) c1)
      \<le> ch_max_datagram_payload_size c" and small: "ch_max_datagram_payload_size c \<le> 65535"
  obtains d where "process_message z sh now (Syn (cfg_cluster_id (ch_config c)) dg) c
      = Ok (Some (SynAck (ch_compute_digest (ch_scheduled_for_deletion now c1) c1) d), c1)"
    "deltas_of (stale_list sh dg (ch_scheduled_for_deletion now c1) (ch_cluster_state c1))
       (node_deltas d)"
    "\<exists>bs. delta_serialize z d = Ok bs"
    "(\<forall>sn \<in> set (stale_list sh dg (ch_scheduled_for_deletion now c1) (ch_cluster_state c1)).
        fits_block (ch_max_datagram_payload_size c - 1
          - digest_serialized_len z (ch_compute_digest (ch_scheduled_for_deletion now c1) c1)) sn)
     \<longrightarrow> reply_fits z (SynAck (ch_compute_digest (ch_scheduled_for_deletion now c1) c1) d)
          (ch_max_datagram_payload_size c + 3)"
proof -
  let ?sched = "ch_scheduled_for_deletion now c1"
  let ?dig = "ch_compute_digest ?sched c1"
  let ?mtu = "ch_max_datagram_payload_size c - 1 - digest_serialized_len z ?dig"
  have "ch_inv c1 \<and> same_frame (update_self_heartbeat c) c1"
    using report_heartbeats_ok [OF ch_inv_update_self_heartbeat [OF assms(3)], of now "node_digests dg"]
      rep by (metis report_heartbeats_in_digest_def result.inject(1))
  then have c1: "cs_inv (ch_cluster_state c1)"
    "ch_max_datagram_payload_size c1 = ch_max_datagram_payload_size c"
    and cid: "cfg_cluster_id (ch_config (update_self_heartbeat c)) = cfg_cluster_id (ch_config c)"
    using update_self_heartbeat_frame [of c] by (auto simp: ch_inv_def same_frame_def)
  have mtu: "100 \<le> ?mtu" "?mtu \<le> 65535" using room small by simp_all
  have sub: "usize_sub (usize_sub (ch_max_datagram_payload_size c1) 1) (digest_serialized_len z ?dig)
      = ?mtu" using room c1(2) by (simp add: usize_sub_def)
  obtain d bs where d: "compute_partial_delta_respecting_mtu z sh dg ?mtu ?sched (ch_cluster_state c1)
      = Ok d" "deltas_of (stale_list sh dg ?sched (ch_cluster_state c1)) (node_deltas d)"
    "delta_serialize z d = Ok bs" "length bs = delta_serialized_len d"
    "(\<forall>sn \<in> set (stale_list sh dg ?sched (ch_cluster_state c1)). fits_block ?mtu sn)
      \<longrightarrow> length bs \<le> ?mtu"
    using compute_partial_delta_ok [OF assms(1,2) c1(1) mtu, of dg ?sched] by blast
  have "reply_fits z (SynAck ?dig d) (ch_max_datagram_payload_size c + 3)"
    if "\<forall>sn \<in> set (stale_list sh dg ?sched (ch_cluster_state c1)). fits_block ?mtu sn"
    using that d(3,5) room
    by (auto simp: reply_fits_def message_header_bytes digest_serialized_len_def)
  then show thesis
    using d rep sub cid by (intro that [of d]) (simp_all add: Let_def)
qed

text \<open>Nothing is sent when the cluster differs, and nothing but the heartbeat changes.\<close>

lemma other_cluster_rejected:
  "cluster_id \<noteq> cfg_cluster_id (ch_config c) \<Longrightarrow>
   process_message z sh now (Syn cluster_id dg) c = Ok (Some BadCluster, update_self_heartbeat c)"
  using update_self_heartbeat_frame [of c] by (simp add: Let_def same_frame_def)

text \<open>A digest that leaves no room for a delta wraps the size limit around.\<close>

lemma oversized_digest_wraps:
  assumes "1 \<le> mx" "mx \<le> len" "len < 2 ^ 63"
  shows "2 ^ 63 \<le> usize_sub (usize_sub mx 1) len"
  using assms unfolding usize_sub_def by auto

section \<open>A new node\<close>

lemma set_all_spec:
  assumes "ns_inv s" "set_all kvs s = Ok s'"
  shows "ns_inv s' \<and> ns_get s' k = (case map_of (rev kvs) k of Some v \<Rightarrow> Some v | None \<Rightarrow> ns_get s k)"
  using assms
proof (induction kvs s rule: set_all.induct)
  case (2 k1 v1 kvs s)
  then obtain s1 where s1: "ns_set k1 v1 s = Ok s1" "set_all kvs s1 = Ok s'"
    by (auto simp: and_then_eq_Ok_iff)
  have "ns_inv s1" "\<And>j. ns_get s1 j = (if j = k1 then Some v1 else ns_get s j)"
    using ns_set_inv [OF 2(2) s1(1)] ns_set_get [OF 2(2) s1(1)] by auto
  then show ?case
    using "2.IH" [OF _ s1(2)] by (auto simp: map_add_def split: option.splits)
qed simp

lemma created_node:
  assumes "with_chitchat_id_and_seeds cfg seeds kvs mtu = Ok c"
    "0 < fd_sampling_window_size (cfg_failure_detector_config cfg)"
  obtains s where "ch_inv c" "cs_node_states (ch_cluster_state c) = [(cfg_chitchat_id cfg, s)]"
    "\<And>k. ns_get s k = map_of (rev kvs) k" "ch_config c = cfg" "ch_max_datagram_payload_size c = mtu"
    "ch_live_nodes_watcher c = []"
proof -
  let ?s0 = "inc_heartbeat (node_state_or_new (cfg_chitchat_id cfg) (with_seed_addrs seeds))"
  obtain s where s: "set_all kvs ?s0 = Ok s"
    using assms(1) by (auto simp: with_chitchat_id_and_seeds_def Let_def and_then_eq_Ok_iff)
  have inv: "ns_inv ?s0"
    by (intro ns_inv_inc_heartbeat node_state_or_new_inv cs_inv_with_seed_addrs)
  have "ns_get ?s0 k = None" for k
    by (simp add: inc_heartbeat_def node_state_or_new_def with_seed_addrs_def node_state_new_def
        ns_get_def get_versioned_def)
  then have "ns_inv s" "\<And>k. ns_get s k = map_of (rev kvs) k"
    using set_all_spec [OF inv s] by (auto split: option.splits)
  moreover have "c = \<lparr>ch_config = cfg, ch_cluster_state = node_state_mut (cfg_chitchat_id cfg) (\<lambda>_. s) (with_seed_addrs seeds),
      ch_listeners = inner_listeners_default,
      ch_failure_detector = failure_detector_new (cfg_failure_detector_config cfg),
      ch_previous_live_nodes = [], ch_live_nodes_watcher = [],
      ch_max_datagram_payload_size = mtu, ch_catchup_runs = 0\<rparr>"
    using assms(1) s by (simp add: with_chitchat_id_and_seeds_def Let_def deliver_events_def
        self_node_state_def ch_update_cluster_def self_chitchat_id_def split: if_splits)
  ultimately show ?thesis
    using that [of s] fd_inv_new [OF assms(2)] listeners_inv_default
    by (simp add: ch_inv_def cs_inv_def node_state_mut_def with_seed_addrs_def)
qed

end
