(* ===== verification/Gossip_Server.thy ===== *)
theory Gossip_Server
  imports Chitchat_Correct
begin

text \<open>
  The gossip server (\<open>chitchat/src/server.rs\<close>): which peers a round of gossip contacts, the
  handling of a received message, and the server's loop as a run over the events its \<open>select!\<close>
  waits for. The random generator is a parameter, a record of the draws one round makes. Messages
  handed to the socket are collected in an outbox; whether the socket delivers them is open, and
  the code ignores failures to send. The parser of socket addresses and the resolver of host
  names are parameters as well.
\<close>

section \<open>Seeds\<close>

definition resolve_seed_host ::
  "(string \<Rightarrow> socket_addr list option) \<Rightarrow> string \<Rightarrow> socket_addr set \<Rightarrow> socket_addr set" where
  "resolve_seed_host lookup_host seed_host seed_addrs =
     (case lookup_host seed_host of
        Some resolved \<Rightarrow> seed_addrs \<union> set resolved | None \<Rightarrow> seed_addrs)"

text \<open>One turn of the refresh loop: what it sends to the watchers of the seed addresses.\<close>

definition dns_refresh ::
  "(string \<Rightarrow> socket_addr list option) \<Rightarrow> string list \<Rightarrow> socket_addr set \<Rightarrow> socket_addr set" where
  "dns_refresh lookup_host seed_hosts_requiring_dns seed_addrs_not_requiring_resolution =
     fold (resolve_seed_host lookup_host) seed_hosts_requiring_dns
       seed_addrs_not_requiring_resolution"

text \<open>
  The first resolution: the initial addresses, the addresses that need no resolution and the
  hosts that do.
\<close>

fun split_seeds ::
  "(string \<Rightarrow> socket_addr option) \<Rightarrow> (string \<Rightarrow> socket_addr list option) \<Rightarrow> string list \<Rightarrow>
   socket_addr set \<Rightarrow> socket_addr set \<Rightarrow> string list \<Rightarrow>
   socket_addr set \<times> socket_addr set \<times> string list" where
  "split_seeds parse lookup_host [] direct first_round hosts = (direct \<union> first_round, direct, hosts)"
| "split_seeds parse lookup_host (seed # seeds) direct first_round hosts =
     (case parse seed of
        Some addr \<Rightarrow> split_seeds parse lookup_host seeds (insert addr direct) first_round hosts
      | None \<Rightarrow> split_seeds parse lookup_host seeds direct
                  (resolve_seed_host lookup_host seed first_round) (hosts @ [seed]))"

definition spawn_dns_refresh_loop ::
  "(string \<Rightarrow> socket_addr option) \<Rightarrow> (string \<Rightarrow> socket_addr list option) \<Rightarrow> string list \<Rightarrow>
   socket_addr set \<times> socket_addr set \<times> string list" where
  "spawn_dns_refresh_loop parse lookup_host seeds = split_seeds parse lookup_host seeds {} {} []"

section \<open>Choosing peers\<close>

definition GOSSIP_COUNT :: nat where
  "GOSSIP_COUNT = 3"

record gossip_rng =
  rng_choose_multiple :: "socket_addr set \<Rightarrow> nat \<Rightarrow> socket_addr list"
  rng_gen_dead :: rat
  rng_choose_dead :: "socket_addr set \<Rightarrow> socket_addr option"
  rng_gen_seed :: rat
  rng_choose_seed :: "socket_addr set \<Rightarrow> socket_addr option"

definition select_dead_node_to_gossip_with ::
  "gossip_rng \<Rightarrow> socket_addr set \<Rightarrow> nat \<Rightarrow> nat \<Rightarrow> socket_addr option" where
  "select_dead_node_to_gossip_with rng dead_nodes live_nodes_count dead_nodes_count =
     (let selection_probability = of_nat dead_nodes_count / of_nat (live_nodes_count + 1) in
      if selection_probability > rng_gen_dead rng then rng_choose_dead rng dead_nodes else None)"

definition select_seed_node_to_gossip_with ::
  "gossip_rng \<Rightarrow> socket_addr set \<Rightarrow> nat \<Rightarrow> nat \<Rightarrow> socket_addr option" where
  "select_seed_node_to_gossip_with rng seed_nodes live_nodes_count dead_nodes_count =
     (let selection_probability =
            of_nat (card seed_nodes) / of_nat (live_nodes_count + dead_nodes_count) in
      if live_nodes_count = 0 \<or> rng_gen_seed rng \<le> selection_probability
      then rng_choose_seed rng seed_nodes else None)"

definition select_nodes_for_gossip ::
  "gossip_rng \<Rightarrow> socket_addr set \<Rightarrow> socket_addr set \<Rightarrow> socket_addr set \<Rightarrow> socket_addr set \<Rightarrow>
   socket_addr list \<times> socket_addr option \<times> socket_addr option" where
  "select_nodes_for_gossip rng peer_nodes live dead seed_nodes =
     (let live_nodes_count = card live;
          dead_nodes_count = card dead;
          nodes = rng_choose_multiple rng
                    (if live_nodes_count = 0 then peer_nodes else live) GOSSIP_COUNT;
          has_gossiped_with_a_seed_node = list_ex (\<lambda>a. a \<in> seed_nodes) nodes;
          random_dead_node = select_dead_node_to_gossip_with rng dead
                               live_nodes_count dead_nodes_count;
          random_seed_node =
            (if \<not> has_gossiped_with_a_seed_node \<or> live_nodes_count < card seed_nodes
             then select_seed_node_to_gossip_with rng seed_nodes live_nodes_count dead_nodes_count
             else None)
      in (nodes, random_dead_node, random_seed_node))"

section \<open>The server\<close>

record 'c server =
  sv_chitchat :: "'c chitchat"
  sv_outbox :: "(socket_addr \<times> chitchat_message) list"

definition sv_send :: "socket_addr \<Rightarrow> chitchat_message \<Rightarrow> 'c server \<Rightarrow> 'c server" where
  "sv_send addr m sv = sv\<lparr>sv_outbox := sv_outbox sv @ [(addr, m)]\<rparr>"

definition handle_message ::
  "zstd \<Rightarrow> shuffle \<Rightarrow> instant \<Rightarrow> socket_addr \<Rightarrow> chitchat_message \<Rightarrow> 'c server \<Rightarrow> 'c server result" where
  "handle_message z sh now from_addr m sv =
     and_then (process_message z sh now m (sv_chitchat sv)) (\<lambda>(response, c).
     let sv = sv\<lparr>sv_chitchat := c\<rparr> in
     Ok (case response of Some reply \<Rightarrow> sv_send from_addr reply sv | None \<Rightarrow> sv))"

definition server_gossip :: "instant \<Rightarrow> socket_addr \<Rightarrow> 'c server \<Rightarrow> 'c server" where
  "server_gossip now addr sv = sv_send addr (create_syn_message now (sv_chitchat sv)) sv"

definition peer_addrs :: "'c chitchat \<Rightarrow> socket_addr set" where
  "peer_addrs c = gossip_advertise_addr `
     set (filter (\<lambda>i. i \<noteq> self_chitchat_id c) (cs_nodes (ch_cluster_state c)))"

definition live_addrs :: "'c chitchat \<Rightarrow> socket_addr set" where
  "live_addrs c = gossip_advertise_addr ` {i \<in> live_nodes c. i \<noteq> self_chitchat_id c}"

definition dead_addrs :: "'c chitchat \<Rightarrow> socket_addr set" where
  "dead_addrs c = gossip_advertise_addr ` set (fd_dead_node_ids (ch_failure_detector c))"

definition seed_addrs :: "'c chitchat \<Rightarrow> socket_addr set" where
  "seed_addrs c = {a \<in> cs_seed_addrs (ch_cluster_state c).
     a \<noteq> gossip_advertise_addr (self_chitchat_id c)}"

definition gossip_multiple :: "gossip_rng \<Rightarrow> instant \<Rightarrow> 'c server \<Rightarrow> 'c server" where
  "gossip_multiple rng now sv =
     (let c = sv_chitchat sv;
          (selected_nodes, random_dead_node, random_seed_node) =
            select_nodes_for_gossip rng (peer_addrs c) (live_addrs c) (dead_addrs c) (seed_addrs c);
          c = ch_gc_keys_marked_for_deletion now (update_self_heartbeat c);
          sv = fold (server_gossip now) selected_nodes (sv\<lparr>sv_chitchat := c\<rparr>);
          sv = (case random_dead_node of Some a \<Rightarrow> server_gossip now a sv | None \<Rightarrow> sv);
          sv = (case random_seed_node of Some a \<Rightarrow> server_gossip now a sv | None \<Rightarrow> sv)
      in sv\<lparr>sv_chitchat := update_nodes_liveness now (sv_chitchat sv)\<rparr>)"

text \<open>What the loop of \<open>run\<close> waits for, with the clock and the draws at that time.\<close>

datatype server_event =
    EventRecv instant shuffle socket_addr chitchat_message
  | EventRecvFailed
  | EventTick instant gossip_rng
  | EventCommandGossip instant socket_addr
  | EventShutdown

datatype 'c run_state =
    Running "'c server"
  | Stopped "'c server"
  | Failed "'c server"

fun server_step :: "zstd \<Rightarrow> server_event \<Rightarrow> 'c server \<Rightarrow> 'c run_state result" where
  "server_step z (EventRecv now sh from_addr m) sv =
     and_then (handle_message z sh now from_addr m sv) (\<lambda>sv. Ok (Running sv))"
| "server_step z EventRecvFailed sv = Ok (Failed sv)"
| "server_step z (EventTick now rng) sv = Ok (Running (gossip_multiple rng now sv))"
| "server_step z (EventCommandGossip now addr) sv = Ok (Running (server_gossip now addr sv))"
| "server_step z EventShutdown sv = Ok (Stopped sv)"

fun server_run :: "zstd \<Rightarrow> server_event list \<Rightarrow> 'c server \<Rightarrow> 'c run_state result" where
  "server_run z [] sv = Ok (Running sv)"
| "server_run z (ev # evs) sv =
     and_then (server_step z ev sv) (\<lambda>st.
     case st of Running sv \<Rightarrow> server_run z evs sv | _ \<Rightarrow> Ok st)"

section \<open>Properties of the choice of peers\<close>

text \<open>What the documentation of \<open>rand\<close> promises of the draws.\<close>

definition rng_ok :: "gossip_rng \<Rightarrow> bool" where
  "rng_ok rng \<longleftrightarrow>
     (\<forall>A n. finite A \<longrightarrow> distinct (rng_choose_multiple rng A n)
        \<and> set (rng_choose_multiple rng A n) \<subseteq> A
        \<and> length (rng_choose_multiple rng A n) = min n (card A))
     \<and> 0 \<le> rng_gen_dead rng \<and> rng_gen_dead rng < 1
     \<and> 0 \<le> rng_gen_seed rng \<and> rng_gen_seed rng < 1
     \<and> (\<forall>A. finite A \<longrightarrow> (case rng_choose_dead rng A of Some a \<Rightarrow> a \<in> A | None \<Rightarrow> A = {}))
     \<and> (\<forall>A. finite A \<longrightarrow> (case rng_choose_seed rng A of Some a \<Rightarrow> a \<in> A | None \<Rightarrow> A = {}))"

lemma select_nodes_live:
  assumes "rng_ok rng" "finite peers" "finite live"
    and "select_nodes_for_gossip rng peers live dead seeds = (nodes, d, s)"
  shows "distinct nodes" "length nodes \<le> GOSSIP_COUNT"
    "set nodes \<subseteq> (if live = {} then peers else live)"
    "live \<noteq> {} \<or> peers \<noteq> {} \<Longrightarrow> nodes \<noteq> []"
proof -
  let ?A = "if live = {} then peers else live"
  have fin: "finite ?A" using assms(2,3) by simp
  have nodes: "nodes = rng_choose_multiple rng ?A GOSSIP_COUNT"
    using assms(3,4) by (auto simp: select_nodes_for_gossip_def Let_def)
  have r: "distinct nodes" "set nodes \<subseteq> ?A" "length nodes = min GOSSIP_COUNT (card ?A)"
    using assms(1) fin unfolding nodes rng_ok_def by blast+
  show "distinct nodes" "length nodes \<le> GOSSIP_COUNT" "set nodes \<subseteq> ?A" using r by simp_all
  show "nodes \<noteq> []" if "live \<noteq> {} \<or> peers \<noteq> {}"
  proof -
    have "0 < card ?A" using that fin by (auto simp: card_gt_0_iff)
    then show ?thesis using r(3) by (auto simp: GOSSIP_COUNT_def)
  qed
qed

lemma select_dead:
  assumes "rng_ok rng" "finite dead"
    and "select_nodes_for_gossip rng peers live dead seeds = (nodes, d, s)"
  shows "d \<noteq> None \<Longrightarrow> the d \<in> dead" "card live < card dead \<Longrightarrow> d \<noteq> None"
proof -
  have d: "d = (if of_nat (card dead) / of_nat (card live + 1) > rng_gen_dead rng
      then rng_choose_dead rng dead else None)"
    using assms(3) by (auto simp: select_nodes_for_gossip_def Let_def
        select_dead_node_to_gossip_with_def)
  have c: "case rng_choose_dead rng dead of Some a \<Rightarrow> a \<in> dead | None \<Rightarrow> dead = {}"
    and g: "rng_gen_dead rng < 1"
    using assms(1,2) by (auto simp: rng_ok_def)
  show "the d \<in> dead" if "d \<noteq> None" using that c d by (auto split: if_splits option.splits)
  show "d \<noteq> None" if lt: "card live < card dead"
  proof -
    have "(1 :: rat) \<le> of_nat (card dead) / of_nat (card live + 1)"
      using lt by (simp add: le_divide_eq flip: of_nat_Suc)
    then have "rng_gen_dead rng < of_nat (card dead) / of_nat (card live + 1)" using g by linarith
    moreover have "dead \<noteq> {}" using lt by auto
    ultimately show ?thesis using d c by (auto split: option.splits)
  qed
qed

text \<open>A node that knows of no live peer contacts a seed, whatever the draws.\<close>

lemma select_seed_when_isolated:
  assumes "rng_ok rng" "seeds \<noteq> {}" "finite seeds"
    and "select_nodes_for_gossip rng peers {} dead seeds = (nodes, d, s)"
  shows "s \<noteq> None \<and> the s \<in> seeds"
proof -
  have "0 < card seeds" using assms(2,3) by (simp add: card_gt_0_iff)
  then have "s = rng_choose_seed rng seeds"
    using assms(4) by (auto simp: select_nodes_for_gossip_def Let_def
        select_seed_node_to_gossip_with_def)
  moreover have "case rng_choose_seed rng seeds of Some a \<Rightarrow> a \<in> seeds | None \<Rightarrow> seeds = {}"
    using assms(1,3) by (auto simp: rng_ok_def)
  ultimately show ?thesis using assms(2) by (auto split: option.splits)
qed

section \<open>The loop keeps the invariant\<close>

lemma fold_liveness_inv:
  "fd_inv fd \<Longrightarrow>
   fd_inv (fold (\<lambda>i fd. if i \<noteq> self then update_node_liveness i now fd else fd) is fd)"
  by (induction "is" arbitrary: fd) (simp_all add: update_node_liveness_inv)

lemma fold_remove_inv: "cs_inv cs \<Longrightarrow> cs_inv (fold remove_node is cs)"
  by (induction "is" arbitrary: cs) (simp_all add: cs_inv_remove)

lemma update_nodes_liveness_inv:
  assumes "ch_inv c"
  shows "ch_inv (update_nodes_liveness now c)" "ch_config (update_nodes_liveness now c) = ch_config c"
proof -
  let ?fd = "fold (\<lambda>i fd. if i \<noteq> self_chitchat_id c then update_node_liveness i now fd else fd)
    (cs_nodes (ch_cluster_state c)) (ch_failure_detector c)"
  obtain gone fd' where g: "garbage_collect now ?fd = (gone, fd')"
    by (cases "garbage_collect now ?fd")
  have "fd_inv fd'"
    using garbage_collect_inv [OF _ g] fold_liveness_inv assms by (auto simp: ch_inv_def)
  then show "ch_inv (update_nodes_liveness now c)"
    using assms fold_remove_inv g
    by (simp add: ch_inv_def update_nodes_liveness_def Let_def)
  show "ch_config (update_nodes_liveness now c) = ch_config c"
    using g by (simp add: update_nodes_liveness_def Let_def)
qed

lemma server_gossip_chitchat [simp]: "sv_chitchat (server_gossip now a sv) = sv_chitchat sv"
  by (simp add: server_gossip_def sv_send_def)

lemma fold_server_gossip_chitchat [simp]:
  "sv_chitchat (fold (server_gossip now) addrs sv) = sv_chitchat sv"
  by (induction addrs arbitrary: sv) simp_all

lemma gossip_multiple_chitchat:
  "sv_chitchat (gossip_multiple rng now sv) =
     update_nodes_liveness now (ch_gc_keys_marked_for_deletion now
       (update_self_heartbeat (sv_chitchat sv)))"
  by (auto simp: gossip_multiple_def Let_def split: prod.splits option.splits)

lemma gossip_multiple_inv:
  "ch_inv (sv_chitchat sv) \<Longrightarrow> ch_inv (sv_chitchat (gossip_multiple rng now sv))"
  unfolding gossip_multiple_chitchat
  by (rule update_nodes_liveness_inv)
    (use ch_inv_update_self_heartbeat cs_inv_gc in \<open>fastforce simp: ch_inv_def
      ch_gc_keys_marked_for_deletion_def ch_update_cluster_def\<close>)

fun event_wf :: "server_event \<Rightarrow> bool" where
  "event_wf (EventRecv now sh a m) \<longleftrightarrow> (\<forall>nd \<in> set (message_deltas m). node_delta_wf nd)"
| "event_wf _ \<longleftrightarrow> True"

fun run_server :: "'c run_state \<Rightarrow> 'c server" where
  "run_server (Running sv) = sv"
| "run_server (Stopped sv) = sv"
| "run_server (Failed sv) = sv"

lemma server_step_inv:
  assumes "ch_inv (sv_chitchat sv)" "event_wf ev" "server_step z ev sv = Ok st"
  shows "ch_inv (sv_chitchat (run_server st))"
proof (cases ev)
  case (EventRecv now sh a m)
  then obtain response c' where
    pm: "process_message z sh now m (sv_chitchat sv) = Ok (response, c')"
    and st: "sv_chitchat (run_server st) = c'"
    using assms(3)
    by (auto simp: handle_message_def and_then_eq_Ok_iff Let_def sv_send_def split: option.splits)
  show ?thesis
    using process_message_inv [OF assms(1) _ pm] assms(2) EventRecv st by simp
qed (use assms gossip_multiple_inv in auto)

lemma server_run_inv:
  "ch_inv (sv_chitchat sv) \<Longrightarrow> \<forall>ev \<in> set evs. event_wf ev \<Longrightarrow> server_run z evs sv = Ok st \<Longrightarrow>
   ch_inv (sv_chitchat (run_server st))"
proof (induction evs arbitrary: sv)
  case (Cons ev evs)
  obtain st1 where st1: "server_step z ev sv = Ok st1"
    "(case st1 of Running sv \<Rightarrow> server_run z evs sv | _ \<Rightarrow> Ok st1) = Ok st"
    using Cons.prems(3) by (auto simp: and_then_eq_Ok_iff)
  have "ch_inv (sv_chitchat (run_server st1))"
    using server_step_inv [OF Cons.prems(1) _ st1(1)] Cons.prems(2) by simp
  then show ?case
    using st1(2) Cons.IH Cons.prems(2) by (cases st1) auto
qed auto

end
