(* ===== verification/Licenses.thy ===== *)
theory Licenses
  imports Types
begin

text \<open>
  Licence signatures (\<open>igniter/src/lib.rs\<close>, \<open>config.rs\<close>, \<open>errors.rs\<close>): the three signatures a
  delegated licence carries and their verification. The libraries the code calls are parameters,
  a record of the functions used: Ed25519 verification, base64 and hexadecimal decoding and the
  JSON encodings. What the theorems need of them is stated as \<open>hex_ok\<close> here and as
  \<open>json_ok\<close> in theory \<open>Routes\<close>.
\<close>

section \<open>Data\<close>

record licence_signature =
  ls_license_id :: string
  ls_license_owner_pubkey :: string
  ls_provider_pubkey :: string
  ls_delegation_sig :: string
  ls_delegation_confirm_sig :: string
  ls_timestamp :: u64
  ls_license_proof_sig :: string

record proxy_config =
  pc_socket_address :: "socket_addr option"
  pc_cert :: "string option"

record wallet_config =
  wc_pubkey :: string
  wc_secret :: string

record bls_config =
  bc_pubkey :: string
  bc_secret :: string
  bc_rnd :: string

record keys_config =
  kc_wallet :: wallet_config
  kc_bls :: bls_config

record igniter_config =
  ic_cluster_id :: string
  ic_proxies :: "proxy_config list"
  ic_listen_addr :: socket_addr
  ic_api_addr :: socket_addr
  ic_advertise_addr :: socket_addr
  ic_seeds :: "string list"
  ic_node_id :: "string option"
  ic_interval :: u64
  ic_signatures :: "licence_signature list"
  ic_auto_update :: bool

datatype igniter_error =
    DelegationSig
  | DelegationConfirmSig
  | LicenseProofSig
  | Serde
  | NoLicenses
  | InvalidProxies
  | TooManyLicenses
  | DuplicateLicenseId string
  | InvalidBackendKey
  | MissingField string

type_synonym 'a checked = "igniter_error + 'a"

text \<open>The counts of licences per owner.\<close>

type_synonym licences = "(string, int) btree"

record igniter_env =
  ed25519_verify :: "u8 list \<Rightarrow> u8 list \<Rightarrow> u8 list \<Rightarrow> bool"
  base64_decode :: "string \<Rightarrow> u8 list option"
  hex_decode :: "string \<Rightarrow> u8 list option"
  json_of_signatures :: "licence_signature list \<Rightarrow> string"
  signatures_of_json :: "string \<Rightarrow> licence_signature list option"
  json_of_licences :: "licences \<Rightarrow> string"
  licences_of_json :: "string \<Rightarrow> licences option"
  json_of_proxies :: "proxy_config list \<Rightarrow> string"
  proxies_of_json :: "string \<Rightarrow> proxy_config list option"
  backend_verifying_key :: string
  cargo_pkg_version :: string

definition hex_ok :: "igniter_env \<Rightarrow> bool" where
  "hex_ok env \<longleftrightarrow> (\<forall>s bs. hex_decode env s = Some bs \<longrightarrow> length s = 2 * length bs)"

section \<open>Errors in sequence\<close>

fun checked_then :: "'a checked \<Rightarrow> ('a \<Rightarrow> 'b checked) \<Rightarrow> 'b checked" where
  "checked_then (Inl e) f = Inl e"
| "checked_then (Inr x) f = f x"

definition require :: "bool \<Rightarrow> igniter_error \<Rightarrow> unit checked" where
  "require b e = (if b then Inr () else Inl e)"

definition ok_or :: "'a option \<Rightarrow> igniter_error \<Rightarrow> 'a checked" where
  "ok_or x e = (case x of Some v \<Rightarrow> Inr v | None \<Rightarrow> Inl e)"

lemma checked_then_Inr: "checked_then r f = Inr y \<longleftrightarrow> (\<exists>x. r = Inr x \<and> f x = Inr y)"
  by (cases r) auto

lemma require_Inr [simp]: "require b e = Inr u \<longleftrightarrow> b"
  by (simp add: require_def)

lemma ok_or_Inr [simp]: "ok_or x e = Inr v \<longleftrightarrow> x = Some v"
  by (cases x) (auto simp: ok_or_def)

section \<open>Signatures\<close>

definition str_bytes :: "string \<Rightarrow> u8 list" where
  "str_bytes s = map (\<lambda>c. of_nat (of_char c)) s"

text \<open>A \<open>u64\<close> in decimal, as \<open>format!\<close> prints it.\<close>

fun decimal :: "nat \<Rightarrow> string" where
  "decimal n = (if n < 10 then [char_of (48 + n)] else decimal (n div 10) @ [char_of (48 + n mod 10)])"

declare decimal.simps [simp del]

definition license_proof_prepare :: "string \<Rightarrow> string \<Rightarrow> u8 list" where
  "license_proof_prepare license_id license_owner_pubkey = str_bytes (license_id @ license_owner_pubkey)"

definition delegation_prepare :: "string \<Rightarrow> string \<Rightarrow> string \<Rightarrow> u64 \<Rightarrow> u8 list" where
  "delegation_prepare license_id license_owner_pubkey provider_pubkey timestamp =
     str_bytes (license_owner_pubkey @ provider_pubkey @ license_id @ decimal (unat timestamp))"

definition delegation_confirm_prepare ::
  "string \<Rightarrow> string \<Rightarrow> string \<Rightarrow> string \<Rightarrow> string \<Rightarrow> u8 list" where
  "delegation_confirm_prepare license_id license_owner_pubkey provider_pubkey
     bk_node_owner_pubkey bk_bls_pubkey =
     str_bytes (license_id @ license_owner_pubkey @ provider_pubkey @ bk_node_owner_pubkey
       @ bk_bls_pubkey)"

definition check_license_proof_sig :: "igniter_env \<Rightarrow> licence_signature \<Rightarrow> u8 list \<Rightarrow> unit checked" where
  "check_license_proof_sig env sig backend_pk =
     checked_then (ok_or (base64_decode env (ls_license_proof_sig sig)) LicenseProofSig) (\<lambda>signature.
     require (ed25519_verify env backend_pk
       (license_proof_prepare (ls_license_id sig) (ls_license_owner_pubkey sig)) signature)
       LicenseProofSig)"

text \<open>A public key in hexadecimal: 32 bytes.\<close>

definition key_of_hex :: "igniter_env \<Rightarrow> string \<Rightarrow> u8 list option" where
  "key_of_hex env s = (case hex_decode env s of
      Some bs \<Rightarrow> if length bs = 32 then Some bs else None | None \<Rightarrow> None)"

definition check_delegation_sig :: "igniter_env \<Rightarrow> licence_signature \<Rightarrow> unit checked" where
  "check_delegation_sig env sig =
     checked_then (ok_or (base64_decode env (ls_delegation_sig sig)) DelegationSig) (\<lambda>signature.
     checked_then (ok_or (key_of_hex env (ls_license_owner_pubkey sig)) DelegationSig) (\<lambda>pub_key.
     require (ed25519_verify env pub_key
       (delegation_prepare (ls_license_id sig) (ls_license_owner_pubkey sig)
         (ls_provider_pubkey sig) (ls_timestamp sig)) signature) DelegationSig))"

definition check_delegation_confirm_sig ::
  "igniter_env \<Rightarrow> licence_signature \<Rightarrow> string \<Rightarrow> string \<Rightarrow> unit checked" where
  "check_delegation_confirm_sig env sig bk_node_owner_pubkey bk_bls_pubkey =
     checked_then (ok_or (base64_decode env (ls_delegation_confirm_sig sig)) DelegationConfirmSig)
       (\<lambda>signature.
     checked_then (ok_or (key_of_hex env (ls_provider_pubkey sig)) DelegationConfirmSig) (\<lambda>pub_key.
     require (ed25519_verify env pub_key
       (delegation_confirm_prepare (ls_license_id sig) (ls_license_owner_pubkey sig)
         (ls_provider_pubkey sig) bk_node_owner_pubkey bk_bls_pubkey) signature)
       DelegationConfirmSig))"

definition check_signatures ::
  "igniter_env \<Rightarrow> licence_signature \<Rightarrow> u8 list \<Rightarrow> string \<Rightarrow> string \<Rightarrow> unit checked" where
  "check_signatures env sig backend_pk bk_node_owner_pubkey bk_bls_pubkey =
     checked_then (check_license_proof_sig env sig backend_pk) (\<lambda>_.
     checked_then (check_delegation_sig env sig) (\<lambda>_.
     check_delegation_confirm_sig env sig bk_node_owner_pubkey bk_bls_pubkey))"

definition MAX_ALLOWED_LICENSES :: nat where
  "MAX_ALLOWED_LICENSES = 20"

fun check_all ::
  "igniter_env \<Rightarrow> u8 list \<Rightarrow> string \<Rightarrow> string \<Rightarrow> string set \<Rightarrow> licence_signature list \<Rightarrow> unit checked" where
  "check_all env backend_pk owner bls seen [] = Inr ()"
| "check_all env backend_pk owner bls seen (sig # sigs) =
     checked_then (check_signatures env sig backend_pk owner bls) (\<lambda>_.
     if ls_license_id sig \<in> seen then Inl (DuplicateLicenseId (ls_license_id sig))
     else check_all env backend_pk owner bls (insert (ls_license_id sig) seen) sigs)"

text \<open>\<open>VerifiedSignatures\<close> is a wrapper that only \<open>create\<close> and a checked state can make.\<close>

datatype verified_signatures = VerifiedSignatures (verified_inner: "licence_signature list")

definition verified_signatures_create ::
  "igniter_env \<Rightarrow> licence_signature list \<Rightarrow> string \<Rightarrow> string \<Rightarrow> string \<Rightarrow> verified_signatures checked" where
  "verified_signatures_create env signatures backend_pk bk_node_owner_pubkey bk_bls_pubkey =
     checked_then (require (\<not> length signatures > MAX_ALLOWED_LICENSES) TooManyLicenses) (\<lambda>_.
     checked_then (require (signatures \<noteq> []) NoLicenses) (\<lambda>_.
     checked_then (ok_or (key_of_hex env backend_pk) InvalidBackendKey) (\<lambda>backend_key.
     checked_then (check_all env backend_key bk_node_owner_pubkey bk_bls_pubkey {} signatures) (\<lambda>_.
     Inr (VerifiedSignatures signatures)))))"

definition derive_licences :: "verified_signatures \<Rightarrow> licences" where
  "derive_licences sigs =
     fold (\<lambda>sig acc. bt_insert (ls_license_owner_pubkey sig)
         ((case bt_get acc (ls_license_owner_pubkey sig) of Some n \<Rightarrow> n | None \<Rightarrow> 0) + 1) acc)
       (verified_inner sigs) []"

section \<open>What acceptance means\<close>

definition signatures_valid :: "igniter_env \<Rightarrow> u8 list \<Rightarrow> string \<Rightarrow> string \<Rightarrow> licence_signature \<Rightarrow> bool" where
  "signatures_valid env backend_pk owner bls sig \<longleftrightarrow>
     (\<exists>proof deleg confirm owner_key provider_key.
        base64_decode env (ls_license_proof_sig sig) = Some proof
        \<and> base64_decode env (ls_delegation_sig sig) = Some deleg
        \<and> base64_decode env (ls_delegation_confirm_sig sig) = Some confirm
        \<and> key_of_hex env (ls_license_owner_pubkey sig) = Some owner_key
        \<and> key_of_hex env (ls_provider_pubkey sig) = Some provider_key
        \<and> ed25519_verify env backend_pk
            (str_bytes (ls_license_id sig @ ls_license_owner_pubkey sig)) proof
        \<and> ed25519_verify env owner_key
            (str_bytes (ls_license_owner_pubkey sig @ ls_provider_pubkey sig @ ls_license_id sig
              @ decimal (unat (ls_timestamp sig)))) deleg
        \<and> ed25519_verify env provider_key
            (str_bytes (ls_license_id sig @ ls_license_owner_pubkey sig @ ls_provider_pubkey sig
              @ owner @ bls)) confirm)"

lemma check_signatures_iff:
  "check_signatures env sig pk owner bls = Inr u \<longleftrightarrow> signatures_valid env pk owner bls sig"
  by (auto simp: check_signatures_def check_license_proof_sig_def check_delegation_sig_def
      check_delegation_confirm_sig_def checked_then_Inr signatures_valid_def
      license_proof_prepare_def delegation_prepare_def delegation_confirm_prepare_def)

lemma check_all_iff:
  "check_all env pk owner bls seen sigs = Inr u \<longleftrightarrow>
     (\<forall>sig \<in> set sigs. signatures_valid env pk owner bls sig)
     \<and> distinct (map ls_license_id sigs) \<and> ls_license_id ` set sigs \<inter> seen = {}"
  by (induction sigs arbitrary: seen) (auto simp: checked_then_Inr check_signatures_iff)

lemma verified_signatures_create_iff:
  "verified_signatures_create env sigs backend owner bls = Inr v \<longleftrightarrow>
     v = VerifiedSignatures sigs \<and> 1 \<le> length sigs \<and> length sigs \<le> MAX_ALLOWED_LICENSES
     \<and> distinct (map ls_license_id sigs)
     \<and> (\<exists>pk. key_of_hex env backend = Some pk
          \<and> (\<forall>sig \<in> set sigs. signatures_valid env pk owner bls sig))"
  by (auto simp: verified_signatures_create_def checked_then_Inr check_all_iff Suc_le_eq)

section \<open>Counting licences\<close>

lemma derive_fold:
  "bt_get (fold (\<lambda>sig acc. bt_insert (ls_license_owner_pubkey sig)
       ((case bt_get acc (ls_license_owner_pubkey sig) of Some n \<Rightarrow> n | None \<Rightarrow> 0) + 1) acc)
     sigs acc) k =
   (if \<exists>sig \<in> set sigs. ls_license_owner_pubkey sig = k
    then Some ((case bt_get acc k of Some n \<Rightarrow> n | None \<Rightarrow> 0)
      + int (length (filter (\<lambda>sig. ls_license_owner_pubkey sig = k) sigs)))
    else bt_get acc k)"
  by (induction sigs arbitrary: acc) (auto simp: bt_get_insert filter_empty_conv split: option.splits)

lemma derive_licences_count:
  "bt_get (derive_licences (VerifiedSignatures sigs)) k =
     (let n = length (filter (\<lambda>sig. ls_license_owner_pubkey sig = k) sigs)
      in if n = 0 then None else Some (int n))"
  by (auto simp: derive_licences_def derive_fold Let_def filter_empty_conv)

lemma derive_licences_wf: "bt_wf (derive_licences v)"
proof -
  have "bt_wf acc \<Longrightarrow> bt_wf (fold (\<lambda>sig acc. bt_insert (ls_license_owner_pubkey sig)
       ((case bt_get acc (ls_license_owner_pubkey sig) of Some n \<Rightarrow> n | None \<Rightarrow> (0 :: int)) + 1) acc)
     sigs acc)" for sigs :: "licence_signature list" and acc
    by (induction sigs arbitrary: acc) (simp_all add: bt_wf_insert)
  then show ?thesis by (simp add: derive_licences_def)
qed

lemma sum_bt_insert:
  "bt_wf m \<Longrightarrow> sum_list (map snd (bt_insert k v m))
     = sum_list (map snd m) - (case bt_get m k of Some n \<Rightarrow> n | None \<Rightarrow> 0) + (v :: int)"
proof (induction m)
  case (Cons kv m)
  obtain a b where kv: "kv = (a, b)" by (cases kv)
  have "map_of m k = None" if "k < a"
    using Cons.prems that kv by (fastforce simp: map_of_eq_None_iff)
  then show ?case
    using Cons kv by (auto simp: bt_get_def split: option.splits)
qed simp

lemma derive_licences_sum:
  "sum_list (map snd (derive_licences (VerifiedSignatures sigs))) = int (length sigs)"
proof -
  have "bt_wf acc \<Longrightarrow> sum_list (map snd (fold (\<lambda>sig acc. bt_insert (ls_license_owner_pubkey sig)
       ((case bt_get acc (ls_license_owner_pubkey sig) of Some n \<Rightarrow> n | None \<Rightarrow> (0 :: int)) + 1) acc)
     sigs acc)) = sum_list (map snd acc) + int (length sigs)" for acc
    by (induction sigs arbitrary: acc) (simp_all add: bt_wf_insert sum_bt_insert)
  then show ?thesis by (simp add: derive_licences_def)
qed

section \<open>What a delegation signature commits to\<close>

lemma str_bytes_inject: "str_bytes s = str_bytes t \<longleftrightarrow> s = t"
proof
  assume "str_bytes s = str_bytes t"
  then have "map (\<lambda>b :: u8. char_of (unat b) :: char) (str_bytes s)
      = map (\<lambda>b. char_of (unat b)) (str_bytes t)" by simp
  moreover have "map (\<lambda>b :: u8. char_of (unat b) :: char) (str_bytes r) = r" for r
  proof -
    have "char_of (unat (of_nat (of_char c) :: u8)) = c" for c :: char
      by (simp add: unat_of_nat)
    then show ?thesis by (induction r) (simp_all add: str_bytes_def)
  qed
  ultimately show "s = t" by simp
qed simp

lemma key_of_hex_length: "hex_ok env \<Longrightarrow> key_of_hex env s = Some k \<Longrightarrow> length s = 64"
  by (auto simp: key_of_hex_def hex_ok_def split: option.splits if_splits)

text \<open>
  With keys of 64 characters a signed delegation fixes the owner, the provider and the
  concatenation of licence id and timestamp; it does not fix where the id ends.
\<close>

lemma delegation_prepare_inj:
  assumes "length o1 = 64" "length p1 = 64" "length o2 = 64" "length p2 = 64"
  shows "delegation_prepare i1 o1 p1 t1 = delegation_prepare i2 o2 p2 t2 \<longleftrightarrow>
    o1 = o2 \<and> p1 = p2 \<and> i1 @ decimal (unat t1) = i2 @ decimal (unat t2)"
  using assms by (simp add: delegation_prepare_def str_bytes_inject)

lemma decimal_12: "decimal 12 = ''12''" "decimal 2 = ''2''"
  by code_simp+

lemma delegation_ambiguous:
  "delegation_prepare ''7'' own prov 12 = delegation_prepare ''71'' own prov 2"
  by (simp add: delegation_prepare_def decimal_12)

lemma delegation_sig_transfers:
  assumes "check_delegation_sig env sig = Inr ()"
    and "i @ decimal (unat t) = ls_license_id sig @ decimal (unat (ls_timestamp sig))"
  shows "check_delegation_sig env (sig\<lparr>ls_license_id := i, ls_timestamp := t\<rparr>) = Inr ()"
  using assms by (simp add: check_delegation_sig_def delegation_prepare_def)

end
