(* ===== verification/Revocation.thy ===== *)
theory Revocation
  imports Licenses
begin

text \<open>
  Revocation by re-delegation (\<open>igniter/src/utils.rs\<close>): of the delegations of one licence only
  those with the latest timestamp count, the others are reported as revoked. The traits
  \<open>HasTimestampAndId\<close> and \<open>ContainsVec\<close> are a locale; the definitions take their functions as
  arguments, as the generic function of the code takes its type parameters.
\<close>

section \<open>The traits\<close>

locale contains_vec =
  fixes get_id :: "'t \<Rightarrow> string"
    and get_timestamp :: "'t \<Rightarrow> u64"
    and get_vec :: "'s \<Rightarrow> 't list"
    and set_vec :: "'t list \<Rightarrow> 's \<Rightarrow> 's"
    and get_pk :: "'s \<Rightarrow> string"
  assumes get_set [simp]: "get_vec (set_vec v s) = v"
    and pk_set [simp]: "get_pk (set_vec v s) = get_pk s"

section \<open>Model\<close>

record revoked_license =
  rl_license_id :: string
  rl_provider_pubkey :: string
  rl_timestamp :: u64

definition note_timestamp :: "string \<Rightarrow> u64 \<Rightarrow> (string, u64) btree \<Rightarrow> (string, u64) btree" where
  "note_timestamp i t m = (case bt_get m i of
      Some ts \<Rightarrow> if t > ts then bt_insert i t m else m
    | None \<Rightarrow> bt_insert i t m)"

definition max_timestamps ::
  "('t \<Rightarrow> string) \<Rightarrow> ('t \<Rightarrow> u64) \<Rightarrow> 't list \<Rightarrow> (string, u64) btree" where
  "max_timestamps get_id get_timestamp items =
     fold (\<lambda>item m. note_timestamp (get_id item) (get_timestamp item) m) items []"

definition is_current :: "('t \<Rightarrow> string) \<Rightarrow> ('t \<Rightarrow> u64) \<Rightarrow> (string, u64) btree \<Rightarrow> 't \<Rightarrow> bool" where
  "is_current get_id get_timestamp m item =
     (case bt_get m (get_id item) of Some max_ts \<Rightarrow> get_timestamp item = max_ts | None \<Rightarrow> False)"

text \<open>The second loop over one element: what it pushes to the list of revoked licences.\<close>

definition revoked_of ::
  "('t \<Rightarrow> string) \<Rightarrow> ('t \<Rightarrow> u64) \<Rightarrow> (string, u64) btree \<Rightarrow> string \<Rightarrow> 't list \<Rightarrow> revoked_license list" where
  "revoked_of get_id get_timestamp m pk items =
     map (\<lambda>item. \<lparr>rl_license_id = get_id item, rl_provider_pubkey = pk,
            rl_timestamp = get_timestamp item\<rparr>)
       (filter (\<lambda>item. bt_get m (get_id item) \<noteq> None
          \<and> \<not> is_current get_id get_timestamp m item) items)"

text \<open>The third loop: the first item of each id.\<close>

fun dedup_ids :: "('t \<Rightarrow> string) \<Rightarrow> string set \<Rightarrow> 't list \<Rightarrow> 't list" where
  "dedup_ids get_id seen [] = []"
| "dedup_ids get_id seen (item # items) =
     (if get_id item \<in> seen then dedup_ids get_id seen items
      else item # dedup_ids get_id (insert (get_id item) seen) items)"

definition remove_with_outdated_timestamps ::
  "('t \<Rightarrow> string) \<Rightarrow> ('t \<Rightarrow> u64) \<Rightarrow> ('s \<Rightarrow> 't list) \<Rightarrow> ('t list \<Rightarrow> 's \<Rightarrow> 's) \<Rightarrow> ('s \<Rightarrow> string) \<Rightarrow>
   's list \<Rightarrow> 's list \<times> revoked_license list" where
  "remove_with_outdated_timestamps get_id get_timestamp get_vec set_vec get_pk data =
     (let m = max_timestamps get_id get_timestamp (concat (map get_vec data));
          revoked = concat (map (\<lambda>s. revoked_of get_id get_timestamp m (get_pk s) (get_vec s)) data);
          data = map (\<lambda>s. set_vec (filter (is_current get_id get_timestamp m) (get_vec s)) s) data;
          data = map (\<lambda>s. set_vec (dedup_ids get_id {} (get_vec s)) s) data;
          data = filter (\<lambda>s. get_vec s \<noteq> []) data
      in (data, revoked))"

section \<open>The map of latest timestamps\<close>

definition all_items :: "('s \<Rightarrow> 't list) \<Rightarrow> 's list \<Rightarrow> 't list" where
  "all_items get_vec data = concat (map get_vec data)"

text \<open>An item none of whose namesakes is later.\<close>

definition latest_in :: "('t \<Rightarrow> string) \<Rightarrow> ('t \<Rightarrow> u64) \<Rightarrow> 't list \<Rightarrow> 't \<Rightarrow> bool" where
  "latest_in get_id get_timestamp items item \<longleftrightarrow>
     (\<forall>x \<in> set items. get_id x = get_id item \<longrightarrow> get_timestamp x \<le> get_timestamp item)"

lemma note_timestamp_get:
  "bt_get (note_timestamp i t m) j =
     (if j = i then Some (case bt_get m i of Some ts \<Rightarrow> max t ts | None \<Rightarrow> t) else bt_get m j)"
  by (auto simp: note_timestamp_def bt_get_insert max_def split: option.splits)

lemma max_timestamps_fold:
  "bt_get (fold (\<lambda>item m. note_timestamp (get_id item) (get_timestamp item) m) items m) i =
     (if \<exists>x \<in> set items. get_id x = i
      then Some (fold max (map get_timestamp (filter (\<lambda>x. get_id x = i) items))
             (case bt_get m i of Some ts \<Rightarrow> ts | None \<Rightarrow> 0))
      else bt_get m i)"
proof (induction items arbitrary: m)
  case (Cons x items)
  have "filter (\<lambda>y. get_id y = i) items = []" if "\<not> (\<exists>y \<in> set items. get_id y = i)"
    using that by (auto simp: filter_empty_conv)
  then show ?case
    unfolding fold_simps Cons.IH comp_def
    by (auto simp: note_timestamp_get split: option.splits)
qed simp

lemma fold_max_upper: "(x :: u64) \<le> fold max xs x" "y \<in> set xs \<Longrightarrow> y \<le> fold max xs x"
  by (induction xs arbitrary: x)
    (auto intro: order_trans [OF max.cobounded2] order_trans [OF max.cobounded1])

lemma fold_max_member: "fold max xs (x :: u64) = x \<or> fold max xs x \<in> set xs"
proof (induction xs arbitrary: x)
  case (Cons a xs)
  then show ?case using Cons [of "max a x"] by (auto simp: max_def split: if_splits)
qed simp

lemma is_current_iff:
  assumes "item \<in> set items"
  shows "is_current get_id get_timestamp (max_timestamps get_id get_timestamp items) item
    \<longleftrightarrow> latest_in get_id get_timestamp items item"
proof -
  let ?ts = "map get_timestamp (filter (\<lambda>x. get_id x = get_id item) items)"
  have get: "bt_get (max_timestamps get_id get_timestamp items) (get_id item) = Some (fold max ?ts 0)"
    using assms by (auto simp: max_timestamps_def max_timestamps_fold)
  have mem: "get_timestamp item \<in> set ?ts" using assms by auto
  have "fold max ?ts 0 \<in> set ?ts"
    using fold_max_member [of ?ts 0] fold_max_upper(2) [OF mem, of 0] mem
    by (metis word_le_0_iff)
  moreover have "get_timestamp item \<le> fold max ?ts 0" by (rule fold_max_upper(2) [OF mem])
  ultimately show ?thesis
    using fold_max_upper(2) [of _ ?ts 0]
    by (auto simp: is_current_def get latest_in_def intro: antisym)
qed

lemma max_timestamps_known:
  "item \<in> set items \<Longrightarrow> bt_get (max_timestamps get_id get_timestamp items) (get_id item) \<noteq> None"
  by (auto simp: max_timestamps_def max_timestamps_fold)

lemma set_dedup_ids:
  "set (dedup_ids get_id seen items) \<subseteq> {x \<in> set items. get_id x \<notin> seen}"
  "get_id ` set (dedup_ids get_id seen items) = get_id ` set items - seen"
  "distinct (map get_id (dedup_ids get_id seen items))"
proof (induction items arbitrary: seen)
  case (Cons x items)
  {
    case 1
    then show ?case using Cons(1) [of seen] Cons(1) [of "insert (get_id x) seen"] by auto
  next
    case 2
    then show ?case using Cons(2) [of seen] Cons(2) [of "insert (get_id x) seen"] by auto
  next
    case 3
    then show ?case
      using Cons(3) [of seen] Cons(3) [of "insert (get_id x) seen"]
        Cons(2) [of "insert (get_id x) seen"] by auto
  }
qed auto

section \<open>What remains and what is revoked\<close>

context contains_vec
begin

lemma kept:
  assumes "remove_with_outdated_timestamps get_id get_timestamp get_vec set_vec get_pk data
      = (data', revoked)"
  shows "data' = filter (\<lambda>s. get_vec s \<noteq> []) (map (\<lambda>s. set_vec (dedup_ids get_id {}
      (filter (latest_in get_id get_timestamp (all_items get_vec data)) (get_vec s)))
      (set_vec (filter (latest_in get_id get_timestamp (all_items get_vec data)) (get_vec s)) s)) data)"
proof -
  have "filter (is_current get_id get_timestamp (max_timestamps get_id get_timestamp (all_items get_vec data)))
      (get_vec s) = filter (latest_in get_id get_timestamp (all_items get_vec data)) (get_vec s)"
    if "s \<in> set data" for s
    using that is_current_iff [of _ "all_items get_vec data" get_id get_timestamp]
    by (intro filter_cong) (auto simp: all_items_def)
  then show ?thesis
    using assms
    by (auto simp: remove_with_outdated_timestamps_def Let_def all_items_def [symmetric]
        intro!: arg_cong [where f = "filter _"])
qed

text \<open>An id of the output stems from the input, with its latest timestamp.\<close>

lemma kept_latest:
  assumes "remove_with_outdated_timestamps get_id get_timestamp get_vec set_vec get_pk data
      = (data', revoked)" "item \<in> set (all_items get_vec data')"
  shows "item \<in> set (all_items get_vec data) \<and> latest_in get_id get_timestamp (all_items get_vec data) item"
  using assms(2) set_dedup_ids(1) [of get_id "{}"]
  unfolding kept [OF assms(1)] by (fastforce simp: all_items_def)

text \<open>No licence disappears: each id of the input is still there.\<close>

lemma kept_ids:
  assumes "remove_with_outdated_timestamps get_id get_timestamp get_vec set_vec get_pk data
      = (data', revoked)"
  shows "get_id ` set (all_items get_vec data') = get_id ` set (all_items get_vec data)"
proof
  show "get_id ` set (all_items get_vec data') \<subseteq> get_id ` set (all_items get_vec data)"
    using kept_latest [OF assms] by blast
  show "get_id ` set (all_items get_vec data) \<subseteq> get_id ` set (all_items get_vec data')"
  proof
    fix i assume "i \<in> get_id ` set (all_items get_vec data)"
    then have ne: "{x \<in> set (all_items get_vec data). get_id x = i} \<noteq> {}"
      and fin: "finite {x \<in> set (all_items get_vec data). get_id x = i}" by auto
    let ?X = "{x \<in> set (all_items get_vec data). get_id x = i}"
    have "Max (get_timestamp ` ?X) \<in> get_timestamp ` ?X" using ne fin by (intro Max_in) auto
    then obtain x where x: "x \<in> ?X" "get_timestamp x = Max (get_timestamp ` ?X)" by auto
    then have lat: "latest_in get_id get_timestamp (all_items get_vec data) x"
      using fin by (auto simp: latest_in_def)
    obtain s where s: "s \<in> set data" "x \<in> set (get_vec s)"
      using x(1) by (auto simp: all_items_def)
    let ?cur = "filter (latest_in get_id get_timestamp (all_items get_vec data)) (get_vec s)"
    let ?s = "set_vec (dedup_ids get_id {} ?cur) (set_vec ?cur s)"
    have "i \<in> get_id ` set (dedup_ids get_id {} ?cur)"
      unfolding set_dedup_ids(2) using x(1) s(2) lat by auto
    moreover from this have "?s \<in> set data'"
      unfolding kept [OF assms] using s(1) by auto
    ultimately show "i \<in> get_id ` set (all_items get_vec data')"
      by (fastforce simp: all_items_def)
  qed
qed

text \<open>What is reported as revoked are the items with a later namesake, under the holder's key.\<close>

lemma revoked_iff:
  assumes "remove_with_outdated_timestamps get_id get_timestamp get_vec set_vec get_pk data
      = (data', revoked)"
  shows "r \<in> set revoked \<longleftrightarrow> (\<exists>s \<in> set data. \<exists>item \<in> set (get_vec s).
      \<not> latest_in get_id get_timestamp (all_items get_vec data) item
      \<and> r = \<lparr>rl_license_id = get_id item, rl_provider_pubkey = get_pk s,
             rl_timestamp = get_timestamp item\<rparr>)"
proof -
  let ?m = "max_timestamps get_id get_timestamp (all_items get_vec data)"
  have revoked: "revoked = concat (map (\<lambda>s. revoked_of get_id get_timestamp ?m (get_pk s) (get_vec s)) data)"
    using assms by (simp add: remove_with_outdated_timestamps_def Let_def all_items_def)
  have "(bt_get ?m (get_id item) \<noteq> None \<and> \<not> is_current get_id get_timestamp ?m item)
      = (\<not> latest_in get_id get_timestamp (all_items get_vec data) item)"
    if "s \<in> set data" "item \<in> set (get_vec s)" for s item
  proof -
    have "item \<in> set (all_items get_vec data)" using that by (auto simp: all_items_def)
    then show ?thesis using is_current_iff max_timestamps_known by metis
  qed
  then have "filter (\<lambda>item. bt_get ?m (get_id item) \<noteq> None
        \<and> \<not> is_current get_id get_timestamp ?m item) (get_vec s)
      = filter (\<lambda>item. \<not> latest_in get_id get_timestamp (all_items get_vec data) item) (get_vec s)"
    if "s \<in> set data" for s using that by (intro filter_cong) auto
  then have "revoked = concat (map (\<lambda>s. map (\<lambda>item. \<lparr>rl_license_id = get_id item,
      rl_provider_pubkey = get_pk s, rl_timestamp = get_timestamp item\<rparr>)
      (filter (\<lambda>item. \<not> latest_in get_id get_timestamp (all_items get_vec data) item)
        (get_vec s))) data)"
    unfolding revoked revoked_of_def by (intro arg_cong [where f = concat] map_cong) auto
  then show ?thesis by (simp only:) (auto simp: image_iff)
qed

lemma no_empty:
  assumes "remove_with_outdated_timestamps get_id get_timestamp get_vec set_vec get_pk data
      = (data', revoked)" "s \<in> set data'"
  shows "get_vec s \<noteq> []" "distinct (map get_id (get_vec s))"
  using assms(2) set_dedup_ids(3) unfolding kept [OF assms(1)] by auto

end

end
