(* ===== verification/Routes.thy ===== *)
theory Routes
  imports Revocation Chitchat
begin

text \<open>
  The igniter's own gossip keys and its REST interface (\<open>Params::to_gossip\<close> of
  \<open>igniter/src/lib.rs\<close>, \<open>igniter/src/open_api/routes.rs\<close>, \<open>igniter/src/revoked_license_watcher.rs\<close>):
  what a node publishes about itself, and how the state gossiped by the others is verified,
  filtered and exported. The responses are the values the code serializes as JSON.
\<close>

section \<open>Publishing\<close>

definition key_pubkey :: string where "key_pubkey = ''pubkey''"
definition key_bls_pubkey :: string where "key_bls_pubkey = ''bls_pubkey''"
definition key_proxies :: string where "key_proxies = ''proxies''"
definition key_licenses :: string where "key_licenses = ''licenses''"
definition key_signatures :: string where "key_signatures = ''signatures''"
definition key_version :: string where "key_version = ''version''"

lemmas zerostate_keys = key_pubkey_def key_bls_pubkey_def key_proxies_def key_licenses_def
  key_signatures_def key_version_def

definition MAX_PROXIES :: nat where
  "MAX_PROXIES = 10"

definition check_proxy_socket_addresses :: "igniter_env \<Rightarrow> string option \<Rightarrow> bool" where
  "check_proxy_socket_addresses env str_value =
     (case str_value of
        None \<Rightarrow> True
      | Some s \<Rightarrow>
          (case proxies_of_json env s of
             None \<Rightarrow> False
           | Some records \<Rightarrow>
               length records \<le> MAX_PROXIES
               \<and> list_all (\<lambda>p. \<not> (pc_cert p \<noteq> None \<and> pc_socket_address p = None)) records))"

definition to_gossip :: "igniter_env \<Rightarrow> igniter_config \<Rightarrow> keys_config \<Rightarrow> (string \<times> string) list checked" where
  "to_gossip env config keys =
     (let proxies = json_of_proxies env (ic_proxies config);
          pubkey = wc_pubkey (kc_wallet keys);
          bls = bc_pubkey (kc_bls keys)
      in checked_then (require (check_proxy_socket_addresses env (Some proxies)) InvalidProxies) (\<lambda>_.
         checked_then (verified_signatures_create env (ic_signatures config)
             (backend_verifying_key env) pubkey bls) (\<lambda>verified.
         Inr ([(key_pubkey, pubkey), (key_bls_pubkey, bls), (key_proxies, proxies),
               (key_version, cargo_pkg_version env),
               (key_signatures, json_of_signatures env (verified_inner verified)),
               (key_licenses, json_of_licences env (derive_licences verified))]))))"

section \<open>Verifying the state of a node\<close>

record verified_node_state_no_licenses =
  vn_pubkey :: string
  vn_bls_key :: string
  vn_signatures :: "licence_signature list"
  vn_version :: string

definition from_gossip ::
  "igniter_env \<Rightarrow> (string, string) btree \<Rightarrow> verified_node_state_no_licenses checked" where
  "from_gossip env k_v =
     checked_then (ok_or (bt_get k_v key_pubkey) (MissingField key_pubkey)) (\<lambda>pubkey.
     checked_then (ok_or (bt_get k_v key_bls_pubkey) (MissingField key_bls_pubkey)) (\<lambda>bls_key.
     checked_then (ok_or (bt_get k_v key_signatures) (MissingField key_signatures)) (\<lambda>json.
     checked_then (ok_or (signatures_of_json env json) Serde) (\<lambda>signatures.
     checked_then (verified_signatures_create env signatures (backend_verifying_key env)
         pubkey bls_key) (\<lambda>verified.
     checked_then (ok_or (bt_get k_v key_version) (MissingField key_version)) (\<lambda>version.
     Inr \<lparr>vn_pubkey = pubkey, vn_bls_key = bls_key, vn_signatures = verified_inner verified,
          vn_version = version\<rparr>))))))"

record verified_node_state =
  vs_pubkey :: string
  vs_bls_key :: string
  vs_signatures :: "licence_signature list"
  vs_licenses :: licences
  vs_version :: string

definition vn_remove_outdated ::
  "verified_node_state_no_licenses list \<Rightarrow> verified_node_state_no_licenses list \<times> revoked_license list" where
  "vn_remove_outdated = remove_with_outdated_timestamps ls_license_id ls_timestamp vn_signatures
     (\<lambda>v s. s\<lparr>vn_signatures := v\<rparr>) vn_pubkey"

text \<open>The data without outdated delegations is dropped; the verified state is built from all of it.\<close>

definition from_state ::
  "verified_node_state_no_licenses list \<Rightarrow> verified_node_state list \<times> revoked_license list" where
  "from_state state =
     (let (_, problem) = vn_remove_outdated state
      in (map (\<lambda>s. \<lparr>vs_pubkey = vn_pubkey s, vs_bls_key = vn_bls_key s,
                    vs_signatures = vn_signatures s,
                    vs_licenses = derive_licences (VerifiedSignatures (vn_signatures s)),
                    vs_version = vn_version s\<rparr>) state, problem))"

definition verified_inputs :: "igniter_env \<Rightarrow> node_state list \<Rightarrow> verified_node_state_no_licenses list" where
  "verified_inputs env node_states =
     List.map_filter (\<lambda>s. case from_gossip env (key_values s) of Inr d \<Rightarrow> Some d | Inl _ \<Rightarrow> None)
       node_states"

definition extract_verified_state_without_licences ::
  "igniter_env \<Rightarrow> node_state list \<Rightarrow> verified_node_state list \<times> revoked_license list" where
  "extract_verified_state_without_licences env node_states = from_state (verified_inputs env node_states)"

definition get_verified_state ::
  "igniter_env \<Rightarrow> 'c chitchat \<Rightarrow> verified_node_state list \<times> revoked_license list" where
  "get_verified_state env c =
     extract_verified_state_without_licences env (snap_node_states (state_snapshot c))"

section \<open>The endpoints\<close>

definition validate_licenses :: "igniter_env \<Rightarrow> (string, string) btree \<Rightarrow> licences \<Rightarrow> bool" where
  "validate_licenses env k_v verified_licenses =
     (case bt_get k_v key_licenses of
        None \<Rightarrow> False
      | Some json \<Rightarrow>
          (case licences_of_json env json of
             None \<Rightarrow> False | Some m \<Rightarrow> m = verified_licenses))"

definition index_keeps :: "igniter_env \<Rightarrow> verified_node_state list \<Rightarrow> node_state \<Rightarrow> bool" where
  "index_keeps env verified_state s =
     (let k_v = key_values s in
      case from_gossip env k_v of
        Inl _ \<Rightarrow> False
      | Inr d \<Rightarrow>
          (case find (\<lambda>v. vs_pubkey v = vn_pubkey d) verified_state of
             None \<Rightarrow> False
           | Some v \<Rightarrow>
               validate_licenses env k_v (vs_licenses v)
               \<and> check_proxy_socket_addresses env (bt_get k_v key_proxies)))"

record api_response =
  ar_cluster_id :: string
  ar_node_states :: "node_state list"
  ar_seed_addrs :: "socket_addr set"
  ar_live_nodes :: "chitchat_id set"
  ar_dead_nodes :: "chitchat_id list"

definition api_index :: "igniter_env \<Rightarrow> 'c chitchat \<Rightarrow> api_response" where
  "api_index env c =
     (let (verified_state, _) = get_verified_state env c;
          snap = state_snapshot c
      in \<lparr>ar_cluster_id = cfg_cluster_id (ch_config c),
          ar_node_states = filter (index_keeps env verified_state) (snap_node_states snap),
          ar_seed_addrs = snap_seed_addrs snap,
          ar_live_nodes = live_nodes c,
          ar_dead_nodes = fd_dead_node_ids (ch_failure_detector c)\<rparr>)"

text \<open>\<open>None\<close> is the answer that no revoked licence was found.\<close>

definition get_revoked_licenses :: "igniter_env \<Rightarrow> string \<Rightarrow> 'c chitchat \<Rightarrow> revoked_license list option" where
  "get_revoked_licenses env pubkey c =
     (let (_, revoked_licenses) = get_verified_state env c;
          yours = filter (\<lambda>r. rl_provider_pubkey r = pubkey) revoked_licenses
      in if yours = [] then None else Some yours)"

definition export_state :: "igniter_env \<Rightarrow> 'c chitchat \<Rightarrow> verified_node_state list" where
  "export_state env c = fst (get_verified_state env c)"

text \<open>One turn of the watcher: the licence ids it warns about.\<close>

definition watcher_warnings :: "igniter_env \<Rightarrow> string \<Rightarrow> 'c chitchat \<Rightarrow> string list" where
  "watcher_warnings env pubkey c =
     map rl_license_id (filter (\<lambda>r. rl_provider_pubkey r = pubkey)
       (snd (extract_verified_state_without_licences env (snap_node_states (state_snapshot c)))))"

section \<open>The traits of a node's verified state\<close>

interpretation vn: contains_vec ls_license_id ls_timestamp vn_signatures
    "\<lambda>v s. s\<lparr>vn_signatures := v\<rparr>" vn_pubkey
  by unfold_locales simp_all

section \<open>What a node publishes is accepted\<close>

lemma to_gossip_Inr:
  assumes "to_gossip env config keys = Inr kvs"
  shows "check_proxy_socket_addresses env (Some (json_of_proxies env (ic_proxies config)))"
    "verified_signatures_create env (ic_signatures config) (backend_verifying_key env)
       (wc_pubkey (kc_wallet keys)) (bc_pubkey (kc_bls keys))
     = Inr (VerifiedSignatures (ic_signatures config))"
    "kvs = [(key_pubkey, wc_pubkey (kc_wallet keys)), (key_bls_pubkey, bc_pubkey (kc_bls keys)),
       (key_proxies, json_of_proxies env (ic_proxies config)), (key_version, cargo_pkg_version env),
       (key_signatures, json_of_signatures env (ic_signatures config)),
       (key_licenses, json_of_licences env (derive_licences (VerifiedSignatures (ic_signatures config))))]"
  using assms
  by (auto simp: to_gossip_def Let_def checked_then_Inr verified_signatures_create_iff)

text \<open>JSON encoding of a node's own data can be undone.\<close>

definition json_ok :: "igniter_env \<Rightarrow> igniter_config \<Rightarrow> bool" where
  "json_ok env config \<longleftrightarrow>
     signatures_of_json env (json_of_signatures env (ic_signatures config))
       = Some (ic_signatures config)
     \<and> licences_of_json env (json_of_licences env
         (derive_licences (VerifiedSignatures (ic_signatures config))))
       = Some (derive_licences (VerifiedSignatures (ic_signatures config)))
     \<and> proxies_of_json env (json_of_proxies env (ic_proxies config)) = Some (ic_proxies config)"

text \<open>A node state holds what a node published when each key is there with its value.\<close>

definition holds_published :: "(string, string) btree \<Rightarrow> (string \<times> string) list \<Rightarrow> bool" where
  "holds_published k_v kvs \<longleftrightarrow> (\<forall>(k, v) \<in> set kvs. bt_get k_v k = Some v)"

lemma published_from_gossip:
  assumes "json_ok env config" "to_gossip env config keys = Inr kvs" "holds_published k_v kvs"
  shows "from_gossip env k_v = Inr \<lparr>vn_pubkey = wc_pubkey (kc_wallet keys),
      vn_bls_key = bc_pubkey (kc_bls keys), vn_signatures = ic_signatures config,
      vn_version = cargo_pkg_version env\<rparr>"
  using assms(1,3) to_gossip_Inr [OF assms(2)]
  by (simp add: from_gossip_def holds_published_def checked_then_Inr json_ok_def ok_or_def)

lemma published_valid:
  assumes "json_ok env config" "to_gossip env config keys = Inr kvs" "holds_published k_v kvs"
  shows "validate_licenses env k_v (derive_licences (VerifiedSignatures (ic_signatures config)))"
    "check_proxy_socket_addresses env (bt_get k_v key_proxies)"
  using assms(1,3) to_gossip_Inr [OF assms(2)]
  by (simp_all add: holds_published_def json_ok_def validate_licenses_def)

lemma verified_inputs_iff:
  "d \<in> set (verified_inputs env ss) \<longleftrightarrow> (\<exists>s \<in> set ss. from_gossip env (key_values s) = Inr d)"
  by (force simp: verified_inputs_def List.map_filter_def split: sum.splits)

lemma from_state_fst:
  "fst (from_state st) = map (\<lambda>s. \<lparr>vs_pubkey = vn_pubkey s, vs_bls_key = vn_bls_key s,
      vs_signatures = vn_signatures s,
      vs_licenses = derive_licences (VerifiedSignatures (vn_signatures s)),
      vs_version = vn_version s\<rparr>) st"
  by (simp add: from_state_def case_prod_beta Let_def)

text \<open>
  The node state of an honest node is listed, when no other node state claims its public key.
\<close>

lemma index_keeps_published:
  assumes "json_ok env config" "to_gossip env config keys = Inr kvs" "s \<in> set ss"
    and "holds_published (key_values s) kvs"
    and "\<And>s' d. s' \<in> set ss \<Longrightarrow> from_gossip env (key_values s') = Inr d \<Longrightarrow>
      vn_pubkey d = wc_pubkey (kc_wallet keys) \<Longrightarrow> vn_signatures d = ic_signatures config"
  shows "index_keeps env (fst (extract_verified_state_without_licences env ss)) s"
proof -
  let ?vs = "fst (extract_verified_state_without_licences env ss)"
  let ?pk = "wc_pubkey (kc_wallet keys)"
  note fg = published_from_gossip [OF assms(1,2,4)]
  have "\<exists>v \<in> set ?vs. vs_pubkey v = ?pk"
    using assms(3) fg by (force simp: extract_verified_state_without_licences_def from_state_fst
        verified_inputs_iff)
  then obtain v where v: "find (\<lambda>v. vs_pubkey v = ?pk) ?vs = Some v"
    by (metis (mono_tags, lifting) find_None_iff option.exhaust)
  then have "v \<in> set ?vs" "vs_pubkey v = ?pk" by (auto simp: find_Some_iff)
  then obtain d where "d \<in> set (verified_inputs env ss)" "vn_pubkey d = ?pk"
    "vs_licenses v = derive_licences (VerifiedSignatures (vn_signatures d))"
    by (auto simp: extract_verified_state_without_licences_def from_state_fst)
  then have "vs_licenses v = derive_licences (VerifiedSignatures (ic_signatures config))"
    using assms(5) by (auto simp: verified_inputs_iff)
  then show ?thesis
    using fg v published_valid [OF assms(1,2,4)] by (simp add: index_keeps_def Let_def)
qed

text \<open>Everything listed was verified.\<close>

lemma from_gossip_verified:
  assumes "from_gossip env k_v = Inr d"
  shows "\<exists>pk. key_of_hex env (backend_verifying_key env) = Some pk
    \<and> 1 \<le> length (vn_signatures d) \<and> length (vn_signatures d) \<le> MAX_ALLOWED_LICENSES
    \<and> distinct (map ls_license_id (vn_signatures d))
    \<and> (\<forall>sig \<in> set (vn_signatures d).
         signatures_valid env pk (vn_pubkey d) (vn_bls_key d) sig)"
  using assms by (auto simp: from_gossip_def checked_then_Inr verified_signatures_create_iff)

text \<open>The export keeps delegations that are reported as revoked.\<close>

lemma export_keeps_revoked:
  assumes "d \<in> set st" "sig \<in> set (vn_signatures d)"
  shows "\<exists>v \<in> set (fst (from_state st)). vs_pubkey v = vn_pubkey d \<and> sig \<in> set (vs_signatures v)"
  using assms by (force simp: from_state_fst)

end
