(* ===== verification/Quic_Types.thy ===== *)
theory Quic_Types
  imports Prelude
begin

text \<open>
  Types the asynchronous QUIC binding (\<open>transport-layer/src/msquic/msquic_async/\<close>) shares: the
  result of polling a future, the wakers of the waiting tasks, the errors of streams and
  connections, and the calls an operation makes on the QUIC library. The library itself
  (the \<open>msquic\<close> crate) is not part of the repository: what one of its calls returns is an argument
  of the operation that makes it, and what a call is given is an effect of the operation.
\<close>

section \<open>Polling\<close>

datatype 'a poll = Pending | Ready 'a

fun map_poll :: "('a \<Rightarrow> 'b) \<Rightarrow> 'a poll \<Rightarrow> 'b poll" where
  "map_poll f Pending = Pending"
| "map_poll f (Ready x) = Ready (f x)"

text \<open>A task is known to the code by its waker only.\<close>

type_synonym waker = nat

section \<open>Status values and errors\<close>

text \<open>
  \<open>msquic::Status\<close>, as far as the code tells statuses apart: success, the codes it names,
  any other code of the library's enumeration, and a number outside the enumeration, for
  which \<open>try_as_status_code\<close> fails.
\<close>

datatype status =
    StatusOk
  | StreamLimitReached
  | Aborted
  | InvalidState
  | StatusPending
  | OtherCode nat
  | UnknownCode nat

definition status_is_ok :: "status \<Rightarrow> bool" where
  "status_is_ok s = (s = StatusOk)"

datatype connection_error =
    ShutdownByTransport status u64
  | ShutdownByPeer u64
  | ShutdownByLocal
  | ConnectionClosed
  | ConnectionOtherError status

datatype start_error =
    StartConnectionNotStarted
  | StartLimitReached
  | StartConnectionLost connection_error
  | StartOtherError status

datatype read_error =
    ReadClosed
  | ReadReset u64
  | ReadConnectionLost connection_error
  | ReadOtherError status

datatype write_error =
    WriteClosed
  | WriteFinished
  | WriteStopped u64
  | WriteConnectionLost connection_error
  | WriteOtherError status

datatype stream_type = Bidirectional | Unidirectional

section \<open>Calls on the library, and wake-ups\<close>

datatype shutdown_flag = Graceful | AbortSend | AbortReceive

datatype effect =
    StreamOpen stream_type
  | StreamStart bool
  | StreamSend "u8 list list" bool
  | StreamShutdown shutdown_flag u64
  | ReceiveComplete nat
  | ConnectionStart
  | ConnectionShutdown u64
  | DatagramSend "u8 list"
  | SetCallback
  | ListenerOpen
  | ListenerStart
  | ListenerStop
  | SetConfiguration
  | Wake waker

definition wakes :: "effect list \<Rightarrow> waker list" where
  "wakes es = concat (map (\<lambda>e. case e of Wake w \<Rightarrow> [w] | _ \<Rightarrow> []) es)"

definition completed_len :: "effect list \<Rightarrow> nat" where
  "completed_len es = sum_list (map (\<lambda>e. case e of ReceiveComplete n \<Rightarrow> n | _ \<Rightarrow> 0) es)"

lemma wakes_simps [simp]:
  "wakes [] = []" "wakes (xs @ ys) = wakes xs @ wakes ys" "wakes (Wake w # es) = w # wakes es"
  "wakes (map Wake ws) = ws" "wakes (ReceiveComplete n # es) = wakes es"
  "wakes (StreamShutdown flag code # es) = wakes es"
  by (induction ws) (simp_all add: wakes_def)

lemma completed_len_simps [simp]:
  "completed_len [] = 0" "completed_len (xs @ ys) = completed_len xs + completed_len ys"
  "completed_len (map Wake ws) = 0"
  "completed_len (ReceiveComplete n # es) = n + completed_len es"
  "completed_len (StreamShutdown flag code # es) = completed_len es"
  by (induction ws) (simp_all add: completed_len_def)

end
