(* ===== verification/Quic_Buffer.thy ===== *)
theory Quic_Buffer
  imports Prelude
begin

text \<open>
  The receive and send buffers of a QUIC stream (\<open>transport-layer/src/msquic/msquic_async/buffer.rs\<close>).
  A \<open>QUIC_BUFFER\<close> (pointer and 32-bit length into memory owned by the QUIC library) is its byte
  string; \<open>rb_wf\<close> bounds the total length by 32 bits, as the code's sum of the lengths is a \<open>u32\<close>.
  The contents of a receive buffer that are still to be read are the byte string \<open>rb_rest\<close>, against
  which every operation is proved.
\<close>

section \<open>StreamRecvBuffer\<close>

record recv_buffer =
  rb_stream :: bool
  rb_buffers :: "u8 list list"
  rb_offset :: nat
  rb_total :: nat
  rb_cursor :: nat
  rb_cursor_in :: nat
  rb_fin :: bool

definition sum_lengths_u32 :: "u8 list list \<Rightarrow> nat" where
  "sum_lengths_u32 bs = unat (sum_list (map (\<lambda>b. of_nat (length b)) bs) :: u32)"

definition recv_buffer_new :: "nat \<Rightarrow> u8 list list \<Rightarrow> bool \<Rightarrow> recv_buffer" where
  "recv_buffer_new offset bs fin =
     \<lparr>rb_stream = False, rb_buffers = bs, rb_offset = offset, rb_total = sum_lengths_u32 bs,
      rb_cursor = 0, rb_cursor_in = 0, rb_fin = fin\<rparr>"

definition set_stream :: "recv_buffer \<Rightarrow> recv_buffer" where
  "set_stream b = b\<lparr>rb_stream := True\<rparr>"

definition recv_buffer_len :: "recv_buffer \<Rightarrow> nat" where
  "recv_buffer_len b =
     (if length (rb_buffers b) \<le> rb_cursor b then 0
      else usize_sub
             (usize_sub (rb_total b) (sum_lengths_u32 (take (rb_cursor b) (rb_buffers b))))
             (rb_cursor_in b))"

definition recv_buffer_is_empty :: "recv_buffer \<Rightarrow> bool" where
  "recv_buffer_is_empty b = (recv_buffer_len b = 0)"

definition as_slice_upto_size :: "recv_buffer \<Rightarrow> nat \<Rightarrow> u8 list result" where
  "as_slice_upto_size b n =
     (if length (rb_buffers b) \<le> rb_cursor b then Ok []
      else if \<not> rb_cursor b \<le> length (rb_buffers b) then Panic AssertionFailed
      else let buffer = rb_buffers b ! rb_cursor b in
        if \<not> rb_cursor_in b \<le> length buffer then Panic AssertionFailed
        else let len = min (length buffer - rb_cursor_in b) n in
          Ok (take len (drop (rb_cursor_in b) buffer)))"

definition get_bytes_upto_size :: "recv_buffer \<Rightarrow> nat \<Rightarrow> (u8 list option \<times> recv_buffer) result" where
  "get_bytes_upto_size b n =
     (if length (rb_buffers b) \<le> rb_cursor b then Ok (None, b)
      else if \<not> rb_cursor b \<le> length (rb_buffers b) then Panic AssertionFailed
      else let buffer = rb_buffers b ! rb_cursor b in
        if \<not> rb_cursor_in b \<le> length buffer then Panic AssertionFailed
        else let len = min (length buffer - rb_cursor_in b) n;
                 taken = take len (drop (rb_cursor_in b) buffer);
                 b' = b\<lparr>rb_cursor_in := rb_cursor_in b + len\<rparr> in
          Ok (Some taken,
              if length buffer \<le> rb_cursor_in b'
              then b'\<lparr>rb_cursor := rb_cursor b' + 1, rb_cursor_in := 0\<rparr> else b'))"

definition recv_buffer_range :: "recv_buffer \<Rightarrow> nat \<times> nat" where
  "recv_buffer_range b = (rb_offset b, rb_offset b + rb_total b)"

text \<open>\<open>Buf::advance\<close>: the loop over the buffers from the read cursor on.\<close>

fun advance_loop :: "u8 list list \<Rightarrow> nat \<Rightarrow> recv_buffer \<Rightarrow> recv_buffer" where
  "advance_loop [] count b = b"
| "advance_loop (buffer # bs) count b =
     (if count = 0 then b
      else let remaining = usize_sub (length buffer) (rb_cursor_in b) in
        if count < remaining then b\<lparr>rb_cursor_in := rb_cursor_in b + count\<rparr>
        else advance_loop bs (count - remaining)
               (b\<lparr>rb_cursor := rb_cursor b + 1, rb_cursor_in := 0\<rparr>))"

definition advance :: "nat \<Rightarrow> recv_buffer \<Rightarrow> recv_buffer result" where
  "advance count b =
     (if \<not> (count = 0 \<or> count \<le> recv_buffer_len b) then Panic AssertionFailed
      else if length (rb_buffers b) < rb_cursor b then Panic SliceOutOfRange
      else Ok (advance_loop (drop (rb_cursor b) (rb_buffers b)) count b))"

definition chunk :: "recv_buffer \<Rightarrow> u8 list result" where
  "chunk b = as_slice_upto_size b (recv_buffer_len b)"

text \<open>\<open>Buf::chunks_vectored\<close> into \<open>n\<close> slots: the slices it writes, in order.\<close>

fun vectored_loop :: "u8 list list \<Rightarrow> nat \<Rightarrow> nat \<Rightarrow> u8 list list" where
  "vectored_loop [] n skip = []"
| "vectored_loop (buffer # bs) n skip =
     (if n = 0 then [] else drop skip buffer # vectored_loop bs (n - 1) 0)"

definition chunks_vectored :: "recv_buffer \<Rightarrow> nat \<Rightarrow> u8 list list result" where
  "chunks_vectored b n =
     (if length (rb_buffers b) < rb_cursor b then Panic SliceOutOfRange
      else Ok (vectored_loop (drop (rb_cursor b) (rb_buffers b)) n (rb_cursor_in b)))"

section \<open>WriteBuffer\<close>

text \<open>
  The pointers of \<open>buffers\<close> refer to the other two fields; here they are the byte strings they
  point to when \<open>get_buffers\<close> takes them.
\<close>

record write_buffer =
  wb_internal :: "u8 list"
  wb_zerocopy :: "u8 list list"
  wb_buffers :: "u8 list list"

definition write_buffer_new :: write_buffer where
  "write_buffer_new = \<lparr>wb_internal = [], wb_zerocopy = [], wb_buffers = []\<rparr>"

definition put_zerocopy :: "u8 list \<Rightarrow> write_buffer \<Rightarrow> nat \<times> write_buffer" where
  "put_zerocopy buf w = (length buf, w\<lparr>wb_zerocopy := wb_zerocopy w @ [buf]\<rparr>)"

definition put_slice :: "u8 list \<Rightarrow> write_buffer \<Rightarrow> nat \<times> write_buffer" where
  "put_slice bytes w = (length bytes, w\<lparr>wb_internal := wb_internal w @ bytes\<rparr>)"

definition get_buffers :: "write_buffer \<Rightarrow> u8 list list \<times> write_buffer" where
  "get_buffers w =
     (let w' = w\<lparr>wb_buffers := wb_buffers w @
                  (if wb_zerocopy w \<noteq> [] then wb_zerocopy w else [wb_internal w])\<rparr>
      in (wb_buffers w', w'))"

definition write_buffer_reset :: "write_buffer \<Rightarrow> write_buffer" where
  "write_buffer_reset w = w\<lparr>wb_internal := [], wb_zerocopy := [], wb_buffers := []\<rparr>"

lemma write_buffer_reset_eq [simp]: "write_buffer_reset w = write_buffer_new"
  by (simp add: write_buffer_reset_def write_buffer_new_def)

section \<open>The bytes still to be read\<close>

definition rb_rest :: "recv_buffer \<Rightarrow> u8 list" where
  "rb_rest b = drop (rb_cursor_in b) (concat (drop (rb_cursor b) (rb_buffers b)))"

definition contents :: "recv_buffer \<Rightarrow> u8 list" where
  "contents b = concat (rb_buffers b)"

text \<open>The read position lies in the buffer it names, and the lengths fit in 32 bits.\<close>

definition rb_wf :: "recv_buffer \<Rightarrow> bool" where
  "rb_wf b = (rb_cursor b \<le> length (rb_buffers b)
     \<and> (if rb_cursor b < length (rb_buffers b)
        then rb_cursor_in b \<le> length (rb_buffers b ! rb_cursor b) else rb_cursor_in b = 0)
     \<and> rb_total b = length (contents b) \<and> length (contents b) < 2 ^ 32)"

lemma sum_lengths_u32_eq:
  assumes "length (concat bs) < 2 ^ 32"
  shows "sum_lengths_u32 bs = length (concat bs)"
proof -
  have eq: "sum_list (map (\<lambda>b. of_nat (length b)) bs) = (of_nat (length (concat bs)) :: u32)"
    by (induction bs) auto
  show ?thesis
    using assms unfolding sum_lengths_u32_def eq by (simp add: unat_of_nat)
qed

lemma contents_rest:
  assumes "rb_wf b"
  obtains pre where "contents b = pre @ rb_rest b"
proof
  show "contents b = (concat (take (rb_cursor b) (rb_buffers b)) @
      take (rb_cursor_in b) (concat (drop (rb_cursor b) (rb_buffers b)))) @ rb_rest b"
    by (simp add: contents_def rb_rest_def flip: concat_append)
qed

lemma rest_at:
  assumes "rb_wf b" "rb_cursor b < length (rb_buffers b)"
  shows "rb_rest b = drop (rb_cursor_in b) (rb_buffers b ! rb_cursor b)
    @ concat (drop (Suc (rb_cursor b)) (rb_buffers b))"
  using assms by (simp add: rb_rest_def rb_wf_def flip: Cons_nth_drop_Suc)

lemma rest_end: "length (rb_buffers b) \<le> rb_cursor b \<Longrightarrow> rb_rest b = []"
  by (simp add: rb_rest_def)

lemma recv_buffer_len_eq:
  assumes "rb_wf b"
  shows "recv_buffer_len b = length (rb_rest b)"
proof (cases "rb_cursor b < length (rb_buffers b)")
  case True
  let ?pre = "concat (take (rb_cursor b) (rb_buffers b))"
  let ?post = "concat (drop (rb_cursor b) (rb_buffers b))"
  have split: "contents b = ?pre @ ?post"
    by (simp add: contents_def flip: concat_append)
  then have len: "length (contents b) = length ?pre + length ?post"
    by (simp del: concat_append)
  moreover have "length (contents b) < 2 ^ 32"
    using assms by (simp add: rb_wf_def)
  ultimately have pre: "sum_lengths_u32 (take (rb_cursor b) (rb_buffers b)) = length ?pre"
    by (intro sum_lengths_u32_eq) simp
  have "rb_cursor_in b \<le> length ?post"
    using assms True by (simp add: rb_wf_def flip: Cons_nth_drop_Suc)
  then show ?thesis
    using assms True len pre
    by (simp add: recv_buffer_len_def rb_rest_def usize_sub_def rb_wf_def)
next
  case False
  then show ?thesis
    by (simp add: recv_buffer_len_def rest_end)
qed

lemma recv_buffer_new_wf:
  assumes "length (concat bs) < 2 ^ 32"
  shows "rb_wf (recv_buffer_new off bs fin)" "rb_rest (recv_buffer_new off bs fin) = concat bs"
  using assms
  by (auto simp: rb_wf_def recv_buffer_new_def rb_rest_def contents_def sum_lengths_u32_eq)

lemma set_stream_simps [simp]:
  "rb_rest (set_stream b) = rb_rest b" "contents (set_stream b) = contents b"
  "rb_wf (set_stream b) = rb_wf b" "rb_fin (set_stream b) = rb_fin b"
  "rb_offset (set_stream b) = rb_offset b" "rb_total (set_stream b) = rb_total b"
  "rb_buffers (set_stream b) = rb_buffers b" "rb_cursor (set_stream b) = rb_cursor b"
  "rb_stream (set_stream b)"
  by (simp_all add: set_stream_def rb_rest_def contents_def rb_wf_def)

section \<open>The operations on the bytes still to be read\<close>

text \<open>
  \<open>get_bytes_upto_size\<close> never trips its assertion: it returns \<open>None\<close> when every buffer is read,
  and otherwise splits off at most \<open>n\<close> of the bytes still to be read. It returns no bytes only
  when none are asked for or the current buffer is empty.
\<close>

lemma get_bytes_None:
  assumes "rb_wf b" "rb_cursor b = length (rb_buffers b)"
  shows "get_bytes_upto_size b n = Ok (None, b)"
  using assms by (simp add: get_bytes_upto_size_def)

lemma get_bytes_Some:
  assumes "rb_wf b" "rb_cursor b \<noteq> length (rb_buffers b)"
  obtains s b' where "get_bytes_upto_size b n = Ok (Some s, b')" "rb_wf b'"
    "rb_rest b = s @ rb_rest b'" "length s \<le> n" "contents b' = contents b"
    "rb_offset b' = rb_offset b" "rb_fin b' = rb_fin b" "rb_total b' = rb_total b"
    "rb_stream b' = rb_stream b" "rb_buffers b' = rb_buffers b"
    "n > 0 \<longrightarrow> length s < n \<longrightarrow> rb_cursor b' = Suc (rb_cursor b)"
    "s = [] \<and> n > 0 \<longrightarrow> rb_buffers b ! rb_cursor b = []
       \<or> rb_cursor_in b = length (rb_buffers b ! rb_cursor b)"
proof -
  let ?c = "rb_buffers b ! rb_cursor b"
  let ?len = "min (length ?c - rb_cursor_in b) n"
  let ?s = "take ?len (drop (rb_cursor_in b) ?c)"
  let ?b = "if length ?c \<le> rb_cursor_in b + ?len
    then b\<lparr>rb_cursor := rb_cursor b + 1, rb_cursor_in := 0\<rparr>
    else b\<lparr>rb_cursor_in := rb_cursor_in b + ?len\<rparr>"
  have lt: "rb_cursor b < length (rb_buffers b)" and ci: "rb_cursor_in b \<le> length ?c"
    using assms by (auto simp: rb_wf_def split: if_splits)
  have wf: "rb_wf ?b"
    using assms lt ci by (auto simp: rb_wf_def contents_def)
  have "rb_rest b = ?s @ rb_rest ?b"
  proof (cases "length ?c \<le> rb_cursor_in b + ?len")
    case True
    then have "?s = drop (rb_cursor_in b) ?c"
      by simp
    moreover have "rb_rest ?b = concat (drop (Suc (rb_cursor b)) (rb_buffers b))"
      using True by (simp add: rb_rest_def)
    ultimately show ?thesis
      using rest_at [OF assms(1) lt] by simp
  next
    case False
    let ?b' = "b\<lparr>rb_cursor_in := rb_cursor_in b + ?len\<rparr>"
    have eq: "?b = ?b'"
      using False by (rule if_not_P)
    have "rb_rest ?b' = drop (rb_cursor_in b + ?len) ?c
        @ concat (drop (Suc (rb_cursor b)) (rb_buffers b))"
      using rest_at [of ?b'] wf lt unfolding eq by simp
    then have "rb_rest ?b = drop (rb_cursor_in b + ?len) ?c
        @ concat (drop (Suc (rb_cursor b)) (rb_buffers b))"
      unfolding eq .
    moreover have "drop (rb_cursor_in b) ?c = ?s @ drop (rb_cursor_in b + ?len) ?c"
      using append_take_drop_id [of ?len "drop (rb_cursor_in b) ?c"]
      unfolding drop_drop by (simp only: add.commute)
    ultimately show ?thesis
      using rest_at [OF assms(1) lt] by simp
  qed
  moreover have "get_bytes_upto_size b n = Ok (Some ?s, ?b)"
    using lt ci by (simp add: get_bytes_upto_size_def Let_def)
  moreover have "length ?s = ?len"
    using ci by simp
  ultimately show ?thesis
    using ci wf by (intro that [of ?s ?b]) (simp_all add: contents_def min_def split: if_splits)
qed

lemma as_slice_prefix:
  assumes "rb_wf b"
  obtains s t where "as_slice_upto_size b n = Ok s" "rb_rest b = s @ t" "length s \<le> n"
proof (cases "rb_cursor b < length (rb_buffers b)")
  case True
  let ?c = "drop (rb_cursor_in b) (rb_buffers b ! rb_cursor b)"
  let ?len = "min (length ?c) n"
  have "as_slice_upto_size b n = Ok (take ?len ?c)"
    using assms True by (simp add: as_slice_upto_size_def rb_wf_def Let_def)
  moreover have "rb_rest b = take ?len ?c @ (drop ?len ?c
      @ concat (drop (Suc (rb_cursor b)) (rb_buffers b)))"
    unfolding append_assoc [symmetric] append_take_drop_id by (rule rest_at [OF assms True])
  ultimately show ?thesis
    by (intro that [of "take ?len ?c"]) auto
next
  case False
  then show ?thesis
    by (intro that [of "[]" "rb_rest b"]) (auto simp: as_slice_upto_size_def)
qed

lemma advance_loop_correct:
  assumes "rb_wf b" "bs = drop (rb_cursor b) (rb_buffers b)" "count \<le> length (rb_rest b)"
  shows "rb_wf (advance_loop bs count b) \<and> rb_rest (advance_loop bs count b) = drop count (rb_rest b)"
  using assms
proof (induction bs count b rule: advance_loop.induct)
  case (1 count b)
  then show ?case
    by (simp add: rb_rest_def)
next
  case (2 buffer bs count b)
  have lt: "rb_cursor b < length (rb_buffers b)"
    using "2.prems"(2) by (metis drop_all leI list.distinct(1))
  have buf: "buffer = rb_buffers b ! rb_cursor b" "bs = drop (Suc (rb_cursor b)) (rb_buffers b)"
    using "2.prems"(2) lt by (simp_all flip: Cons_nth_drop_Suc)
  have ci: "rb_cursor_in b \<le> length buffer"
    using "2.prems"(1) lt buf by (simp add: rb_wf_def)
  have rest: "rb_rest b = drop (rb_cursor_in b) buffer @ concat bs"
    using rest_at [OF "2.prems"(1) lt] buf by simp
  let ?rem = "length buffer - rb_cursor_in b"
  let ?b1 = "b\<lparr>rb_cursor_in := rb_cursor_in b + count\<rparr>"
  let ?b2 = "b\<lparr>rb_cursor := rb_cursor b + 1, rb_cursor_in := 0\<rparr>"
  have sub: "usize_sub (length buffer) (rb_cursor_in b) = ?rem"
    using ci by (simp add: usize_sub_def)
  consider "count = 0" | "count \<noteq> 0" "count < ?rem" | "count \<noteq> 0" "?rem \<le> count"
    by linarith
  then show ?case
  proof cases
    case 1
    then show ?thesis
      using "2.prems"(1) by simp
  next
    case 2
    have wf: "rb_wf ?b1"
      using "2.prems"(1) 2 lt buf by (simp add: rb_wf_def contents_def)
    have "rb_rest ?b1 = drop (rb_cursor_in b + count) buffer @ concat bs"
      using rest_at [OF wf] lt buf by simp
    also have "\<dots> = drop count (rb_rest b)"
      using 2 rest by (simp add: add.commute)
    finally show ?thesis
      using 2 wf sub by simp
  next
    case 3
    have wf: "rb_wf ?b2"
      using "2.prems"(1) lt by (simp add: rb_wf_def contents_def)
    have r2: "rb_rest ?b2 = concat bs"
      using buf by (simp add: rb_rest_def)
    then have "count - ?rem \<le> length (rb_rest ?b2)"
      using "2.prems"(3) rest by simp
    then have "rb_wf (advance_loop bs (count - ?rem) ?b2)
        \<and> rb_rest (advance_loop bs (count - ?rem) ?b2) = drop (count - ?rem) (rb_rest ?b2)"
      using "2.IH" [of ?rem] 3 wf buf sub by simp
    moreover have "drop count (rb_rest b) = drop (count - ?rem) (rb_rest ?b2)"
      using 3 rest r2 by simp
    ultimately show ?thesis
      using 3 sub by simp
  qed
qed

lemma advance_correct:
  assumes "rb_wf b"
  shows "if count \<le> length (rb_rest b)
    then \<exists>b'. advance count b = Ok b' \<and> rb_wf b' \<and> rb_rest b' = drop count (rb_rest b)
    else advance count b = Panic AssertionFailed"
  using assms advance_loop_correct [OF assms refl, of count]
  by (auto simp: advance_def recv_buffer_len_eq rb_wf_def)

lemma vectored_loop_concat:
  assumes "length bs \<le> n"
  shows "concat (vectored_loop bs n skip) = drop (min skip (length (concat (take 1 bs)))) (concat bs)"
proof (cases bs)
  case (Cons c cs)
  have tail: "concat (vectored_loop xs m 0) = concat xs" if "length xs \<le> m" for xs m
    using that by (induction xs m "0 :: nat" rule: vectored_loop.induct) auto
  then show ?thesis
    using Cons assms tail [of cs "n - 1"] by (simp add: min_def)
qed simp

lemma chunks_vectored_correct:
  assumes "rb_wf b" "length (rb_buffers b) \<le> n"
  obtains bs where "chunks_vectored b n = Ok bs" "concat bs = rb_rest b"
proof -
  have "rb_cursor_in b \<le> length (concat (take 1 (drop (rb_cursor b) (rb_buffers b))))"
    using assms(1) by (auto simp: rb_wf_def take_Suc hd_drop_conv_nth split: if_splits)
  then show ?thesis
    using assms vectored_loop_concat [of "drop (rb_cursor b) (rb_buffers b)" n "rb_cursor_in b"]
    by (intro that) (auto simp: chunks_vectored_def rb_wf_def rb_rest_def min_def)
qed

text \<open>
  \<open>Buf::chunk\<close> promises a non-empty slice while bytes remain. An empty buffer in the middle
  of the list breaks the promise: the generic readers of the \<open>bytes\<close> crate would not progress.
\<close>

lemma chunk_empty_while_remaining:
  assumes "rb_wf b" "rb_cursor b < length (rb_buffers b)" "rb_buffers b ! rb_cursor b = []"
    "rb_rest b \<noteq> []"
  shows "chunk b = Ok []" "recv_buffer_len b > 0"
  using assms by (auto simp: chunk_def as_slice_upto_size_def recv_buffer_len_eq rb_wf_def)

lemma chunk_nonempty:
  assumes "rb_wf b" "rb_rest b \<noteq> []" "rb_cursor_in b < length (rb_buffers b ! rb_cursor b)"
  shows "\<exists>s. chunk b = Ok s \<and> s \<noteq> []"
proof -
  have lt: "rb_cursor b < length (rb_buffers b)"
    using assms(2) rest_end not_le by blast
  then show ?thesis
    using assms rest_at [OF assms(1) lt]
    by (auto simp: chunk_def as_slice_upto_size_def recv_buffer_len_eq)
qed

section \<open>The bytes a write buffer sends\<close>

text \<open>
  From a fresh or recycled buffer, either one slice or any number of zero-copy chunks are put in;
  the buffers handed to the library then hold exactly those bytes.
\<close>

lemma get_buffers_slice:
  "fst (get_buffers (snd (put_slice bs write_buffer_new))) = [bs]"
  by (simp add: get_buffers_def put_slice_def write_buffer_new_def)

lemma get_buffers_zerocopy:
  assumes "cs \<noteq> []"
  shows "fst (get_buffers (fold (\<lambda>c w. snd (put_zerocopy c w)) cs write_buffer_new)) = cs"
proof -
  have "fold (\<lambda>c w. snd (put_zerocopy c w)) cs w = w\<lparr>wb_zerocopy := wb_zerocopy w @ cs\<rparr>" for w
    by (induction cs arbitrary: w) (simp_all add: put_zerocopy_def)
  then show ?thesis
    using assms by (simp add: get_buffers_def write_buffer_new_def)
qed

end
