(* ===== verification/Quic_Stream.thy ===== *)
theory Quic_Stream
  imports Quic_Types Quic_Buffer
begin

text \<open>
  A QUIC stream of the asynchronous binding (\<open>transport-layer/src/msquic/msquic_async/stream.rs\<close>):
  its state under the lock, the operations a task polls, and the handlers of the library's events.
  Every operation takes the lock once (the reads take it again for each buffer they complete) and
  is a function from the state to its result, the new state and the effects in order: calls on
  the library and wake-ups. The argument \<open>ret\<close> is what the one library call of the operation
  returns (\<open>None\<close> for success). The set of completed byte ranges is a \<open>RangeSet\<close> of the \<open>rangemap\<close>
  crate, given by the operations the code uses.
\<close>

section \<open>State\<close>

datatype stream_state = StOpen | StStart | StStartComplete | StShutdownComplete

datatype recv_state = RecvClosed | RecvStart | RecvStartComplete | RecvShutdown | RecvShutdownComplete

datatype send_state = SendClosed | SendStart | SendStartComplete | SendShutdown | SendShutdownComplete

record 'rs range_set_ops =
  rs_new :: 'rs
  rs_insert :: "nat \<times> nat \<Rightarrow> 'rs \<Rightarrow> 'rs"
  rs_first :: "'rs \<Rightarrow> (nat \<times> nat) option"

record 'rs stream =
  st_state :: stream_state
  st_start_status :: "status option"
  st_recv_state :: recv_state
  st_recv_buffers :: "recv_buffer list"
  st_recv_len :: nat
  st_complete_map :: 'rs
  st_complete_cursor :: nat
  st_send_state :: send_state
  st_write_pool :: "write_buffer list"
  st_recv_error_code :: "u64 option"
  st_send_error_code :: "u64 option"
  st_conn_error :: "connection_error option"
  st_start_waiters :: "waker list"
  st_read_waiters :: "waker list"
  st_write_shutdown_waiters :: "waker list"
  st_stream_type :: stream_type
  st_local_open :: bool
  st_id :: "u64 option"

definition stream_inner_new ::
  "'rs range_set_ops \<Rightarrow> stream_type \<Rightarrow> send_state \<Rightarrow> recv_state \<Rightarrow> bool \<Rightarrow> 'rs stream" where
  "stream_inner_new ops ty send recv local =
     \<lparr>st_state = StOpen, st_start_status = None, st_recv_state = recv, st_recv_buffers = [],
      st_recv_len = 0, st_complete_map = rs_new ops, st_complete_cursor = 0, st_send_state = send,
      st_write_pool = [], st_recv_error_code = None, st_send_error_code = None,
      st_conn_error = None, st_start_waiters = [], st_read_waiters = [],
      st_write_shutdown_waiters = [], st_stream_type = ty, st_local_open = local, st_id = None\<rparr>"

definition stream_open ::
  "'rs range_set_ops \<Rightarrow> stream_type \<Rightarrow> status option \<Rightarrow> (start_error + 'rs stream) \<times> effect list" where
  "stream_open ops ty ret =
     (case ret of
        Some s \<Rightarrow> (Inl (StartOtherError s), [StreamOpen ty])
      | None \<Rightarrow> (Inr (stream_inner_new ops ty SendClosed RecvClosed True), [StreamOpen ty]))"

definition stream_from_raw :: "'rs range_set_ops \<Rightarrow> stream_type \<Rightarrow> 'rs stream \<times> effect list" where
  "stream_from_raw ops ty =
     (stream_inner_new ops ty
        (if ty = Bidirectional then SendStartComplete else SendClosed) RecvStartComplete False,
      [SetCallback])"

text \<open>\<open>split\<close>: which halves of the stream exist, reading first.\<close>

definition stream_split :: "'rs stream \<Rightarrow> bool \<times> bool" where
  "stream_split st =
     (case (st_stream_type st, st_local_open st) of
        (Unidirectional, True) \<Rightarrow> (False, True)
      | (Unidirectional, False) \<Rightarrow> (True, False)
      | (Bidirectional, _) \<Rightarrow> (True, True))"

text \<open>\<open>id\<close>: the stored identifier, or the one the library reports (\<open>param\<close>), which is then stored.\<close>

definition stream_instance_id :: "u64 option \<Rightarrow> 'rs stream \<Rightarrow> u64 option \<times> 'rs stream" where
  "stream_instance_id param st =
     (case st_id st of
        Some i \<Rightarrow> (Some i, st)
      | None \<Rightarrow> (case param of
                   Some i \<Rightarrow> (Some i, st\<lparr>st_id := Some i\<rparr>)
                 | None \<Rightarrow> (None, st)))"

section \<open>Starting\<close>

definition start_outcome :: "'rs stream \<Rightarrow> (start_error + unit) result" where
  "start_outcome st =
     (case st_start_status st of
        None \<Rightarrow> Ok (Inr ())
      | Some s \<Rightarrow>
          if status_is_ok s then Ok (Inr ())
          else case s of
            UnknownCode _ \<Rightarrow> Panic UnwrapFailed
          | StreamLimitReached \<Rightarrow> Ok (Inl StartLimitReached)
          | Aborted \<Rightarrow> (case st_conn_error st of
              None \<Rightarrow> Panic UnwrapFailed | Some e \<Rightarrow> Ok (Inl (StartConnectionLost e)))
          | InvalidState \<Rightarrow> (case st_conn_error st of
              None \<Rightarrow> Panic UnwrapFailed | Some e \<Rightarrow> Ok (Inl (StartConnectionLost e)))
          | _ \<Rightarrow> Ok (Inl (StartOtherError s)))"

definition stream_poll_start ::
  "waker \<Rightarrow> bool \<Rightarrow> status option \<Rightarrow> 'rs stream \<Rightarrow>
     ((start_error + unit) poll \<times> 'rs stream \<times> effect list) result" where
  "stream_poll_start w failed_on_block ret st =
     (case st_state st of
        StOpen \<Rightarrow>
          (case ret of
             Some s \<Rightarrow> Ok (Ready (Inl (StartOtherError s)), st, [StreamStart failed_on_block])
           | None \<Rightarrow>
               Ok (Pending,
                   st\<lparr>st_state := StStart,
                      st_recv_state := (if st_stream_type st = Bidirectional then RecvStart
                                        else st_recv_state st),
                      st_send_state := SendStart,
                      st_start_waiters := st_start_waiters st @ [w]\<rparr>,
                   [StreamStart failed_on_block]))
      | StStart \<Rightarrow> Ok (Pending, st\<lparr>st_start_waiters := st_start_waiters st @ [w]\<rparr>, [])
      | _ \<Rightarrow> and_then (start_outcome st) (\<lambda>r. Ok (Ready r, st, [])))"

section \<open>Reading\<close>

datatype 'a read_status = Readable 'a | ReadFinished "'a option" | ReadBlocked "'a option"

definition read_status_from :: "'a option \<times> bool \<Rightarrow> 'a read_status" where
  "read_status_from r = (case r of (read, True) \<Rightarrow> ReadFinished read | (read, False) \<Rightarrow> ReadBlocked read)"

text \<open>
  \<open>poll_read_generic\<close>. The reading function takes the queue and returns its status, the queue
  left and the buffers to complete; those are completed after the lock is released.
\<close>

definition poll_read_generic ::
  "waker \<Rightarrow> (recv_buffer list \<Rightarrow> ('a read_status \<times> recv_buffer list \<times> recv_buffer list) result) \<Rightarrow>
     'rs stream \<Rightarrow> ((read_error + 'a option) poll \<times> 'rs stream \<times> recv_buffer list) result" where
  "poll_read_generic w read_fn st =
     (case st_recv_state st of
        RecvClosed \<Rightarrow> Ok (Ready (Inl ReadClosed), st, [])
      | RecvStart \<Rightarrow> Ok (Pending, st\<lparr>st_start_waiters := st_start_waiters st @ [w]\<rparr>, [])
      | RecvShutdown \<Rightarrow> Ok (Ready (Inr None), st, [])
      | RecvShutdownComplete \<Rightarrow>
          Ok (Ready (case st_conn_error st of
                       Some e \<Rightarrow> Inl (ReadConnectionLost e)
                     | None \<Rightarrow> (case st_recv_error_code st of
                                  Some c \<Rightarrow> Inl (ReadReset c)
                                | None \<Rightarrow> Inr None)), st, [])
      | RecvStartComplete \<Rightarrow>
          and_then (read_fn (st_recv_buffers st)) (\<lambda>(status, bufs, completed).
            let st' = st\<lparr>st_recv_buffers := bufs\<rparr> in
            case status of
              Readable r \<Rightarrow> Ok (Ready (Inr (Some r)), st', completed)
            | ReadBlocked (Some r) \<Rightarrow> Ok (Ready (Inr (Some r)), st', completed)
            | ReadFinished r \<Rightarrow> Ok (Ready (Inr r), st'\<lparr>st_recv_state := RecvShutdown\<rparr>, completed)
            | ReadBlocked None \<Rightarrow>
                Ok (Pending, st'\<lparr>st_read_waiters := st_read_waiters st @ [w]\<rparr>, completed)))"

text \<open>
  The loop of \<open>poll_read\<close> into a slice of \<open>cap\<close> bytes; \<open>acc\<close> is what it has written so far, so
  \<open>read\<close> is its length.
\<close>

definition unread_buffers :: "recv_buffer \<Rightarrow> nat" where
  "unread_buffers b = length (rb_buffers b) - rb_cursor b"

function read_loop ::
  "nat \<Rightarrow> recv_buffer list \<Rightarrow> u8 list \<Rightarrow> bool \<Rightarrow> recv_buffer list \<Rightarrow>
     (u8 list read_status \<times> recv_buffer list \<times> recv_buffer list) result" where
  "read_loop cap bufs acc fin completed =
     (if length acc = cap then Ok (Readable acc, bufs, completed)
      else case bufs of
        [] \<Rightarrow> Ok (read_status_from (if length acc > 0 then Some acc else None, fin), [], completed)
      | b # bs \<Rightarrow>
          (case get_bytes_upto_size b (usize_sub cap (length acc)) of
             Panic p \<Rightarrow> Panic p
           | Err e \<Rightarrow> Err e
           | Ok (Some s, b') \<Rightarrow>
               if length acc + length s \<le> cap
               then read_loop cap (b' # bs) (acc @ s) fin completed
               else Panic SliceOutOfRange
           | Ok (None, b') \<Rightarrow>
               read_loop cap bs acc (rb_fin b') (completed @ [set_stream b'])))"
  by pat_completeness auto

lemma get_bytes_progress:
  assumes "get_bytes_upto_size b n = Ok (Some s, b')" "n > 0"
  shows "s \<noteq> [] \<and> unread_buffers b' \<le> unread_buffers b \<or> unread_buffers b' < unread_buffers b"
proof -
  have lt: "rb_cursor b < length (rb_buffers b)"
    and ci: "rb_cursor_in b \<le> length (rb_buffers b ! rb_cursor b)"
    using assms(1) by (auto simp: get_bytes_upto_size_def Let_def split: if_splits)
  show ?thesis
  proof (cases "rb_cursor_in b = length (rb_buffers b ! rb_cursor b)")
    case True
    then show ?thesis
      using assms lt by (auto simp: get_bytes_upto_size_def Let_def unread_buffers_def)
  next
    case False
    then show ?thesis
      using assms lt ci by (auto simp: get_bytes_upto_size_def Let_def unread_buffers_def)
  qed
qed

termination read_loop
proof (relation "measure (\<lambda>(cap, bufs, acc, fin, completed).
    (cap - length acc) + length bufs + sum_list (map unread_buffers bufs))")
  fix cap :: nat and acc s :: "u8 list" and bufs bs completed :: "recv_buffer list"
    and fin :: bool and b b' :: recv_buffer and r os
  assume asms: "length acc \<noteq> cap" "bufs = b # bs"
    "get_bytes_upto_size b (usize_sub cap (length acc)) = Ok r" "(os, b') = r" "os = Some s"
    "length acc + length s \<le> cap"
  then have "usize_sub cap (length acc) > 0"
    by (simp add: usize_sub_def)
  with asms get_bytes_progress [of b "usize_sub cap (length acc)" s b']
  show "((cap, b' # bs, acc @ s, fin, completed), (cap, bufs, acc, fin, completed))
    \<in> measure (\<lambda>(cap, bufs, acc, fin, completed).
        (cap - length acc) + length bufs + sum_list (map unread_buffers bufs))"
    by (cases s) auto
qed auto

declare read_loop.simps [simp del]

text \<open>\<open>read_complete\<close>, which the drop of a buffer that has its stream set calls.\<close>

definition read_complete :: "'rs range_set_ops \<Rightarrow> recv_buffer \<Rightarrow> 'rs stream \<Rightarrow> 'rs stream \<times> effect list" where
  "read_complete ops b st =
     (let (start, stop) = recv_buffer_range b;
          m = (if start < stop then rs_insert ops (start, stop) (st_complete_map st)
               else st_complete_map st);
          st' = st\<lparr>st_complete_map := m\<rparr>
      in case rs_first ops m of
           Some (lo, hi) \<Rightarrow>
             if lo = 0 \<and> st_complete_cursor st < hi
             then (st'\<lparr>st_complete_cursor := hi\<rparr>, [ReceiveComplete (hi - st_complete_cursor st)])
             else if lo = 0 \<and> st_complete_cursor st = hi \<and> rb_offset b = hi
                     \<and> recv_buffer_is_empty b \<and> rb_fin b
             then (st', [ReceiveComplete 0])
             else (st', [])
         | None \<Rightarrow>
             if recv_buffer_is_empty b \<and> rb_fin b then (st', [ReceiveComplete 0]) else (st', []))"

definition drop_recv_buffer :: "'rs range_set_ops \<Rightarrow> recv_buffer \<Rightarrow> 'rs stream \<Rightarrow> 'rs stream \<times> effect list" where
  "drop_recv_buffer ops b st = (if rb_stream b then read_complete ops b st else (st, []))"

fun drop_recv_buffers ::
  "'rs range_set_ops \<Rightarrow> recv_buffer list \<Rightarrow> 'rs stream \<Rightarrow> 'rs stream \<times> effect list" where
  "drop_recv_buffers ops [] st = (st, [])"
| "drop_recv_buffers ops (b # bs) st =
     (let (st1, es1) = drop_recv_buffer ops b st; (st2, es2) = drop_recv_buffers ops bs st1
      in (st2, es1 @ es2))"

definition stream_poll_read ::
  "'rs range_set_ops \<Rightarrow> waker \<Rightarrow> nat \<Rightarrow> 'rs stream \<Rightarrow>
     ((read_error + u8 list) poll \<times> 'rs stream \<times> effect list) result" where
  "stream_poll_read ops w cap st =
     and_then (poll_read_generic w (\<lambda>bufs. read_loop cap bufs [] False []) st)
       (\<lambda>(r, st1, completed). let (st2, es) = drop_recv_buffers ops completed st1 in
          Ok (map_poll (map_sum id (\<lambda>x. case x of Some bs \<Rightarrow> bs | None \<Rightarrow> [])) r, st2, es))"

text \<open>\<open>poll_read_chunk\<close> hands the buffer itself to the task, which drops it later.\<close>

definition pop_chunk ::
  "recv_buffer list \<Rightarrow> (recv_buffer read_status \<times> recv_buffer list \<times> recv_buffer list) result" where
  "pop_chunk bufs =
     (case bufs of
        [] \<Rightarrow> Ok (read_status_from (None, False), [], [])
      | b # bs \<Rightarrow> Ok (read_status_from (Some (set_stream b), rb_fin b), bs, []))"

definition stream_poll_read_chunk ::
  "waker \<Rightarrow> 'rs stream \<Rightarrow> ((read_error + recv_buffer option) poll \<times> 'rs stream \<times> effect list) result" where
  "stream_poll_read_chunk w st =
     and_then (poll_read_generic w pop_chunk st) (\<lambda>(r, st1, _). Ok (r, st1, []))"

section \<open>Writing\<close>

datatype 'a write_status = Writable 'a | WriteStatusFinished "'a option" | WriteBlocked "'a option"

definition write_status_from :: "'a option \<times> bool \<Rightarrow> 'a write_status" where
  "write_status_from r =
     (case r of (n, True) \<Rightarrow> WriteStatusFinished n | (n, False) \<Rightarrow> WriteBlocked n)"

text \<open>\<open>write_pool.pop()\<close> takes the last buffer of the pool.\<close>

definition pool_pop :: "write_buffer list \<Rightarrow> write_buffer \<times> write_buffer list" where
  "pool_pop pool = (if pool = [] then (write_buffer_new, []) else (last pool, butlast pool))"

text \<open>
  \<open>poll_write_generic\<close>. The buffer becomes the library's when it is sent and comes back with the
  event \<open>SendComplete\<close>; when the call fails it is lost.
\<close>

definition poll_write_generic ::
  "waker \<Rightarrow> (write_buffer \<Rightarrow> 'a write_status \<times> write_buffer) \<Rightarrow> status option \<Rightarrow> 'rs stream \<Rightarrow>
     ((write_error + 'a option) poll \<times> 'rs stream \<times> effect list) result" where
  "poll_write_generic w write_fn ret st =
     (case st_send_state st of
        SendClosed \<Rightarrow> Ok (Ready (Inl WriteClosed), st, [])
      | SendStart \<Rightarrow> Ok (Pending, st\<lparr>st_start_waiters := st_start_waiters st @ [w]\<rparr>, [])
      | SendShutdown \<Rightarrow> Ok (Ready (Inl WriteFinished), st, [])
      | SendShutdownComplete \<Rightarrow>
          Ok (Ready (Inl (case st_conn_error st of
                Some e \<Rightarrow> WriteConnectionLost e
              | None \<Rightarrow> (case st_send_error_code st of
                           Some c \<Rightarrow> WriteStopped c
                         | None \<Rightarrow> WriteFinished))), st, [])
      | SendStartComplete \<Rightarrow>
          (let (wb, pool) = pool_pop (st_write_pool st);
               (status, wb1) = write_fn wb;
               (bufs, wb2) = get_buffers wb1;
               st' = st\<lparr>st_write_pool := pool\<rparr>;
               failed = (\<lambda>s. Ready (Inl (WriteOtherError s)))
           in case status of
                Writable n \<Rightarrow>
                  Ok (case ret of None \<Rightarrow> Ready (Inr (Some n)) | Some s \<Rightarrow> failed s, st',
                      [StreamSend bufs False])
              | WriteBlocked (Some n) \<Rightarrow>
                  Ok (case ret of None \<Rightarrow> Ready (Inr (Some n)) | Some s \<Rightarrow> failed s, st',
                      [StreamSend bufs False])
              | WriteBlocked None \<Rightarrow> Panic AssertionFailed
              | WriteStatusFinished n \<Rightarrow>
                  (case ret of
                     None \<Rightarrow> Ok (Ready (Inr n), st'\<lparr>st_send_state := SendShutdown\<rparr>,
                                 [StreamSend bufs True])
                   | Some s \<Rightarrow> Ok (failed s, st', [StreamSend bufs True]))))"

text \<open>The number of bytes put in is the length of what was given, so the blocked branch is not taken.\<close>

definition write_outcome :: "nat \<Rightarrow> nat \<Rightarrow> bool \<Rightarrow> nat write_status" where
  "write_outcome written total_len fin =
     (if written = total_len \<and> \<not> fin then Writable written else write_status_from (Some written, fin))"

definition unwrap_or_zero ::
  "((write_error + nat option) poll \<times> 'rs stream \<times> effect list) result \<Rightarrow>
     ((write_error + nat) poll \<times> 'rs stream \<times> effect list) result" where
  "unwrap_or_zero =
     map_result (\<lambda>(r, st, es). (map_poll (map_sum id (\<lambda>x. case x of Some n \<Rightarrow> n | None \<Rightarrow> 0)) r, st, es))"

definition stream_poll_write where
  "stream_poll_write w buf fin ret st =
     unwrap_or_zero (poll_write_generic w
       (\<lambda>wb. let (written, wb') = put_slice buf wb in (write_outcome written (length buf) fin, wb'))
       ret st)"

definition stream_poll_write_chunk where
  "stream_poll_write_chunk w buf fin ret st =
     unwrap_or_zero (poll_write_generic w
       (\<lambda>wb. let (written, wb') = put_zerocopy buf wb in (write_outcome written (length buf) fin, wb'))
       ret st)"

fun put_chunks :: "u8 list list \<Rightarrow> nat \<times> nat \<Rightarrow> write_buffer \<Rightarrow> (nat \<times> nat) \<times> write_buffer" where
  "put_chunks [] n wb = (n, wb)"
| "put_chunks (buf # bufs) (total_len, total_written) wb =
     (let (written, wb') = put_zerocopy buf wb
      in put_chunks bufs (total_len + length buf, total_written + written) wb')"

definition stream_poll_write_chunks where
  "stream_poll_write_chunks w bufs fin ret st =
     unwrap_or_zero (poll_write_generic w
       (\<lambda>wb. let ((total_len, total_written), wb') = put_chunks bufs (0, 0) wb
             in (write_outcome total_written total_len fin, wb'))
       ret st)"

section \<open>Finishing and aborting\<close>

definition write_shutdown_outcome :: "'rs stream \<Rightarrow> write_error + unit" where
  "write_shutdown_outcome st =
     (case st_conn_error st of
        Some e \<Rightarrow> Inl (WriteConnectionLost e)
      | None \<Rightarrow> (case st_send_error_code st of Some c \<Rightarrow> Inl (WriteStopped c) | None \<Rightarrow> Inr ()))"

text \<open>\<open>poll_finish_write\<close> and \<open>poll_abort_write\<close> differ in the flag and the code of the library call.\<close>

definition poll_shutdown_write ::
  "shutdown_flag \<Rightarrow> u64 \<Rightarrow> waker \<Rightarrow> status option \<Rightarrow> 'rs stream \<Rightarrow>
     (write_error + unit) poll \<times> 'rs stream \<times> effect list" where
  "poll_shutdown_write flag code w ret st =
     (let wait = (\<lambda>s. s\<lparr>st_write_shutdown_waiters := st_write_shutdown_waiters s @ [w]\<rparr>) in
      case st_send_state st of
        SendStart \<Rightarrow> (Pending, st\<lparr>st_start_waiters := st_start_waiters st @ [w]\<rparr>, [])
      | SendStartComplete \<Rightarrow>
          (case ret of
             None \<Rightarrow> (Pending, wait (st\<lparr>st_send_state := SendShutdown\<rparr>), [StreamShutdown flag code])
           | Some s \<Rightarrow> (Ready (Inl (WriteOtherError s)), st, [StreamShutdown flag code]))
      | SendShutdown \<Rightarrow> (Pending, wait st, [])
      | SendShutdownComplete \<Rightarrow> (Ready (write_shutdown_outcome st), st, [])
      | SendClosed \<Rightarrow> (Ready (Inl WriteClosed), st, []))"

definition stream_poll_finish_write where
  "stream_poll_finish_write = poll_shutdown_write Graceful 0"

definition stream_poll_abort_write where
  "stream_poll_abort_write w code = poll_shutdown_write AbortSend code w"

definition stream_abort_write ::
  "u64 \<Rightarrow> status option \<Rightarrow> 'rs stream \<Rightarrow> (write_error + unit) \<times> 'rs stream \<times> effect list" where
  "stream_abort_write code ret st =
     (if st_send_state st = SendStartComplete
      then case ret of
             None \<Rightarrow> (Inr (), st\<lparr>st_send_state := SendShutdown\<rparr>, [StreamShutdown AbortSend code])
           | Some s \<Rightarrow> (Inl (WriteOtherError s), st, [StreamShutdown AbortSend code])
      else (Inl WriteClosed, st, []))"

definition stream_poll_abort_read ::
  "waker \<Rightarrow> u64 \<Rightarrow> status option \<Rightarrow> 'rs stream \<Rightarrow> (read_error + unit) poll \<times> 'rs stream \<times> effect list" where
  "stream_poll_abort_read w code ret st =
     (case st_recv_state st of
        RecvStart \<Rightarrow> (Pending, st\<lparr>st_start_waiters := st_start_waiters st @ [w]\<rparr>, [])
      | RecvStartComplete \<Rightarrow>
          (case ret of
             None \<Rightarrow> (Ready (Inr ()),
                      st\<lparr>st_recv_state := RecvShutdownComplete, st_read_waiters := []\<rparr>,
                      StreamShutdown AbortReceive code # map Wake (st_read_waiters st))
           | Some s \<Rightarrow> (Ready (Inl (ReadOtherError s)), st, [StreamShutdown AbortReceive code]))
      | RecvShutdownComplete \<Rightarrow>
          (Ready (case st_conn_error st of
                    Some e \<Rightarrow> Inl (ReadConnectionLost e)
                  | None \<Rightarrow> (case st_recv_error_code st of
                               Some c \<Rightarrow> Inl (ReadReset c) | None \<Rightarrow> Inr ())), st, [])
      | _ \<Rightarrow> (Ready (Inl ReadClosed), st, []))"

definition stream_abort_read ::
  "u64 \<Rightarrow> status option \<Rightarrow> 'rs stream \<Rightarrow> (read_error + unit) \<times> 'rs stream \<times> effect list" where
  "stream_abort_read code ret st =
     (if st_recv_state st = RecvStartComplete
      then case ret of
             None \<Rightarrow> (Inr (), st\<lparr>st_recv_state := RecvShutdownComplete\<rparr>,
                      [StreamShutdown AbortReceive code])
           | Some s \<Rightarrow> (Inl (ReadOtherError s), st, [StreamShutdown AbortReceive code])
      else (Inl ReadClosed, st, []))"

section \<open>The events of the library\<close>

datatype stream_event =
    EvStartComplete status u64 bool
  | EvReceive nat nat "u8 list list" bool
  | EvSendComplete bool write_buffer
  | EvPeerSendShutdown
  | EvPeerSendAborted u64
  | EvPeerReceiveAborted u64
  | EvSendShutdownComplete bool
  | EvShutdownComplete bool bool bool bool u64 status
  | EvIdealSendBufferSize nat
  | EvPeerAccepted
  | EvOther

definition set_start_complete :: "'rs stream \<Rightarrow> 'rs stream" where
  "set_start_complete st =
     st\<lparr>st_state := StStartComplete,
        st_recv_state := (if st_stream_type st = Bidirectional then RecvStartComplete
                          else st_recv_state st),
        st_send_state := SendStartComplete\<rparr>"

definition handle_event_start_complete :: "status \<Rightarrow> u64 \<Rightarrow> bool \<Rightarrow> 'rs stream \<Rightarrow> 'rs stream \<times> effect list" where
  "handle_event_start_complete s i peer_accepted st =
     (let st1 = (if status_is_ok s then st\<lparr>st_id := Some i\<rparr> else st)\<lparr>st_start_status := Some s\<rparr>;
          st2 = (if status_is_ok s \<and> peer_accepted then set_start_complete st1 else st1)
      in if s = StreamLimitReached \<or> peer_accepted
         then (st2\<lparr>st_start_waiters := []\<rparr>, map Wake (st_start_waiters st2))
         else (st2, []))"

definition handle_event_receive ::
  "nat \<Rightarrow> nat \<Rightarrow> u8 list list \<Rightarrow> bool \<Rightarrow> 'rs stream \<Rightarrow> 'rs stream \<times> effect list" where
  "handle_event_receive absolute_offset total_buffer_length bufs fin st =
     (st\<lparr>st_recv_len := st_recv_len st + total_buffer_length,
         st_recv_buffers := st_recv_buffers st @ [recv_buffer_new absolute_offset bufs fin],
         st_read_waiters := []\<rparr>,
      map Wake (st_read_waiters st))"

definition handle_event_send_complete :: "write_buffer \<Rightarrow> 'rs stream \<Rightarrow> 'rs stream \<times> effect list" where
  "handle_event_send_complete wb st =
     (st\<lparr>st_write_pool := st_write_pool st @ [write_buffer_reset wb]\<rparr>, [])"

definition handle_event_peer_send_shutdown :: "'rs stream \<Rightarrow> 'rs stream \<times> effect list" where
  "handle_event_peer_send_shutdown st =
     (st\<lparr>st_recv_state := RecvShutdownComplete, st_read_waiters := []\<rparr>, map Wake (st_read_waiters st))"

definition handle_event_peer_send_aborted :: "u64 \<Rightarrow> 'rs stream \<Rightarrow> 'rs stream \<times> effect list" where
  "handle_event_peer_send_aborted code st =
     (st\<lparr>st_recv_state := RecvShutdownComplete, st_recv_error_code := Some code,
         st_read_waiters := []\<rparr>, map Wake (st_read_waiters st))"

definition handle_event_peer_receive_aborted :: "u64 \<Rightarrow> 'rs stream \<Rightarrow> 'rs stream \<times> effect list" where
  "handle_event_peer_receive_aborted code st =
     (st\<lparr>st_send_state := SendShutdownComplete, st_send_error_code := Some code,
         st_write_shutdown_waiters := []\<rparr>, map Wake (st_write_shutdown_waiters st))"

definition handle_event_send_shutdown_complete :: "'rs stream \<Rightarrow> 'rs stream \<times> effect list" where
  "handle_event_send_shutdown_complete st =
     (st\<lparr>st_send_state := SendShutdownComplete, st_write_shutdown_waiters := []\<rparr>,
      map Wake (st_write_shutdown_waiters st))"

definition shutdown_conn_error :: "bool \<Rightarrow> bool \<Rightarrow> u64 \<Rightarrow> status \<Rightarrow> connection_error" where
  "shutdown_conn_error by_app remotely code close_status =
     (case (by_app, remotely) of
        (True, True) \<Rightarrow> ShutdownByPeer code
      | (True, False) \<Rightarrow> ShutdownByLocal
      | (False, _) \<Rightarrow> ShutdownByTransport close_status code)"

definition handle_event_shutdown_complete ::
  "bool \<Rightarrow> bool \<Rightarrow> bool \<Rightarrow> bool \<Rightarrow> u64 \<Rightarrow> status \<Rightarrow> 'rs stream \<Rightarrow> 'rs stream \<times> effect list" where
  "handle_event_shutdown_complete connection_shutdown app_close by_app remotely code close_status st =
     (st\<lparr>st_recv_buffers := [],
         st_state := StShutdownComplete,
         st_recv_state := RecvShutdownComplete,
         st_send_state := SendShutdownComplete,
         st_conn_error := (if connection_shutdown
                           then Some (shutdown_conn_error by_app remotely code close_status)
                           else st_conn_error st),
         st_start_waiters := [], st_read_waiters := [], st_write_shutdown_waiters := []\<rparr>,
      (if st_recv_buffers st \<noteq> [] \<and> \<not> app_close
       then [ReceiveComplete (usize_sub (st_recv_len st) (st_complete_cursor st))] else [])
      @ map Wake (st_start_waiters st @ st_read_waiters st @ st_write_shutdown_waiters st))"

definition handle_event_peer_accepted :: "'rs stream \<Rightarrow> 'rs stream \<times> effect list" where
  "handle_event_peer_accepted st =
     ((set_start_complete st)\<lparr>st_start_waiters := []\<rparr>, map Wake (st_start_waiters st))"

text \<open>
  The handler and the status it returns to the library: \<open>Receive\<close> is answered with the pending
  status, so that the library keeps the memory of the buffers until they are completed.
\<close>

fun stream_callback :: "stream_event \<Rightarrow> 'rs stream \<Rightarrow> (status + unit) \<times> 'rs stream \<times> effect list" where
  "stream_callback (EvStartComplete s i acc) st = (Inr (), handle_event_start_complete s i acc st)"
| "stream_callback (EvReceive off n bufs fin) st = (Inl StatusPending, handle_event_receive off n bufs fin st)"
| "stream_callback (EvSendComplete _ wb) st = (Inr (), handle_event_send_complete wb st)"
| "stream_callback EvPeerSendShutdown st = (Inr (), handle_event_peer_send_shutdown st)"
| "stream_callback (EvPeerSendAborted code) st = (Inr (), handle_event_peer_send_aborted code st)"
| "stream_callback (EvPeerReceiveAborted code) st = (Inr (), handle_event_peer_receive_aborted code st)"
| "stream_callback (EvSendShutdownComplete _) st = (Inr (), handle_event_send_shutdown_complete st)"
| "stream_callback (EvShutdownComplete a b c d e f) st =
     (Inr (), handle_event_shutdown_complete a b c d e f st)"
| "stream_callback (EvIdealSendBufferSize _) st = (Inr (), st, [])"
| "stream_callback EvPeerAccepted st = (Inr (), handle_event_peer_accepted st)"
| "stream_callback EvOther st = (Inr (), st, [])"

section \<open>The standard I/O traits\<close>

datatype io_error_kind = NotConnected | ConnectionReset | ConnectionAborted | OtherKind

fun read_error_kind :: "read_error \<Rightarrow> io_error_kind" where
  "read_error_kind ReadClosed = NotConnected"
| "read_error_kind (ReadReset _) = ConnectionReset"
| "read_error_kind (ReadConnectionLost e) = (if e = ConnectionClosed then NotConnected else ConnectionAborted)"
| "read_error_kind (ReadOtherError _) = OtherKind"

fun write_error_kind :: "write_error \<Rightarrow> io_error_kind" where
  "write_error_kind WriteClosed = NotConnected"
| "write_error_kind WriteFinished = NotConnected"
| "write_error_kind (WriteConnectionLost e) = (if e = ConnectionClosed then NotConnected else ConnectionAborted)"
| "write_error_kind (WriteStopped _) = ConnectionReset"
| "write_error_kind (WriteOtherError _) = OtherKind"

definition async_write_poll_write where
  "async_write_poll_write w buf ret st =
     map_result (\<lambda>(r, st, es). (map_poll (map_sum write_error_kind id) r, st, es))
       (stream_poll_write w buf False ret st)"

definition async_write_poll_shutdown where
  "async_write_poll_shutdown w ret st =
     (let (r, st', es) = stream_poll_finish_write w ret st
      in (map_poll (map_sum write_error_kind id) r, st', es))"

definition futures_poll_read where
  "futures_poll_read ops w cap st =
     map_result (\<lambda>(r, st, es). (map_poll (map_sum read_error_kind id) r, st, es))
       (stream_poll_read ops w cap st)"

text \<open>
  tokio's \<open>ReadBuf\<close>: \<open>rb_filled\<close> bytes hold data, the initialised part of the memory is \<open>rb_init\<close>
  and there is room for more. \<open>initialized_mut\<close> is the whole initialised part from the start of
  the memory, \<open>set_filled\<close> panics when asked for more than is initialised.
\<close>

record read_buf =
  rbuf_init :: "u8 list"
  rbuf_filled :: nat

definition set_filled :: "nat \<Rightarrow> read_buf \<Rightarrow> read_buf result" where
  "set_filled n b = (if n \<le> length (rbuf_init b) then Ok (b\<lparr>rbuf_filled := n\<rparr>) else Panic AssertionFailed)"

definition tokio_poll_read ::
  "'rs range_set_ops \<Rightarrow> waker \<Rightarrow> read_buf \<Rightarrow> 'rs stream \<Rightarrow>
     ((io_error_kind + unit) poll \<times> read_buf \<times> 'rs stream \<times> effect list) result" where
  "tokio_poll_read ops w b st =
     and_then (stream_poll_read ops w (length (rbuf_init b)) st) (\<lambda>(r, st', es).
       case r of
         Pending \<Rightarrow> Ok (Pending, b, st', es)
       | Ready (Inl e) \<Rightarrow> Ok (Ready (Inl (read_error_kind e)), b, st', es)
       | Ready (Inr bytes) \<Rightarrow>
           and_then (set_filled (length bytes)
                       (b\<lparr>rbuf_init := bytes @ drop (length bytes) (rbuf_init b)\<rparr>))
             (\<lambda>b'. Ok (Ready (Inr ()), b', st', es)))"

end
