(* ===== verification/Quic_Stream_Correct.thy ===== *)
theory Quic_Stream_Correct
  imports Quic_Stream
begin

text \<open>
  What a QUIC stream guarantees, over every interleaving of the tasks' calls and the library's
  events (\<open>stream_step\<close>): the bytes handed out are the bytes received, in order and without gap;
  the library is told exactly once about every byte that was read; no task waits for something
  that has already happened; and a shut-down stream keeps nobody waiting.
\<close>

section \<open>The set of completed ranges\<close>

text \<open>
  What the code relies on of \<open>rangemap::RangeSet\<close>: inserting a range adds its elements, and the first
  range is the maximal run of elements from the least one on (touching ranges are merged).
\<close>

locale range_set =
  fixes ops :: "'rs range_set_ops"
    and covered :: "'rs \<Rightarrow> nat set"
  assumes covered_new: "covered (rs_new ops) = {}"
    and covered_insert: "a < b \<Longrightarrow> covered (rs_insert ops (a, b) m) = covered m \<union> {a..<b}"
    and first_None: "rs_first ops m = None \<longleftrightarrow> covered m = {}"
    and first_Some: "rs_first ops m = Some (a, b) \<Longrightarrow>
      a < b \<and> {a..<b} \<subseteq> covered m \<and> b \<notin> covered m \<and> (\<forall>x\<in>covered m. a \<le> x)"

text \<open>The number of elements in the run from zero.\<close>

definition is_run :: "nat set \<Rightarrow> nat \<Rightarrow> bool" where
  "is_run A n = ({..<n} \<subseteq> A \<and> n \<notin> A)"

lemma is_run_mono:
  assumes "is_run A m" "is_run B n" "A \<subseteq> B"
  shows "m \<le> n"
proof (rule ccontr)
  assume "\<not> m \<le> n"
  then have "n \<in> A"
    using assms(1) by (auto simp: is_run_def)
  then show False
    using assms by (auto simp: is_run_def)
qed

definition byte_range :: "recv_buffer \<Rightarrow> nat set" where
  "byte_range b = {rb_offset b..<rb_offset b + rb_total b}"

definition byte_ranges :: "recv_buffer list \<Rightarrow> nat set" where
  "byte_ranges bs = (\<Union>b\<in>set bs. byte_range b)"

lemma byte_ranges_simps [simp]:
  "byte_ranges [] = {}" "byte_ranges (b # bs) = byte_range b \<union> byte_ranges bs" "byte_ranges (xs @ ys) = byte_ranges xs \<union> byte_ranges ys"
  "byte_range (set_stream b) = byte_range b" "byte_ranges (map set_stream bs) = byte_ranges bs"
  by (auto simp: byte_ranges_def byte_range_def)

lemma byte_ranges_map: "map byte_range xs = map byte_range ys \<Longrightarrow> byte_ranges xs = byte_ranges ys"
  unfolding byte_ranges_def by (metis image_set)

lemma byte_range_cong: "rb_offset b' = rb_offset b \<Longrightarrow> rb_total b' = rb_total b \<Longrightarrow> byte_range b' = byte_range b"
  by (simp add: byte_range_def)

text \<open>The part of the state that reading and completing does not touch.\<close>

definition same_but_completion :: "'rs stream \<Rightarrow> 'rs stream \<Rightarrow> bool" where
  "same_but_completion st st' =
     (st' = st\<lparr>st_complete_map := st_complete_map st', st_complete_cursor := st_complete_cursor st'\<rparr>)"

lemma same_but_completion_trans:
  "same_but_completion a b \<Longrightarrow> same_but_completion b c \<Longrightarrow> same_but_completion a c"
  by (cases a; cases b; cases c) (simp add: same_but_completion_def)

lemma same_but_completion_fields:
  assumes "same_but_completion st st'"
  shows "st_state st' = st_state st" "st_recv_state st' = st_recv_state st"
    "st_send_state st' = st_send_state st" "st_recv_buffers st' = st_recv_buffers st"
    "st_recv_len st' = st_recv_len st" "st_read_waiters st' = st_read_waiters st"
    "st_start_waiters st' = st_start_waiters st"
    "st_write_shutdown_waiters st' = st_write_shutdown_waiters st"
    "st_local_open st' = st_local_open st" "st_stream_type st' = st_stream_type st"
  using assms by (cases st; cases st'; simp add: same_but_completion_def)+

context range_set
begin

lemma covered_range:
  assumes "m' = (if start < stop then rs_insert ops (start, stop) m else m)"
  shows "covered m' = covered m \<union> {start..<stop}"
  using assms by (simp add: covered_insert)

text \<open>
  Completing a buffer adds its range, moves the cursor to the end of the run from zero, and
  reports to the library exactly the bytes by which the cursor moved.
\<close>

lemma read_complete_run:
  assumes run: "is_run (covered (st_complete_map st)) (st_complete_cursor st)"
    and rc: "read_complete ops b st = (st', es)"
  shows "covered (st_complete_map st') = covered (st_complete_map st) \<union> byte_range b"
    "is_run (covered (st_complete_map st')) (st_complete_cursor st')"
    "st_complete_cursor st' = st_complete_cursor st + completed_len es"
    "same_but_completion st st'" "wakes es = []"
proof -
  define m where "m = (if rb_offset b < rb_offset b + rb_total b
    then rs_insert ops (rb_offset b, rb_offset b + rb_total b) (st_complete_map st)
    else st_complete_map st)"
  have cov: "covered m = covered (st_complete_map st) \<union> byte_range b"
    using covered_range [OF m_def] by (simp add: byte_range_def)
  let ?c = "st_complete_cursor st" and ?st = "st\<lparr>st_complete_map := m\<rparr>"
  have rc': "(case rs_first ops m of
      Some (lo, hi) \<Rightarrow>
        if lo = 0 \<and> ?c < hi
        then (?st\<lparr>st_complete_cursor := hi\<rparr>, [ReceiveComplete (hi - ?c)])
        else if lo = 0 \<and> ?c = hi \<and> rb_offset b = hi \<and> recv_buffer_is_empty b \<and> rb_fin b
        then (?st, [ReceiveComplete 0])
        else (?st, [])
    | None \<Rightarrow> if recv_buffer_is_empty b \<and> rb_fin b then (?st, [ReceiveComplete 0]) else (?st, []))
      = (st', es)"
    using rc unfolding read_complete_def recv_buffer_range_def Let_def prod.case m_def .
  have m: "st_complete_map st' = m" "same_but_completion st st'" "wakes es = []"
    using rc' by (auto simp: same_but_completion_def wakes_def split: option.splits if_splits)
  then show "covered (st_complete_map st') = covered (st_complete_map st) \<union> byte_range b"
    "same_but_completion st st'" "wakes es = []"
    using cov by simp_all
  have mono: "?c \<le> n" if "is_run (covered m) n" for n
    using is_run_mono [OF run that] cov by blast
  have "is_run (covered m) (st_complete_cursor st') \<and> st_complete_cursor st' = ?c + completed_len es"
  proof (cases "rs_first ops m")
    case None
    then have "is_run (covered m) 0" "?c = 0"
      using mono [of 0] by (auto simp: first_None is_run_def)
    then show ?thesis
      using rc' None by (auto split: if_splits)
  next
    case (Some r)
    obtain lo hi where r: "r = (lo, hi)"
      by fastforce
    note f = first_Some [OF Some [unfolded r]]
    show ?thesis
    proof (cases "lo = 0")
      case True
      then have hi: "is_run (covered m) hi"
        using f by (auto simp: is_run_def)
      then have "?c \<le> hi"
        by (rule mono)
      then show ?thesis
        using rc' Some r True hi by (auto split: if_splits)
    next
      case False
      then have zero: "is_run (covered m) 0"
        using f by (auto simp: is_run_def)
      then have "?c = 0"
        using mono [of 0] by simp
      then show ?thesis
        using rc' Some r False zero by auto
    qed
  qed
  then show "is_run (covered (st_complete_map st')) (st_complete_cursor st')"
    "st_complete_cursor st' = ?c + completed_len es"
    using m(1) by auto
qed

lemma drop_recv_buffers_run:
  assumes "is_run (covered (st_complete_map st)) (st_complete_cursor st)"
    "drop_recv_buffers ops (map set_stream bs) st = (st', es)"
  shows "covered (st_complete_map st') = covered (st_complete_map st) \<union> byte_ranges bs
    \<and> is_run (covered (st_complete_map st')) (st_complete_cursor st')
    \<and> st_complete_cursor st' = st_complete_cursor st + completed_len es
    \<and> same_but_completion st st' \<and> wakes es = []"
  using assms
proof (induction bs arbitrary: st st' es)
  case Nil
  then show ?case
    by (simp add: same_but_completion_def)
next
  case (Cons b bs)
  obtain st1 es1 where one: "read_complete ops (set_stream b) st = (st1, es1)"
    by fastforce
  obtain st2 es2 where two: "drop_recv_buffers ops (map set_stream bs) st1 = (st2, es2)"
    by fastforce
  note r = read_complete_run [OF Cons.prems(1) one]
  have eq: "st' = st2" "es = es1 @ es2"
    using Cons.prems(2) one two by (simp_all add: drop_recv_buffer_def)
  show ?case
    using r Cons.IH [OF r(2) two] same_but_completion_trans [OF r(4)]
    by (auto simp: eq Un_assoc)
qed

end

section \<open>The reading loop\<close>

fun status_bytes :: "u8 list read_status \<Rightarrow> u8 list" where
  "status_bytes (Readable bs) = bs"
| "status_bytes (ReadFinished r) = (case r of Some bs \<Rightarrow> bs | None \<Rightarrow> [])"
| "status_bytes (ReadBlocked r) = (case r of Some bs \<Rightarrow> bs | None \<Rightarrow> [])"

text \<open>
  The loop never panics. It takes bytes from the front of the queue until its slice is full or
  the queue is empty, completes the buffers it emptied, and reports the end of the stream only
  for a queue that it has drained.
\<close>

definition pending_bytes :: "recv_buffer list \<Rightarrow> u8 list" where
  "pending_bytes bs = concat (map rb_rest bs)"

lemma pending_bytes_simps [simp]:
  "pending_bytes [] = []" "pending_bytes (b # bs) = rb_rest b @ pending_bytes bs"
  "pending_bytes (xs @ ys) = pending_bytes xs @ pending_bytes ys"
  by (simp_all add: pending_bytes_def)

lemma read_status_from_bytes [simp]:
  "status_bytes (read_status_from (if acc = [] then None else Some acc, fin)) = acc"
  by (cases fin) (auto simp: read_status_from_def)

lemma read_loop_correct:
  assumes "\<forall>b\<in>set bufs. rb_wf b" "length acc \<le> cap"
  shows "\<exists>status left popped got.
     read_loop cap bufs acc fin completed = Ok (status, left, completed @ map set_stream popped)
     \<and> status_bytes status = acc @ got \<and> length (acc @ got) \<le> cap
     \<and> pending_bytes bufs = got @ pending_bytes left
     \<and> (\<forall>b\<in>set left. rb_wf b)
     \<and> map byte_range bufs = map byte_range (popped @ left)
     \<and> (case status of Readable _ \<Rightarrow> length (acc @ got) = cap
        | ReadFinished r \<Rightarrow> left = [] \<and> (bufs = [] \<longrightarrow> fin)
        | ReadBlocked r \<Rightarrow> left = [] \<and> (r = None \<longleftrightarrow> acc @ got = []))"
  using assms
proof (induction cap bufs acc fin completed rule: read_loop.induct)
  case (1 cap bufs acc fin completed)
  show ?case
  proof (cases "length acc = cap")
    case True
    then show ?thesis
      using "1.prems" by (intro exI [of _ "Readable acc"] exI [of _ bufs] exI [of _ "[]"])
        (simp add: read_loop.simps)
  next
    case room: False
    then have n: "usize_sub cap (length acc) = cap - length acc"
      using "1.prems"(2) by (simp add: usize_sub_def)
    show ?thesis
    proof (cases bufs)
      case Nil
      let ?s = "read_status_from (if acc = [] then None else Some acc, fin)"
      have "read_loop cap bufs acc fin completed = Ok (?s, [], completed)"
        using room Nil by (simp add: read_loop.simps)
      then show ?thesis
        using "1.prems"(2) Nil by (intro exI [of _ ?s] exI [of _ "[]"])
          (auto simp: read_status_from_def split: bool.splits)
    next
      case (Cons b bs)
      then have wf: "rb_wf b" "\<forall>b\<in>set bs. rb_wf b"
        using "1.prems"(1) by auto
      show ?thesis
      proof (cases "rb_cursor b = length (rb_buffers b)")
        case True
        have gb: "get_bytes_upto_size b (usize_sub cap (length acc)) = Ok (None, b)"
          by (rule get_bytes_None [OF wf(1) True])
        have step: "read_loop cap bufs acc fin completed
            = read_loop cap bs acc (rb_fin b) (completed @ [set_stream b])"
          by (subst read_loop.simps) (simp add: room Cons gb)
        from "1.IH"(1) [OF room Cons gb refl refl wf(2) "1.prems"(2)]
        obtain status left popped got where ih:
          "read_loop cap bs acc (rb_fin b) (completed @ [set_stream b])
             = Ok (status, left, (completed @ [set_stream b]) @ map set_stream popped)"
          "status_bytes status = acc @ got" "length (acc @ got) \<le> cap"
          "pending_bytes bs = got @ pending_bytes left" "\<forall>b\<in>set left. rb_wf b"
          "map byte_range bs = map byte_range (popped @ left)"
          "case status of Readable _ \<Rightarrow> length (acc @ got) = cap
           | ReadFinished r \<Rightarrow> left = [] \<and> (bs = [] \<longrightarrow> rb_fin b)
           | ReadBlocked r \<Rightarrow> left = [] \<and> (r = None \<longleftrightarrow> acc @ got = [])"
          by blast
        show ?thesis
          using ih Cons rest_end [of b] True step
          by (intro exI [of _ status] exI [of _ left] exI [of _ "b # popped"] exI [of _ got])
            (auto split: read_status.splits)
      next
        case False
        obtain s b' where gb: "get_bytes_upto_size b (usize_sub cap (length acc)) = Ok (Some s, b')"
          "rb_wf b'" "rb_rest b = s @ rb_rest b'" "length s \<le> usize_sub cap (length acc)"
          "rb_offset b' = rb_offset b" "rb_total b' = rb_total b"
          by (rule get_bytes_Some [OF wf(1) False])
        have fit: "length acc + length s \<le> cap"
          using gb(4) n "1.prems"(2) by simp
        have step: "read_loop cap bufs acc fin completed
            = read_loop cap (b' # bs) (acc @ s) fin completed"
          by (subst read_loop.simps) (simp add: room Cons gb(1) fit)
        have "\<forall>b\<in>set (b' # bs). rb_wf b" "length (acc @ s) \<le> cap"
          using gb(2) wf(2) fit by auto
        from "1.IH"(2) [OF room Cons gb(1) refl refl fit this]
        obtain status left popped got where ih:
          "read_loop cap (b' # bs) (acc @ s) fin completed
             = Ok (status, left, completed @ map set_stream popped)"
          "status_bytes status = (acc @ s) @ got" "length ((acc @ s) @ got) \<le> cap"
          "pending_bytes (b' # bs) = got @ pending_bytes left" "\<forall>b\<in>set left. rb_wf b"
          "map byte_range (b' # bs) = map byte_range (popped @ left)"
          "case status of Readable _ \<Rightarrow> length ((acc @ s) @ got) = cap
           | ReadFinished r \<Rightarrow> left = [] \<and> (b' # bs = [] \<longrightarrow> fin)
           | ReadBlocked r \<Rightarrow> left = [] \<and> (r = None \<longleftrightarrow> (acc @ s) @ got = [])"
          by blast
        then show ?thesis
          using Cons step byte_range_cong [OF gb(5,6)] gb(3)
          by (intro exI [of _ status] exI [of _ left] exI [of _ popped] exI [of _ "s @ got"])
            (auto split: read_status.splits)
      qed
    qed
  qed
qed


section \<open>Interleavings\<close>

text \<open>
  The calls a task makes that neither read nor hold buffers, and what they do to the stream.
  A call that panics takes no step.
\<close>

datatype stream_call =
    CallStart waker bool "status option"
  | CallWrite waker "u8 list" bool "status option"
  | CallWriteChunk waker "u8 list" bool "status option"
  | CallWriteChunks waker "u8 list list" bool "status option"
  | CallFinishWrite waker "status option"
  | CallPollAbortWrite waker u64 "status option"
  | CallAbortWrite u64 "status option"
  | CallPollAbortRead waker u64 "status option"
  | CallAbortRead u64 "status option"
  | CallId "u64 option"

fun stream_call_step :: "stream_call \<Rightarrow> 'rs stream \<Rightarrow> ('rs stream \<times> effect list) result" where
  "stream_call_step (CallStart w b ret) st = map_result snd (stream_poll_start w b ret st)"
| "stream_call_step (CallWrite w buf fin ret) st = map_result snd (stream_poll_write w buf fin ret st)"
| "stream_call_step (CallWriteChunk w buf fin ret) st =
     map_result snd (stream_poll_write_chunk w buf fin ret st)"
| "stream_call_step (CallWriteChunks w bufs fin ret) st =
     map_result snd (stream_poll_write_chunks w bufs fin ret st)"
| "stream_call_step (CallFinishWrite w ret) st = Ok (snd (stream_poll_finish_write w ret st))"
| "stream_call_step (CallPollAbortWrite w code ret) st = Ok (snd (stream_poll_abort_write w code ret st))"
| "stream_call_step (CallAbortWrite code ret) st = Ok (snd (stream_abort_write code ret st))"
| "stream_call_step (CallPollAbortRead w code ret) st = Ok (snd (stream_poll_abort_read w code ret st))"
| "stream_call_step (CallAbortRead code ret) st = Ok (snd (stream_abort_read code ret st))"
| "stream_call_step (CallId param) st = Ok (snd (stream_instance_id param st), [])"

fun is_abort_read :: "stream_call \<Rightarrow> bool" where
  "is_abort_read (CallAbortRead code ret) = True"
| "is_abort_read _ = False"

text \<open>
  The stream with what happened so far: the chunks the tasks hold, the bytes received and
  delivered, whether the end of the stream was received, the bytes the library was told about.
\<close>

record 'rs stream_sys =
  sys_st :: "'rs stream"
  sys_held :: "recv_buffer list"
  sys_received :: "u8 list"
  sys_delivered :: "u8 list"
  sys_fin :: bool
  sys_completed :: nat

text \<open>
  What the library promises of its events: none follows \<open>ShutdownComplete\<close>; data arrives in order
  and none after the end of the stream; a stream the peer opened is not started, and one opened
  here is confirmed while it is starting.
\<close>

fun event_expected :: "stream_event \<Rightarrow> 'rs stream_sys \<Rightarrow> bool" where
  "event_expected (EvReceive off n bufs fin) s \<longleftrightarrow>
     off = length (sys_received s) \<and> n = length (concat bufs) \<and> n < 2 ^ 32 \<and> \<not> sys_fin s"
| "event_expected (EvStartComplete _ _ _) s \<longleftrightarrow> st_state (sys_st s) = StStart"
| "event_expected EvPeerAccepted s \<longleftrightarrow> st_state (sys_st s) = StStart"
| "event_expected _ s \<longleftrightarrow> True"

fun is_receive :: "stream_event \<Rightarrow> bool" where
  "is_receive (EvReceive off n bufs fin) = True"
| "is_receive _ = False"

fun is_shutdown_complete :: "stream_event \<Rightarrow> bool" where
  "is_shutdown_complete (EvShutdownComplete a b c d e f) = True"
| "is_shutdown_complete _ = False"

fun event_bytes :: "stream_event \<Rightarrow> u8 list \<times> bool" where
  "event_bytes (EvReceive off n bufs fin) = (concat bufs, fin)"
| "event_bytes _ = ([], False)"

fun call_expected :: "stream_call \<Rightarrow> 'rs stream_sys \<Rightarrow> bool" where
  "call_expected (CallStart _ _ _) s \<longleftrightarrow> st_local_open (sys_st s)"
| "call_expected _ s \<longleftrightarrow> True"

fun poll_bytes :: "(read_error + u8 list) poll \<Rightarrow> u8 list" where
  "poll_bytes (Ready (Inr bs)) = bs"
| "poll_bytes _ = []"

fun poll_chunk :: "(read_error + recv_buffer option) poll \<Rightarrow> recv_buffer list" where
  "poll_chunk (Ready (Inr (Some b))) = [b]"
| "poll_chunk _ = []"

inductive stream_step :: "'rs range_set_ops \<Rightarrow> (stream_call \<Rightarrow> bool) \<Rightarrow> 'rs stream_sys \<Rightarrow> 'rs stream_sys \<Rightarrow> bool"
  for ops allowed where
  step_event:
    "st_state (sys_st s) \<noteq> StShutdownComplete \<Longrightarrow> event_expected ev s \<Longrightarrow>
     stream_callback ev (sys_st s) = (r, st', es) \<Longrightarrow>
     stream_step ops allowed s
       (s\<lparr>sys_st := st', sys_received := sys_received s @ fst (event_bytes ev),
          sys_fin := sys_fin s \<or> snd (event_bytes ev),
          sys_completed := sys_completed s + completed_len es\<rparr>)"
| step_read:
    "stream_poll_read ops w cap (sys_st s) = Ok (r, st', es) \<Longrightarrow>
     stream_step ops allowed s
       (s\<lparr>sys_st := st', sys_delivered := sys_delivered s @ poll_bytes r,
          sys_completed := sys_completed s + completed_len es\<rparr>)"
| step_read_chunk:
    "stream_poll_read_chunk w (sys_st s) = Ok (r, st', es) \<Longrightarrow>
     stream_step ops allowed s
       (s\<lparr>sys_st := st', sys_held := sys_held s @ poll_chunk r,
          sys_delivered := sys_delivered s @ concat (map rb_rest (poll_chunk r)),
          sys_completed := sys_completed s + completed_len es\<rparr>)"
| step_drop_chunk:
    "sys_held s = xs @ b # ys \<Longrightarrow> drop_recv_buffer ops b (sys_st s) = (st', es) \<Longrightarrow>
     stream_step ops allowed s
       (s\<lparr>sys_st := st', sys_held := xs @ ys, sys_completed := sys_completed s + completed_len es\<rparr>)"
| step_call:
    "allowed c \<Longrightarrow> call_expected c s \<Longrightarrow> stream_call_step c (sys_st s) = Ok (st', es) \<Longrightarrow>
     stream_step ops allowed s
       (s\<lparr>sys_st := st', sys_completed := sys_completed s + completed_len es\<rparr>)"

definition sys_init :: "'rs stream \<Rightarrow> 'rs stream_sys" where
  "sys_init st = \<lparr>sys_st = st, sys_held = [], sys_received = [], sys_delivered = [],
     sys_fin = False, sys_completed = 0\<rparr>"

text \<open>The streams that exist at the start: opened here, or started by the peer.\<close>

definition initial_stream :: "'rs range_set_ops \<Rightarrow> 'rs stream \<Rightarrow> bool" where
  "initial_stream ops st = (\<exists>ty. st = fst (stream_from_raw ops ty)
     \<or> fst (stream_open ops ty None) = Inr st)"

definition stream_reachable ::
  "'rs range_set_ops \<Rightarrow> (stream_call \<Rightarrow> bool) \<Rightarrow> 'rs stream_sys \<Rightarrow> bool" where
  "stream_reachable ops allowed s =
     (\<exists>st. initial_stream ops st \<and> (stream_step ops allowed)\<^sup>*\<^sup>* (sys_init st) s)"

lemma stream_reachable_induct [consumes 1, case_names init step]:
  assumes "stream_reachable ops allowed s"
    and "\<And>st. initial_stream ops st \<Longrightarrow> P (sys_init st)"
    and "\<And>s s'. P s \<Longrightarrow> stream_step ops allowed s s' \<Longrightarrow> P s'"
  shows "P s"
proof -
  obtain st where st: "initial_stream ops st" "(stream_step ops allowed)\<^sup>*\<^sup>* (sys_init st) s"
    using assms(1) by (auto simp: stream_reachable_def)
  from st(2) show ?thesis
    by (induction rule: rtranclp_induct) (auto intro: assms(2,3) st(1))
qed

section \<open>What each step leaves alone\<close>

text \<open>The part of the state the received bytes live in.\<close>

definition recv_part where
  "recv_part st = (st_recv_buffers st, st_recv_len st, st_complete_map st, st_complete_cursor st)"

lemma poll_write_generic_frame:
  assumes "poll_write_generic w f ret st = Ok (r, st', es)"
  shows "recv_part st' = recv_part st" "st_state st' = st_state st"
    "st_recv_state st' = st_recv_state st" "st_read_waiters st' = st_read_waiters st"
    "st_local_open st' = st_local_open st" "st_stream_type st' = st_stream_type st"
    "st_write_shutdown_waiters st' = st_write_shutdown_waiters st"
    "st_send_state st' = st_send_state st \<and>
       (st_start_waiters st' = st_start_waiters st \<or> st_send_state st = SendStart)
     \<or> st_send_state st = SendStartComplete \<and> st_send_state st' = SendShutdown
       \<and> st_start_waiters st' = st_start_waiters st"
    "completed_len es = 0" "wakes es = []"
  using assms
  by (auto simp: poll_write_generic_def recv_part_def completed_len_def wakes_def Let_def
      split: send_state.splits write_status.splits option.splits prod.splits)

lemma unwrap_or_zero_Ok:
  assumes "map_result snd (unwrap_or_zero x) = Ok (st', es)"
  obtains r where "x = Ok (r, st', es)"
  using assms by (cases x) (auto simp: unwrap_or_zero_def split: prod.splits)

lemma stream_write_calls:
  assumes "stream_call_step c st = Ok (st', es)"
    "c = CallWrite w buf fin ret \<or> c = CallWriteChunk w buf fin ret \<or> c = CallWriteChunks w bufs fin ret"
  obtains r f where "poll_write_generic w f ret st = Ok (r :: (write_error + nat option) poll, st', es)"
  using assms
  by (elim disjE) (auto simp: stream_poll_write_def stream_poll_write_chunk_def
      stream_poll_write_chunks_def elim!: unwrap_or_zero_Ok)

lemma stream_poll_start_frame:
  assumes "stream_poll_start w b ret st = Ok (r, st', es)"
  shows "recv_part st' = recv_part st \<and> completed_len es = 0
    \<and> (st_state st = StShutdownComplete \<longrightarrow> st_state st' = StShutdownComplete)
    \<and> (st_state st \<noteq> StShutdownComplete \<longrightarrow> st_state st' \<noteq> StShutdownComplete)"
  using assms by (auto simp: stream_poll_start_def recv_part_def completed_len_def and_then_eq_Ok_iff
      split: stream_state.splits option.splits)

lemma stream_call_frame:
  assumes "stream_call_step c st = Ok (st', es)"
  shows "recv_part st' = recv_part st \<and> completed_len es = 0
    \<and> (st_state st = StShutdownComplete \<longleftrightarrow> st_state st' = StShutdownComplete)"
proof (cases c)
  case (CallStart w b ret)
  then obtain r where "stream_poll_start w b ret st = Ok (r, st', es)"
    using assms by (cases "stream_poll_start w b ret st") auto
  from stream_poll_start_frame [OF this] show ?thesis
    by blast
next
  case (CallWrite w buf fin ret)
  then show ?thesis
    using stream_write_calls [OF assms] poll_write_generic_frame by metis
next
  case (CallWriteChunk w buf fin ret)
  then show ?thesis
    using stream_write_calls [OF assms] poll_write_generic_frame by metis
next
  case (CallWriteChunks w bufs fin ret)
  then show ?thesis
    using stream_write_calls [OF assms] poll_write_generic_frame by metis
qed (use assms in \<open>auto simp: recv_part_def completed_len_def stream_poll_finish_write_def
  stream_poll_abort_write_def poll_shutdown_write_def stream_abort_write_def stream_poll_abort_read_def
  stream_abort_read_def stream_instance_id_def Let_def
  split: send_state.splits recv_state.splits option.splits if_splits\<close>)


section \<open>The bytes received are the bytes delivered\<close>

definition recv_inv ::
  "('rs \<Rightarrow> nat set) \<Rightarrow> bool \<Rightarrow> recv_buffer list \<times> nat \<times> 'rs \<times> nat \<Rightarrow>
     recv_buffer list \<Rightarrow> u8 list \<Rightarrow> u8 list \<Rightarrow> nat \<Rightarrow> bool" where
  "recv_inv covered running part held received delivered completed =
     (case part of (queue, recv_len, m, cursor) \<Rightarrow>
        (\<forall>b\<in>set queue. rb_wf b) \<and> (\<forall>b\<in>set held. rb_stream b)
        \<and> (\<exists>lost. received = delivered @ pending_bytes queue @ lost \<and> (running \<longrightarrow> lost = []))
        \<and> recv_len = length received
        \<and> is_run (covered m) cursor
        \<and> covered m \<union> byte_ranges queue \<union> byte_ranges held \<subseteq> {..<length received}
        \<and> (running \<longrightarrow> {..<length received} \<subseteq> covered m \<union> byte_ranges queue \<union> byte_ranges held)
        \<and> (running \<longrightarrow> completed = cursor))"

definition stream_inv :: "('rs \<Rightarrow> nat set) \<Rightarrow> 'rs stream_sys \<Rightarrow> bool" where
  "stream_inv covered s =
     recv_inv covered (st_state (sys_st s) \<noteq> StShutdownComplete) (recv_part (sys_st s))
       (sys_held s) (sys_received s) (sys_delivered s) (sys_completed s)"

lemma recv_inv_receive:
  assumes "recv_inv covered True (queue, n, m, c) held received delivered completed"
    "rb_wf b" "rb_rest b = bytes" "byte_range b = {length received..<length received + length bytes}"
  shows "recv_inv covered True (queue @ [b], n + length bytes, m, c) held (received @ bytes)
    delivered completed"
proof -
  let ?A = "covered m \<union> byte_ranges queue \<union> byte_ranges held"
  have "?A = {..<length received}"
    using assms(1) unfolding recv_inv_def prod.case by (elim conjE) (rule antisym, assumption, simp only: simp_thms)
  moreover have "covered m \<union> byte_ranges (queue @ [b]) \<union> byte_ranges held = ?A \<union> byte_range b"
    by auto
  ultimately have "covered m \<union> byte_ranges (queue @ [b]) \<union> byte_ranges held = {..<length (received @ bytes)}"
    using ivl_disj_un_one(2) [of "length received" "length received + length bytes"] assms(4)
    by (simp only: length_append)
  then show ?thesis
    using assms(1-3) unfolding recv_inv_def prod.case by simp
qed

lemma stream_event_frame:
  assumes "stream_callback ev st = (r, st', es)" "\<not> is_receive ev" "\<not> is_shutdown_complete ev" "st_state st \<noteq> StShutdownComplete"
  shows "recv_part st' = recv_part st \<and> completed_len es = 0 \<and> st_state st' \<noteq> StShutdownComplete"
  using assms
  by (cases ev) (auto simp: recv_part_def handle_event_start_complete_def set_start_complete_def
      handle_event_send_complete_def handle_event_peer_send_shutdown_def
      handle_event_peer_send_aborted_def handle_event_peer_receive_aborted_def
      handle_event_send_shutdown_complete_def handle_event_peer_accepted_def Let_def
      split: if_splits)

lemma poll_read_generic_other:
  assumes "st_recv_state st \<noteq> RecvStartComplete"
  obtains r st1 where "poll_read_generic w f st = Ok (r, st1, [])" "recv_part st1 = recv_part st"
    "st_state st1 = st_state st" "st_recv_state st1 = st_recv_state st"
    "st_send_state st1 = st_send_state st" "st_local_open st1 = st_local_open st"
    "st_stream_type st1 = st_stream_type st"
    "st_read_waiters st1 = st_read_waiters st"
    "st_write_shutdown_waiters st1 = st_write_shutdown_waiters st"
    "st_start_waiters st1 = st_start_waiters st \<or> st_recv_state st = RecvStart"
    "r = Pending \<or> (\<exists>e. r = Ready (Inl e)) \<or> r = Ready (Inr None)"
  using assms
  by (cases "st_recv_state st"; cases "st_conn_error st"; cases "st_recv_error_code st")
    (auto simp: poll_read_generic_def recv_part_def)

text \<open>A read takes bytes off the front of the queue and completes the buffers it emptied.\<close>

lemma poll_read_generic_spec:
  assumes "\<forall>b\<in>set (st_recv_buffers st). rb_wf b"
  obtains r st1 popped where
    "poll_read_generic w (\<lambda>bufs. read_loop cap bufs [] False []) st = Ok (r, st1, map set_stream popped)"
    "pending_bytes (st_recv_buffers st) =
       poll_bytes (map_poll (map_sum id (\<lambda>x. case x of Some bs \<Rightarrow> bs | None \<Rightarrow> [])) r)
       @ pending_bytes (st_recv_buffers st1)"
    "\<forall>b\<in>set (st_recv_buffers st1). rb_wf b"
    "map byte_range (st_recv_buffers st) = map byte_range (popped @ st_recv_buffers st1)"
    "st_recv_len st1 = st_recv_len st" "st_complete_map st1 = st_complete_map st"
    "st_complete_cursor st1 = st_complete_cursor st" "st_state st1 = st_state st"
proof (cases "st_recv_state st = RecvStartComplete")
  case False
  then show ?thesis
    by (rule poll_read_generic_other [of st w "\<lambda>bufs. read_loop cap bufs [] False []"])
      (use assms that [of _ _ "[]"] in \<open>auto simp: recv_part_def\<close>)
next
  case True
  obtain status left popped got where l:
    "read_loop cap (st_recv_buffers st) [] False [] = Ok (status, left, map set_stream popped)"
    "status_bytes status = got" "pending_bytes (st_recv_buffers st) = got @ pending_bytes left"
    "\<forall>b\<in>set left. rb_wf b"
    "map byte_range (st_recv_buffers st) = map byte_range (popped @ left)"
    using read_loop_correct [OF assms, of "[]" cap False "[]"] by auto
  show ?thesis
  proof (cases status)
    case (ReadBlocked r)
    then show ?thesis
      using True l by (cases r) (auto intro!: that [of _ _ popped] simp: poll_read_generic_def)
  qed (use True l in \<open>auto intro!: that [of _ _ popped] simp: poll_read_generic_def split: option.splits\<close>)
qed

context range_set
begin

lemma stream_inv_init: "initial_stream ops st \<Longrightarrow> stream_inv covered (sys_init st)"
  by (auto simp: initial_stream_def stream_inv_def sys_init_def stream_from_raw_def stream_open_def
      stream_inner_new_def covered_new is_run_def recv_inv_def recv_part_def)

lemma stream_inv_event:
  assumes inv: "stream_inv covered s" and running: "st_state (sys_st s) \<noteq> StShutdownComplete"
    and exp: "event_expected ev s" and cb: "stream_callback ev (sys_st s) = (r, st', es)"
  shows "stream_inv covered (s\<lparr>sys_st := st', sys_received := sys_received s @ fst (event_bytes ev),
          sys_fin := sys_fin s \<or> snd (event_bytes ev),
          sys_completed := sys_completed s + completed_len es\<rparr>)"
proof (cases "is_receive ev \<or> is_shutdown_complete ev")
  case False
  then have "event_bytes ev = ([], False)"
    by (cases ev) auto
  then show ?thesis
    using inv stream_event_frame [OF cb] False running by (simp add: stream_inv_def)
next
  case True
  then show ?thesis
  proof (elim disjE)
    assume "is_receive ev"
    then obtain bufs fin where ev: "ev = EvReceive (length (sys_received s)) (length (concat bufs)) bufs fin"
      and small: "length (concat bufs) < 2 ^ 32"
      using exp by (cases ev) auto
    let ?b = "recv_buffer_new (length (sys_received s)) bufs fin"
    have wf: "rb_wf ?b" "rb_rest ?b = concat bufs"
      using recv_buffer_new_wf [OF small] by auto
    have "byte_range ?b = {length (sys_received s)..<length (sys_received s) + length (concat bufs)}"
      using sum_lengths_u32_eq [OF small] by (simp add: byte_range_def recv_buffer_new_def)
    note new = recv_inv_receive [OF _ wf this]
    have "recv_part st' = (st_recv_buffers (sys_st s) @ [?b],
        st_recv_len (sys_st s) + length (concat bufs),
        st_complete_map (sys_st s), st_complete_cursor (sys_st s))"
      "completed_len es = 0" "st_state st' = st_state (sys_st s)"
      using cb unfolding ev by (auto simp: handle_event_receive_def recv_part_def)
    then show ?thesis
      using inv running new unfolding ev by (simp add: stream_inv_def recv_part_def)
  next
    assume "is_shutdown_complete ev"
    then show ?thesis
      using inv cb by (cases ev)
        (auto simp: stream_inv_def recv_inv_def recv_part_def handle_event_shutdown_complete_def)
  qed
qed

lemma stream_inv_read:
  assumes inv: "stream_inv covered s"
    and rd: "stream_poll_read ops w cap (sys_st s) = Ok (r, st', es)"
  shows "stream_inv covered (s\<lparr>sys_st := st', sys_delivered := sys_delivered s @ poll_bytes r,
          sys_completed := sys_completed s + completed_len es\<rparr>)"
proof -
  let ?st = "sys_st s"
  have wf: "\<forall>b\<in>set (st_recv_buffers ?st). rb_wf b"
    and run: "is_run (covered (st_complete_map ?st)) (st_complete_cursor ?st)"
    using inv by (auto simp: stream_inv_def recv_inv_def recv_part_def)
  obtain r1 st1 popped where g:
    "poll_read_generic w (\<lambda>bufs. read_loop cap bufs [] False []) ?st = Ok (r1, st1, map set_stream popped)"
    "pending_bytes (st_recv_buffers ?st) =
       poll_bytes (map_poll (map_sum id (\<lambda>x. case x of Some bs \<Rightarrow> bs | None \<Rightarrow> [])) r1)
       @ pending_bytes (st_recv_buffers st1)"
    "\<forall>b\<in>set (st_recv_buffers st1). rb_wf b"
    "map byte_range (st_recv_buffers ?st) = map byte_range (popped @ st_recv_buffers st1)"
    "st_recv_len st1 = st_recv_len ?st" "st_complete_map st1 = st_complete_map ?st"
    "st_complete_cursor st1 = st_complete_cursor ?st" "st_state st1 = st_state ?st"
    by (rule poll_read_generic_spec [OF wf])
  obtain st2 es2 where d: "drop_recv_buffers ops (map set_stream popped) st1 = (st2, es2)"
    by fastforce
  have eq: "st' = st2" "es = es2"
    "r = map_poll (map_sum id (\<lambda>x. case x of Some bs \<Rightarrow> bs | None \<Rightarrow> [])) r1"
    using rd g(1) d by (simp_all add: stream_poll_read_def)
  have "is_run (covered (st_complete_map st1)) (st_complete_cursor st1)"
    using run g(6,7) by simp
  note dr = drop_recv_buffers_run [OF this d]
  have f: "st_recv_buffers st2 = st_recv_buffers st1" "st_recv_len st2 = st_recv_len ?st"
    "st_state st2 = st_state ?st"
    using same_but_completion_fields [of st1 st2] dr g(5,8) by auto
  have "pending_bytes (st_recv_buffers ?st) = poll_bytes r @ pending_bytes (st_recv_buffers st1)"
    unfolding eq by (rule g(2))
  moreover have "covered (st_complete_map st2) = covered (st_complete_map ?st) \<union> byte_ranges popped"
    "is_run (covered (st_complete_map st2)) (st_complete_cursor st2)"
    "st_complete_cursor st2 = st_complete_cursor ?st + completed_len es2"
    using dr g(6,7) by auto
  ultimately show ?thesis
    using inv g(3) byte_ranges_map [OF g(4)] f unfolding eq(1,2)
    by (auto simp: stream_inv_def recv_inv_def recv_part_def)
qed

lemma stream_inv_read_chunk:
  assumes inv: "stream_inv covered s"
    and rd: "stream_poll_read_chunk w (sys_st s) = Ok (r, st', es)"
  shows "stream_inv covered (s\<lparr>sys_st := st', sys_held := sys_held s @ poll_chunk r,
          sys_delivered := sys_delivered s @ concat (map rb_rest (poll_chunk r)),
          sys_completed := sys_completed s + completed_len es\<rparr>)"
proof (cases "st_recv_state (sys_st s) = RecvStartComplete")
  case False
  obtain r1 st1 where g: "poll_read_generic w pop_chunk (sys_st s) = Ok (r1, st1, [])"
    "recv_part st1 = recv_part (sys_st s)" "st_state st1 = st_state (sys_st s)"
    "r1 = Pending \<or> (\<exists>e. r1 = Ready (Inl e)) \<or> r1 = Ready (Inr None)"
    by (rule poll_read_generic_other [OF False])
  then have "r = r1" "st' = st1" "es = []" "poll_chunk r = []"
    using rd by (auto simp: stream_poll_read_chunk_def)
  then show ?thesis
    using inv g by (simp add: stream_inv_def)
next
  case True
  show ?thesis
  proof (cases "st_recv_buffers (sys_st s)")
    case Nil
    then show ?thesis
      using inv rd True by (auto simp: stream_inv_def recv_part_def stream_poll_read_chunk_def
          poll_read_generic_def pop_chunk_def read_status_from_def)
  next
    case (Cons b bs)
    then have "poll_chunk r = [set_stream b]" "recv_part st' = (bs, snd (recv_part (sys_st s)))"
      "st_state st' = st_state (sys_st s)" "es = []"
      using rd True by (cases "rb_fin b"; auto simp: recv_part_def stream_poll_read_chunk_def
          poll_read_generic_def pop_chunk_def read_status_from_def)+
    then show ?thesis
      using inv Cons by (auto simp: stream_inv_def recv_inv_def recv_part_def)
  qed
qed

lemma stream_inv_drop_chunk:
  assumes inv: "stream_inv covered s" and held: "sys_held s = xs @ b # ys"
    and dr: "drop_recv_buffer ops b (sys_st s) = (st', es)"
  shows "stream_inv covered
    (s\<lparr>sys_st := st', sys_held := xs @ ys, sys_completed := sys_completed s + completed_len es\<rparr>)"
proof -
  have run: "is_run (covered (st_complete_map (sys_st s))) (st_complete_cursor (sys_st s))"
    and rc: "read_complete ops b (sys_st s) = (st', es)"
    using inv held dr by (auto simp: stream_inv_def recv_inv_def recv_part_def drop_recv_buffer_def)
  note r = read_complete_run [OF run rc]
  show ?thesis
    using inv held r(1,2,3) same_but_completion_fields [OF r(4)]
    by (auto simp: stream_inv_def recv_inv_def recv_part_def)
qed

lemma stream_inv_step:
  assumes "stream_inv covered s" "stream_step ops allowed s s'"
  shows "stream_inv covered s'"
  using assms(2,1)
proof cases
  case (step_call c st' es)
  then show ?thesis
    using stream_call_frame [of c "sys_st s" st' es] assms(1) by (simp add: stream_inv_def)
qed (auto intro: stream_inv_event stream_inv_read stream_inv_read_chunk stream_inv_drop_chunk)

lemma stream_reachable_inv:
  "stream_reachable ops allowed s \<Longrightarrow> stream_inv covered s"
  by (induction rule: stream_reachable_induct) (auto intro: stream_inv_init stream_inv_step)

end

end
