(* ===== verification/Quic_Stream_Memory.thy ===== *)
theory Quic_Stream_Memory
  imports Quic_Stream_Correct
begin

text \<open>
  The memory behind the receive buffers belongs to the library until the library is told that it
  was read: then it may be used again. \<open>in_use_disjoint\<close> says that the ranges of the buffers in the
  queue, of the chunks that tasks hold and of what was completed do not overlap, so that no byte
  reported as read still lies in a buffer somebody can read from.
\<close>

definition in_use_disjoint :: "('rs \<Rightarrow> nat set) \<Rightarrow> 'rs stream_sys \<Rightarrow> bool" where
  "in_use_disjoint covered s =
     sorted_wrt disjnt (covered (st_complete_map (sys_st s))
       # map byte_range (st_recv_buffers (sys_st s) @ sys_held s))"

lemma disjnt_byte_ranges: "disjnt A (byte_ranges bs) \<longleftrightarrow> (\<forall>b\<in>set bs. disjnt A (byte_range b))"
  by (auto simp: byte_ranges_def disjnt_def)

lemma disjnt_Un: "disjnt (A \<union> B) C \<longleftrightarrow> disjnt A C \<and> disjnt B C"
  by (auto simp: disjnt_def)

text \<open>How the ranges move: in at the end of the queue, from the queue to the completed, from hand to hand.\<close>

lemma disjoint_arrives:
  assumes "sorted_wrt disjnt (A # map byte_range (queue @ held))" "A \<union> byte_ranges queue \<union> byte_ranges held \<subseteq> {..<n}"
    "byte_range b = {n..<k}"
  shows "sorted_wrt disjnt (A # map byte_range ((queue @ [b]) @ held))"
proof -
  have far: "disjnt B (byte_range b)" "disjnt (byte_range b) B" if "B \<subseteq> {..<n}" for B
    using that assms(3) by (fastforce simp: disjnt_def)+
  have "A \<subseteq> {..<n}" "byte_range c \<subseteq> {..<n}" if "c \<in> set queue \<union> set held" for c
    using assms(2) that by (auto simp: byte_ranges_def)
  moreover have "A \<subseteq> {..<n}"
    using assms(2) by simp
  ultimately show ?thesis
    using assms(1) far by (auto simp: sorted_wrt_append)
qed

lemma disjoint_completed:
  assumes "sorted_wrt disjnt (A # map byte_range ((popped @ queue) @ held))"
  shows "sorted_wrt disjnt ((A \<union> byte_ranges popped) # map byte_range (queue @ held))"
  using assms
  by (auto simp: sorted_wrt_append disjnt_Un disjnt_byte_ranges disjnt_sym
      disjnt_sym [of "byte_ranges popped"])

lemma disjoint_dropped:
  assumes "sorted_wrt disjnt (A # map byte_range (queue @ xs @ b # ys))"
  shows "sorted_wrt disjnt ((A \<union> byte_range b) # map byte_range (queue @ xs @ ys))"
  using assms by (auto simp: sorted_wrt_append disjnt_Un disjnt_sym)

lemma disjoint_handed_over:
  assumes "sorted_wrt disjnt (A # map byte_range ((b # queue) @ held))"
  shows "sorted_wrt disjnt (A # map byte_range (queue @ held @ [set_stream b]))"
  using assms by (auto simp: sorted_wrt_append disjnt_sym)

context range_set
begin

lemma in_use_disjoint_init: "initial_stream ops st \<Longrightarrow> in_use_disjoint covered (sys_init st)"
  by (auto simp: initial_stream_def in_use_disjoint_def sys_init_def stream_from_raw_def
      stream_open_def stream_inner_new_def)

lemma in_use_disjoint_event:
  assumes inv: "stream_inv covered s" "in_use_disjoint covered s"
    and running: "st_state (sys_st s) \<noteq> StShutdownComplete"
    and exp: "event_expected ev s" and cb: "stream_callback ev (sys_st s) = (r, st', es)"
  shows "in_use_disjoint covered (s\<lparr>sys_st := st', sys_received := recv, sys_fin := fin,
    sys_completed := n\<rparr>)"
proof (cases "is_receive ev \<or> is_shutdown_complete ev")
  case False
  then have "recv_part st' = recv_part (sys_st s)"
    using stream_event_frame [OF cb] running by blast
  then show ?thesis
    using inv(2) by (simp add: in_use_disjoint_def recv_part_def)
next
  case True
  then show ?thesis
  proof (elim disjE)
    assume "is_receive ev"
    then obtain bufs fin where ev: "ev = EvReceive (length (sys_received s)) (length (concat bufs)) bufs fin"
      and small: "length (concat bufs) < 2 ^ 32"
      using exp by (cases ev) auto
    let ?b = "recv_buffer_new (length (sys_received s)) bufs fin"
    have b: "byte_range ?b = {length (sys_received s)..<length (sys_received s) + length (concat bufs)}"
      using sum_lengths_u32_eq [OF small] by (simp add: byte_range_def recv_buffer_new_def)
    have within: "covered (st_complete_map (sys_st s)) \<union> byte_ranges (st_recv_buffers (sys_st s))
        \<union> byte_ranges (sys_held s) \<subseteq> {..<length (sys_received s)}"
      using inv(1) by (simp add: stream_inv_def recv_inv_def recv_part_def)
    have "st_recv_buffers st' = st_recv_buffers (sys_st s) @ [?b]"
      "st_complete_map st' = st_complete_map (sys_st s)"
      using cb unfolding ev by (auto simp: handle_event_receive_def)
    then show ?thesis
      using disjoint_arrives [OF _ within b] inv(2) by (simp add: in_use_disjoint_def)
  next
    assume "is_shutdown_complete ev"
    then have "st_recv_buffers st' = []" "st_complete_map st' = st_complete_map (sys_st s)"
      using cb by (cases ev; auto simp: handle_event_shutdown_complete_def)+
    then show ?thesis
      using inv(2) by (auto simp: in_use_disjoint_def sorted_wrt_append)
  qed
qed

lemma in_use_disjoint_read:
  assumes inv: "stream_inv covered s" "in_use_disjoint covered s"
    and rd: "stream_poll_read ops w cap (sys_st s) = Ok (r, st', es)"
  shows "in_use_disjoint covered (s\<lparr>sys_st := st', sys_delivered := ds, sys_completed := n\<rparr>)"
proof -
  let ?st = "sys_st s"
  have wf: "\<forall>b\<in>set (st_recv_buffers ?st). rb_wf b"
    and run: "is_run (covered (st_complete_map ?st)) (st_complete_cursor ?st)"
    using inv(1) by (auto simp: stream_inv_def recv_inv_def recv_part_def)
  obtain r1 st1 popped where g:
    "poll_read_generic w (\<lambda>bufs. read_loop cap bufs [] False []) ?st = Ok (r1, st1, map set_stream popped)"
    "map byte_range (st_recv_buffers ?st) = map byte_range (popped @ st_recv_buffers st1)"
    "st_complete_map st1 = st_complete_map ?st" "st_complete_cursor st1 = st_complete_cursor ?st"
    by (rule poll_read_generic_spec [OF wf])
  obtain st2 es2 where d: "drop_recv_buffers ops (map set_stream popped) st1 = (st2, es2)"
    by fastforce
  have "is_run (covered (st_complete_map st1)) (st_complete_cursor st1)"
    using run g(3,4) by simp
  note dr = drop_recv_buffers_run [OF this d]
  have eq: "st' = st2"
    using rd g(1) d by (simp add: stream_poll_read_def)
  have after: "st_recv_buffers st2 = st_recv_buffers st1"
    "covered (st_complete_map st2) = covered (st_complete_map ?st) \<union> byte_ranges popped"
    using dr same_but_completion_fields(4) [of st1 st2] g(3) by auto
  have "sorted_wrt disjnt (covered (st_complete_map ?st)
      # map byte_range ((popped @ st_recv_buffers st1) @ sys_held s))"
    using inv(2) g(2) by (simp add: in_use_disjoint_def)
  from disjoint_completed [OF this] show ?thesis
    by (simp add: in_use_disjoint_def eq after)
qed

lemma in_use_disjoint_read_chunk:
  assumes inv: "in_use_disjoint covered s"
    and rd: "stream_poll_read_chunk w (sys_st s) = Ok (r, st', es)"
  shows "in_use_disjoint covered (s\<lparr>sys_st := st', sys_held := sys_held s @ poll_chunk r,
    sys_delivered := ds, sys_completed := n\<rparr>)"
proof (cases "st_recv_state (sys_st s) = RecvStartComplete \<and> st_recv_buffers (sys_st s) \<noteq> []")
  case True
  then obtain b bs where b: "st_recv_buffers (sys_st s) = b # bs"
    by (cases "st_recv_buffers (sys_st s)") auto
  then have "poll_chunk r = [set_stream b]" "recv_part st' = (bs, snd (recv_part (sys_st s)))"
    using rd True by (cases "rb_fin b"; auto simp: recv_part_def stream_poll_read_chunk_def
        poll_read_generic_def pop_chunk_def read_status_from_def)+
  then show ?thesis
    using disjoint_handed_over [OF inv [unfolded in_use_disjoint_def b]]
    by (simp add: in_use_disjoint_def recv_part_def)
next
  case False
  have "recv_part st' = recv_part (sys_st s) \<and> poll_chunk r = []"
  proof (cases "st_recv_state (sys_st s) = RecvStartComplete")
    case True
    then show ?thesis
      using rd False by (auto simp: recv_part_def stream_poll_read_chunk_def poll_read_generic_def
          pop_chunk_def read_status_from_def)
  next
    case other: False
    obtain r1 st1 where "poll_read_generic w pop_chunk (sys_st s) = Ok (r1, st1, [])"
      "recv_part st1 = recv_part (sys_st s)"
      "r1 = Pending \<or> (\<exists>e. r1 = Ready (Inl e)) \<or> r1 = Ready (Inr None)"
      by (rule poll_read_generic_other [OF other])
    then show ?thesis
      using rd by (auto simp: stream_poll_read_chunk_def)
  qed
  then show ?thesis
    using inv by (simp add: in_use_disjoint_def recv_part_def)
qed

lemma in_use_disjoint_drop_chunk:
  assumes inv: "stream_inv covered s" "in_use_disjoint covered s" and held: "sys_held s = xs @ b # ys"
    and dr: "drop_recv_buffer ops b (sys_st s) = (st', es)"
  shows "in_use_disjoint covered (s\<lparr>sys_st := st', sys_held := xs @ ys, sys_completed := n\<rparr>)"
proof -
  have run: "is_run (covered (st_complete_map (sys_st s))) (st_complete_cursor (sys_st s))"
    and rc: "read_complete ops b (sys_st s) = (st', es)"
    using inv held dr by (auto simp: stream_inv_def recv_inv_def recv_part_def drop_recv_buffer_def)
  note r = read_complete_run [OF run rc]
  show ?thesis
    using disjoint_dropped [OF inv(2) [unfolded in_use_disjoint_def held]] r(1)
      same_but_completion_fields(4) [OF r(4)]
    by (simp add: in_use_disjoint_def)
qed

lemma in_use_disjoint_step:
  assumes "stream_step ops allowed s s'" "stream_inv covered s" "in_use_disjoint covered s"
  shows "in_use_disjoint covered s'"
  using assms
proof cases
  case (step_call c st' es)
  then show ?thesis
    using stream_call_frame [of c "sys_st s" st' es] assms(3)
    by (simp add: in_use_disjoint_def recv_part_def)
qed (auto intro: in_use_disjoint_event in_use_disjoint_read in_use_disjoint_read_chunk
  in_use_disjoint_drop_chunk)

lemma stream_reachable_disjoint:
  assumes "stream_reachable ops allowed s"
  shows "in_use_disjoint covered s"
proof -
  have "stream_inv covered s \<and> in_use_disjoint covered s"
    using assms
    by (induction rule: stream_reachable_induct)
      (blast intro: stream_inv_init in_use_disjoint_init stream_inv_step in_use_disjoint_step)+
  then show ?thesis ..
qed

text \<open>While the stream runs, no byte reported as read lies in a buffer that can still be read.\<close>

lemma completed_not_in_use:
  assumes "stream_reachable ops allowed s" "st_state (sys_st s) \<noteq> StShutdownComplete"
    "b \<in> set (st_recv_buffers (sys_st s)) \<union> set (sys_held s)"
  shows "byte_range b \<inter> {..<sys_completed s} = {}"
proof -
  have "{..<sys_completed s} \<subseteq> covered (st_complete_map (sys_st s))"
    using stream_reachable_inv [OF assms(1)] assms(2)
    by (auto simp: stream_inv_def recv_inv_def recv_part_def is_run_def)
  moreover have "disjnt (covered (st_complete_map (sys_st s))) (byte_range b)"
    using stream_reachable_disjoint [OF assms(1)] assms(3) by (auto simp: in_use_disjoint_def)
  ultimately show ?thesis
    by (auto simp: disjnt_def)
qed

lemma completed_all:
  assumes "stream_reachable ops allowed s" "st_state (sys_st s) \<noteq> StShutdownComplete"
  shows "sys_completed s \<le> length (sys_received s)"
    "st_recv_buffers (sys_st s) = [] \<Longrightarrow> sys_held s = [] \<Longrightarrow> sys_completed s = length (sys_received s)"
proof -
  let ?m = "covered (st_complete_map (sys_st s))"
  have i: "is_run ?m (sys_completed s)" "?m \<subseteq> {..<length (sys_received s)}"
    "{..<length (sys_received s)} \<subseteq> ?m \<union> byte_ranges (st_recv_buffers (sys_st s)) \<union> byte_ranges (sys_held s)"
    using stream_reachable_inv [OF assms(1)] assms(2)
    by (auto simp: stream_inv_def recv_inv_def recv_part_def)
  show le: "sys_completed s \<le> length (sys_received s)"
    using i(1,2) lessThan_subset_iff by (metis is_run_def order_trans)
  assume "st_recv_buffers (sys_st s) = []" "sys_held s = []"
  then have "{..<length (sys_received s)} \<subseteq> ?m"
    using i(3) by simp
  then show "sys_completed s = length (sys_received s)"
    using i(1) le unfolding is_run_def by (meson le_neq_implies_less lessThan_iff subsetD)
qed

end

end
