(* ===== verification/Quic_Stream_Waiters.thy ===== *)
theory Quic_Stream_Waiters
  imports Quic_Stream_Correct
begin

text \<open>
  The tasks that wait on a QUIC stream. Whoever is registered as waiting would still be told to
  wait (\<open>waiters_ok\<close>), for every way of using the stream but one: \<open>abort_read\<close> ends the reading side
  and leaves the readers that wait unwoken. After the event \<open>ShutdownComplete\<close> nobody waits, and
  no operation makes anybody wait. Also here: where the start of a stream panics, what the
  adapter to tokio does to a partly filled buffer, and the completion of bytes after shutdown.
\<close>

section \<open>Nobody waits for what has happened\<close>

definition waiters_ok :: "'rs stream \<Rightarrow> bool" where
  "waiters_ok st =
     ((st_read_waiters st \<noteq> [] \<longrightarrow> st_recv_state st = RecvStartComplete \<and> st_recv_buffers st = [])
      \<and> (st_write_shutdown_waiters st \<noteq> [] \<longrightarrow> st_send_state st = SendShutdown)
      \<and> (st_start_waiters st \<noteq> [] \<longrightarrow> st_state st = StStart)
      \<and> (st_recv_state st = RecvStart \<or> st_send_state st = SendStart \<longrightarrow> st_state st = StStart)
      \<and> (st_recv_state st = RecvStart \<longrightarrow> st_stream_type st = Bidirectional)
      \<and> (st_local_open st \<and> (st_state st = StOpen \<or> st_state st = StStart) \<longrightarrow>
           st_send_state st \<noteq> SendStartComplete \<and> st_send_state st \<noteq> SendShutdown
           \<and> st_recv_state st \<noteq> RecvStartComplete \<and> st_recv_state st \<noteq> RecvShutdown)
      \<and> (\<not> st_local_open st \<longrightarrow> st_state st = StOpen \<or> st_state st = StShutdownComplete))"

lemma waiters_ok_init: "initial_stream ops st \<Longrightarrow> waiters_ok st"
  by (auto simp: initial_stream_def waiters_ok_def stream_from_raw_def stream_open_def
      stream_inner_new_def split: if_splits)

lemma waiters_ok_event:
  assumes "waiters_ok st" "stream_callback ev st = (r, st', es)"
    "(\<exists>s i a. ev = EvStartComplete s i a) \<or> ev = EvPeerAccepted \<longrightarrow> st_state st = StStart"
  shows "waiters_ok st'"
proof (cases ev)
  case (EvStartComplete s i acc)
  then show ?thesis
    using assms by (auto simp: waiters_ok_def handle_event_start_complete_def set_start_complete_def
        Let_def split: if_splits)
next
  case EvPeerAccepted
  then show ?thesis
    using assms by (auto simp: waiters_ok_def handle_event_peer_accepted_def set_start_complete_def
        split: if_splits)
next
  case (EvReceive off n bufs fin)
  then show ?thesis
    using assms(1,2) by (clarsimp simp: handle_event_receive_def waiters_ok_def)
next
  case (EvShutdownComplete a b c d e f)
  then show ?thesis
    using assms(1,2) by (clarsimp simp: handle_event_shutdown_complete_def waiters_ok_def)
qed (use assms(1,2) in \<open>clarsimp simp: handle_event_send_complete_def
  handle_event_peer_send_shutdown_def handle_event_peer_send_aborted_def
  handle_event_peer_receive_aborted_def handle_event_send_shutdown_complete_def
  waiters_ok_def\<close>)+

lemma waiters_ok_write:
  assumes "waiters_ok st" "poll_write_generic w f ret st = Ok (r, st', es)"
  shows "waiters_ok st'"
proof -
  note f = poll_write_generic_frame [OF assms(2)]
  from f(8) show ?thesis
  proof (elim disjE conjE)
    assume "st_send_state st' = st_send_state st" "st_start_waiters st' = st_start_waiters st"
    then show ?thesis
      using assms(1) f(1-7) unfolding waiters_ok_def recv_part_def by auto
  next
    assume "st_send_state st' = st_send_state st" "st_send_state st = SendStart"
    then show ?thesis
      using assms(1) f(1-7) unfolding waiters_ok_def recv_part_def by auto
  next
    assume "st_send_state st = SendStartComplete" "st_send_state st' = SendShutdown"
      "st_start_waiters st' = st_start_waiters st"
    then show ?thesis
      using assms(1) f(1-7) unfolding waiters_ok_def recv_part_def by auto
  qed
qed

lemma waiters_ok_start:
  assumes "waiters_ok st" "stream_poll_start w b ret st = Ok (r, st', es)" "st_local_open st"
  shows "waiters_ok st'"
  using assms by (auto simp: waiters_ok_def stream_poll_start_def and_then_eq_Ok_iff
      split: stream_state.splits option.splits if_splits)

lemma waiters_ok_shutdown_write:
  assumes "waiters_ok st"
  shows "waiters_ok (fst (snd (poll_shutdown_write flag code w ret st)))"
  using assms
  by (cases "st_send_state st"; cases ret) (simp_all add: waiters_ok_def poll_shutdown_write_def)

lemma waiters_ok_abort_write:
  assumes "waiters_ok st"
  shows "waiters_ok (fst (snd (stream_abort_write code ret st)))"
  using assms by (cases "st_send_state st"; cases ret) (simp_all add: waiters_ok_def stream_abort_write_def)

lemma waiters_ok_poll_abort_read:
  assumes "waiters_ok st"
  shows "waiters_ok (fst (snd (stream_poll_abort_read w code ret st)))"
  using assms
  by (cases "st_recv_state st"; cases ret) (auto simp: waiters_ok_def stream_poll_abort_read_def)

lemma waiters_ok_id: "waiters_ok st \<Longrightarrow> waiters_ok (snd (stream_instance_id param st))"
  by (cases "st_id st"; cases param) (simp_all add: waiters_ok_def stream_instance_id_def)

lemma waiters_ok_call:
  assumes ok: "waiters_ok st" and st: "stream_call_step c st = Ok (st', es)"
    and "\<not> is_abort_read c" "\<forall>w b ret. c = CallStart w b ret \<longrightarrow> st_local_open st"
  shows "waiters_ok st'"
proof (cases c)
  case (CallStart w b ret)
  then obtain r where "stream_poll_start w b ret st = Ok (r, st', es)"
    using st by (cases "stream_poll_start w b ret st") auto
  with ok CallStart assms(4) show ?thesis
    by (auto intro: waiters_ok_start)
next
  case (CallWrite w buf fin ret)
  then show ?thesis
    using stream_write_calls [OF st] waiters_ok_write [OF ok] by metis
next
  case (CallWriteChunk w buf fin ret)
  then show ?thesis
    using stream_write_calls [OF st] waiters_ok_write [OF ok] by metis
next
  case (CallWriteChunks w bufs fin ret)
  then show ?thesis
    using stream_write_calls [OF st] waiters_ok_write [OF ok] by metis
next
  case (CallFinishWrite w ret)
  then show ?thesis
    using st waiters_ok_shutdown_write [OF ok, of Graceful 0 w ret]
    by (simp add: stream_poll_finish_write_def)
next
  case (CallPollAbortWrite w code ret)
  then show ?thesis
    using st waiters_ok_shutdown_write [OF ok, of AbortSend code w ret]
    by (simp add: stream_poll_abort_write_def)
next
  case (CallAbortWrite code ret)
  then show ?thesis
    using st waiters_ok_abort_write [OF ok, of code ret] by simp
next
  case (CallPollAbortRead w code ret)
  then show ?thesis
    using st waiters_ok_poll_abort_read [OF ok, of w code ret] by simp
next
  case (CallId param)
  then show ?thesis
    using st waiters_ok_id [OF ok, of param] by simp
qed (use assms(3) in auto)

text \<open>A read leaves a waiter behind only with an empty queue.\<close>

lemma waiters_ok_read_generic:
  assumes ok: "waiters_ok st" and g: "poll_read_generic w f st = Ok (r, st', cs)"
    and f: "\<And>status left cs. f (st_recv_buffers st) = Ok (status, left, cs) \<Longrightarrow>
      (status = ReadBlocked None \<longrightarrow> left = []) \<and> (st_recv_buffers st = [] \<longrightarrow> left = [])
      \<and> (st_recv_buffers st = [] \<longrightarrow> (\<forall>x. status \<noteq> ReadFinished x))"
  shows "waiters_ok st'"
proof (cases "st_recv_state st = RecvStartComplete")
  case False
  obtain r1 st1 where o: "poll_read_generic w f st = Ok (r1, st1, [])" "recv_part st1 = recv_part st"
    "st_state st1 = st_state st" "st_recv_state st1 = st_recv_state st"
    "st_send_state st1 = st_send_state st" "st_local_open st1 = st_local_open st"
    "st_stream_type st1 = st_stream_type st" "st_read_waiters st1 = st_read_waiters st"
    "st_write_shutdown_waiters st1 = st_write_shutdown_waiters st"
    "st_start_waiters st1 = st_start_waiters st \<or> st_recv_state st = RecvStart"
    by (rule poll_read_generic_other [OF False])
  have "st' = st1"
    using g o(1) by simp
  with o(10) show ?thesis
  proof (elim disjE)
    assume "st' = st1" "st_start_waiters st1 = st_start_waiters st"
    then show ?thesis
      using ok o(2-9) unfolding waiters_ok_def recv_part_def by auto
  next
    assume "st' = st1" "st_recv_state st = RecvStart"
    then show ?thesis
      using ok o(2-9) unfolding waiters_ok_def recv_part_def by auto
  qed
next
  case True
  then obtain status left cs' where fn: "f (st_recv_buffers st) = Ok (status, left, cs')"
    using g by (cases "f (st_recv_buffers st)") (auto simp: poll_read_generic_def)
  note fs = f [OF fn]
  show ?thesis
  proof (cases status)
    case (Readable x)
    then have "st' = st\<lparr>st_recv_buffers := left\<rparr>"
      using g fn True by (simp add: poll_read_generic_def)
    then show ?thesis
      using ok fs by (simp add: waiters_ok_def)
  next
    case (ReadFinished x)
    then have "st' = st\<lparr>st_recv_buffers := left, st_recv_state := RecvShutdown\<rparr>"
      "st_recv_buffers st \<noteq> []"
      using g fn True fs by (auto simp: poll_read_generic_def)
    then show ?thesis
      using ok True by (simp add: waiters_ok_def)
  next
    case (ReadBlocked x)
    show ?thesis
    proof (cases x)
      case None
      then have "st' = st\<lparr>st_recv_buffers := left, st_read_waiters := st_read_waiters st @ [w]\<rparr>"
        "left = []"
        using g fn True ReadBlocked fs by (auto simp: poll_read_generic_def)
      then show ?thesis
        using ok True by (simp add: waiters_ok_def)
    next
      case (Some y)
      then have "st' = st\<lparr>st_recv_buffers := left\<rparr>"
        using g fn True ReadBlocked by (simp add: poll_read_generic_def)
      then show ?thesis
        using ok fs by (simp add: waiters_ok_def)
    qed
  qed
qed

lemma waiters_ok_read_chunk:
  assumes "waiters_ok st" "stream_poll_read_chunk w st = Ok (r, st', es)"
  shows "waiters_ok st'"
proof -
  obtain cs where "poll_read_generic w pop_chunk st = Ok (r, st', cs)"
    using assms(2) by (auto simp: stream_poll_read_chunk_def and_then_eq_Ok_iff)
  then show ?thesis
    by (rule waiters_ok_read_generic [OF assms(1)])
      (auto simp: pop_chunk_def read_status_from_def split: list.splits bool.splits)
qed

lemma waiters_ok_completion: "waiters_ok st \<Longrightarrow> same_but_completion st st' \<Longrightarrow> waiters_ok st'"
  using same_but_completion_fields [of st st'] by (simp add: waiters_ok_def)

lemma same_but_completion_updates [simp]:
  "same_but_completion st (st\<lparr>st_complete_map := m\<rparr>)"
  "same_but_completion st (st\<lparr>st_complete_map := m, st_complete_cursor := c\<rparr>)"
  "same_but_completion st (st\<lparr>st_complete_cursor := c\<rparr>)" "same_but_completion st st"
  by (simp_all add: same_but_completion_def)

lemma read_complete_same: "same_but_completion st (fst (read_complete ops b st))"
  by (simp add: read_complete_def recv_buffer_range_def Let_def split: option.split prod.split)

lemma drop_recv_buffers_same: "same_but_completion st (fst (drop_recv_buffers ops bs st))"
proof (induction bs arbitrary: st)
  case Nil
  then show ?case
    by (simp add: same_but_completion_def)
next
  case (Cons b bs)
  have "same_but_completion st (fst (drop_recv_buffer ops b st))"
    by (simp add: drop_recv_buffer_def read_complete_same)
  from same_but_completion_trans [OF this Cons.IH] show ?case
    by (simp add: Let_def split_beta)
qed

text \<open>A read takes from the queue as much as there is and as fits, and leaves the rest.\<close>

lemma poll_read_takes:
  assumes "st_recv_state st = RecvStartComplete" "\<forall>b\<in>set (st_recv_buffers st). rb_wf b"
    "pending_bytes (st_recv_buffers st) \<noteq> []"
  shows "\<exists>st' es. stream_poll_read ops w cap st =
      Ok (Ready (Inr (take cap (pending_bytes (st_recv_buffers st)))), st', es)
    \<and> pending_bytes (st_recv_buffers st') = drop cap (pending_bytes (st_recv_buffers st))"
proof -
  have empty: "length ([] :: u8 list) \<le> cap"
    by simp
  obtain status left popped got where l:
    "read_loop cap (st_recv_buffers st) [] False [] = Ok (status, left, map set_stream popped)"
    "status_bytes status = got" "length got \<le> cap"
    "pending_bytes (st_recv_buffers st) = got @ pending_bytes left"
    "case status of Readable _ \<Rightarrow> length got = cap
     | ReadFinished r \<Rightarrow> left = [] \<and> (st_recv_buffers st = [] \<longrightarrow> False)
     | ReadBlocked r \<Rightarrow> left = [] \<and> (r = None \<longleftrightarrow> got = [])"
    using read_loop_correct [OF assms(2) empty, of False "[]", unfolded append_Nil] by blast
  have got: "got = take cap (pending_bytes (st_recv_buffers st))"
    "pending_bytes left = drop cap (pending_bytes (st_recv_buffers st))"
    using l(3-5) by (auto split: read_status.splits)
  obtain r1 st1 where g: "poll_read_generic w (\<lambda>bufs. read_loop cap bufs [] False []) st
      = Ok (Ready (Inr r1), st1, map set_stream popped)"
    "st_recv_buffers st1 = left" "(case r1 of Some bs \<Rightarrow> bs | None \<Rightarrow> []) = got"
  proof (cases status)
    case (ReadBlocked r)
    then show ?thesis
      using assms(1,3) l that by (cases r) (auto simp: poll_read_generic_def)
  qed (use assms(1) l that in \<open>auto simp: poll_read_generic_def\<close>)
  obtain st2 es where d: "drop_recv_buffers ops (map set_stream popped) st1 = (st2, es)"
    by fastforce
  have "st_recv_buffers st2 = left"
    using same_but_completion_fields(4) [OF drop_recv_buffers_same] d g(2) by (metis fst_conv)
  then show ?thesis
    unfolding got(1) [symmetric] using got(2) g(1,3) d by (simp add: stream_poll_read_def)
qed

lemma waiters_ok_read:
  assumes "waiters_ok st" "\<forall>b\<in>set (st_recv_buffers st). rb_wf b"
    "stream_poll_read ops w cap st = Ok (r, st', es)"
  shows "waiters_ok st'"
proof -
  obtain r1 st1 cs where g: "poll_read_generic w (\<lambda>bufs. read_loop cap bufs [] False []) st = Ok (r1, st1, cs)"
    and st': "st' = fst (drop_recv_buffers ops cs st1)"
    using assms(3) by (auto simp: stream_poll_read_def and_then_eq_Ok_iff Let_def split: prod.splits)
  have empty: "length ([] :: u8 list) \<le> cap"
    by simp
  obtain status left popped got where l:
    "read_loop cap (st_recv_buffers st) [] False [] = Ok (status, left, map set_stream popped)"
    "pending_bytes (st_recv_buffers st) = got @ pending_bytes left"
    "case status of Readable _ \<Rightarrow> length got = cap
     | ReadFinished r \<Rightarrow> left = [] \<and> (st_recv_buffers st = [] \<longrightarrow> False)
     | ReadBlocked r \<Rightarrow> left = [] \<and> (r = None \<longleftrightarrow> got = [])"
    using read_loop_correct [OF assms(2) empty, of False "[]", unfolded append_Nil] by blast
  have "waiters_ok st1"
  proof (rule waiters_ok_read_generic [OF assms(1) g])
    fix status' left' cs'
    assume "read_loop cap (st_recv_buffers st) [] False [] = Ok (status', left', cs')"
    then have "status' = status" "left' = left"
      using l(1) by auto
    moreover have "left = []" if "st_recv_buffers st = []"
      using l(1) that by (auto simp: read_loop.simps [of cap] split: if_splits)
    ultimately show "(status' = ReadBlocked None \<longrightarrow> left' = []) \<and>
        (st_recv_buffers st = [] \<longrightarrow> left' = []) \<and>
        (st_recv_buffers st = [] \<longrightarrow> (\<forall>x. status' \<noteq> ReadFinished x))"
      using l(3) by auto
  qed
  then show ?thesis
    unfolding st' by (rule waiters_ok_completion [OF _ drop_recv_buffers_same])
qed

lemma waiters_ok_step:
  assumes "stream_step ops (\<lambda>c. \<not> is_abort_read c) s s'" "waiters_ok (sys_st s)"
    "\<forall>b\<in>set (st_recv_buffers (sys_st s)). rb_wf b"
  shows "waiters_ok (sys_st s')"
  using assms
proof (cases rule: stream_step.cases)
  case (step_event ev r st' es)
  then have "(\<exists>s i a. ev = EvStartComplete s i a) \<or> ev = EvPeerAccepted \<longrightarrow> st_state (sys_st s) = StStart"
    by auto
  then show ?thesis
    using step_event assms(2) waiters_ok_event [of "sys_st s" ev r st' es] by simp
next
  case (step_read w cap r st' es)
  then show ?thesis
    using assms(2,3) waiters_ok_read by simp
next
  case (step_read_chunk w r st' es)
  then show ?thesis
    using assms(2) waiters_ok_read_chunk by simp
next
  case (step_drop_chunk xs b ys st' es)
  have "same_but_completion (sys_st s) st'"
    using step_drop_chunk drop_recv_buffers_same [of "sys_st s" ops "[b]"] by simp
  then show ?thesis
    using step_drop_chunk assms(2) waiters_ok_completion by simp
next
  case (step_call c st' es)
  then show ?thesis
    using assms(2) waiters_ok_call [of "sys_st s" c st' es] by (cases c) simp_all
qed

context range_set
begin

lemma stream_reachable_waiters:
  assumes "stream_reachable ops (\<lambda>c. \<not> is_abort_read c) s"
  shows "waiters_ok (sys_st s)"
proof -
  have "stream_inv covered s \<and> waiters_ok (sys_st s)"
    using assms
  proof (induction rule: stream_reachable_induct)
    case (init st)
    then show ?case
      using stream_inv_init waiters_ok_init by (auto simp: sys_init_def)
  next
    case (step s s')
    moreover have "\<forall>b\<in>set (st_recv_buffers (sys_st s)). rb_wf b"
      using step(1) by (auto simp: stream_inv_def recv_inv_def recv_part_def)
    ultimately show ?case
      using stream_inv_step waiters_ok_step by blast
  qed
  then show ?thesis ..
qed

end

text \<open>What the invariant says of polling again: every waiter would wait again.\<close>

lemma waiters_ok_polls:
  assumes "waiters_ok st"
  shows "st_read_waiters st \<noteq> [] \<Longrightarrow> cap > 0 \<Longrightarrow>
      \<exists>st' es. stream_poll_read ops w cap st = Ok (Pending, st', es)"
    "st_write_shutdown_waiters st \<noteq> [] \<Longrightarrow> \<exists>st' es. stream_poll_finish_write w ret st = (Pending, st', es)"
    "st_start_waiters st \<noteq> [] \<Longrightarrow> \<exists>st' es. stream_poll_start w b ret st = Ok (Pending, st', es)"
  using assms
  by (auto simp: waiters_ok_def stream_poll_read_def poll_read_generic_def read_loop.simps [of cap]
      read_status_from_def stream_poll_finish_write_def poll_shutdown_write_def stream_poll_start_def)

section \<open>After shutdown\<close>

definition stream_is_down :: "'rs stream \<Rightarrow> bool" where
  "stream_is_down st = (st_state st = StShutdownComplete \<and> st_recv_state st = RecvShutdownComplete
     \<and> st_send_state st = SendShutdownComplete \<and> st_recv_buffers st = []
     \<and> st_start_waiters st = [] \<and> st_read_waiters st = [] \<and> st_write_shutdown_waiters st = [])"

lemma shutdown_complete_down:
  assumes "stream_callback (EvShutdownComplete a b c d e f) st = (r, st', es)"
  shows "stream_is_down st'"
    "wakes es = st_start_waiters st @ st_read_waiters st @ st_write_shutdown_waiters st"
  using assms by (auto simp: stream_is_down_def handle_event_shutdown_complete_def)

text \<open>On a stream that is down no operation waits, and none changes the stream.\<close>

lemma down_polls:
  assumes "stream_is_down st"
  shows "\<exists>x. stream_poll_read ops w cap st = Ok (Ready x, st, [])"
    "\<exists>x. stream_poll_read_chunk w st = Ok (Ready x, st, [])"
    "\<exists>x. stream_poll_write w buf fin ret st = Ok (Ready x, st, [])"
    "\<exists>x. stream_poll_write_chunk w buf fin ret st = Ok (Ready x, st, [])"
    "\<exists>x. stream_poll_write_chunks w bufs fin ret st = Ok (Ready x, st, [])"
    "\<exists>x. stream_poll_finish_write w ret st = (Ready x, st, [])"
    "\<exists>x. stream_poll_abort_write w code ret st = (Ready x, st, [])"
    "\<exists>x. stream_poll_abort_read w code ret st = (Ready x, st, [])"
  using assms
  by (auto simp: stream_is_down_def stream_poll_read_def stream_poll_read_chunk_def
      poll_read_generic_def stream_poll_write_def stream_poll_write_chunk_def
      stream_poll_write_chunks_def poll_write_generic_def unwrap_or_zero_def
      stream_poll_finish_write_def stream_poll_abort_write_def poll_shutdown_write_def
      stream_poll_abort_read_def)

text \<open>
  Only the start of the stream can still panic: the status of a failed start is unwrapped to a
  known code, and an aborted start expects the error of the connection, which is set only
  when the shutdown event names the connection.
\<close>

lemma poll_start_panics_iff:
  "is_panic (stream_poll_start w b ret st) \<longleftrightarrow>
     (st_state st = StStartComplete \<or> st_state st = StShutdownComplete)
     \<and> ((\<exists>n. st_start_status st = Some (UnknownCode n))
        \<or> st_conn_error st = None
          \<and> (st_start_status st = Some Aborted \<or> st_start_status st = Some InvalidState))"
  by (auto simp: stream_poll_start_def start_outcome_def is_panic_and_then status_is_ok_def
      split: stream_state.splits option.splits status.splits)

section \<open>Two ways of losing out\<close>

text \<open>
  \<open>abort_read\<close> ends the reading side without waking the readers: a task that waits for data is
  not woken although its read would now return. (\<open>poll_abort_read\<close> wakes them.)
\<close>

lemma abort_read_leaves_reader:
  assumes "st_recv_state st = RecvStartComplete" "stream_abort_read code None st = (r, st', es)"
  shows "wakes es = []" "st_read_waiters st' = st_read_waiters st"
    "\<exists>x. stream_poll_read ops w cap st' = Ok (Ready x, st', [])"
  using assms by (auto simp: stream_abort_read_def wakes_def stream_poll_read_def
      poll_read_generic_def split: option.splits)

text \<open>
  The adapter to tokio reads into the initialised memory from its start, also over bytes that are
  already filled, and a buffer with no initialised memory takes nothing, which means end of file.
\<close>

lemma tokio_read_overwrites:
  assumes "tokio_poll_read ops w b st = Ok (Ready (Inr ()), b', st', es)"
  shows "\<exists>bytes. rbuf_init b' = bytes @ drop (length bytes) (rbuf_init b) \<and> rbuf_filled b' = length bytes"
proof -
  obtain r st1 es1 where r: "stream_poll_read ops w (length (rbuf_init b)) st = Ok (r, st1, es1)"
    using assms by (auto simp: tokio_poll_read_def and_then_eq_Ok_iff)
  show ?thesis
  proof (cases "\<exists>bytes. r = Ready (Inr bytes)")
    case True
    then obtain bytes where "r = Ready (Inr bytes)" ..
    then show ?thesis
      using assms r by (intro exI [of _ bytes])
        (auto simp: tokio_poll_read_def and_then_eq_Ok_iff set_filled_def split: if_splits)
  next
    case False
    then show ?thesis
      using assms r by (cases r) (auto simp: tokio_poll_read_def split: sum.splits)
  qed
qed

lemma tokio_read_uninitialised:
  assumes "st_recv_state st = RecvStartComplete" "rbuf_init b = []"
  shows "tokio_poll_read ops w b st = Ok (Ready (Inr ()), b\<lparr>rbuf_filled := 0\<rparr>, st, [])"
  using assms by (simp add: tokio_poll_read_def stream_poll_read_def poll_read_generic_def
      read_loop.simps [of 0] set_filled_def)

section \<open>A range set\<close>

text \<open>
  A range set by the list of its elements, on which the hypotheses about \<open>RangeSet\<close> hold.
\<close>

definition list_first :: "nat list \<Rightarrow> (nat \<times> nat) option" where
  "list_first m =
     (if m = [] then None
      else let lo = Min (set m) in
        Some (lo, hd (filter (\<lambda>x. x \<notin> set m) [lo..<Suc (Suc (Max (set m)))])))"

definition list_range_set :: "nat list range_set_ops" where
  "list_range_set =
     \<lparr>rs_new = [], rs_insert = (\<lambda>(a, b) m. [a..<b] @ m), rs_first = list_first\<rparr>"

lemma hd_filter_upt:
  assumes "P n" "lo \<le> n" "n < hi"
  shows "P (hd (filter P [lo..<hi])) \<and> (\<forall>x\<in>{lo..<hd (filter P [lo..<hi])}. \<not> P x)
    \<and> lo \<le> hd (filter P [lo..<hi])"
  using assms
proof (induction "hi - lo" arbitrary: lo)
  case (Suc k)
  have upt: "[lo..<hi] = lo # [Suc lo..<hi]"
    using Suc.prems by (simp add: upt_conv_Cons)
  show ?case
  proof (cases "P lo")
    case True
    then show ?thesis
      by (simp add: upt)
  next
    case False
    then have "Suc lo \<le> n"
      using Suc.prems by (metis Suc_leI le_neq_implies_less)
    moreover have "k = hi - Suc lo"
      using Suc.hyps(2) by simp
    ultimately have n: "k = hi - Suc lo" "Suc lo \<le> n"
      by blast+
    have ih: "P (hd (filter P [Suc lo..<hi]))
        \<and> (\<forall>x\<in>{Suc lo..<hd (filter P [Suc lo..<hi])}. \<not> P x) \<and> Suc lo \<le> hd (filter P [Suc lo..<hi])"
      by (rule Suc.hyps(1) [OF n(1) Suc.prems(1) n(2) Suc.prems(3)])
    have "\<not> P x" if "lo \<le> x" "x < hd (filter P [Suc lo..<hi])" for x
    proof (cases "x = lo")
      case False
      then have "x \<in> {Suc lo..<hd (filter P [Suc lo..<hi])}"
        using that by simp
      then show ?thesis
        using ih by blast
    qed (simp add: \<open>\<not> P lo\<close>)
    then have "\<forall>x\<in>{lo..<hd (filter P [Suc lo..<hi])}. \<not> P x"
      unfolding atLeastLessThan_iff Ball_def by blast
    moreover have "filter P [lo..<hi] = filter P [Suc lo..<hi]"
      using False unfolding upt by simp
    moreover have "lo \<le> hd (filter P [Suc lo..<hi])"
      using ih Suc_leD by blast
    ultimately show ?thesis
      using ih by (elim conjE) (simp only: simp_thms)
  qed
qed simp

lemma list_range_set_ok: "range_set list_range_set set"
proof
  fix m :: "nat list" and a b :: nat
  show "rs_first list_range_set m = None \<longleftrightarrow> set m = {}"
    by (simp add: list_range_set_def list_first_def Let_def)
  assume f: "rs_first list_range_set m = Some (a, b)"
  then have m: "m \<noteq> []" and a: "a = Min (set m)"
    and b: "b = hd (filter (\<lambda>x. x \<notin> set m) [a..<Suc (Suc (Max (set m)))])"
    by (auto simp: list_range_set_def list_first_def Let_def split: if_splits)
  have new: "Suc (Max (set m)) \<notin> set m"
    using Max_ge [of "set m" "Suc (Max (set m))"] not_less_eq_eq by blast
  have le: "a \<le> Suc (Max (set m))"
    using m a by (simp add: Min_le_iff le_SucI)
  have "b \<notin> set m \<and> (\<forall>x\<in>{a..<b}. \<not> x \<notin> set m) \<and> a \<le> b"
    unfolding b
    by (rule hd_filter_upt [where P = "\<lambda>x. x \<notin> set m", OF _ le lessI]) (rule new)
  moreover have "a \<in> set m"
    using m a by simp
  ultimately show "a < b \<and> {a..<b} \<subseteq> set m \<and> b \<notin> set m \<and> (\<forall>x\<in>set m. a \<le> x)"
    using a by (auto simp: le_less intro!: Min_le [THEN le_neq_trans])
qed (auto simp: list_range_set_def)

interpretation list_ranges: range_set list_range_set set
  by (rule list_range_set_ok)

end
