(* ===== verification/Quic_Connection.thy ===== *)
theory Quic_Connection
  imports Quic_Stream
begin

text \<open>
  A QUIC connection of the asynchronous binding
  (\<open>transport-layer/src/msquic/msquic_async/connection.rs\<close>): the state under its lock, the operations a
  task polls and the handlers of the library's events. As for streams, an operation returns its
  result, the new state and its effects, \<open>ret\<close> is what its library call returns, and a panic
  is an outcome: \<open>expect("error")\<close> of an absent error is \<open>Panic UnwrapFailed\<close>. A stream that the
  peer started is queued with the library's handle for it.
\<close>

section \<open>State\<close>

datatype connection_state = ConnOpen | Connecting | Connected | ConnShutdown | ConnShutdownComplete

type_synonym handle = nat

record 'rs connection =
  cn_state :: connection_state
  cn_error :: "connection_error option"
  cn_start_waiters :: "waker list"
  cn_certificate_waiters :: "waker list"
  cn_inbound_stream_waiters :: "waker list"
  cn_inbound_uni_stream_waiters :: "waker list"
  cn_inbound_streams :: "(handle \<times> 'rs stream) list"
  cn_inbound_uni_streams :: "(handle \<times> 'rs stream) list"
  cn_recv_buffers :: "u8 list list"
  cn_recv_waiters :: "waker list"
  cn_write_pool :: "write_buffer list"
  cn_shutdown_waiters :: "waker list"
  cn_negotiated_alpn :: "u8 list"
  cn_certificate :: "u8 list option"

definition connection_inner_new :: "connection_state \<Rightarrow> 'rs connection" where
  "connection_inner_new state =
     \<lparr>cn_state = state, cn_error = None, cn_start_waiters = [], cn_certificate_waiters = [],
      cn_inbound_stream_waiters = [], cn_inbound_uni_stream_waiters = [], cn_inbound_streams = [],
      cn_inbound_uni_streams = [], cn_recv_buffers = [], cn_recv_waiters = [], cn_write_pool = [],
      cn_shutdown_waiters = [], cn_negotiated_alpn = [], cn_certificate = None\<rparr>"

definition connection_new :: "status option \<Rightarrow> connection_error + 'rs connection" where
  "connection_new ret =
     (case ret of Some s \<Rightarrow> Inl (ConnectionOtherError s) | None \<Rightarrow> Inr (connection_inner_new ConnOpen))"

definition connection_from_raw :: "bool \<Rightarrow> 'rs connection" where
  "connection_from_raw is_connected =
     connection_inner_new (if is_connected then Connected else Connecting)"

text \<open>The negotiated protocol name, as the bytes the library reported.\<close>

definition get_negotiated_alpn :: "'rs connection \<Rightarrow> u8 list option" where
  "get_negotiated_alpn c = (if cn_negotiated_alpn c \<noteq> [] then Some (cn_negotiated_alpn c) else None)"

definition get_remote_certificate_hash :: "(u8 list \<Rightarrow> u8 list) \<Rightarrow> 'rs connection \<Rightarrow> u8 list option" where
  "get_remote_certificate_hash cert_hash c = map_option cert_hash (cn_certificate c)"

section \<open>Operations\<close>

text \<open>\<open>exclusive.error.as_ref().expect("error")\<close> in an error of the given kind.\<close>

definition connection_lost :: "(connection_error \<Rightarrow> 'e) \<Rightarrow> 'rs connection \<Rightarrow>
    (('e + 'a) poll \<times> 'rs connection \<times> effect list) result" where
  "connection_lost lost c =
     (case cn_error c of None \<Rightarrow> Panic UnwrapFailed | Some e \<Rightarrow> Ok (Ready (Inl (lost e)), c, []))"

definition wait_start :: "waker \<Rightarrow> 'rs connection \<Rightarrow>
    (('e + 'a) poll \<times> 'rs connection \<times> effect list) result" where
  "wait_start w c = Ok (Pending, c\<lparr>cn_start_waiters := cn_start_waiters c @ [w]\<rparr>, [])"

datatype conn_start_error = ConnStartLost connection_error | ConnStartOther status

definition connection_poll_accept ::
  "waker \<Rightarrow> 'rs connection \<Rightarrow> ((conn_start_error + unit) poll \<times> 'rs connection \<times> effect list) result" where
  "connection_poll_accept w c =
     (case cn_state c of
        ConnOpen \<Rightarrow> wait_start w c
      | Connecting \<Rightarrow> wait_start w c
      | Connected \<Rightarrow> Ok (Ready (Inr ()), c, [])
      | _ \<Rightarrow> connection_lost ConnStartLost c)"

definition connection_poll_start ::
  "waker \<Rightarrow> status option \<Rightarrow> 'rs connection \<Rightarrow>
     ((conn_start_error + unit) poll \<times> 'rs connection \<times> effect list) result" where
  "connection_poll_start w ret c =
     (case cn_state c of
        ConnOpen \<Rightarrow>
          (case ret of
             Some s \<Rightarrow> Ok (Ready (Inl (ConnStartOther s)), c, [ConnectionStart])
           | None \<Rightarrow> Ok (Pending, c\<lparr>cn_state := Connecting,
                                   cn_start_waiters := cn_start_waiters c @ [w]\<rparr>, [ConnectionStart]))
      | Connecting \<Rightarrow> wait_start w c
      | Connected \<Rightarrow> Ok (Ready (Inr ()), c, [])
      | _ \<Rightarrow> connection_lost ConnStartLost c)"

definition poll_receive_remote_certificate ::
  "waker \<Rightarrow> 'rs connection \<Rightarrow> ((conn_start_error + u8 list) poll \<times> 'rs connection \<times> effect list) result" where
  "poll_receive_remote_certificate w c =
     (case cn_certificate c of
        Some cert \<Rightarrow> Ok (Ready (Inr cert), c, [])
      | None \<Rightarrow>
          (if cn_state c = ConnShutdown \<or> cn_state c = ConnShutdownComplete
           then connection_lost ConnStartLost c
           else Ok (Pending, c\<lparr>cn_certificate_waiters := cn_certificate_waiters c @ [w]\<rparr>, [])))"

text \<open>The test of the connection's state that the operations on a connected connection begin with.\<close>

definition when_connected ::
  "'e \<Rightarrow> (connection_error \<Rightarrow> 'e) \<Rightarrow> waker \<Rightarrow> 'rs connection \<Rightarrow>
     (('e + 'a) poll \<times> 'rs connection \<times> effect list) result \<Rightarrow>
     (('e + 'a) poll \<times> 'rs connection \<times> effect list) result" where
  "when_connected not_started lost w c go =
     (case cn_state c of
        ConnOpen \<Rightarrow> Ok (Ready (Inl not_started), c, [])
      | Connecting \<Rightarrow> wait_start w c
      | Connected \<Rightarrow> go
      | _ \<Rightarrow> connection_lost lost c)"

definition poll_accept_inbound_stream ::
  "waker \<Rightarrow> 'rs connection \<Rightarrow>
     ((start_error + handle \<times> 'rs stream) poll \<times> 'rs connection \<times> effect list) result" where
  "poll_accept_inbound_stream w c =
     when_connected StartConnectionNotStarted StartConnectionLost w c
       (case cn_inbound_streams c of
          s # ss \<Rightarrow> Ok (Ready (Inr s), c\<lparr>cn_inbound_streams := ss\<rparr>, [])
        | [] \<Rightarrow> Ok (Pending, c\<lparr>cn_inbound_stream_waiters := cn_inbound_stream_waiters c @ [w]\<rparr>, []))"

definition poll_accept_inbound_uni_stream ::
  "waker \<Rightarrow> 'rs connection \<Rightarrow>
     ((start_error + handle \<times> 'rs stream) poll \<times> 'rs connection \<times> effect list) result" where
  "poll_accept_inbound_uni_stream w c =
     when_connected StartConnectionNotStarted StartConnectionLost w c
       (case cn_inbound_uni_streams c of
          s # ss \<Rightarrow> Ok (Ready (Inr s), c\<lparr>cn_inbound_uni_streams := ss\<rparr>, [])
        | [] \<Rightarrow>
            Ok (Pending, c\<lparr>cn_inbound_uni_stream_waiters := cn_inbound_uni_stream_waiters c @ [w]\<rparr>, []))"

datatype dgram_receive_error =
  DgramReceiveNotStarted | DgramReceiveLost connection_error | DgramReceiveOther status

datatype dgram_send_error =
    DgramSendNotStarted | DgramSendDenied | DgramSendTooBig | DgramSendLost connection_error
  | DgramSendOther status

definition poll_receive_datagram ::
  "waker \<Rightarrow> 'rs connection \<Rightarrow>
     ((dgram_receive_error + u8 list) poll \<times> 'rs connection \<times> effect list) result" where
  "poll_receive_datagram w c =
     when_connected DgramReceiveNotStarted DgramReceiveLost w c
       (case cn_recv_buffers c of
          b # bs \<Rightarrow> Ok (Ready (Inr b), c\<lparr>cn_recv_buffers := bs\<rparr>, [])
        | [] \<Rightarrow> Ok (Pending, c\<lparr>cn_recv_waiters := cn_recv_waiters c @ [w]\<rparr>, []))"

definition datagram_send ::
  "u8 list \<Rightarrow> status option \<Rightarrow> 'rs connection \<Rightarrow>
     (dgram_send_error + unit) \<times> 'rs connection \<times> effect list" where
  "datagram_send buf ret c =
     (let (wb, pool) = pool_pop (cn_write_pool c);
          (bufs, wb') = get_buffers (snd (put_zerocopy buf wb))
      in (case ret of None \<Rightarrow> Inr () | Some s \<Rightarrow> Inl (DgramSendOther s),
          c\<lparr>cn_write_pool := pool\<rparr>, [DatagramSend (concat bufs)]))"

definition poll_send_datagram ::
  "waker \<Rightarrow> u8 list \<Rightarrow> status option \<Rightarrow> 'rs connection \<Rightarrow>
     ((dgram_send_error + unit) poll \<times> 'rs connection \<times> effect list) result" where
  "poll_send_datagram w buf ret c =
     when_connected DgramSendNotStarted DgramSendLost w c
       (let (r, c', es) = datagram_send buf ret c in Ok (Ready r, c', es))"

definition send_datagram ::
  "u8 list \<Rightarrow> status option \<Rightarrow> 'rs connection \<Rightarrow>
     ((dgram_send_error + unit) \<times> 'rs connection \<times> effect list) result" where
  "send_datagram buf ret c =
     (case cn_state c of
        ConnOpen \<Rightarrow> Ok (Inl DgramSendNotStarted, c, [])
      | Connecting \<Rightarrow> Ok (Inl DgramSendNotStarted, c, [])
      | Connected \<Rightarrow> Ok (datagram_send buf ret c)
      | _ \<Rightarrow> (case cn_error c of
                None \<Rightarrow> Panic UnwrapFailed | Some e \<Rightarrow> Ok (Inl (DgramSendLost e), c, [])))"

datatype shutdown_error =
  ShutdownNotStarted | ShutdownLost connection_error | ShutdownOther status

definition local_shutdown :: "'rs connection \<Rightarrow> 'rs connection" where
  "local_shutdown c =
     c\<lparr>cn_state := ConnShutdown,
       cn_error := (case cn_error c of None \<Rightarrow> Some ShutdownByLocal | Some e \<Rightarrow> Some e)\<rparr>"

definition connection_poll_shutdown ::
  "waker \<Rightarrow> u64 \<Rightarrow> 'rs connection \<Rightarrow>
     ((shutdown_error + unit) poll \<times> 'rs connection \<times> effect list) result" where
  "connection_poll_shutdown w code c =
     (let wait = (\<lambda>c. c\<lparr>cn_shutdown_waiters := cn_shutdown_waiters c @ [w]\<rparr>) in
      case cn_state c of
        ConnOpen \<Rightarrow> Ok (Ready (Inl ShutdownNotStarted), c, [])
      | Connecting \<Rightarrow> wait_start w c
      | Connected \<Rightarrow> Ok (Pending, wait (local_shutdown c), [ConnectionShutdown code])
      | ConnShutdown \<Rightarrow> Ok (Pending, wait c, [])
      | ConnShutdownComplete \<Rightarrow>
          (if cn_error c = Some ShutdownByLocal then Ok (Ready (Inr ()), c, [])
           else connection_lost ShutdownLost c))"

definition connection_shutdown ::
  "u64 \<Rightarrow> 'rs connection \<Rightarrow> (shutdown_error + unit) \<times> 'rs connection \<times> effect list" where
  "connection_shutdown code c =
     (case cn_state c of
        ConnOpen \<Rightarrow> (Inl ShutdownNotStarted, c, [])
      | Connecting \<Rightarrow> (Inl ShutdownNotStarted, c, [])
      | Connected \<Rightarrow> (Inr (), local_shutdown c, [ConnectionShutdown code])
      | _ \<Rightarrow> (Inr (), c, []))"

text \<open>
  The future of \<open>open_outbound_stream\<close>: the stream type until the stream is opened, then the stream
  until it is started. \<open>open_ret\<close> and \<open>start_ret\<close> are what opening and starting it return.
\<close>

record 'rs open_outbound_stream =
  oo_stream_type :: "stream_type option"
  oo_stream :: "'rs stream option"
  oo_fail_on_blocked :: bool

definition open_outbound_stream_new :: "stream_type \<Rightarrow> bool \<Rightarrow> 'rs open_outbound_stream" where
  "open_outbound_stream_new ty fail =
     \<lparr>oo_stream_type = Some ty, oo_stream = None, oo_fail_on_blocked = fail\<rparr>"

definition open_if_needed ::
  "'rs range_set_ops \<Rightarrow> status option \<Rightarrow> 'rs open_outbound_stream \<Rightarrow>
     ((start_error + 'rs stream) \<times> 'rs open_outbound_stream \<times> effect list) result" where
  "open_if_needed ops open_ret f =
     (case oo_stream f of
        Some st \<Rightarrow> Ok (Inr st, f, [])
      | None \<Rightarrow>
          (case oo_stream_type f of
             None \<Rightarrow> Panic UnwrapFailed
           | Some ty \<Rightarrow>
               (case stream_open ops ty open_ret of
                  (Inl e, es) \<Rightarrow> Ok (Inl e, f\<lparr>oo_stream_type := None\<rparr>, es)
                | (Inr st, es) \<Rightarrow>
                    Ok (Inr st, f\<lparr>oo_stream_type := None, oo_stream := Some st\<rparr>, es))))"

definition poll_open_outbound_stream ::
  "'rs range_set_ops \<Rightarrow> waker \<Rightarrow> status option \<Rightarrow> status option \<Rightarrow> 'rs connection \<Rightarrow>
     'rs open_outbound_stream \<Rightarrow>
     ((start_error + 'rs stream) poll \<times> 'rs connection \<times> 'rs open_outbound_stream \<times> effect list) result" where
  "poll_open_outbound_stream ops w open_ret start_ret c f =
     (case cn_state c of
        ConnOpen \<Rightarrow> Ok (Ready (Inl StartConnectionNotStarted), c, f, [])
      | Connecting \<Rightarrow> Ok (Pending, c\<lparr>cn_start_waiters := cn_start_waiters c @ [w]\<rparr>, f, [])
      | Connected \<Rightarrow>
          and_then (open_if_needed ops open_ret f) (\<lambda>(r, f', es).
            case r of
              Inl e \<Rightarrow> Ok (Ready (Inl e), c, f', es)
            | Inr st \<Rightarrow>
                and_then (stream_poll_start w (oo_fail_on_blocked f') start_ret st)
                  (\<lambda>(p, st', es').
                    case p of
                      Pending \<Rightarrow> Ok (Pending, c, f'\<lparr>oo_stream := Some st'\<rparr>, es @ es')
                    | Ready (Inl e) \<Rightarrow> Ok (Ready (Inl e), c, f'\<lparr>oo_stream := Some st'\<rparr>, es @ es')
                    | Ready (Inr _) \<Rightarrow> Ok (Ready (Inr st'), c, f'\<lparr>oo_stream := None\<rparr>, es @ es')))
      | _ \<Rightarrow> (case cn_error c of
                None \<Rightarrow> Panic UnwrapFailed
              | Some e \<Rightarrow> Ok (Ready (Inl (StartConnectionLost e)), c, f, [])))"

section \<open>The events of the library\<close>

datatype dgram_send_state = DgramUnknown | DgramSent | DgramLostSuspect | DgramAcknowledged | DgramCanceled

datatype connection_event =
    CevConnected bool "u8 list"
  | CevShutdownByTransport status u64
  | CevShutdownByPeer u64
  | CevShutdownComplete bool bool bool
  | CevPeerStreamStarted handle stream_type
  | CevStreamsAvailable nat nat
  | CevDatagramStateChanged bool nat
  | CevDatagramReceived "u8 list"
  | CevDatagramSendStateChanged write_buffer dgram_send_state
  | CevPeerCertificateReceived "u8 list option"
  | CevOther

definition handle_event_connected :: "u8 list \<Rightarrow> 'rs connection \<Rightarrow> 'rs connection \<times> effect list" where
  "handle_event_connected alpn c =
     (c\<lparr>cn_state := Connected, cn_negotiated_alpn := alpn, cn_start_waiters := []\<rparr>,
      map Wake (cn_start_waiters c))"

text \<open>Both shutdown events that precede the completion wake the same four lists of waiters.\<close>

definition shutdown_initiated :: "connection_error \<Rightarrow> 'rs connection \<Rightarrow> 'rs connection \<times> effect list" where
  "shutdown_initiated e c =
     (c\<lparr>cn_state := ConnShutdown, cn_error := Some e, cn_start_waiters := [],
        cn_certificate_waiters := [], cn_inbound_stream_waiters := [],
        cn_inbound_uni_stream_waiters := []\<rparr>,
      map Wake (cn_start_waiters c @ cn_certificate_waiters c @ cn_inbound_stream_waiters c
        @ cn_inbound_uni_stream_waiters c))"

definition handle_event_shutdown_initiated_by_transport where
  "handle_event_shutdown_initiated_by_transport s code = shutdown_initiated (ShutdownByTransport s code)"

definition handle_event_shutdown_initiated_by_peer where
  "handle_event_shutdown_initiated_by_peer code = shutdown_initiated (ShutdownByPeer code)"

definition connection_shutdown_complete :: "'rs connection \<Rightarrow> 'rs connection \<times> effect list" where
  "connection_shutdown_complete c =
     (c\<lparr>cn_state := ConnShutdownComplete,
        cn_error := (case cn_error c of None \<Rightarrow> Some ShutdownByLocal | Some e \<Rightarrow> Some e),
        cn_start_waiters := [], cn_certificate_waiters := [], cn_inbound_stream_waiters := [],
        cn_inbound_uni_stream_waiters := [], cn_shutdown_waiters := []\<rparr>,
      map Wake (cn_start_waiters c @ cn_certificate_waiters c @ cn_inbound_stream_waiters c
        @ cn_inbound_uni_stream_waiters c @ cn_shutdown_waiters c))"

definition handle_event_peer_stream_started ::
  "'rs range_set_ops \<Rightarrow> handle \<Rightarrow> stream_type \<Rightarrow> 'rs connection \<Rightarrow> ('rs connection \<times> effect list) result" where
  "handle_event_peer_stream_started ops h ty c =
     (let (st, es) = stream_from_raw ops ty in
      if ty = Unidirectional
      then (if stream_split st = (True, False)
            then Ok (c\<lparr>cn_inbound_uni_streams := cn_inbound_uni_streams c @ [(h, st)],
                       cn_inbound_uni_stream_waiters := []\<rparr>,
                     es @ map Wake (cn_inbound_uni_stream_waiters c))
            else Panic AssertionFailed)
      else Ok (c\<lparr>cn_inbound_streams := cn_inbound_streams c @ [(h, st)],
                 cn_inbound_stream_waiters := []\<rparr>,
               es @ map Wake (cn_inbound_stream_waiters c)))"

definition handle_event_datagram_received :: "u8 list \<Rightarrow> 'rs connection \<Rightarrow> 'rs connection \<times> effect list" where
  "handle_event_datagram_received buf c =
     (c\<lparr>cn_recv_buffers := cn_recv_buffers c @ [buf], cn_recv_waiters := []\<rparr>,
      map Wake (cn_recv_waiters c))"

definition handle_event_datagram_send_state_changed ::
  "write_buffer \<Rightarrow> dgram_send_state \<Rightarrow> 'rs connection \<Rightarrow> 'rs connection \<times> effect list" where
  "handle_event_datagram_send_state_changed wb s c =
     (if s = DgramSent \<or> s = DgramCanceled
      then (c\<lparr>cn_write_pool := cn_write_pool c @ [write_buffer_reset wb]\<rparr>, [])
      else (c, []))"

definition handle_event_peer_certificate_received ::
  "u8 list option \<Rightarrow> 'rs connection \<Rightarrow> 'rs connection \<times> effect list" where
  "handle_event_peer_certificate_received cert c =
     (case cert of
        None \<Rightarrow> (c, [])
      | Some der \<Rightarrow> (c\<lparr>cn_certificate := Some der, cn_certificate_waiters := []\<rparr>,
                     map Wake (cn_certificate_waiters c)))"

fun connection_callback ::
  "'rs range_set_ops \<Rightarrow> connection_event \<Rightarrow> 'rs connection \<Rightarrow> ('rs connection \<times> effect list) result" where
  "connection_callback ops (CevConnected _ alpn) c = Ok (handle_event_connected alpn c)"
| "connection_callback ops (CevShutdownByTransport s code) c =
     Ok (handle_event_shutdown_initiated_by_transport s code c)"
| "connection_callback ops (CevShutdownByPeer code) c = Ok (handle_event_shutdown_initiated_by_peer code c)"
| "connection_callback ops (CevShutdownComplete _ _ _) c = Ok (connection_shutdown_complete c)"
| "connection_callback ops (CevPeerStreamStarted h ty) c = handle_event_peer_stream_started ops h ty c"
| "connection_callback ops (CevStreamsAvailable _ _) c = Ok (c, [])"
| "connection_callback ops (CevDatagramStateChanged _ _) c = Ok (c, [])"
| "connection_callback ops (CevDatagramReceived buf) c = Ok (handle_event_datagram_received buf c)"
| "connection_callback ops (CevDatagramSendStateChanged wb s) c =
     Ok (handle_event_datagram_send_state_changed wb s c)"
| "connection_callback ops (CevPeerCertificateReceived cert) c =
     Ok (handle_event_peer_certificate_received cert c)"
| "connection_callback ops CevOther c = Ok (c, [])"

end
