(* ===== verification/Quic_Listener.thy ===== *)
theory Quic_Listener
  imports Quic_Connection
begin

text \<open>
  The QUIC listener (\<open>transport-layer/src/msquic/msquic_async/listener.rs\<close>): connections the peer
  opens are queued with the library's handle, tasks poll for the next one, and stopping waits for
  the library's confirmation.
\<close>

datatype listener_state = ListenOpen | ListenStartComplete | ListenShutdown | ListenShutdownComplete

datatype listen_error = NotStarted | AlreadyStarted | ListenFinished | ListenFailed | ListenOther status

record 'rs listener_inner =
  ln_state :: listener_state
  ln_new_connections :: "(handle \<times> 'rs connection) list"
  ln_new_connection_waiters :: "waker list"
  ln_shutdown_complete_waiters :: "waker list"

definition listener_inner_new :: "'rs listener_inner" where
  "listener_inner_new = \<lparr>ln_state = ListenOpen, ln_new_connections = [],
     ln_new_connection_waiters = [], ln_shutdown_complete_waiters = []\<rparr>"

definition listener_new :: "status option \<Rightarrow> (listen_error + 'rs listener_inner) \<times> effect list" where
  "listener_new ret =
     (case ret of
        Some s \<Rightarrow> (Inl (ListenOther s), [ListenerOpen])
      | None \<Rightarrow> (Inr listener_inner_new, [ListenerOpen]))"

definition listener_start ::
  "status option \<Rightarrow> 'rs listener_inner \<Rightarrow> (listen_error + unit) \<times> 'rs listener_inner \<times> effect list" where
  "listener_start ret l =
     (if ln_state l = ListenStartComplete \<or> ln_state l = ListenShutdown
      then (Inl AlreadyStarted, l, [])
      else case ret of
             Some s \<Rightarrow> (Inl (ListenOther s), l, [ListenerStart])
           | None \<Rightarrow> (Inr (), l\<lparr>ln_state := ListenStartComplete\<rparr>, [ListenerStart]))"

definition listener_poll_accept ::
  "waker \<Rightarrow> 'rs listener_inner \<Rightarrow>
     ((listen_error + handle \<times> 'rs connection) poll \<times> 'rs listener_inner \<times> effect list) result" where
  "listener_poll_accept w l =
     (case ln_new_connections l of
        c # cs \<Rightarrow> Ok (Ready (Inr c), l\<lparr>ln_new_connections := cs\<rparr>, [])
      | [] \<Rightarrow>
          (case ln_state l of
             ListenOpen \<Rightarrow> Ok (Ready (Inl NotStarted), l, [])
           | ListenShutdownComplete \<Rightarrow> Ok (Ready (Inl ListenFinished), l, [])
           | _ \<Rightarrow> Ok (Pending,
                      l\<lparr>ln_new_connection_waiters := ln_new_connection_waiters l @ [w]\<rparr>, [])))"

definition listener_poll_stop ::
  "waker \<Rightarrow> 'rs listener_inner \<Rightarrow> (listen_error + unit) poll \<times> 'rs listener_inner \<times> effect list" where
  "listener_poll_stop w l =
     (let wait = (\<lambda>l. l\<lparr>ln_shutdown_complete_waiters := ln_shutdown_complete_waiters l @ [w]\<rparr>) in
      case ln_state l of
        ListenOpen \<Rightarrow> (Ready (Inl NotStarted), l, [])
      | ListenStartComplete \<Rightarrow> (Pending, wait (l\<lparr>ln_state := ListenShutdown\<rparr>), [ListenerStop])
      | ListenShutdown \<Rightarrow> (Pending, wait l, [])
      | ListenShutdownComplete \<Rightarrow> (Ready (Inr ()), l, []))"

text \<open>\<open>ret\<close> is what setting the configuration of the new connection returns.\<close>

definition handle_event_new_connection ::
  "handle \<Rightarrow> status option \<Rightarrow> 'rs listener_inner \<Rightarrow> (status + unit) \<times> 'rs listener_inner \<times> effect list" where
  "handle_event_new_connection h ret l =
     (case ret of
        Some s \<Rightarrow> (Inl s, l, [SetConfiguration])
      | None \<Rightarrow>
          (Inr (),
           l\<lparr>ln_new_connections := ln_new_connections l @ [(h, connection_from_raw False)],
             ln_new_connection_waiters := []\<rparr>,
           [SetConfiguration, SetCallback] @ map Wake (ln_new_connection_waiters l)))"

definition handle_event_stop_complete :: "'rs listener_inner \<Rightarrow> 'rs listener_inner \<times> effect list" where
  "handle_event_stop_complete l =
     (l\<lparr>ln_state := ListenShutdownComplete, ln_new_connection_waiters := [],
        ln_shutdown_complete_waiters := []\<rparr>,
      map Wake (ln_new_connection_waiters l @ ln_shutdown_complete_waiters l))"

end
