(* ===== verification/Quic_Accept.thy ===== *)
theory Quic_Accept
  imports Quic_Listener
begin

text \<open>
  What connections and listeners guarantee. The four queues a task accepts from (connections of a
  listener, bidirectional streams, unidirectional streams and datagrams of a connection) satisfy
  one contract, \<open>wait_queue\<close>: in order, nothing lost or duplicated, and a task that finds the queue empty
  is woken by the next arrival. A connection never panics, and once its shutdown is complete
  no operation waits; but a task that waits for a datagram is not woken by any shutdown.
\<close>

section \<open>A queue with waiting tasks\<close>

datatype 'a queue_op = Push 'a | Poll waker

text \<open>
  A run of arrivals and polls: the items handed out, the tasks told to wait and the tasks woken.
\<close>

fun run_queue ::
  "('a \<Rightarrow> 's \<Rightarrow> ('s \<times> effect list) result) \<Rightarrow>
   (waker \<Rightarrow> 's \<Rightarrow> (('e + 'b) poll \<times> 's \<times> effect list) result) \<Rightarrow>
   'a queue_op list \<Rightarrow> 's \<Rightarrow> ('s \<times> 'b list \<times> waker list \<times> waker list) result" where
  "run_queue push poll_next [] s = Ok (s, [], [], [])"
| "run_queue push poll_next (Push x # qs) s =
     and_then (push x s) (\<lambda>(s1, es).
       and_then (run_queue push poll_next qs s1) (\<lambda>(s2, got, waiting, woken).
         Ok (s2, got, waiting, wakes es @ woken)))"
| "run_queue push poll_next (Poll w # qs) s =
     and_then (poll_next w s) (\<lambda>(r, s1, es).
       and_then (run_queue push poll_next qs s1) (\<lambda>(s2, got, waiting, woken).
         Ok (s2, (case r of Ready (Inr y) \<Rightarrow> [y] | _ \<Rightarrow> []) @ got,
             (case r of Pending \<Rightarrow> [w] | _ \<Rightarrow> []) @ waiting, wakes es @ woken)))"

fun pushed :: "'a queue_op list \<Rightarrow> 'a list" where
  "pushed [] = []"
| "pushed (Push x # qs) = x # pushed qs"
| "pushed (Poll w # qs) = pushed qs"

locale wait_queue =
  fixes queue :: "'s \<Rightarrow> 'b list"
    and waiters :: "'s \<Rightarrow> waker list"
    and accepting :: "'s \<Rightarrow> bool"
    and item :: "'a \<Rightarrow> 'b"
    and push :: "'a \<Rightarrow> 's \<Rightarrow> ('s \<times> effect list) result"
    and poll_next :: "waker \<Rightarrow> 's \<Rightarrow> (('e + 'b) poll \<times> 's \<times> effect list) result"
  assumes push_law: "accepting s \<Longrightarrow> \<exists>s' es. push x s = Ok (s', es) \<and> accepting s'
      \<and> queue s' = queue s @ [item x] \<and> waiters s' = [] \<and> wakes es = waiters s"
    and poll_empty: "accepting s \<Longrightarrow> queue s = [] \<Longrightarrow> \<exists>s'. poll_next w s = Ok (Pending, s', [])
      \<and> accepting s' \<and> queue s' = [] \<and> waiters s' = waiters s @ [w]"
    and poll_item: "accepting s \<Longrightarrow> queue s = y # ys \<Longrightarrow> \<exists>s'. poll_next w s = Ok (Ready (Inr y), s', [])
      \<and> accepting s' \<and> queue s' = ys \<and> waiters s' = waiters s"
begin

text \<open>
  In order, nothing lost or duplicated; whoever is told to wait is woken or still waits, in the
  order of arrival; and nobody waits while there is something to take.
\<close>

lemma run_queue_fifo:
  assumes "accepting s" "waiters s \<noteq> [] \<longrightarrow> queue s = []"
  shows "\<exists>s' got waiting woken. run_queue push poll_next qs s = Ok (s', got, waiting, woken)
    \<and> accepting s' \<and> got @ queue s' = queue s @ map item (pushed qs)
    \<and> waiters s @ waiting = woken @ waiters s' \<and> (waiters s' \<noteq> [] \<longrightarrow> queue s' = [])"
  using assms
proof (induction qs arbitrary: s)
  case Nil
  then show ?case
    by simp
next
  case (Cons q qs)
  show ?case
  proof (cases q)
    case (Push x)
    obtain s1 es where p: "push x s = Ok (s1, es)" "accepting s1" "queue s1 = queue s @ [item x]"
      "waiters s1 = []" "wakes es = waiters s"
      using push_law [OF Cons.prems(1)] by blast
    obtain s' got waiting woken where r: "run_queue push poll_next qs s1 = Ok (s', got, waiting, woken)"
      "accepting s'" "got @ queue s' = queue s1 @ map item (pushed qs)"
      "waiters s1 @ waiting = woken @ waiters s'" "waiters s' \<noteq> [] \<longrightarrow> queue s' = []"
      using Cons.IH [OF p(2)] p(4) by auto
    then show ?thesis
      using Push p by simp
  next
    case (Poll w)
    obtain r s1 where p: "poll_next w s = Ok (r, s1, [])" "accepting s1"
      "(case r of Ready (Inr y) \<Rightarrow> [y] | _ \<Rightarrow> []) @ queue s1 = queue s"
      "waiters s1 = waiters s @ (case r of Pending \<Rightarrow> [w] | _ \<Rightarrow> [])"
      "waiters s1 \<noteq> [] \<longrightarrow> queue s1 = []"
    proof (cases "queue s")
      case Nil
      then obtain s1 where "poll_next w s = Ok (Pending, s1, [])" "accepting s1" "queue s1 = []"
        "waiters s1 = waiters s @ [w]"
        using poll_empty [OF Cons.prems(1)] by blast
      then show ?thesis
        using Nil that by simp
    next
      case (Cons y ys)
      then obtain s1 where "poll_next w s = Ok (Ready (Inr y), s1, [])" "accepting s1"
        "queue s1 = ys" "waiters s1 = waiters s"
        using poll_item [OF Cons.prems(1)] by blast
      then show ?thesis
        using Cons that Cons.prems(2) by simp
    qed
    obtain s' got waiting woken where r: "run_queue push poll_next qs s1 = Ok (s', got, waiting, woken)"
      "accepting s'" "got @ queue s' = queue s1 @ map item (pushed qs)"
      "waiters s1 @ waiting = woken @ waiters s'" "waiters s' \<noteq> [] \<longrightarrow> queue s' = []"
      using Cons.IH [OF p(2) p(5)] by auto
    then show ?thesis
      using Poll p(1-4) by auto
  qed
qed

end

lemma wakes_set [simp]: "wakes (SetCallback # es) = wakes es" "wakes (SetConfiguration # es) = wakes es"
  by (simp_all add: wakes_def)

text \<open>The four queues of the code.\<close>

interpretation accept_connection: wait_queue ln_new_connections ln_new_connection_waiters
  "\<lambda>l. ln_state l = ListenStartComplete \<or> ln_state l = ListenShutdown"
  "\<lambda>h. (h, connection_from_raw False)"
  "\<lambda>h l. Ok (snd (handle_event_new_connection h None l))" listener_poll_accept
  by unfold_locales (auto simp: handle_event_new_connection_def listener_poll_accept_def)

interpretation accept_stream: wait_queue cn_inbound_streams cn_inbound_stream_waiters
  "\<lambda>c. cn_state c = Connected" "\<lambda>h. (h, fst (stream_from_raw ops Bidirectional))"
  "\<lambda>h. handle_event_peer_stream_started ops h Bidirectional" poll_accept_inbound_stream
  for ops
  by unfold_locales (auto simp: handle_event_peer_stream_started_def stream_from_raw_def
      poll_accept_inbound_stream_def when_connected_def)

interpretation accept_uni_stream: wait_queue cn_inbound_uni_streams cn_inbound_uni_stream_waiters
  "\<lambda>c. cn_state c = Connected" "\<lambda>h. (h, fst (stream_from_raw ops Unidirectional))"
  "\<lambda>h. handle_event_peer_stream_started ops h Unidirectional" poll_accept_inbound_uni_stream
  for ops
  by unfold_locales (auto simp: handle_event_peer_stream_started_def stream_from_raw_def
      stream_split_def stream_inner_new_def poll_accept_inbound_uni_stream_def when_connected_def)

interpretation receive_datagram: wait_queue cn_recv_buffers cn_recv_waiters
  "\<lambda>c. cn_state c = Connected" "\<lambda>b. b" "\<lambda>b c. Ok (handle_event_datagram_received b c)"
  poll_receive_datagram
  by unfold_locales (auto simp: handle_event_datagram_received_def poll_receive_datagram_def
      when_connected_def)

section \<open>A connection never panics\<close>

datatype connection_call =
    CcAccept waker
  | CcStart waker "status option"
  | CcCertificate waker
  | CcAcceptStream waker
  | CcAcceptUniStream waker
  | CcReceiveDatagram waker
  | CcPollSendDatagram waker "u8 list" "status option"
  | CcSendDatagram "u8 list" "status option"
  | CcPollShutdown waker u64
  | CcShutdown u64

definition poll_outcome ::
  "('a poll \<times> 's \<times> effect list) result \<Rightarrow> (bool \<times> 's \<times> effect list) result" where
  "poll_outcome = map_result (\<lambda>(r, s, es). (case r of Pending \<Rightarrow> True | Ready _ \<Rightarrow> False, s, es))"

text \<open>A call, with whether it tells the task to wait.\<close>

fun connection_call_step ::
  "connection_call \<Rightarrow> 'rs connection \<Rightarrow> (bool \<times> 'rs connection \<times> effect list) result" where
  "connection_call_step (CcAccept w) c = poll_outcome (connection_poll_accept w c)"
| "connection_call_step (CcStart w ret) c = poll_outcome (connection_poll_start w ret c)"
| "connection_call_step (CcCertificate w) c = poll_outcome (poll_receive_remote_certificate w c)"
| "connection_call_step (CcAcceptStream w) c = poll_outcome (poll_accept_inbound_stream w c)"
| "connection_call_step (CcAcceptUniStream w) c = poll_outcome (poll_accept_inbound_uni_stream w c)"
| "connection_call_step (CcReceiveDatagram w) c = poll_outcome (poll_receive_datagram w c)"
| "connection_call_step (CcPollSendDatagram w b ret) c = poll_outcome (poll_send_datagram w b ret c)"
| "connection_call_step (CcSendDatagram b ret) c =
     map_result (\<lambda>(r, s, es). (False, s, es)) (send_datagram b ret c)"
| "connection_call_step (CcPollShutdown w code) c = poll_outcome (connection_poll_shutdown w code c)"
| "connection_call_step (CcShutdown code) c =
     (let (r, c', es) = connection_shutdown code c in Ok (False, c', es))"

inductive connection_step :: "'rs range_set_ops \<Rightarrow> 'rs connection \<Rightarrow> 'rs connection \<Rightarrow> bool"
  for ops where
  conn_event: "connection_callback ops ev c = Ok (c', es) \<Longrightarrow> connection_step ops c c'"
| conn_call: "connection_call_step call c = Ok (p, c', es) \<Longrightarrow> connection_step ops c c'"

definition connection_reachable :: "'rs range_set_ops \<Rightarrow> 'rs connection \<Rightarrow> bool" where
  "connection_reachable ops c =
     (\<exists>c0. (connection_new None = Inr c0 \<or> (\<exists>b. c0 = connection_from_raw b))
        \<and> (connection_step ops)\<^sup>*\<^sup>* c0 c)"

text \<open>A connection that is shutting down or down knows why.\<close>

definition shutdown_has_error :: "'rs connection \<Rightarrow> bool" where
  "shutdown_has_error c =
     (cn_state c = ConnShutdown \<or> cn_state c = ConnShutdownComplete \<longrightarrow> cn_error c \<noteq> None)"

lemma callback_has_error:
  assumes "shutdown_has_error c" "connection_callback ops ev c = Ok (c', es)"
  shows "shutdown_has_error c'"
  using assms
  by (cases ev) (auto simp: shutdown_has_error_def handle_event_connected_def shutdown_initiated_def
      handle_event_shutdown_initiated_by_transport_def handle_event_shutdown_initiated_by_peer_def
      connection_shutdown_complete_def handle_event_peer_stream_started_def Let_def
      handle_event_datagram_received_def handle_event_datagram_send_state_changed_def
      handle_event_peer_certificate_received_def split: option.splits if_splits prod.splits)

lemma callback_total: "\<not> is_panic (connection_callback ops ev c)"
  by (cases ev) (auto simp: handle_event_peer_stream_started_def stream_from_raw_def stream_split_def
      stream_inner_new_def)

lemma call_total:
  assumes "shutdown_has_error c"
  shows "\<exists>p c' es. connection_call_step call c = Ok (p, c', es) \<and> shutdown_has_error c'"
proof (cases "cn_state c = ConnShutdown \<or> cn_state c = ConnShutdownComplete")
  case True
  then obtain e where "cn_error c = Some e"
    using assms by (auto simp: shutdown_has_error_def)
  then show ?thesis
    using True by (cases call; cases "cn_certificate c")
      (auto simp: shutdown_has_error_def poll_outcome_def connection_poll_accept_def
        connection_poll_start_def poll_receive_remote_certificate_def poll_accept_inbound_stream_def
        poll_accept_inbound_uni_stream_def poll_receive_datagram_def poll_send_datagram_def
        send_datagram_def connection_poll_shutdown_def connection_shutdown_def when_connected_def
        connection_lost_def Let_def)
next
  case False
  then show ?thesis
    by (cases "cn_state c"; cases call)
      (auto simp: shutdown_has_error_def poll_outcome_def connection_poll_accept_def
        connection_poll_start_def poll_receive_remote_certificate_def poll_accept_inbound_stream_def
        poll_accept_inbound_uni_stream_def poll_receive_datagram_def poll_send_datagram_def
        send_datagram_def connection_poll_shutdown_def connection_shutdown_def when_connected_def
        wait_start_def local_shutdown_def datagram_send_def Let_def
        split: option.split list.split prod.split)
qed

lemma reachable_has_error:
  assumes "connection_reachable ops c"
  shows "shutdown_has_error c"
proof -
  obtain c0 where c0: "connection_new None = Inr c0 \<or> (\<exists>b. c0 = connection_from_raw b)"
    and r: "(connection_step ops)\<^sup>*\<^sup>* c0 c"
    using assms by (auto simp: connection_reachable_def)
  from r show ?thesis
  proof (induction rule: rtranclp_induct)
    case base
    then show ?case
      using c0 by (auto simp: shutdown_has_error_def connection_new_def connection_from_raw_def
          connection_inner_new_def split: if_splits)
  next
    case (step c c')
    from step.hyps(2) show ?case
    proof cases
      case (conn_event ev es)
      then show ?thesis
        using callback_has_error step.IH by blast
    next
      case (conn_call call p es)
      then show ?thesis
        using call_total [OF step.IH, of call] by auto
    qed
  qed
qed

section \<open>After shutdown\<close>

lemma shutdown_complete_wakes:
  assumes "connection_shutdown_complete c = (c', es)"
  shows "cn_state c' = ConnShutdownComplete" "shutdown_has_error c'"
    "wakes es = cn_start_waiters c @ cn_certificate_waiters c @ cn_inbound_stream_waiters c
       @ cn_inbound_uni_stream_waiters c @ cn_shutdown_waiters c"
    "cn_start_waiters c' = []" "cn_certificate_waiters c' = []" "cn_inbound_stream_waiters c' = []"
    "cn_inbound_uni_stream_waiters c' = []" "cn_shutdown_waiters c' = []"
  using assms by (auto simp: connection_shutdown_complete_def shutdown_has_error_def
      split: option.splits)

lemma down_calls:
  assumes "cn_state c = ConnShutdownComplete" "shutdown_has_error c"
  shows "connection_call_step call c = Ok (False, c, [])"
proof -
  obtain e where "cn_error c = Some e"
    using assms by (auto simp: shutdown_has_error_def)
  then show ?thesis
    using assms(1) by (cases call; cases "cn_certificate c")
      (auto simp: poll_outcome_def connection_poll_accept_def
        connection_poll_start_def poll_receive_remote_certificate_def poll_accept_inbound_stream_def
        poll_accept_inbound_uni_stream_def poll_receive_datagram_def poll_send_datagram_def
        send_datagram_def connection_poll_shutdown_def connection_shutdown_def when_connected_def
        connection_lost_def)
qed

text \<open>
  The tasks that wait for a datagram are woken by a datagram only: no other event, the shutdown
  events included, touches their list or wakes anybody of it.
\<close>

lemma datagram_waiters_kept:
  assumes "connection_callback ops ev c = Ok (c', es)" "\<forall>b. ev \<noteq> CevDatagramReceived b"
  shows "cn_recv_waiters c' = cn_recv_waiters c"
    "set (wakes es) \<subseteq> set (cn_start_waiters c) \<union> set (cn_certificate_waiters c)
       \<union> set (cn_inbound_stream_waiters c) \<union> set (cn_inbound_uni_stream_waiters c)
       \<union> set (cn_shutdown_waiters c)"
proof (goal_cases)
  case 1
  show ?case
    using assms
    by (cases ev) (auto simp: handle_event_connected_def shutdown_initiated_def
        handle_event_shutdown_initiated_by_transport_def handle_event_shutdown_initiated_by_peer_def
        connection_shutdown_complete_def handle_event_peer_stream_started_def Let_def
        handle_event_datagram_send_state_changed_def handle_event_peer_certificate_received_def
        split: option.splits if_splits prod.splits)
next
  case 2
  show ?case
    using assms
    by (cases ev) (auto simp: handle_event_connected_def shutdown_initiated_def stream_from_raw_def
        handle_event_shutdown_initiated_by_transport_def handle_event_shutdown_initiated_by_peer_def
        connection_shutdown_complete_def handle_event_peer_stream_started_def Let_def
        handle_event_datagram_send_state_changed_def handle_event_peer_certificate_received_def
        split: option.splits if_splits)
qed

section \<open>The listener\<close>

definition listener_waiters_ok :: "'rs listener_inner \<Rightarrow> bool" where
  "listener_waiters_ok l =
     ((ln_new_connection_waiters l \<noteq> [] \<longrightarrow>
         ln_new_connections l = [] \<and> (ln_state l = ListenStartComplete \<or> ln_state l = ListenShutdown))
      \<and> (ln_shutdown_complete_waiters l \<noteq> [] \<longrightarrow> ln_state l = ListenShutdown))"

inductive listener_step :: "'rs listener_inner \<Rightarrow> 'rs listener_inner \<Rightarrow> bool" where
  "listener_start ret l = (r, l', es) \<Longrightarrow> listener_step l l'"
| "listener_poll_accept w l = Ok (p, l', es) \<Longrightarrow> listener_step l l'"
| "listener_poll_stop w l = (p', l', es) \<Longrightarrow> listener_step l l'"
| "handle_event_new_connection h ret l = (r', l', es) \<Longrightarrow> listener_step l l'"
| "handle_event_stop_complete l = (l', es) \<Longrightarrow> listener_step l l'"

lemma listener_waiters_step:
  assumes "listener_step l l'" "listener_waiters_ok l"
  shows "listener_waiters_ok l'"
  using assms
  by cases (auto simp: listener_waiters_ok_def listener_start_def listener_poll_accept_def
      listener_poll_stop_def handle_event_new_connection_def handle_event_stop_complete_def Let_def
      split: if_splits option.splits list.splits listener_state.splits)

lemma listener_reachable_waiters:
  "listener_step\<^sup>*\<^sup>* listener_inner_new l \<Longrightarrow> listener_waiters_ok l"
proof (induction rule: rtranclp_induct)
  case base
  then show ?case
    by (simp add: listener_waiters_ok_def listener_inner_new_def)
qed (rule listener_waiters_step)

lemma stopped_listener_drains:
  assumes "handle_event_stop_complete l = (l', es)"
  shows "wakes es = ln_new_connection_waiters l @ ln_shutdown_complete_waiters l"
    "listener_poll_accept w l' = (case ln_new_connections l of
       c # cs \<Rightarrow> Ok (Ready (Inr c), l'\<lparr>ln_new_connections := cs\<rparr>, [])
     | [] \<Rightarrow> Ok (Ready (Inl ListenFinished), l', []))"
    "listener_poll_stop w l' = (Ready (Inr ()), l', [])"
  using assms by (auto simp: handle_event_stop_complete_def listener_poll_accept_def
      listener_poll_stop_def split: list.splits)

end
