(* ===== verification/Framing.thy ===== *)
theory Framing
  imports Prelude
begin

text \<open>
  The framing of a gossip message on a QUIC stream (\<open>write_buffer_to_stream\<close>,
  \<open>read_message_from_stream\<close> and \<open>MsQuicNetConnection::send\<close> of
  \<open>transport-layer/src/msquic/mod.rs\<close>): a length in four big-endian bytes, then the message. The
  reader's loop is a partial function with \<open>None\<close> for a run that never returns, and its result is
  determined for every stream, however the bytes are cut into reads: the message if the stream
  holds all of it, an endless loop if the stream ends before.
\<close>

section \<open>Writing\<close>

definition be_bytes :: "nat \<Rightarrow> nat \<Rightarrow> u8 list" where
  "be_bytes n x = rev (le_bytes n x)"

definition be_nat :: "u8 list \<Rightarrow> nat" where
  "be_nat bs = le_nat (rev bs)"

lemma be_bytes_inverse: "x < 256 ^ n \<Longrightarrow> be_nat (be_bytes n x) = x"
  by (simp add: be_nat_def be_bytes_def le_bytes_inverse)

lemma length_be_bytes [simp]: "length (be_bytes n x) = n"
  by (simp add: be_bytes_def)

text \<open>What \<open>write_buffer_to_stream\<close> puts on the stream; the cast \<open>as u32\<close> truncates.\<close>

definition encode_frame :: "u8 list \<Rightarrow> u8 list" where
  "encode_frame bytes = be_bytes 4 (unat (as_u32 (length bytes))) @ bytes"

text \<open>
  An awaited step under \<open>tokio::time::timeout\<close>: its own result, or the timer's. \<open>net_send\<close> is given
  the outcome of each step as a function of what the step is asked to do.
\<close>

datatype ('e, 'a) timed = Done "'e + 'a" | TimedOut

datatype 'e send_error =
  OpenTimeout | WriteTimeout | FlushTimeout | CloseTimeout | StepFailed 'e

fun timed_step :: "'e send_error \<Rightarrow> ('e, 'a) timed \<Rightarrow> 'e send_error + 'a" where
  "timed_step err (Done (Inr x)) = Inr x"
| "timed_step err (Done (Inl e)) = Inl (StepFailed e)"
| "timed_step err TimedOut = Inl err"

fun sum_then :: "('e + 'a) \<Rightarrow> ('a \<Rightarrow> 'e + 'b) \<Rightarrow> 'e + 'b" where
  "sum_then (Inl e) f = Inl e"
| "sum_then (Inr x) f = f x"

definition write_buffer_to_stream ::
  "(u8 list \<Rightarrow> ('e, unit) timed) \<Rightarrow> u8 list \<Rightarrow> 'e send_error + unit" where
  "write_buffer_to_stream write_all bytes = timed_step WriteTimeout (write_all (encode_frame bytes))"

definition net_send ::
  "('e, 's) timed \<Rightarrow> ('s \<Rightarrow> u8 list \<Rightarrow> ('e, unit) timed) \<Rightarrow> ('s \<Rightarrow> ('e, unit) timed) \<Rightarrow>
     ('s \<Rightarrow> ('e, unit) timed) \<Rightarrow> u8 list \<Rightarrow> 'e send_error + unit" where
  "net_send open_stream write_all flush close bytes =
     sum_then (timed_step OpenTimeout open_stream) (\<lambda>s.
     sum_then (write_buffer_to_stream (write_all s) bytes) (\<lambda>_.
     sum_then (timed_step FlushTimeout (flush s)) (\<lambda>_.
     timed_step CloseTimeout (close s))))"

lemma net_send_ok_iff:
  "net_send op wr fl cl bytes = Inr () \<longleftrightarrow>
     (\<exists>s. op = Done (Inr s) \<and> wr s (encode_frame bytes) = Done (Inr ()) \<and> fl s = Done (Inr ())
       \<and> cl s = Done (Inr ()))"
proof -
  have t: "timed_step e x = Inr y \<longleftrightarrow> x = Done (Inr y)"
    for e :: "'e send_error" and x :: "('e, 'x) timed" and y
    by (cases "(e, x)" rule: timed_step.cases) auto
  have s: "sum_then x f = Inr y \<longleftrightarrow> (\<exists>z. x = Inr z \<and> f z = Inr y)"
    for x :: "'e send_error + 'x" and f :: "'x \<Rightarrow> 'e send_error + 'y" and y
    by (cases x) auto
  show ?thesis
    by (auto simp: net_send_def write_buffer_to_stream_def t s)
qed

section \<open>Reading\<close>

text \<open>
  The stream as a reader sees it: the pieces that successive reads find, each cut further by the
  room the reader offers, and then either the end of the stream, which every later read reports
  again by returning nothing, or an error.
\<close>

datatype 'e stream_end = Eof | Fails 'e

type_synonym 'e source = "u8 list list \<times> 'e stream_end"

fun read_source :: "nat \<Rightarrow> 'e source \<Rightarrow> 'e + u8 list \<times> 'e source" where
  "read_source room ([], Eof) = Inr ([], ([], Eof))"
| "read_source room ([], Fails e) = Inl e"
| "read_source room (c # cs, fin) =
     Inr (take room c, (if length c \<le> room then cs else drop room c # cs, fin))"

definition source_ok :: "'e source \<Rightarrow> bool" where
  "source_ok src = (\<forall>c\<in>set (fst src). c \<noteq> [])"

definition source_bytes :: "'e source \<Rightarrow> u8 list" where
  "source_bytes src = concat (fst src)"

lemma read_source_bytes:
  assumes "read_source room src = Inr (bs, src')"
  shows "source_bytes src = bs @ source_bytes src'" "snd src' = snd src" "length bs \<le> room"
  using assms by (cases "(room, src)" rule: read_source.cases;
      auto simp: source_bytes_def append_assoc [symmetric] simp del: append_assoc)+

lemma read_source_progress:
  assumes "read_source room src = Inr (bs, src')" "source_ok src" "room > 0" "source_bytes src \<noteq> []"
  shows "bs \<noteq> []" "source_ok src'"
  using assms by (cases "(room, src)" rule: read_source.cases;
      auto simp: source_ok_def source_bytes_def split: if_splits)+

lemma read_source_end:
  assumes "source_ok src" "source_bytes src = []"
  shows "read_source room src = (case snd src of Eof \<Rightarrow> Inr ([], src) | Fails e \<Rightarrow> Inl e)"
proof -
  have "fst src = []"
    using assms by (cases "fst src") (auto simp: source_ok_def source_bytes_def)
  then show ?thesis
    by (cases src) (auto split: stream_end.split)
qed

lemma read_source_Inl:
  assumes "read_source room src = Inl e"
  shows "snd src = Fails e" "source_bytes src = []"
  using assms by (cases "(room, src)" rule: read_source.cases; simp add: source_bytes_def)+

lemma read_source_Inr:
  assumes "source_bytes src \<noteq> [] \<or> snd src = Eof"
  obtains bs src' where "read_source room src = Inr (bs, src')"
  using assms read_source_Inl [of room src] by (cases "read_source room src") force+

lemma read_source_ok:
  assumes "read_source room src = Inr (bs, src')" "source_ok src" "room > 0"
  shows "source_ok src'"
  using assms by (cases "(room, src)" rule: read_source.cases; auto simp: source_ok_def split: if_splits)

text \<open>The loop that drains the stream to its end, 1024 bytes at a time.\<close>

function drain :: "'e source \<Rightarrow> 'e + unit" where
  "drain src =
     (case read_source 1024 src of
        Inl e \<Rightarrow> Inl e
      | Inr (bs, src') \<Rightarrow> if length bs \<noteq> 0 then drain src' else Inr ())"
  by pat_completeness auto

termination drain
proof (relation "measure (\<lambda>src. length (source_bytes src))")
  fix src :: "'e source" and r bs src'
  assume "read_source 1024 src = Inr r" "(bs, src') = r" "length bs \<noteq> 0"
  then show "(src', src) \<in> measure (\<lambda>src. length (source_bytes src))"
    using read_source_bytes(1) [of 1024 src bs src'] by auto
qed simp

declare drain.simps [simp del]

text \<open>
  The main loop. \<open>header\<close> and \<open>decoded\<close> hold what was read into the two buffers, so \<open>header_len\<close> and
  \<open>decoded_len\<close> are their lengths; \<open>size\<close> is the length of the second buffer (0 while it is empty).
\<close>

partial_function (option) read_message_loop ::
  "u8 list \<Rightarrow> nat \<Rightarrow> u8 list \<Rightarrow> 'e source \<Rightarrow> ('e + u8 list) option" where
  "read_message_loop header n decoded src =
     (if length header < 4
      then case read_source (4 - length header) src of
             Inl e \<Rightarrow> Some (Inl e)
           | Inr (bs, src') \<Rightarrow> read_message_loop (header @ bs) n decoded src'
      else let m = (if n = 0 then be_nat header else n) in
        if m = 0 then Some (Inr [])
        else case read_source (m - length decoded) src of
               Inl e \<Rightarrow> Some (Inl e)
             | Inr (bs, src') \<Rightarrow>
                 if length (decoded @ bs) = m
                 then (case drain src' of Inl e \<Rightarrow> Some (Inl e) | Inr _ \<Rightarrow> Some (Inr (decoded @ bs)))
                 else read_message_loop header m (decoded @ bs) src')"

definition read_message_from_stream :: "'e source \<Rightarrow> ('e + u8 list) option" where
  "read_message_from_stream src = read_message_loop [] 0 [] src"

section \<open>What the reader returns\<close>

text \<open>The bytes of a stream hold a whole message, and which.\<close>

definition frame_complete :: "u8 list \<Rightarrow> bool" where
  "frame_complete w = (4 \<le> length w \<and> 4 + be_nat (take 4 w) \<le> length w)"

definition frame_body :: "u8 list \<Rightarrow> u8 list" where
  "frame_body w = take (be_nat (take 4 w)) (drop 4 w)"

lemma drain_result:
  assumes "source_ok src"
  shows "drain src = (case snd src of Eof \<Rightarrow> Inr () | Fails e \<Rightarrow> Inl e)"
  using assms
proof (induction src rule: drain.induct)
  case (1 src)
  show ?case
  proof (cases "source_bytes src = []")
    case True
    then show ?thesis
      using read_source_end [OF "1.prems"] by (subst drain.simps) (auto split: stream_end.split)
  next
    case False
    obtain r bs src' where r: "read_source 1024 src = Inr r" and p: "r = (bs, src')"
      using read_source_Inr [of src 1024] False by metis
    note pr = read_source_progress [OF r [unfolded p] "1.prems" _ False]
    have "drain src' = (case snd src' of Eof \<Rightarrow> Inr () | Fails e \<Rightarrow> Inl e)"
      using "1.IH" [OF r p [symmetric]] pr by simp
    then show ?thesis
      using r p pr read_source_bytes(2) [OF r [unfolded p]] by (subst drain.simps) simp
  qed
qed

text \<open>
  What the loop has read so far: the header only, or the header and part of the message.
\<close>

definition frame_state :: "u8 list \<Rightarrow> nat \<Rightarrow> u8 list \<Rightarrow> bool" where
  "frame_state header n decoded =
     (length header \<le> 4 \<and> (if length header < 4 then n = 0 \<and> decoded = []
        else n = 0 \<and> decoded = [] \<or> n = be_nat header \<and> length decoded < n))"

lemma frame_state_header:
  assumes "frame_state header n decoded" "length header < 4" "length bs \<le> 4 - length header"
  shows "frame_state (header @ bs) n decoded"
  using assms by (auto simp: frame_state_def)

lemma frame_state_body:
  assumes "frame_state header n decoded" "\<not> length header < 4" "m = (if n = 0 then be_nat header else n)"
    "m \<noteq> 0"
  shows "m = be_nat header" "length decoded < m" "take 4 (header @ decoded @ bs) = header"
    "drop 4 (header @ decoded @ bs) = decoded @ bs" "length header = 4"
  using assms by (auto simp: frame_state_def split: if_splits)

lemma read_message_loop_complete:
  assumes "frame_state header n decoded" "source_ok src"
    "frame_complete (header @ decoded @ source_bytes src)"
  shows "read_message_loop header n decoded src =
    (case snd src of
       Eof \<Rightarrow> Some (Inr (frame_body (header @ decoded @ source_bytes src)))
     | Fails e \<Rightarrow> if be_nat (take 4 (header @ decoded @ source_bytes src)) = 0
                  then Some (Inr []) else Some (Inl e))"
  using assms
proof (induction "length (source_bytes src)" arbitrary: header n decoded src rule: less_induct)
  case less
  let ?w = "header @ decoded @ source_bytes src"
  show ?case
  proof (cases "length header < 4")
    case True
    then have dec: "decoded = []"
      using less.prems(1) by (simp add: frame_state_def)
    then have ne: "source_bytes src \<noteq> []"
      using True less.prems(3) by (auto simp: frame_complete_def)
    then obtain bs src' where r: "read_source (4 - length header) src = Inr (bs, src')"
      by (blast intro: read_source_Inr)
    note b = read_source_bytes [OF r] and pr = read_source_progress [OF r less.prems(2) _ ne]
    have "length (source_bytes src') < length (source_bytes src)"
      using b(1) pr(1) True by simp
    note ih = less.hyps [OF this frame_state_header [OF less.prems(1) True b(3)]]
    have "(header @ bs) @ decoded @ source_bytes src' = ?w"
      using b(1) dec by simp
    note ih = ih [unfolded this, OF _ less.prems(3)]
    have "read_message_loop header n decoded src = read_message_loop (header @ bs) n decoded src'"
      using True r by (subst read_message_loop.simps) simp
    then show ?thesis
      using ih pr(2) True b(2) by simp
  next
    case False
    define m where "m = (if n = 0 then be_nat header else n)"
    show ?thesis
    proof (cases "m = 0")
      case True
      then have "be_nat (take 4 ?w) = 0"
        using less.prems(1) False m_def by (auto simp: frame_state_def split: if_splits)
      then show ?thesis
        using False True m_def by (subst read_message_loop.simps)
          (auto simp: frame_body_def split: stream_end.split)
    next
      case nz: False
      note fs = frame_state_body [OF less.prems(1) False m_def nz]
      have body: "m \<le> length decoded + length (source_bytes src)"
        using less.prems(3) fs unfolding frame_complete_def by simp
      then have ne: "source_bytes src \<noteq> []"
        using fs(2) by auto
      then obtain bs src' where r: "read_source (m - length decoded) src = Inr (bs, src')"
        by (blast intro: read_source_Inr)
      note b = read_source_bytes [OF r] and pr = read_source_progress [OF r less.prems(2) _ ne]
      have ok': "source_ok src'" and bs: "bs \<noteq> []"
        using pr fs(2) by auto
      have unfold: "read_message_loop header n decoded src =
          (if length (decoded @ bs) = m
           then (case drain src' of Inl e \<Rightarrow> Some (Inl e) | Inr _ \<Rightarrow> Some (Inr (decoded @ bs)))
           else read_message_loop header m (decoded @ bs) src')"
        using False nz r by (subst read_message_loop.simps) (simp add: m_def [symmetric] Let_def)
      show ?thesis
      proof (cases "length (decoded @ bs) = m")
        case True
        then have "frame_body ?w = decoded @ bs"
          using fs b(1) by (simp add: frame_body_def)
        then show ?thesis
          using True unfold drain_result [OF ok'] b(2) fs(1,3) nz by (auto split: stream_end.split)
      next
        case more: False
        have "frame_state header m (decoded @ bs)"
          using fs b(3) more by (simp add: frame_state_def)
        moreover have "length (source_bytes src') < length (source_bytes src)"
          using b(1) bs by simp
        ultimately have ih: "frame_complete (header @ (decoded @ bs) @ source_bytes src') \<Longrightarrow>
            read_message_loop header m (decoded @ bs) src' = (case snd src' of
              Eof \<Rightarrow> Some (Inr (frame_body (header @ (decoded @ bs) @ source_bytes src')))
            | Fails e \<Rightarrow> if be_nat (take 4 (header @ (decoded @ bs) @ source_bytes src')) = 0
                then Some (Inr []) else Some (Inl e))"
          using less.hyps ok' by blast
        have w: "header @ (decoded @ bs) @ source_bytes src' = ?w"
          using b(1) by simp
        show ?thesis
          using ih [unfolded w, OF less.prems(3)] more unfold b(2) by simp
      qed
    qed
  qed
qed

text \<open>
  On a stream that ends early the loop never returns: no result is ever derived for it.
\<close>

definition never_short :: "u8 list \<Rightarrow> nat \<Rightarrow> u8 list \<Rightarrow> 'e source \<Rightarrow> bool" where
  "never_short header n decoded src =
     (frame_state header n decoded \<longrightarrow> source_ok src \<longrightarrow> snd src = Eof \<longrightarrow>
      frame_complete (header @ decoded @ source_bytes src))"

lemma read_message_loop_short:
  assumes "read_message_loop header n decoded src = Some r"
  shows "never_short header n decoded src"
proof (rule read_message_loop.raw_induct [OF _ assms, where P = "\<lambda>h n d s r. never_short h n d s"])
  fix loop :: "u8 list \<Rightarrow> nat \<Rightarrow> u8 list \<Rightarrow> 'e source \<Rightarrow> ('e + u8 list) option"
    and header decoded :: "u8 list" and n :: nat and src :: "'e source" and r :: "'e + u8 list"
  assume IH: "\<And>h n d s r. loop h n d s = Some r \<Longrightarrow> never_short h n d s"
    and eq: "(if length header < 4
      then case read_source (4 - length header) src of
             Inl e \<Rightarrow> Some (Inl e)
           | Inr (bs, src') \<Rightarrow> loop (header @ bs) n decoded src'
      else let m = (if n = 0 then be_nat header else n) in
        if m = 0 then Some (Inr [])
        else case read_source (m - length decoded) src of
               Inl e \<Rightarrow> Some (Inl e)
             | Inr (bs, src') \<Rightarrow>
                 if length (decoded @ bs) = m
                 then (case drain src' of Inl e \<Rightarrow> Some (Inl e) | Inr _ \<Rightarrow> Some (Inr (decoded @ bs)))
                 else loop header m (decoded @ bs) src') = Some r"
  show "never_short header n decoded src"
    unfolding never_short_def
  proof (intro impI)
    assume st: "frame_state header n decoded" and ok: "source_ok src" and eof: "snd src = Eof"
    let ?w = "header @ decoded @ source_bytes src"
    show "frame_complete ?w"
    proof (cases "length header < 4")
      case True
      obtain bs src' where r: "read_source (4 - length header) src = Inr (bs, src')"
        using eof by (blast intro: read_source_Inr)
      note b = read_source_bytes [OF r]
      have "loop (header @ bs) n decoded src' = Some r"
        using eq True r by simp
      from IH [OF this] show ?thesis
        using frame_state_header [OF st True b(3)] read_source_ok [OF r ok] True b eof st
        unfolding never_short_def frame_state_def by simp
    next
      case False
      define m where "m = (if n = 0 then be_nat header else n)"
      show ?thesis
      proof (cases "m = 0")
        case True
        then show ?thesis
          using st False m_def by (auto simp: frame_state_def frame_complete_def split: if_splits)
      next
        case nz: False
        note fs = frame_state_body [OF st False m_def nz]
        obtain bs src' where r: "read_source (m - length decoded) src = Inr (bs, src')"
          using eof by (blast intro: read_source_Inr)
        note b = read_source_bytes [OF r]
        show ?thesis
        proof (cases "length (decoded @ bs) = m")
          case True
          then show ?thesis
            using fs b(1) by (simp add: frame_complete_def)
        next
          case more: False
          have "loop header m (decoded @ bs) src' = Some r"
            using eq False nz r more by (simp add: m_def [symmetric] Let_def)
          from IH [OF this] show ?thesis
            using fs b more read_source_ok [OF r ok] eof
            unfolding never_short_def frame_state_def by simp
        qed
      qed
    qed
  qed
qed

lemma read_message_result:
  assumes "source_ok src" "snd src = Eof"
  shows "read_message_from_stream src =
    (if frame_complete (source_bytes src) then Some (Inr (frame_body (source_bytes src))) else None)"
proof (cases "frame_complete (source_bytes src)")
  case True
  then show ?thesis
    using read_message_loop_complete [of "[]" 0 "[]" src] assms
    by (simp add: read_message_from_stream_def frame_state_def)
next
  case False
  then show ?thesis
    using read_message_loop_short [of "[]" 0 "[]" src] assms
    by (cases "read_message_loop [] 0 [] src")
      (auto simp: read_message_from_stream_def never_short_def frame_state_def)
qed

text \<open>What the writer puts on the stream is complete, and its body is the message.\<close>

lemma encode_frame_complete:
  assumes "length bytes < 2 ^ 32"
  shows "frame_complete (encode_frame bytes @ more)" "frame_body (encode_frame bytes @ more) = bytes"
proof -
  have "unat (as_u32 (length bytes)) = length bytes"
    using assms by (simp add: as_u32_def unat_of_nat)
  moreover from this have "be_nat (be_bytes 4 (length bytes)) = length bytes"
    using assms by (intro be_bytes_inverse) simp
  ultimately show "frame_complete (encode_frame bytes @ more)"
    "frame_body (encode_frame bytes @ more) = bytes"
    by (simp_all add: frame_complete_def frame_body_def encode_frame_def)
qed

text \<open>A message of \<open>2 ^ 32\<close> bytes or more loses everything past its length modulo \<open>2 ^ 32\<close>.\<close>

lemma encode_frame_truncates:
  "frame_body (encode_frame bytes) = take (length bytes mod 2 ^ 32) bytes"
proof -
  have "unat (as_u32 (length bytes)) = length bytes mod 2 ^ 32"
    by (simp add: as_u32_def unat_of_nat)
  moreover have "be_nat (be_bytes 4 (length bytes mod 2 ^ 32)) = length bytes mod 2 ^ 32"
    by (intro be_bytes_inverse) simp
  ultimately show ?thesis
    by (simp add: frame_body_def encode_frame_def)
qed

end
