(* ===== verification/Pkcs12_Kdf.thy ===== *)
theory Pkcs12_Kdf
  imports Framing
begin

text \<open>
  The key derivation of PKCS#12 (\<open>pbepkcs12sha1\<close> and \<open>bmp_string\<close> of
  \<open>transport-layer/src/msquic/pkcs12.rs\<close>), proved equal to the algorithm of RFC 7292, appendix B.2,
  written over numbers: the byte-wise addition with carry of the code is
  \<open>I_j := (I_j + B + 1) mod 2^512\<close> on every block of 64 bytes. The hash function (the \<open>sha1\<close> crate) is a
  parameter, of which only the length of its result matters.
\<close>

section \<open>The code\<close>

definition U :: nat where "U = 160 div 8"

definition V :: nat where "V = 512 div 8"

definition div_ceil :: "nat \<Rightarrow> nat \<Rightarrow> nat" where
  "div_ceil a b = (if a mod b = 0 then a div b else a div b + 1)"

text \<open>\<open>iter().cycle().take(n)\<close>: an empty iterator stays empty.\<close>

definition cycle_take :: "nat \<Rightarrow> 'a list \<Rightarrow> 'a list" where
  "cycle_take n xs = (if xs = [] then [] else map (\<lambda>i. xs ! (i mod length xs)) [0..<n])"

definition get_len :: "nat \<Rightarrow> nat" where
  "get_len s = V * div_ceil s V"

definition pbepkcs12sha1core ::
  "(u8 list \<Rightarrow> u8 list) \<Rightarrow> u8 list \<Rightarrow> u8 list \<Rightarrow> u8 list \<Rightarrow> nat \<Rightarrow> u8 list \<times> u8 list" where
  "pbepkcs12sha1core sha1 d i a iterations =
     (let ai = (sha1 ^^ iterations) (d @ i) in (a @ ai, ai))"

text \<open>\<open>overflowing_add\<close> on bytes.\<close>

definition overflowing_add :: "u8 \<Rightarrow> u8 \<Rightarrow> u8 \<times> bool" where
  "overflowing_add x y = (x + y, 256 \<le> unat x + unat y)"

text \<open>The addition loop, over the bytes of \<open>i\<close> from the last to the first.\<close>

fun add_loop :: "nat \<Rightarrow> u8 \<Rightarrow> (u8 \<times> u8) list \<Rightarrow> u8 list" where
  "add_loop i3 inc [] = []"
| "add_loop i3 inc ((ii, bi) # r) =
     (let inc = (if i3 mod V = 0 then 1 else inc);
          (ii2, inc2) = overflowing_add ii bi;
          (ii3, inc3) = overflowing_add ii2 inc
      in ii3 # add_loop (Suc i3) (if inc2 \<or> inc3 then 1 else 0) r)"

definition add_blocks :: "u8 list \<Rightarrow> u8 list \<Rightarrow> u8 list" where
  "add_blocks i ai =
     (let b = cycle_take V ai
      in rev (add_loop 0 1 (zip (rev i) (cycle_take (length i) (rev b)))))"

fun kdf_rounds ::
  "(u8 list \<Rightarrow> u8 list) \<Rightarrow> u8 list \<Rightarrow> nat \<Rightarrow> nat \<Rightarrow> u8 list \<Rightarrow> u8 list \<Rightarrow> u8 list \<times> u8 list" where
  "kdf_rounds sha1 d r 0 i a = (i, a)"
| "kdf_rounds sha1 d r (Suc n) i a =
     (let (a', ai) = pbepkcs12sha1core sha1 d i a r in kdf_rounds sha1 d r n (add_blocks i ai) a')"

definition pbepkcs12sha1 ::
  "(u8 list \<Rightarrow> u8 list) \<Rightarrow> u8 list \<Rightarrow> u8 list \<Rightarrow> nat \<Rightarrow> u8 \<Rightarrow> nat \<Rightarrow> u8 list" where
  "pbepkcs12sha1 sha1 pass salt iterations ident len =
     (let d = replicate V ident;
          s = cycle_take (get_len (length salt)) salt;
          p = cycle_take (get_len (length pass)) pass;
          c = div_ceil len U;
          (i, a) = kdf_rounds sha1 d iterations (c - 1) (s @ p) []
      in take len (fst (pbepkcs12sha1core sha1 d i a iterations)))"

section \<open>The algorithm of RFC 7292\<close>

text \<open>Blocks of 64 bytes.\<close>

function blocks :: "'a list \<Rightarrow> 'a list list" where
  "blocks xs = (if xs = [] then [] else take V xs # blocks (drop V xs))"
  by pat_completeness auto
termination
  by (relation "measure length") (auto simp: V_def)

declare blocks.simps [simp del]

definition rfc_next :: "u8 list \<Rightarrow> u8 list \<Rightarrow> u8 list" where
  "rfc_next i a =
     concat (map (\<lambda>blk. be_bytes V ((be_nat blk + be_nat (cycle_take V a) + 1) mod 2 ^ 512)) (blocks i))"

text \<open>The concatenation \<open>A_1 ... A_c\<close> from the string \<open>I\<close>.\<close>

fun rfc_blocks :: "(u8 list \<Rightarrow> u8 list) \<Rightarrow> u8 list \<Rightarrow> nat \<Rightarrow> nat \<Rightarrow> u8 list \<Rightarrow> u8 list" where
  "rfc_blocks H d r 0 i = []"
| "rfc_blocks H d r (Suc c) i =
     (let a = (H ^^ r) (d @ i) in a @ rfc_blocks H d r c (rfc_next i a))"

text \<open>\<open>salt\<close> and \<open>pass\<close> repeated to a whole number of blocks, and the first \<open>len\<close> bytes.\<close>

definition rfc_kdf :: "(u8 list \<Rightarrow> u8 list) \<Rightarrow> u8 list \<Rightarrow> u8 list \<Rightarrow> nat \<Rightarrow> u8 \<Rightarrow> nat \<Rightarrow> u8 list" where
  "rfc_kdf H pass salt r ident len =
     take len (rfc_blocks H (replicate V ident) r (div_ceil len U)
       (cycle_take (get_len (length salt)) salt @ cycle_take (get_len (length pass)) pass))"

section \<open>The carry loop adds\<close>

lemma length_add_loop [simp]: "length (add_loop k inc zs) = length zs"
  by (induction k inc zs rule: add_loop.induct) (auto simp: Let_def overflowing_add_def)

text \<open>Within one block (no position a multiple of 64 after the first), the loop is ripple-carry addition.\<close>

fun ripple :: "u8 \<Rightarrow> (u8 \<times> u8) list \<Rightarrow> u8 list" where
  "ripple inc [] = []"
| "ripple inc ((x, y) # r) =
     (let (s, c2) = overflowing_add x y; (t, c3) = overflowing_add s inc
      in t # ripple (if c2 \<or> c3 then 1 else 0) r)"

lemma add_byte:
  assumes "unat inc \<le> 1" "overflowing_add x y = (s, c2)" "overflowing_add s inc = (t, c3)"
  shows "unat t + 256 * (if c2 \<or> c3 then 1 else 0) = unat x + unat y + unat inc"
proof -
  have b: "unat x < 256" "unat y < 256"
    using unsigned_less [of x] unsigned_less [of y] by simp_all
  have s256: "unat s < 256"
    using unsigned_less [of s] by simp
  have s: "unat s = (unat x + unat y) mod 256" "c2 \<longleftrightarrow> 256 \<le> unat x + unat y"
    using assms(2) by (auto simp: overflowing_add_def unat_word_ariths)
  have t: "unat t = (unat s + unat inc) mod 256" "c3 \<longleftrightarrow> 256 \<le> unat s + unat inc"
    using assms(3) by (auto simp: overflowing_add_def unat_word_ariths)
  have m: "n mod 256 = (if n < 256 then n else n - 256)" if "n < 512" for n :: nat
    using that by (simp add: mod_if)
  have "unat s = (if unat x + unat y < 256 then unat x + unat y else unat x + unat y - 256)"
    using b s(1) m [of "unat x + unat y"] by simp
  moreover have "unat t = (if unat s + unat inc < 256 then unat s + unat inc else unat s + unat inc - 256)"
    using t(1) m [of "unat s + unat inc"] assms(1) s256 by simp
  ultimately show ?thesis
    using b s(2) t(2) assms(1) by (auto split: if_splits)
qed

lemma ripple_value:
  assumes "unat inc \<le> 1"
  shows "le_nat (ripple inc zs) =
    (le_nat (map fst zs) + le_nat (map snd zs) + unat inc) mod 256 ^ length zs"
  using assms
proof (induction inc zs rule: ripple.induct)
  case (2 inc x y r)
  obtain s c2 where s: "overflowing_add x y = (s, c2)"
    by fastforce
  obtain t c3 where t: "overflowing_add s inc = (t, c3)"
    by fastforce
  define c :: u8 where "c = (if c2 \<or> c3 then 1 else 0)"
  let ?X = "le_nat (map fst r)" and ?Y = "le_nat (map snd r)" and ?n = "length r"
  have byte: "unat t + 256 * unat c = unat x + unat y + unat inc"
    using add_byte [OF "2.prems" s t] by (simp add: c_def split: if_splits)
  have "unat c \<le> 1"
    by (simp add: c_def)
  then have ih: "le_nat (ripple c r) = (?X + ?Y + unat c) mod 256 ^ ?n"
    using "2.IH" [OF s [symmetric] refl t [symmetric] refl] unfolding c_def by simp
  have lt: "unat t < 256"
    using unsigned_less [of t] by simp
  have "unat x + 256 * ?X + (unat y + 256 * ?Y) + unat inc = unat t + 256 * (?X + ?Y + unat c)"
    using byte by simp
  moreover have mod: "(unat t + 256 * z) mod 256 ^ Suc ?n = unat t + 256 * (z mod 256 ^ ?n)" for z
    using lt by (simp add: mod_mult2_eq)
  ultimately have "(unat x + 256 * ?X + (unat y + 256 * ?Y) + unat inc) mod 256 ^ Suc ?n =
      unat t + 256 * ((?X + ?Y + unat c) mod 256 ^ ?n)"
    by (simp only: mod)
  also have "\<dots> = le_nat (ripple inc ((x, y) # r))"
    using s t ih by (simp add: c_def)
  finally show ?case
    by simp
qed simp

lemma length_ripple [simp]: "length (ripple inc zs) = length zs"
  by (induction inc zs rule: ripple.induct) (auto simp: Let_def overflowing_add_def)

lemma add_loop_block:
  assumes "0 < k mod V \<or> inc = 1" "k mod V + length zs \<le> V"
  shows "add_loop k inc zs = ripple inc zs"
  using assms
proof (induction k inc zs rule: add_loop.induct)
  case (2 k inc x y r)
  obtain s c2 where s: "overflowing_add x y = (s, c2)"
    by fastforce
  obtain t c3 where t: "overflowing_add s inc = (t, c3)"
    by fastforce
  have inc: "(if k mod V = 0 then 1 else inc) = inc"
    using "2.prems"(1) by auto
  show ?case
  proof (cases r)
    case Nil
    then show ?thesis
      using s t inc by simp
  next
    case (Cons z zs)
    then have "Suc k mod V = Suc (k mod V)"
      using "2.prems"(2) by (simp add: mod_Suc)
    then have "add_loop (Suc k) (if c2 \<or> c3 then 1 else 0) r = ripple (if c2 \<or> c3 then 1 else 0) r"
      using "2.IH" [OF refl s [symmetric] refl _ refl] t inc "2.prems"(2) by simp
    then show ?thesis
      using s t inc by simp
  qed
qed simp

lemma add_loop_restart: "k mod V = 0 \<Longrightarrow> add_loop k inc zs = add_loop k 1 zs"
  by (cases zs) auto

lemma add_loop_append:
  assumes "(k + length zs) mod V = 0"
  shows "add_loop k inc (zs @ ys) = add_loop k inc zs @ add_loop (k + length zs) 1 ys"
  using assms
proof (induction k inc zs rule: add_loop.induct)
  case (1 k inc)
  then show ?case
    by (simp add: add_loop_restart [of k inc])
next
  case (2 k inc x y r)
  obtain s c2 where s: "overflowing_add x y = (s, c2)"
    by fastforce
  obtain t c3 where t: "overflowing_add s (if k mod V = 0 then 1 else inc) = (t, c3)"
    by fastforce
  show ?case
    using "2.IH" [OF refl s [symmetric] refl t [symmetric] refl] "2.prems" s t by simp
qed

lemma add_loop_shift: "add_loop (k + V) inc zs = add_loop k inc zs"
  by (induction k inc zs rule: add_loop.induct) (auto simp: Let_def overflowing_add_def)

lemma V_pos: "0 < V"
  by (simp add: V_def)

lemma be_bytes_nat: "be_bytes (length bs) (be_nat bs) = bs"
  using le_nat_inverse [of "rev bs"] by (simp add: be_bytes_def be_nat_def)

lemma ripple_block:
  assumes "length blk = V" "length b = V"
  shows "rev (ripple 1 (zip (rev blk) (rev b))) = be_bytes V ((be_nat blk + be_nat b + 1) mod 2 ^ 512)"
proof -
  let ?r = "rev (ripple 1 (zip (rev blk) (rev b)))"
  have len: "length ?r = V"
    using assms by simp
  have "be_nat ?r = (be_nat blk + be_nat b + 1) mod 256 ^ V"
    using ripple_value [of 1 "zip (rev blk) (rev b)"] assms by (simp add: be_nat_def)
  moreover have "256 ^ V = (2 :: nat) ^ 512"
    by (simp add: V_def)
  ultimately show ?thesis
    using be_bytes_nat [of ?r] len by simp
qed

lemma cycle_take_add:
  assumes "length xs = V"
  shows "cycle_take (V + n) xs = xs @ cycle_take n xs"
proof (rule nth_equalityI)
  have ne: "xs \<noteq> []"
    using assms V_pos by auto
  then show "length (cycle_take (V + n) xs) = length (xs @ cycle_take n xs)"
    using assms by (simp add: cycle_take_def)
  fix i
  assume "i < length (cycle_take (V + n) xs)"
  then have i: "i < V + n"
    using ne by (simp add: cycle_take_def)
  show "cycle_take (V + n) xs ! i = (xs @ cycle_take n xs) ! i"
  proof (cases "i < V")
    case False
    then have "(i - V) mod V = i mod V"
      by (simp add: le_mod_geq)
    moreover have "i - V < n"
      using i False by linarith
    ultimately show ?thesis
      using i ne assms False by (simp add: cycle_take_def nth_append)
  qed (use i ne assms in \<open>simp add: cycle_take_def nth_append\<close>)
qed

lemma length_cycle_take: "xs \<noteq> [] \<Longrightarrow> length (cycle_take n xs) = n"
  by (simp add: cycle_take_def)

lemma add_blocks_concat:
  assumes "\<forall>blk\<in>set bs. length blk = V" "ai \<noteq> []"
  shows "add_blocks (concat bs) ai =
    concat (map (\<lambda>blk. be_bytes V ((be_nat blk + be_nat (cycle_take V ai) + 1) mod 2 ^ 512)) bs)"
  using assms(1)
proof (induction bs rule: rev_induct)
  case Nil
  then show ?case
    by (simp add: add_blocks_def cycle_take_def)
next
  case (snoc blk bs)
  let ?b = "cycle_take V ai"
  let ?zip = "\<lambda>i. zip (rev i) (cycle_take (length i) (rev ?b))"
  have b: "length ?b = V" and blk: "length blk = V"
    using assms(2) snoc.prems by (simp_all add: length_cycle_take)
  have split: "?zip (concat bs @ blk) = zip (rev blk) (rev ?b) @ ?zip (concat bs)"
    using cycle_take_add [of "rev ?b" "length (concat bs)"] b blk by (simp add: add.commute)
  have "add_loop 0 1 (?zip (concat bs @ blk))
      = add_loop 0 1 (zip (rev blk) (rev ?b)) @ add_loop (0 + V) 1 (?zip (concat bs))"
    unfolding split using add_loop_append [of 0 "zip (rev blk) (rev ?b)" 1 "?zip (concat bs)"] b blk
    by simp
  also have "\<dots> = ripple 1 (zip (rev blk) (rev ?b)) @ add_loop 0 1 (?zip (concat bs))"
    unfolding add_loop_shift using add_loop_block [of 0 1 "zip (rev blk) (rev ?b)"] b blk by simp
  finally have "add_blocks (concat bs @ blk) ai =
      add_blocks (concat bs) ai @ rev (ripple 1 (zip (rev blk) (rev ?b)))"
    unfolding add_blocks_def Let_def by simp
  then show ?case
    using snoc.IH snoc.prems ripple_block [OF blk b] by simp
qed

lemma blocks_whole:
  assumes "length xs mod V = 0"
  shows "concat (blocks xs) = xs \<and> (\<forall>blk\<in>set (blocks xs). length blk = V)"
  using assms
proof (induction xs rule: blocks.induct)
  case (1 xs)
  show ?case
  proof (cases "xs = []")
    case False
    then have le: "V \<le> length xs"
      using "1.prems" by (metis length_0_conv mod_less not_le)
    then have "length (drop V xs) mod V = 0"
      using "1.prems" by (simp add: le_mod_geq)
    note ih = "1.IH" [OF False this]
    have len: "length (take V xs) = V"
      using le by simp
    have "blocks xs = take V xs # blocks (drop V xs)"
      by (subst blocks.simps) (simp add: False)
    then show ?thesis
      using ih len by (simp del: length_take)
  qed (simp add: blocks.simps [of "[]"])
qed

lemma add_blocks_rfc:
  assumes "length i mod V = 0" "ai \<noteq> []"
  shows "add_blocks i ai = rfc_next i ai"
  using add_blocks_concat [of "blocks i" ai] blocks_whole [OF assms(1)] assms(2)
  by (simp add: rfc_next_def)

lemma length_add_blocks:
  assumes "ai \<noteq> []"
  shows "length (add_blocks i ai) = length i"
  using assms V_pos by (simp add: add_blocks_def cycle_take_def)

section \<open>The derivation\<close>

lemma iterate_nonempty:
  fixes H :: "'a list \<Rightarrow> 'a list"
  assumes "\<And>x. H x \<noteq> []" "d \<noteq> []"
  shows "(H ^^ r) (d @ i) \<noteq> []"
  using assms by (cases r) auto

lemma kdf_rounds_rfc:
  assumes "\<And>x. sha1 x \<noteq> []" "d \<noteq> []" "length i mod V = 0" "kdf_rounds sha1 d r n i a = (i', a')"
  shows "a' @ (sha1 ^^ r) (d @ i') = a @ rfc_blocks sha1 d r (Suc n) i"
  using assms(3,4)
proof (induction n arbitrary: i a)
  case 0
  then show ?case
    by simp
next
  case (Suc n)
  let ?ai = "(sha1 ^^ r) (d @ i)"
  have ne: "?ai \<noteq> []"
    by (rule iterate_nonempty [OF assms(1,2)])
  have "kdf_rounds sha1 d r n (add_blocks i ?ai) (a @ ?ai) = (i', a')"
    using Suc.prems(2) by (simp add: pbepkcs12sha1core_def Let_def)
  from Suc.IH [OF _ this]
  have "a' @ (sha1 ^^ r) (d @ i') = (a @ ?ai) @ rfc_blocks sha1 d r (Suc n) (add_blocks i ?ai)"
    using Suc.prems(1) length_add_blocks [OF ne] by simp
  then show ?case
    using add_blocks_rfc [OF Suc.prems(1) ne] by (simp add: Let_def)
qed

lemma pbepkcs12sha1_rfc:
  assumes "\<And>x. sha1 x \<noteq> []"
  shows "pbepkcs12sha1 sha1 pass salt r ident len = rfc_kdf sha1 pass salt r ident len"
proof (cases "len = 0")
  case True
  then show ?thesis
    by (simp add: pbepkcs12sha1_def rfc_kdf_def Let_def split: prod.split)
next
  case False
  let ?d = "replicate V ident"
  let ?i = "cycle_take (get_len (length salt)) salt @ cycle_take (get_len (length pass)) pass"
  obtain i a where k: "kdf_rounds sha1 ?d r (div_ceil len U - 1) ?i [] = (i, a)"
    by fastforce
  have mult: "length (cycle_take (get_len n) xs) mod V = 0" for n and xs :: "u8 list"
    by (simp add: cycle_take_def get_len_def)
  then have "length ?i mod V = 0"
    by (metis length_append mod_add_eq mod_0 add_0)
  moreover have "0 < div_ceil len U"
    using False by (auto simp: div_ceil_def U_def)
  moreover have "?d \<noteq> []"
    using V_pos by simp
  ultimately have "a @ (sha1 ^^ r) (?d @ i) = rfc_blocks sha1 ?d r (div_ceil len U) ?i"
    using kdf_rounds_rfc [OF assms _ _ k] by (simp del: rfc_blocks.simps)
  then show ?thesis
    using k by (simp add: pbepkcs12sha1_def rfc_kdf_def pbepkcs12sha1core_def Let_def
        del: take_append)
qed

lemma length_rfc_blocks:
  assumes "\<And>x. length (H x) = U" "r > 0"
  shows "length (rfc_blocks H d r c i) = c * U"
proof (induction c arbitrary: i)
  case (Suc c)
  have "length ((H ^^ r) (d @ i)) = U"
    using assms by (cases r) auto
  then show ?case
    using Suc by (simp add: Let_def)
qed simp

lemma length_pbepkcs12sha1:
  assumes "\<And>x. length (sha1 x) = U" "r > 0"
  shows "length (pbepkcs12sha1 sha1 pass salt r ident len) = len"
proof -
  have "sha1 x \<noteq> []" for x
    using assms(1) [of x] by (auto simp: U_def)
  moreover have "len \<le> div_ceil len U * U"
    using div_mult_mod_eq [of len U] mod_less_divisor [of U len]
    by (auto simp: div_ceil_def U_def)
  ultimately show ?thesis
    using length_rfc_blocks [OF assms] by (simp add: pbepkcs12sha1_rfc rfc_kdf_def)
qed

end
