(* ===== verification/Pkcs12.thy ===== *)
theory Pkcs12
  imports Pkcs12_Kdf
begin

text \<open>
  The PKCS#12 container in which a node hands its certificate and private key to the QUIC
  library (\<open>transport-layer/src/msquic/pkcs12.rs\<close>, and \<open>build_pkcs12\<close> of \<open>quic_settings.rs\<close>). The writers
  produce DER trees; the encoder of trees (\<open>yasna::construct_der\<close>), the hash, the authentication
  code and the two ciphers are parameters (record \<open>crypto\<close>). The draws of random salts are a sequence
  \<open>rng\<close> of outcomes, taken in order. A string is the list of its code points.
\<close>

section \<open>Trees and parameters\<close>

datatype der =
    DerSequence "der list"
  | DerSetOf "der list"
  | DerOid "nat list"
  | DerOctets "u8 list"
  | DerInteger nat
  | DerNull
  | DerTagged nat der
  | DerImplicit nat der
  | DerBmpString "nat list"
  | DerRaw "u8 list"

record crypto =
  construct_der :: "der \<Rightarrow> u8 list"
  sha1 :: "u8 list \<Rightarrow> u8 list"
  hmac_sha1 :: "u8 list \<Rightarrow> u8 list \<Rightarrow> u8 list"
  rc2_cbc :: "u8 list \<Rightarrow> u8 list \<Rightarrow> u8 list \<Rightarrow> u8 list option"
  tdes_cbc :: "u8 list \<Rightarrow> u8 list \<Rightarrow> u8 list \<Rightarrow> u8 list option"

type_synonym rng = "nat \<Rightarrow> u8 list option"

definition OID_DATA_CONTENT_TYPE :: "nat list" where
  "OID_DATA_CONTENT_TYPE = [1, 2, 840, 113549, 1, 7, 1]"
definition OID_ENCRYPTED_DATA_CONTENT_TYPE :: "nat list" where
  "OID_ENCRYPTED_DATA_CONTENT_TYPE = [1, 2, 840, 113549, 1, 7, 6]"
definition OID_FRIENDLY_NAME :: "nat list" where
  "OID_FRIENDLY_NAME = [1, 2, 840, 113549, 1, 9, 20]"
definition OID_LOCAL_KEY_ID :: "nat list" where
  "OID_LOCAL_KEY_ID = [1, 2, 840, 113549, 1, 9, 21]"
definition OID_CERT_TYPE_X509_CERTIFICATE :: "nat list" where
  "OID_CERT_TYPE_X509_CERTIFICATE = [1, 2, 840, 113549, 1, 9, 22, 1]"
definition OID_PBE_3DES :: "nat list" where
  "OID_PBE_3DES = [1, 2, 840, 113549, 1, 12, 1, 3]"
definition OID_SHA1 :: "nat list" where
  "OID_SHA1 = [1, 3, 14, 3, 2, 26]"
definition OID_PBE_RC2 :: "nat list" where
  "OID_PBE_RC2 = [1, 2, 840, 113549, 1, 12, 1, 6]"
definition OID_KEY_BAG :: "nat list" where
  "OID_KEY_BAG = [1, 2, 840, 113549, 1, 12, 10, 1, 1]"
definition OID_PKCS8_SHROUDED_KEY_BAG :: "nat list" where
  "OID_PKCS8_SHROUDED_KEY_BAG = [1, 2, 840, 113549, 1, 12, 10, 1, 2]"
definition OID_CERT_BAG :: "nat list" where
  "OID_CERT_BAG = [1, 2, 840, 113549, 1, 12, 10, 1, 3]"

definition ITERATIONS :: nat where "ITERATIONS = 2048"

section \<open>The parts of the container\<close>

record pbe_params =
  pbe_salt :: "u8 list"
  pbe_iterations :: nat

datatype algorithm_identifier = AlgSha1 | AlgRc2 pbe_params | AlgTripleDes pbe_params

record encrypted_content_info =
  content_encryption_algorithm :: algorithm_identifier
  encrypted_content :: "u8 list"

datatype content_info = ContentData "u8 list" | ContentEncrypted encrypted_content_info

record digest_info =
  digest_algorithm :: algorithm_identifier
  digest_value :: "u8 list"

record mac_data =
  mac_digest :: digest_info
  mac_salt :: "u8 list"
  mac_iterations :: nat

record encrypted_private_key_info =
  encryption_algorithm :: algorithm_identifier
  encrypted_data :: "u8 list"

datatype cert_bag = X509 "u8 list"

datatype safe_bag_kind =
  KeyBag "u8 list" | ShroudedKeyBag encrypted_private_key_info | CertBag cert_bag

datatype pkcs12_attribute = FriendlyName "nat list" | LocalKeyId "u8 list"

record safe_bag =
  sb_bag :: safe_bag_kind
  sb_attributes :: "pkcs12_attribute list"

record pfx =
  pfx_version :: nat
  pfx_auth_safe :: content_info
  pfx_mac_data :: "mac_data option"

section \<open>The writers\<close>

definition write_pbe_params :: "pbe_params \<Rightarrow> der" where
  "write_pbe_params p = DerSequence [DerOctets (pbe_salt p), DerInteger (pbe_iterations p)]"

fun write_algorithm :: "algorithm_identifier \<Rightarrow> der" where
  "write_algorithm AlgSha1 = DerSequence [DerOid OID_SHA1, DerNull]"
| "write_algorithm (AlgRc2 p) = DerSequence [DerOid OID_PBE_RC2, write_pbe_params p]"
| "write_algorithm (AlgTripleDes p) = DerSequence [DerOid OID_PBE_3DES, write_pbe_params p]"

definition write_encrypted_content_info :: "encrypted_content_info \<Rightarrow> der" where
  "write_encrypted_content_info e =
     DerSequence [DerOid OID_DATA_CONTENT_TYPE, write_algorithm (content_encryption_algorithm e),
       DerImplicit 0 (DerOctets (encrypted_content e))]"

definition write_encrypted_data :: "encrypted_content_info \<Rightarrow> der" where
  "write_encrypted_data e = DerSequence [DerInteger 0, write_encrypted_content_info e]"

fun write_content_info :: "content_info \<Rightarrow> der" where
  "write_content_info (ContentData data) =
     DerSequence [DerOid OID_DATA_CONTENT_TYPE, DerTagged 0 (DerOctets data)]"
| "write_content_info (ContentEncrypted e) =
     DerSequence [DerOid OID_ENCRYPTED_DATA_CONTENT_TYPE, DerTagged 0 (write_encrypted_data e)]"

definition write_digest_info :: "digest_info \<Rightarrow> der" where
  "write_digest_info d = DerSequence [write_algorithm (digest_algorithm d), DerOctets (digest_value d)]"

definition write_mac_data :: "mac_data \<Rightarrow> der" where
  "write_mac_data m =
     DerSequence [write_digest_info (mac_digest m), DerOctets (mac_salt m), DerInteger (mac_iterations m)]"

fun write_cert_bag :: "cert_bag \<Rightarrow> der" where
  "write_cert_bag (X509 x509) =
     DerSequence [DerOid OID_CERT_TYPE_X509_CERTIFICATE, DerTagged 0 (DerOctets x509)]"

definition write_encrypted_private_key_info :: "encrypted_private_key_info \<Rightarrow> der" where
  "write_encrypted_private_key_info e =
     DerSequence [write_algorithm (encryption_algorithm e), DerOctets (encrypted_data e)]"

fun write_safe_bag_kind :: "safe_bag_kind \<Rightarrow> der" where
  "write_safe_bag_kind (KeyBag kb) = DerRaw kb"
| "write_safe_bag_kind (ShroudedKeyBag epk) = write_encrypted_private_key_info epk"
| "write_safe_bag_kind (CertBag cb) = write_cert_bag cb"

fun safe_bag_oid :: "safe_bag_kind \<Rightarrow> nat list" where
  "safe_bag_oid (KeyBag _) = OID_KEY_BAG"
| "safe_bag_oid (ShroudedKeyBag _) = OID_PKCS8_SHROUDED_KEY_BAG"
| "safe_bag_oid (CertBag _) = OID_CERT_BAG"

fun write_attribute :: "pkcs12_attribute \<Rightarrow> der" where
  "write_attribute (FriendlyName name) =
     DerSequence [DerOid OID_FRIENDLY_NAME, DerSetOf [DerBmpString name]]"
| "write_attribute (LocalKeyId ident) =
     DerSequence [DerOid OID_LOCAL_KEY_ID, DerSetOf [DerOctets ident]]"

definition write_safe_bag :: "safe_bag \<Rightarrow> der" where
  "write_safe_bag sb =
     DerSequence ([DerOid (safe_bag_oid (sb_bag sb)), DerTagged 0 (write_safe_bag_kind (sb_bag sb))]
       @ (if sb_attributes sb \<noteq> [] then [DerSetOf (map write_attribute (sb_attributes sb))] else []))"

definition write_pfx :: "pfx \<Rightarrow> der" where
  "write_pfx p =
     DerSequence ([DerInteger (pfx_version p), write_content_info (pfx_auth_safe p)]
       @ (case pfx_mac_data p of Some m \<Rightarrow> [write_mac_data m] | None \<Rightarrow> []))"

definition pfx_to_der :: "crypto \<Rightarrow> pfx \<Rightarrow> u8 list" where
  "pfx_to_der cr p = construct_der cr (write_pfx p)"

section \<open>Encryption\<close>

definition pbe_rc2_encrypt :: "crypto \<Rightarrow> u8 list \<Rightarrow> u8 list \<Rightarrow> u8 list \<Rightarrow> nat \<Rightarrow> u8 list option" where
  "pbe_rc2_encrypt cr data password salt iterations =
     rc2_cbc cr (pbepkcs12sha1 (sha1 cr) password salt iterations 1 5)
       (pbepkcs12sha1 (sha1 cr) password salt iterations 2 8) data"

definition pbe_3des_encrypt :: "crypto \<Rightarrow> u8 list \<Rightarrow> u8 list \<Rightarrow> u8 list \<Rightarrow> nat \<Rightarrow> u8 list option" where
  "pbe_3des_encrypt cr data password salt iterations =
     tdes_cbc cr (pbepkcs12sha1 (sha1 cr) password salt iterations 1 24)
       (pbepkcs12sha1 (sha1 cr) password salt iterations 2 8) data"

text \<open>UTF-16, and the password as a big-endian, null-terminated string of it.\<close>

definition encode_utf16 :: "nat \<Rightarrow> nat list" where
  "encode_utf16 c =
     (if c < 65536 then [c]
      else [55296 + (c - 65536) div 1024, 56320 + (c - 65536) mod 1024])"

definition bmp_string :: "nat list \<Rightarrow> u8 list" where
  "bmp_string s =
     concat (map (\<lambda>c. [of_nat (c div 256), of_nat (c mod 256)]) (concat (map encode_utf16 s)))
     @ [0, 0]"

definition encrypted_data_from_safe_bags ::
  "crypto \<Rightarrow> u8 list option \<Rightarrow> safe_bag list \<Rightarrow> u8 list \<Rightarrow> encrypted_content_info option" where
  "encrypted_data_from_safe_bags cr draw bags password =
     (let data = construct_der cr (DerSequence (map write_safe_bag bags)) in
      case draw of
        None \<Rightarrow> None
      | Some salt \<Rightarrow>
          (case pbe_rc2_encrypt cr data password salt ITERATIONS of
             None \<Rightarrow> None
           | Some enc \<Rightarrow>
               Some \<lparr>content_encryption_algorithm =
                       AlgRc2 \<lparr>pbe_salt = salt, pbe_iterations = ITERATIONS\<rparr>,
                     encrypted_content = enc\<rparr>))"

definition mac_data_new :: "crypto \<Rightarrow> u8 list option \<Rightarrow> u8 list \<Rightarrow> u8 list \<Rightarrow> mac_data result" where
  "mac_data_new cr draw data password =
     (case draw of
        None \<Rightarrow> Panic UnwrapFailed
      | Some salt \<Rightarrow>
          Ok \<lparr>mac_digest = \<lparr>digest_algorithm = AlgSha1,
                digest_value = hmac_sha1 cr (pbepkcs12sha1 (sha1 cr) password salt ITERATIONS 3 20) data\<rparr>,
              mac_salt = salt, mac_iterations = ITERATIONS\<rparr>)"

section \<open>Building a container\<close>

text \<open>The bag of the key, the password for the rest, and the number of draws taken.\<close>

definition key_bag_and_password ::
  "crypto \<Rightarrow> rng \<Rightarrow> u8 list \<Rightarrow> pkcs12_attribute list \<Rightarrow> nat list \<Rightarrow>
     (safe_bag \<times> u8 list \<times> nat) option" where
  "key_bag_and_password cr rng key_der attrs password =
     (if password = []
      then Some (\<lparr>sb_bag = KeyBag key_der, sb_attributes = attrs\<rparr>, [], 0)
      else let password = bmp_string password in
        case rng 0 of
          None \<Rightarrow> None
        | Some salt \<Rightarrow>
            (case pbe_3des_encrypt cr key_der password salt ITERATIONS of
               None \<Rightarrow> None
             | Some enc \<Rightarrow>
                 Some (\<lparr>sb_bag = ShroudedKeyBag
                          \<lparr>encryption_algorithm = AlgTripleDes \<lparr>pbe_salt = salt, pbe_iterations = ITERATIONS\<rparr>,
                           encrypted_data = enc\<rparr>,
                        sb_attributes = attrs\<rparr>, password, 1)))"

definition cert_safe_bags :: "u8 list \<Rightarrow> u8 list list \<Rightarrow> pkcs12_attribute list \<Rightarrow> safe_bag list" where
  "cert_safe_bags cert_der ca_der_list attrs =
     \<lparr>sb_bag = CertBag (X509 cert_der), sb_attributes = attrs\<rparr>
     # map (\<lambda>ca. \<lparr>sb_bag = CertBag (X509 ca), sb_attributes = []\<rparr>) ca_der_list"

definition cert_content ::
  "crypto \<Rightarrow> rng \<Rightarrow> nat \<Rightarrow> safe_bag list \<Rightarrow> u8 list \<Rightarrow> (content_info \<times> nat) result" where
  "cert_content cr rng n cert_bags password =
     (if password = []
      then Ok (ContentData (construct_der cr (DerSequence (map write_safe_bag cert_bags))), n)
      else case encrypted_data_from_safe_bags cr (rng n) cert_bags password of
             None \<Rightarrow> Panic UnwrapFailed
           | Some e \<Rightarrow> Ok (ContentEncrypted e, n + 1))"

definition pfx_new_with_cas ::
  "crypto \<Rightarrow> rng \<Rightarrow> u8 list \<Rightarrow> u8 list \<Rightarrow> u8 list list \<Rightarrow> nat list \<Rightarrow> nat list \<Rightarrow> pfx option result" where
  "pfx_new_with_cas cr rng cert_der key_der ca_der_list password name =
     (let attrs = [FriendlyName name, LocalKeyId (sha1 cr cert_der)] in
      case key_bag_and_password cr rng key_der attrs password of
        None \<Rightarrow> Ok None
      | Some (key_bag, password, n) \<Rightarrow>
          and_then (cert_content cr rng n (cert_safe_bags cert_der ca_der_list attrs) password)
            (\<lambda>(certs, n).
              let contents = construct_der cr (DerSequence
                    [write_content_info certs,
                     write_content_info (ContentData (construct_der cr (DerSequence [write_safe_bag key_bag])))])
              in and_then (mac_data_new cr (rng n) contents password) (\<lambda>m.
                   Ok (Some \<lparr>pfx_version = 3, pfx_auth_safe = ContentData contents, pfx_mac_data = Some m\<rparr>))))"

definition pfx_new ::
  "crypto \<Rightarrow> rng \<Rightarrow> u8 list \<Rightarrow> u8 list \<Rightarrow> u8 list option \<Rightarrow> nat list \<Rightarrow> nat list \<Rightarrow> pfx option result" where
  "pfx_new cr rng cert_der key_der ca_der password name =
     pfx_new_with_cas cr rng cert_der key_der (case ca_der of Some ca \<Rightarrow> [ca] | None \<Rightarrow> []) password name"

text \<open>
  What a node hands to the library: its first certificate and its key, with empty password and
  name. The outer \<open>None\<close> is the error ``Failed to build PFX''.
\<close>

definition build_pkcs12 :: "crypto \<Rightarrow> rng \<Rightarrow> u8 list list \<Rightarrow> u8 list \<Rightarrow> u8 list option result" where
  "build_pkcs12 cr rng my_certs my_key =
     (case my_certs of
        [] \<Rightarrow> Panic SliceOutOfRange
      | cert # _ \<Rightarrow>
          and_then (pfx_new cr rng cert my_key None [] []) (\<lambda>p.
            Ok (map_option (pfx_to_der cr) p)))"

section \<open>What building returns\<close>

text \<open>
  The parameters behave: hashes of 20 bytes, ciphers that take keys and initial vectors of their
  own sizes.
\<close>

definition crypto_ok :: "crypto \<Rightarrow> bool" where
  "crypto_ok cr =
     ((\<forall>x. length (sha1 cr x) = 20)
      \<and> (\<forall>key iv data. length key = 5 \<and> length iv = 8 \<longrightarrow> rc2_cbc cr key iv data \<noteq> None)
      \<and> (\<forall>key iv data. length key = 24 \<and> length iv = 8 \<longrightarrow> tdes_cbc cr key iv data \<noteq> None))"

lemma pbe_never_fails:
  assumes "crypto_ok cr"
  shows "pbe_rc2_encrypt cr data password salt ITERATIONS \<noteq> None"
    "pbe_3des_encrypt cr data password salt ITERATIONS \<noteq> None"
  using assms length_pbepkcs12sha1 [of "sha1 cr" ITERATIONS]
  by (auto simp: crypto_ok_def pbe_rc2_encrypt_def pbe_3des_encrypt_def ITERATIONS_def U_def)

text \<open>
  With good parameters, building fails only when the random generator does, and then in two ways:
  the draw for the key gives the error result, each later draw a panic.
\<close>

lemma pfx_new_outcome:
  assumes "crypto_ok cr"
  shows "pfx_new_with_cas cr rng cert key cas password name \<noteq> Err e"
    "password = [] \<Longrightarrow> rng 0 \<noteq> None \<Longrightarrow>
       \<exists>p. pfx_new_with_cas cr rng cert key cas password name = Ok (Some p)"
    "password = [] \<Longrightarrow> rng 0 = None \<Longrightarrow>
       pfx_new_with_cas cr rng cert key cas password name = Panic UnwrapFailed"
    "password \<noteq> [] \<Longrightarrow> rng 0 = None \<Longrightarrow>
       pfx_new_with_cas cr rng cert key cas password name = Ok None"
    "password \<noteq> [] \<Longrightarrow> rng 0 \<noteq> None \<Longrightarrow> rng 1 = None \<or> rng 2 = None \<Longrightarrow>
       pfx_new_with_cas cr rng cert key cas password name = Panic UnwrapFailed"
    "password \<noteq> [] \<Longrightarrow> rng 0 \<noteq> None \<Longrightarrow> rng 1 \<noteq> None \<Longrightarrow> rng 2 \<noteq> None \<Longrightarrow>
       \<exists>p. pfx_new_with_cas cr rng cert key cas password name = Ok (Some p)"
proof -
  have bmp: "bmp_string s \<noteq> []" for s
    by (simp add: bmp_string_def)
  note defs = pfx_new_with_cas_def key_bag_and_password_def cert_content_def
    encrypted_data_from_safe_bags_def mac_data_new_def Let_def bmp
  have enc: "\<exists>x. pbe_rc2_encrypt cr data password salt ITERATIONS = Some x"
    "\<exists>x. pbe_3des_encrypt cr data password salt ITERATIONS = Some x" for data password salt
    using pbe_never_fails [OF assms] by auto
  obtain f where f: "\<And>data password salt. pbe_rc2_encrypt cr data password salt ITERATIONS = Some (f data password salt)"
    using enc(1) by metis
  obtain g where g: "\<And>data password salt. pbe_3des_encrypt cr data password salt ITERATIONS = Some (g data password salt)"
    using enc(2) by metis
  show "pfx_new_with_cas cr rng cert key cas password name \<noteq> Err e"
    by (cases "rng 0"; cases "rng 1"; cases "rng 2") (simp_all add: defs f g numeral_2_eq_2)
  show "password = [] \<Longrightarrow> rng 0 \<noteq> None \<Longrightarrow>
       \<exists>p. pfx_new_with_cas cr rng cert key cas password name = Ok (Some p)"
    by (auto simp: defs)
  show "password = [] \<Longrightarrow> rng 0 = None \<Longrightarrow>
       pfx_new_with_cas cr rng cert key cas password name = Panic UnwrapFailed"
    by (simp add: defs)
  show "password \<noteq> [] \<Longrightarrow> rng 0 = None \<Longrightarrow>
       pfx_new_with_cas cr rng cert key cas password name = Ok None"
    by (simp add: defs)
  show "password \<noteq> [] \<Longrightarrow> rng 0 \<noteq> None \<Longrightarrow> rng 1 = None \<or> rng 2 = None \<Longrightarrow>
       pfx_new_with_cas cr rng cert key cas password name = Panic UnwrapFailed"
    by (cases "rng 1"; cases "rng 2") (auto simp: defs f g numeral_2_eq_2)
  show "password \<noteq> [] \<Longrightarrow> rng 0 \<noteq> None \<Longrightarrow> rng 1 \<noteq> None \<Longrightarrow> rng 2 \<noteq> None \<Longrightarrow>
       \<exists>p. pfx_new_with_cas cr rng cert key cas password name = Ok (Some p)"
    by (auto simp: defs f g numeral_2_eq_2)
qed

text \<open>
  Whoever knows the password can check the container: the code in it is the one computed from
  the contents, with the key that RFC 7292 prescribes.
\<close>

lemma pfx_mac_verifies:
  assumes "pfx_new_with_cas cr rng cert key cas password name = Ok (Some p)"
    "\<And>x. sha1 cr x \<noteq> []"
  obtains contents m where "pfx_auth_safe p = ContentData contents" "pfx_mac_data p = Some m"
    "digest_value (mac_digest m) =
       hmac_sha1 cr (rfc_kdf (sha1 cr) (if password = [] then [] else bmp_string password)
         (mac_salt m) (mac_iterations m) 3 20) contents"
proof -
  obtain kb pw n where k: "key_bag_and_password cr rng key
      [FriendlyName name, LocalKeyId (sha1 cr cert)] password = Some (kb, pw, n)"
    using assms(1) by (auto simp: pfx_new_with_cas_def Let_def split: option.splits)
  have pw: "pw = (if password = [] then [] else bmp_string password)"
    using k by (auto simp: key_bag_and_password_def Let_def split: if_splits option.splits)
  from assms(1) k obtain contents m draw where
    "pfx_auth_safe p = ContentData contents" "pfx_mac_data p = Some m"
    "mac_data_new cr draw contents pw = Ok m"
    by (auto simp: pfx_new_with_cas_def Let_def and_then_eq_Ok_iff)
  then show ?thesis
    using that [of contents m] pw pbepkcs12sha1_rfc [of "sha1 cr", OF assms(2)]
    by (auto simp: mac_data_new_def split: option.splits)
qed

section \<open>The password's encoding is unambiguous\<close>

definition code_point :: "nat \<Rightarrow> bool" where
  "code_point c = (c < 55296 \<or> 57344 \<le> c \<and> c < 1114112)"

fun decode_utf16 :: "nat list \<Rightarrow> nat list" where
  "decode_utf16 [] = []"
| "decode_utf16 [u] = [u]"
| "decode_utf16 (u # v # us) =
     (if 55296 \<le> u \<and> u < 56320 then (65536 + (u - 55296) * 1024 + (v - 56320)) # decode_utf16 us
      else u # decode_utf16 (v # us))"

fun be_u16s :: "u8 list \<Rightarrow> nat list" where
  "be_u16s (h # l # bs) = (256 * unat h + unat l) # be_u16s bs"
| "be_u16s _ = []"

lemma decode_utf16_unit: "\<not> (55296 \<le> u \<and> u < 56320) \<Longrightarrow> decode_utf16 (u # us) = u # decode_utf16 us"
  by (cases us) auto

lemma code_point_high: "code_point c \<Longrightarrow> (c - 65536) div 1024 < 1024"
  by (auto simp: code_point_def intro: less_mult_imp_div_less)

lemma decode_encode_utf16:
  "\<forall>c\<in>set s. code_point c \<Longrightarrow> decode_utf16 (concat (map encode_utf16 s)) = s"
proof (induction s)
  case (Cons c s)
  show ?case
  proof (cases "c < 65536")
    case True
    then have "\<not> (55296 \<le> c \<and> c < 56320)"
      using Cons.prems by (auto simp: code_point_def)
    then show ?thesis
      using True Cons by (simp add: encode_utf16_def decode_utf16_unit)
  next
    case False
    have "(c - 65536) div 1024 < 1024"
      using Cons.prems code_point_high by simp
    moreover have "65536 + (c - 65536) div 1024 * 1024 + (c - 65536) mod 1024 = c"
      using False by (simp add: add.assoc)
    ultimately show ?thesis
      using False Cons by (simp add: encode_utf16_def)
  qed
qed simp

lemma encode_utf16_units:
  assumes "code_point c" "u \<in> set (encode_utf16 c)"
  shows "u < 65536"
proof -
  have "(c - 65536) div 1024 < 1024" "(c - 65536) mod 1024 < 1024"
    using assms(1) code_point_high by simp_all
  then show ?thesis
    using assms(2) by (auto simp: encode_utf16_def split: if_splits)
qed

lemma be_u16s_bytes:
  "\<forall>u\<in>set us. u < 65536 \<Longrightarrow>
     be_u16s (concat (map (\<lambda>c. [of_nat (c div 256), of_nat (c mod 256)]) us) @ [0, 0]) = us @ [0]"
proof (induction us)
  case (Cons u us)
  have "u div 256 < 256"
    using Cons.prems by (auto intro: less_mult_imp_div_less)
  then have "unat (of_nat (u div 256) :: u8) = u div 256" "unat (of_nat (u mod 256) :: u8) = u mod 256"
    by (simp_all add: unat_of_nat)
  then show ?case
    using Cons by simp
qed simp

lemma bmp_string_inverse:
  assumes "\<forall>c\<in>set s. code_point c"
  shows "decode_utf16 (butlast (be_u16s (bmp_string s))) = s"
proof -
  have "\<forall>u\<in>set (concat (map encode_utf16 s)). u < 65536"
    using assms encode_utf16_units by auto
  from be_u16s_bytes [OF this] have "be_u16s (bmp_string s) = concat (map encode_utf16 s) @ [0]"
    unfolding bmp_string_def .
  then show ?thesis
    using decode_encode_utf16 [OF assms] by simp
qed

end
