(* ===== verification/Transports.thy ===== *)
theory Transports
  imports Message Framing
begin

text \<open>
  The transports of the gossip protocol (\<open>chitchat/src/transport/\<close>): the in-process channels
  (\<open>channel.rs\<close>), the UDP socket (\<open>udp.rs\<close>), the wrapper that drops messages (\<open>utils.rs\<close>) and the socket
  on top of the QUIC transport layer (\<open>transport_layer.rs\<close>), with the tasks that serve its connections.
  A bounded queue is the list of its messages, oldest first. What the network does is an
  argument: the datagrams that arrive, the outcome of connecting, of sending on a connection and of
  receiving on it.
\<close>

section \<open>In-process channels\<close>

definition MAX_MESSAGE_PER_CHANNEL :: nat where "MAX_MESSAGE_PER_CHANNEL = 100"

definition MAX_UDP_DATAGRAM_PAYLOAD_SIZE :: nat where "MAX_UDP_DATAGRAM_PAYLOAD_SIZE = 65507"

datatype transport_error =
    AddressNotAvailable
  | MtuExceeded nat
  | ChannelClosed
  | ReceiveFailed
  | SendFailed
  | ConnectFailed
  | OutgoingClosed
  | IncomingBroken

record statistics =
  num_bytes_total :: u64
  num_messages_total :: u64

definition record_message_len :: "nat \<Rightarrow> statistics \<Rightarrow> statistics" where
  "record_message_len n s =
     s\<lparr>num_bytes_total := num_bytes_total s + of_nat n, num_messages_total := num_messages_total s + 1\<rparr>"

record channel_transport =
  ct_channels :: "(socket_addr, (socket_addr \<times> chitchat_message) list) btree"
  ct_statistics :: statistics
  ct_removed_links :: "socket_addr \<Rightarrow> socket_addr set"
  ct_mtu :: "nat option"

definition channel_with_mtu :: "nat \<Rightarrow> channel_transport" where
  "channel_with_mtu mtu =
     \<lparr>ct_channels = [], ct_statistics = \<lparr>num_bytes_total = 0, num_messages_total = 0\<rparr>,
      ct_removed_links = (\<lambda>_. {}), ct_mtu = Some mtu\<rparr>"

definition channel_max_datagram_payload_size :: "channel_transport \<Rightarrow> nat" where
  "channel_max_datagram_payload_size t =
     (case ct_mtu t of Some mtu \<Rightarrow> mtu | None \<Rightarrow> MAX_UDP_DATAGRAM_PAYLOAD_SIZE)"

definition channel_open :: "socket_addr \<Rightarrow> channel_transport \<Rightarrow> (transport_error + unit) \<times> channel_transport" where
  "channel_open addr t =
     (if bt_get (ct_channels t) addr \<noteq> None then (Inl AddressNotAvailable, t)
      else (Inr (), t\<lparr>ct_channels := bt_insert addr [] (ct_channels t)\<rparr>))"

definition channel_close :: "socket_addr \<Rightarrow> channel_transport \<Rightarrow> channel_transport" where
  "channel_close addr t = t\<lparr>ct_channels := bt_remove addr (ct_channels t)\<rparr>"

text \<open>Each message is serialized and read back; any difference is a failed assertion.\<close>

definition serialize_deserialize_chitchat_message :: "zstd \<Rightarrow> chitchat_message \<Rightarrow> chitchat_message result" where
  "serialize_deserialize_chitchat_message z m =
     and_then (message_serialize z m) (\<lambda>buf.
       if length buf \<noteq> message_serialized_len z m then Panic AssertionFailed
       else case message_deserialize z buf of
         Err _ \<Rightarrow> Panic UnwrapFailed
       | Panic p \<Rightarrow> Panic p
       | Ok (m', rest) \<Rightarrow>
           if m \<noteq> m' then Panic AssertionFailed
           else if rest \<noteq> [] then Panic AssertionFailed
           else Ok m)"

definition add_link :: "socket_addr \<Rightarrow> socket_addr \<Rightarrow> channel_transport \<Rightarrow> channel_transport" where
  "add_link a b t =
     (let r = ct_removed_links t; r1 = r(a := r a - {b}); r2 = r1(b := r1 b - {a})
      in t\<lparr>ct_removed_links := r2\<rparr>)"

definition remove_link :: "socket_addr \<Rightarrow> socket_addr \<Rightarrow> channel_transport \<Rightarrow> channel_transport" where
  "remove_link a b t =
     (let r = ct_removed_links t; r1 = r(a := insert b (r a)); r2 = r1(b := insert a (r1 b))
      in t\<lparr>ct_removed_links := r2\<rparr>)"

definition try_send :: "nat \<Rightarrow> 'a \<Rightarrow> 'a list \<Rightarrow> 'a list" where
  "try_send capacity x q = (if length q < capacity then q @ [x] else q)"

definition channel_send ::
  "zstd \<Rightarrow> socket_addr \<Rightarrow> socket_addr \<Rightarrow> chitchat_message \<Rightarrow> channel_transport \<Rightarrow>
     ((transport_error + unit) \<times> channel_transport) result" where
  "channel_send z from to m t =
     and_then (serialize_deserialize_chitchat_message z m) (\<lambda>m.
       let num_bytes = message_serialized_len z m in
       if (case ct_mtu t of Some mtu \<Rightarrow> mtu < num_bytes | None \<Rightarrow> False)
       then Ok (Inl (MtuExceeded num_bytes), t)
       else
         let t1 = t\<lparr>ct_statistics := record_message_len num_bytes (ct_statistics t)\<rparr> in
         if to \<in> ct_removed_links t1 from then Ok (Inr (), t1)
         else case bt_get (ct_channels t1) to of
           None \<Rightarrow> Ok (Inr (), t1)
         | Some q \<Rightarrow>
             Ok (Inr (), t1\<lparr>ct_channels :=
                bt_insert to (try_send MAX_MESSAGE_PER_CHANNEL (from, m) q) (ct_channels t1)\<rparr>))"

text \<open>Receiving on the socket of an address; \<open>None\<close> waits.\<close>

definition channel_recv ::
  "socket_addr \<Rightarrow> channel_transport \<Rightarrow>
     ((transport_error + socket_addr \<times> chitchat_message) option \<times> channel_transport)" where
  "channel_recv addr t =
     (case bt_get (ct_channels t) addr of
        None \<Rightarrow> (Some (Inl ChannelClosed), t)
      | Some [] \<Rightarrow> (None, t)
      | Some (x # q) \<Rightarrow> (Some (Inr x), t\<lparr>ct_channels := bt_insert addr q (ct_channels t)\<rparr>))"

section \<open>UDP\<close>

datatype udp_arrival = Datagram socket_addr "u8 list" | ReceiveError

text \<open>A datagram longer than the buffer is cut off by the system.\<close>

definition receive_one ::
  "zstd \<Rightarrow> udp_arrival \<Rightarrow> (transport_error + (socket_addr \<times> chitchat_message) option) result" where
  "receive_one z a =
     (case a of
        ReceiveError \<Rightarrow> Ok (Inl ReceiveFailed)
      | Datagram from payload \<Rightarrow>
          (case message_deserialize z (take MAX_UDP_DATAGRAM_PAYLOAD_SIZE payload) of
             Ok (m, rest) \<Rightarrow> Ok (Inr (Some (from, m)))
           | Err e \<Rightarrow> Ok (Inr None)
           | Panic p \<Rightarrow> Panic p))"

text \<open>The loop of \<open>recv\<close>; \<open>None\<close> still waits after the given arrivals.\<close>

fun udp_recv ::
  "zstd \<Rightarrow> udp_arrival list \<Rightarrow> (transport_error + socket_addr \<times> chitchat_message) option result" where
  "udp_recv z [] = Ok None"
| "udp_recv z (a # as) =
     and_then (receive_one z a) (\<lambda>r.
       case r of
         Inl e \<Rightarrow> Ok (Some (Inl e))
       | Inr (Some m) \<Rightarrow> Ok (Some (Inr m))
       | Inr None \<Rightarrow> udp_recv z as)"

text \<open>The payload \<open>send\<close> hands to the system, and what becomes of it.\<close>

definition udp_send :: "zstd \<Rightarrow> (u8 list \<Rightarrow> bool) \<Rightarrow> chitchat_message \<Rightarrow> (transport_error + u8 list) result" where
  "udp_send z send_to m =
     and_then (message_serialize z m) (\<lambda>buf. Ok (if send_to buf then Inr buf else Inl SendFailed))"

text \<open>The wrapper that drops messages: the draw decides whether the inner socket is asked to send.\<close>

definition send_with_message_drop :: "bool \<Rightarrow> ('s \<Rightarrow> (transport_error + unit) \<times> 's) \<Rightarrow> 's \<Rightarrow>
    (transport_error + unit) \<times> 's" where
  "send_with_message_drop should_drop send s = (if should_drop then (Inr (), s) else send s)"

section \<open>The QUIC socket\<close>

definition CHANNEL_CAPACITY :: nat where "CHANNEL_CAPACITY = 1000"
definition MESSAGE_SOFT_TTL :: duration where "MESSAGE_SOFT_TTL = 30"
definition SOFT_LEN_THRESHOLD :: nat where "SOFT_LEN_THRESHOLD = 1000"

text \<open>\<open>async_channel::Sender::force_send\<close>: a full channel loses its oldest message.\<close>

definition force_send :: "nat \<Rightarrow> 'a \<Rightarrow> 'a list \<Rightarrow> 'a option \<times> 'a list" where
  "force_send capacity x q =
     (if length q < capacity then (None, q @ [x]) else (Some (hd q), tl q @ [x]))"

record outgoing_connection =
  oc_finished :: bool
  oc_closed :: bool
  oc_queue :: "chitchat_message list"

record quic_socket =
  qs_outgoing :: "(socket_addr, outgoing_connection) btree"
  qs_incoming :: "(socket_addr \<times> instant \<times> chitchat_message) list"
  qs_incoming_closed :: bool

definition get_or_create_outgoing_connection ::
  "bool \<Rightarrow> socket_addr \<Rightarrow> quic_socket \<Rightarrow> (transport_error + outgoing_connection) \<times> quic_socket" where
  "get_or_create_outgoing_connection connects to s =
     (let create = (if connects
        then let c = \<lparr>oc_finished = False, oc_closed = False, oc_queue = []\<rparr>
             in (Inr c, s\<lparr>qs_outgoing := bt_insert to c (qs_outgoing s)\<rparr>)
        else (Inl ConnectFailed, s))
      in case bt_get (qs_outgoing s) to of
           Some c \<Rightarrow> if \<not> oc_finished c then (Inr c, s) else create
         | None \<Rightarrow> create)"

definition quic_send ::
  "bool \<Rightarrow> socket_addr \<Rightarrow> chitchat_message \<Rightarrow> quic_socket \<Rightarrow> (transport_error + unit) \<times> quic_socket" where
  "quic_send connects to m s =
     (case get_or_create_outgoing_connection connects to s of
        (Inl e, s') \<Rightarrow> (Inl e, s')
      | (Inr c, s') \<Rightarrow>
          if oc_closed c then (Inl OutgoingClosed, s')
          else (Inr (), s'\<lparr>qs_outgoing :=
                  bt_insert to (c\<lparr>oc_queue := snd (force_send CHANNEL_CAPACITY m (oc_queue c))\<rparr>)
                    (qs_outgoing s')\<rparr>))"

text \<open>
  \<open>recv\<close>. In each round of its loop, messages may arrive between taking one and looking at the
  length of the channel: \<open>races\<close> lists them round by round. The result is the message (or the
  error, or \<open>None\<close> while it waits) and the queue left.
\<close>

type_synonym incoming = "socket_addr \<times> instant \<times> chitchat_message"

definition arrive :: "incoming list \<Rightarrow> incoming list \<Rightarrow> incoming list" where
  "arrive ms q = fold (\<lambda>m q. snd (force_send CHANNEL_CAPACITY m q)) ms q"

function quic_recv ::
  "instant \<Rightarrow> incoming list list \<Rightarrow> incoming list \<Rightarrow>
     (socket_addr \<times> chitchat_message) option \<times> incoming list" where
  "quic_recv now races [] = (None, [])"
| "quic_recv now [] ((from, received_at, m) # q) =
     (if SOFT_LEN_THRESHOLD \<le> length q \<and> MESSAGE_SOFT_TTL < now - received_at
      then quic_recv now [] q else (Some (from, m), q))"
| "quic_recv now (ms # races) ((from, received_at, m) # q) =
     (let q' = arrive ms q in
      if SOFT_LEN_THRESHOLD \<le> length q' \<and> MESSAGE_SOFT_TTL < now - received_at
      then quic_recv now races q' else (Some (from, m), q'))"
  by pat_completeness auto
termination
  by (relation "measures [\<lambda>(now, races, q). length races, \<lambda>(now, races, q). length q]") auto

section \<open>The tasks of the QUIC socket\<close>

text \<open>
  What the task of an incoming connection gets for each message: a failure to accept the stream, a
  failure to read it, or its bytes.
\<close>

datatype stream_outcome = AcceptFailed | RecvFailed | Received instant "u8 list"

datatype task_end = Running | EndedByError | EndedByClosedChannel | EndedByPanic panic

fun handle_incoming_connection ::
  "zstd \<Rightarrow> socket_addr \<Rightarrow> bool \<Rightarrow> stream_outcome list \<Rightarrow> incoming list \<Rightarrow> incoming list \<times> task_end" where
  "handle_incoming_connection z from is_closed [] q = (q, Running)"
| "handle_incoming_connection z from is_closed (AcceptFailed # os) q = (q, EndedByError)"
| "handle_incoming_connection z from is_closed (RecvFailed # os) q = (q, EndedByError)"
| "handle_incoming_connection z from is_closed (Received now bytes # os) q =
     (case message_deserialize z bytes of
        Panic p \<Rightarrow> (q, EndedByPanic p)
      | Err e \<Rightarrow> (q, EndedByError)
      | Ok (m, rest) \<Rightarrow>
          if is_closed then (q, EndedByClosedChannel)
          else handle_incoming_connection z from is_closed os
                 (snd (force_send CHANNEL_CAPACITY (from, now, m) q)))"

text \<open>
  The task of an outgoing connection sends the queued messages one by one, and ends at the first
  failure with the rest of the queue unsent. \<open>ok\<close> tells for each attempt whether it succeeds.
\<close>

fun handle_outgoing_connection ::
  "zstd \<Rightarrow> bool list \<Rightarrow> chitchat_message list \<Rightarrow> (u8 list list \<times> chitchat_message list \<times> bool) result" where
  "handle_outgoing_connection z ok [] = Ok ([], [], True)"
| "handle_outgoing_connection z ok (m # ms) =
     and_then (message_serialize z m) (\<lambda>bytes.
       if ok \<noteq> [] \<and> hd ok
       then and_then (handle_outgoing_connection z (tl ok) ms) (\<lambda>(sent, left, alive).
              Ok (bytes # sent, left, alive))
       else Ok ([], ms, False))"

text \<open>
  The accept loop: a new connection starts a task, a failure only waits a second, and the loop ends
  when the socket is dropped (the watched value becomes true).
\<close>

datatype listener_poll = StopChanged bool | Accepted socket_addr | AcceptError

fun handle_socket_listener :: "listener_poll list \<Rightarrow> socket_addr list \<times> bool" where
  "handle_socket_listener [] = ([], True)"
| "handle_socket_listener (StopChanged stop # ps) =
     (if stop then ([], False) else handle_socket_listener ps)"
| "handle_socket_listener (Accepted a # ps) =
     (let (as, running) = handle_socket_listener ps in (a # as, running))"
| "handle_socket_listener (AcceptError # ps) = handle_socket_listener ps"

section \<open>What the transports guarantee\<close>

subsection \<open>In-process channels\<close>

lemma serialize_deserialize_identity:
  assumes "zstd_ok z" "message_valid z m" "message_serialize z m = Ok bs"
  shows "serialize_deserialize_chitchat_message z m = Ok m"
  using message_deserialize_serialize [OF assms, of "[]"] message_length [OF assms(3)] assms(3)
  by (simp add: serialize_deserialize_chitchat_message_def)

text \<open>Links are cut and restored in both directions.\<close>

definition links_symmetric :: "channel_transport \<Rightarrow> bool" where
  "links_symmetric t = (\<forall>a b. b \<in> ct_removed_links t a \<longleftrightarrow> a \<in> ct_removed_links t b)"

lemma links_symmetric_ops:
  assumes "links_symmetric t"
  shows "links_symmetric (add_link a b t)" "links_symmetric (remove_link a b t)"
    "b \<notin> ct_removed_links (add_link a b t) a" "b \<in> ct_removed_links (remove_link a b t) a"
    "{c, d} \<noteq> {a, b} \<Longrightarrow> d \<in> ct_removed_links (remove_link a b t) c \<longleftrightarrow> d \<in> ct_removed_links t c"
    "{c, d} \<noteq> {a, b} \<Longrightarrow> d \<in> ct_removed_links (add_link a b t) c \<longleftrightarrow> d \<in> ct_removed_links t c"
  using assms by (auto simp: links_symmetric_def add_link_def remove_link_def Let_def split: if_splits)

definition channels_ok :: "channel_transport \<Rightarrow> bool" where
  "channels_ok t = (bt_wf (ct_channels t) \<and>
     (\<forall>a q. bt_get (ct_channels t) a = Some q \<longrightarrow> length q \<le> MAX_MESSAGE_PER_CHANNEL))"

lemma channels_ok_insert:
  assumes "channels_ok t" "length q \<le> MAX_MESSAGE_PER_CHANNEL"
  shows "channels_ok (t\<lparr>ct_channels := bt_insert a q (ct_channels t)\<rparr>)"
  using assms by (simp add: channels_ok_def bt_wf_insert bt_get_insert)

lemma channels_ok_ops:
  assumes "channels_ok t"
  shows "channels_ok (snd (channel_open a t))" "channels_ok (channel_close a t)"
    "channel_send z a b m t = Ok (r, t') \<Longrightarrow> channels_ok t'"
    "channels_ok (snd (channel_recv a t))"
proof -
  show "channels_ok (snd (channel_open a t))"
    using assms channels_ok_insert [of t "[]" a] by (simp add: channel_open_def)
  show "channels_ok (channel_close a t)"
    using assms by (simp add: channels_ok_def channel_close_def bt_wf_remove bt_get_remove)
  show "channels_ok t'" if "channel_send z a b m t = Ok (r, t')"
    using assms that by (auto simp: channels_ok_def channel_send_def try_send_def bt_wf_insert
        bt_get_insert and_then_eq_Ok_iff Let_def split: if_splits option.splits)
  show "channels_ok (snd (channel_recv a t))"
  proof (cases "bt_get (ct_channels t) a")
    case (Some q)
    then have "length q \<le> MAX_MESSAGE_PER_CHANNEL"
      using assms by (simp add: channels_ok_def)
    then show ?thesis
      using Some assms channels_ok_insert [of t "tl q" a] by (cases q) (simp_all add: channel_recv_def)
  qed (simp add: channel_recv_def assms)
qed

subsection \<open>UDP skips what it cannot read\<close>

fun invalid_datagram :: "zstd \<Rightarrow> udp_arrival \<Rightarrow> bool" where
  "invalid_datagram z (Datagram from payload) =
     (\<exists>e. message_deserialize z (take MAX_UDP_DATAGRAM_PAYLOAD_SIZE payload) = Err e)"
| "invalid_datagram z ReceiveError = False"

lemma udp_recv_skips:
  assumes "\<forall>a\<in>set junk. invalid_datagram z a"
  shows "udp_recv z (junk @ as) = udp_recv z as"
  using assms
proof (induction junk)
  case (Cons a junk)
  then show ?case
    by (cases a) (auto simp: receive_one_def)
qed simp

lemma udp_roundtrip:
  assumes "zstd_ok z" "message_valid z m" "udp_send z send_to m = Ok (Inr payload)"
    "length payload \<le> MAX_UDP_DATAGRAM_PAYLOAD_SIZE" "\<forall>a\<in>set junk. invalid_datagram z a"
  shows "udp_recv z (junk @ Datagram from payload # later) = Ok (Some (Inr (from, m)))"
proof -
  have "message_serialize z m = Ok payload"
    using assms(3) by (auto simp: udp_send_def and_then_eq_Ok_iff split: if_splits)
  from message_deserialize_serialize [OF assms(1,2) this, of "[]"]
  show ?thesis
    using assms(4) by (simp add: udp_recv_skips [OF assms(5)] receive_one_def)
qed

subsection \<open>The QUIC socket\<close>

lemma force_send_bound: "length q \<le> n \<Longrightarrow> 0 < n \<Longrightarrow> length (snd (force_send n x q)) \<le> n"
  by (auto simp: force_send_def)

text \<open>A message that fits is queued behind the others; a full channel gives up its oldest.\<close>

lemma force_send_queue:
  assumes "0 < n" "length q \<le> n"
  shows "snd (force_send n x q) = drop (Suc (length q) - n) (q @ [x])"
  using assms by (cases q) (auto simp: force_send_def)

text \<open>
  The check of age never applies in a receive that no arrival races with: the channel holds at
  most 1000 messages, so that fewer than the threshold remain once one was taken.
\<close>

lemma soft_ttl_never:
  assumes "length q \<le> CHANNEL_CAPACITY" "q = (from, received_at, m) # q'"
  shows "quic_recv now [] q = (Some (from, m), q')"
  using assms by (simp add: CHANNEL_CAPACITY_def SOFT_LEN_THRESHOLD_def)

text \<open>One unreadable message ends the task of its connection: later messages are not taken in.\<close>

lemma invalid_message_ends_connection:
  assumes "message_deserialize z bytes = Err e"
  shows "handle_incoming_connection z from is_closed (Received now bytes # later) q = (q, EndedByError)"
  using assms by simp

text \<open>The outgoing task sends a prefix of the queue, in order.\<close>

lemma outgoing_prefix:
  assumes "handle_outgoing_connection z ok ms = Ok (sent, left, alive)"
  shows "\<exists>ds. map (message_serialize z) ds = map Ok sent \<and>
    (if alive then ms = ds \<and> left = [] else \<exists>lost. ms = ds @ lost # left)"
  using assms
proof (induction z ok ms arbitrary: sent left alive rule: handle_outgoing_connection.induct)
  case (1 z ok)
  then show ?case
    by auto
next
  case (2 z ok m ms)
  obtain bytes where b: "message_serialize z m = Ok bytes"
    using "2.prems" by (auto simp: and_then_eq_Ok_iff)
  show ?case
  proof (cases "ok \<noteq> [] \<and> hd ok")
    case True
    then obtain sent' where r: "handle_outgoing_connection z (tl ok) ms = Ok (sent', left, alive)"
      "sent = bytes # sent'"
      using "2.prems" b by (auto simp: and_then_eq_Ok_iff)
    from "2.IH" [OF True r(1)] obtain d where
      "map (message_serialize z) d = map Ok sent'"
      "if alive then ms = d \<and> left = [] else \<exists>lost. ms = d @ lost # left"
      by blast
    then show ?thesis
      using b r(2) by (intro exI [of _ "m # d"]) (auto split: if_splits)
  next
    case False
    then have "sent = []" "left = ms" "\<not> alive"
      using "2.prems" b by auto
    then show ?thesis
      by (intro exI [of _ "[]"]) simp
  qed
qed

text \<open>
  From queue to queue: what the outgoing task of one node sends in one stream, the incoming task of
  the other queues, however the stream is cut into reads.
\<close>

lemma quic_message_arrives:
  assumes "zstd_ok z" "message_valid z m" "message_serialize z m = Ok bytes" "length bytes < 2 ^ 32"
    and "source_ok src" "snd src = Eof" "source_bytes src = encode_frame bytes"
    and "read_message_from_stream src = Some (Inr received)" "length q < CHANNEL_CAPACITY"
  shows "handle_incoming_connection z from False [Received now received] q = (q @ [(from, now, m)], Running)"
proof -
  have "received = bytes"
    using read_message_result [OF assms(5,6)] encode_frame_complete [OF assms(4), of "[]"] assms(7,8)
    by simp
  moreover have "message_deserialize z bytes = Ok (m, [])"
    using message_deserialize_serialize [OF assms(1-3), of "[]"] by simp
  ultimately show ?thesis
    using assms(9) by (simp add: force_send_def)
qed

text \<open>
  A batch of messages, each on a stream of its own and accepted in the order sent, arrives in the
  queue of the receiver in that order.
\<close>

lemma incoming_messages_queue:
  assumes "zstd_ok z" "list_all2 (\<lambda>m bytes. message_valid z m \<and> message_serialize z m = Ok bytes) ms received"
    "length q + length ms \<le> CHANNEL_CAPACITY"
  shows "handle_incoming_connection z from False (map (Received now) received) q
    = (q @ map (\<lambda>m. (from, now, m)) ms, Running)"
  using assms(2,3)
proof (induction ms received arbitrary: q rule: list_all2_induct)
  case (Cons m ms bytes bs)
  then have "message_deserialize z bytes = Ok (m, [])"
    using message_deserialize_serialize [OF assms(1), of m bytes "[]"] by simp
  then show ?case
    using Cons by (simp add: force_send_def)
qed simp

lemma outgoing_all_sent:
  assumes "handle_outgoing_connection z ok ms = Ok (sent, left, True)"
  shows "list_all2 (\<lambda>m bytes. message_serialize z m = Ok bytes) ms sent" "left = []"
proof -
  have "map (message_serialize z) ms = map Ok sent" "left = []"
    using outgoing_prefix [OF assms] by auto
  then show "list_all2 (\<lambda>m bytes. message_serialize z m = Ok bytes) ms sent" "left = []"
    by (auto simp: list_all2_conv_all_nth dest: map_eq_imp_length_eq)
      (metis length_map nth_map)
qed

end
