(* ===== verification/Telemetry.thy ===== *)
theory Telemetry
  imports Prelude
begin

text \<open>
  The instrumented channel, the clock check and the meter provider of \<open>telemetry_utils\<close> (\<open>mpsc.rs\<close>,
  \<open>lib.rs\<close>). A send or a receive
  first works on the queue and only then adjusts the counter and reports; other threads may run in
  between, so both parts are steps of their own. Whatever the interleaving, the reports add up to the
  number of queued messages once every call has returned, and to zero after the metrics are dropped.
\<close>

section \<open>The instrumented channel\<close>

text \<open>
  \<open>ch_updates\<close> are the changes that calls in progress have still to make to the counter, \<open>ch_unreported\<close>
  those they have made and have still to report.
\<close>

record 'a channel =
  ch_queue :: "'a list"
  ch_receiver_alive :: bool
  ch_len :: int
  ch_reports :: "int list"
  ch_updates :: "int list"
  ch_unreported :: "int list"
  ch_dropped :: bool

definition instrumented_channel :: "'a channel" where
  "instrumented_channel = \<lparr>ch_queue = [], ch_receiver_alive = True, ch_len = 0, ch_reports = [],
     ch_updates = [], ch_unreported = [], ch_dropped = False\<rparr>"

text \<open>The first part of \<open>send\<close>: it fails when the receiver is gone.\<close>

definition channel_send_inner :: "'a \<Rightarrow> 'a channel \<Rightarrow> bool \<times> 'a channel" where
  "channel_send_inner x c =
     (if ch_receiver_alive c
      then (True, c\<lparr>ch_queue := ch_queue c @ [x], ch_updates := ch_updates c @ [1]\<rparr>)
      else (False, c))"

text \<open>The first part of \<open>recv\<close> and \<open>try_recv\<close>, when there is a message.\<close>

definition channel_recv_inner :: "'a channel \<Rightarrow> 'a option \<times> 'a channel" where
  "channel_recv_inner c =
     (case ch_queue c of
        [] \<Rightarrow> (None, c)
      | x # q \<Rightarrow> (Some x, c\<lparr>ch_queue := q, ch_updates := ch_updates c @ [-1]\<rparr>))"

text \<open>The two parts of \<open>inc_len\<close>, for one of the calls in progress.\<close>

definition fetch_add :: "int \<Rightarrow> 'a channel \<Rightarrow> 'a channel" where
  "fetch_add d c =
     c\<lparr>ch_len := ch_len c + d, ch_updates := remove1 d (ch_updates c),
       ch_unreported := ch_unreported c @ [d]\<rparr>"

definition report_channel :: "int \<Rightarrow> 'a channel \<Rightarrow> 'a channel" where
  "report_channel d c =
     c\<lparr>ch_unreported := remove1 d (ch_unreported c), ch_reports := ch_reports c @ [d]\<rparr>"

definition drop_metrics :: "'a channel \<Rightarrow> 'a channel" where
  "drop_metrics c =
     (c\<lparr>ch_dropped := True,
        ch_reports := ch_reports c @ (if ch_len c > 0 then [- ch_len c] else [])\<rparr>)"

inductive channel_step :: "'a channel \<Rightarrow> 'a channel \<Rightarrow> bool" where
  send: "\<not> ch_dropped c \<Longrightarrow> channel_send_inner x c = (ok, c') \<Longrightarrow> channel_step c c'"
| recv: "\<not> ch_dropped c \<Longrightarrow> channel_recv_inner c = (r, c') \<Longrightarrow> channel_step c c'"
| update: "d \<in> set (ch_updates c) \<Longrightarrow> channel_step c (fetch_add d c)"
| report: "d \<in> set (ch_unreported c) \<Longrightarrow> channel_step c (report_channel d c)"
| drop_receiver: "\<not> ch_dropped c \<Longrightarrow> channel_step c (c\<lparr>ch_receiver_alive := False\<rparr>)"
| drop_last: "\<not> ch_dropped c \<Longrightarrow> ch_updates c = [] \<Longrightarrow> ch_unreported c = [] \<Longrightarrow>
    channel_step c (drop_metrics c)"

text \<open>The counter runs behind the queue by the pending updates, the reports behind the counter.\<close>

definition channel_inv :: "'a channel \<Rightarrow> bool" where
  "channel_inv c =
     (ch_len c + sum_list (ch_updates c) = int (length (ch_queue c))
      \<and> (if ch_dropped c then sum_list (ch_reports c) = 0 \<and> ch_updates c = [] \<and> ch_unreported c = []
         else sum_list (ch_reports c) + sum_list (ch_unreported c) = ch_len c))"

lemma sum_list_remove1: "d \<in> set xs \<Longrightarrow> sum_list (remove1 d xs) = sum_list xs - (d :: int)"
  by (induction xs) auto

lemma channel_inv_step:
  assumes "channel_step c c'" "channel_inv c"
  shows "channel_inv c'"
  using assms
proof cases
  case (update d)
  then show ?thesis
    using assms(2) by (auto simp: channel_inv_def fetch_add_def sum_list_remove1)
next
  case (report d)
  then show ?thesis
    using assms(2) by (auto simp: channel_inv_def report_channel_def sum_list_remove1)
next
  case drop_last
  then show ?thesis
    using assms(2) by (auto simp: channel_inv_def drop_metrics_def)
qed (use assms(2) in \<open>auto simp: channel_inv_def channel_send_inner_def channel_recv_inner_def
  split: if_splits list.splits\<close>)

lemma channel_reachable_inv:
  "channel_step\<^sup>*\<^sup>* instrumented_channel c \<Longrightarrow> channel_inv c"
proof (induction rule: rtranclp_induct)
  case base
  then show ?case
    by (simp add: channel_inv_def instrumented_channel_def)
qed (rule channel_inv_step)

section \<open>The clock\<close>

text \<open>
  \<open>now_ms\<close> of the milliseconds since the epoch, \<open>None\<close> for a clock that is set before it.
\<close>

definition now_ms :: "nat option \<Rightarrow> u64" where
  "now_ms since_epoch = (case since_epoch of Some ms \<Rightarrow> of_nat ms | None \<Rightarrow> 0)"

text \<open>\<open>millis_from_now\<close>, with the clock's reading as an argument; \<open>None\<close> is the error.\<close>

definition millis_from_now :: "u64 \<Rightarrow> u64 \<Rightarrow> u64 option" where
  "millis_from_now now start_ms =
     (if start_ms \<le> now then Some (now - start_ms)
      else if start_ms - now < 5 then Some 0
      else None)"

lemma millis_from_now_spec:
  "millis_from_now now start =
     (if unat start \<le> unat now + 4 then Some (of_nat (unat now - unat start)) else None)"
proof (cases "start \<le> now")
  case True
  then have "unat (now - start) = unat now - unat start"
    by (simp add: unat_sub)
  moreover have "now - start = of_nat (unat (now - start))"
    by simp
  ultimately show ?thesis
    using True by (simp add: millis_from_now_def word_le_nat_alt del: of_nat_unat)
next
  case False
  then have "unat (start - now) = unat start - unat now"
    by (simp add: unat_sub)
  then have "start - now < 5 \<longleftrightarrow> unat start - unat now < 5"
    by (simp add: word_less_nat_alt)
  then show ?thesis
    using False by (auto simp: millis_from_now_def word_le_nat_alt)
qed

section \<open>The meter provider\<close>

text \<open>
  Attributes under which metrics are reported. \<open>merge\<close> is the library's \<open>Resource::merge\<close>,
  \<open>default_resource\<close> what the library finds out by itself, and \<open>exporter\<close> the exporter, if the library
  could build one.
\<close>

type_synonym resource = "string \<rightharpoonup> string"

record 'e meter_provider =
  mp_exporter :: 'e
  mp_interval_secs :: nat
  mp_timeout_secs :: nat
  mp_resource :: resource

definition init_meter_provider ::
  "(resource \<Rightarrow> resource \<Rightarrow> resource) \<Rightarrow> resource \<Rightarrow> 'e option \<Rightarrow> 'e meter_provider result" where
  "init_meter_provider merge default_resource exporter =
     (let resource = merge [''service.name'' \<mapsto> ''acki-nacki-node''] default_resource in
      case exporter of
        None \<Rightarrow> Panic UnwrapFailed
      | Some e \<Rightarrow> Ok \<lparr>mp_exporter = e, mp_interval_secs = 30, mp_timeout_secs = 5, mp_resource = resource\<rparr>)"

text \<open>
  If merging gives the second resource priority and the default resource always names the service,
  as the library documents, the name the code gives is never reported.
\<close>

lemma service_name_overridden:
  assumes "\<And>r r' k v. r' k = Some v \<Longrightarrow> merge r r' k = Some v"
    and "default_resource ''service.name'' = Some name"
    and "init_meter_provider merge default_resource exporter = Ok p"
  shows "mp_resource p ''service.name'' = Some name"
  using assms by (auto simp: init_meter_provider_def Let_def split: option.splits)

end
