(* ===== verification/Text_Utils.thy ===== *)
theory Text_Utils
  imports Prelude
begin

text \<open>
  The formatting of errors in \<open>transport-layer/src/utils.rs\<close>: \<open>repl\<close> replaces a pattern until no
  occurrence is left. The loop need not end (a replacement that contains its pattern never does,
  and neither does the empty pattern), so it is a partial function; for the patterns of
  \<open>detailed\<close> it ends on every text.
\<close>

text \<open>\<open>str::replace\<close>: occurrences from left to right, none overlapping.\<close>

function replace_all :: "string \<Rightarrow> string \<Rightarrow> string \<Rightarrow> string" where
  "replace_all old new s =
     (if old = [] then new @ concat (map (\<lambda>c. c # new) s)
      else case s of
        [] \<Rightarrow> []
      | c # cs \<Rightarrow>
          if prefix old s then new @ replace_all old new (drop (length old) s)
          else c # replace_all old new cs)"
  by pat_completeness auto
termination
  by (relation "measure (\<lambda>(old, new, s). length s)") auto

declare replace_all.simps [simp del]

partial_function (option) repl_while :: "string \<Rightarrow> string \<Rightarrow> string \<Rightarrow> string option" where
  "repl_while old new s =
     (if sublist old s then repl_while old new (replace_all old new s) else Some s)"

fun repl :: "string \<Rightarrow> (string \<times> string) list \<Rightarrow> string option" where
  "repl s [] = Some s"
| "repl s ((old, new) # ps) =
     (case repl_while old new s of None \<Rightarrow> None | Some s' \<Rightarrow> repl s' ps)"

definition detailed_pairs :: "(string \<times> string) list" where
  "detailed_pairs =
     [([CHR 0x0A], '' ''), (''  '', '' ''), (''( '', ''(''), ('' )'', '')''),
      (''{ '', ''{''), ('' }'', ''}''), ('',)'', '')''), ('',}'', ''}'')]"

definition detailed :: "string \<Rightarrow> string option" where
  "detailed formatted = repl formatted detailed_pairs"

section \<open>Termination\<close>

text \<open>A weight that every replacement of \<open>detailed\<close> lowers: a newline counts twice.\<close>

definition text_weight :: "string \<Rightarrow> nat" where
  "text_weight s = sum_list (map (\<lambda>c. if c = CHR 0x0A then 2 else 1) s)"

lemma text_weight_append [simp]: "text_weight (xs @ ys) = text_weight xs + text_weight ys"
  by (simp add: text_weight_def)

lemma text_weight_Cons: "text_weight (c # cs) = text_weight [c] + text_weight cs"
  by (simp add: text_weight_def)

lemma replace_all_Cons:
  assumes "old \<noteq> []"
  shows "replace_all old new (c # cs) =
    (if prefix old (c # cs) then new @ replace_all old new (drop (length old) (c # cs))
     else c # replace_all old new cs)"
  using assms by (subst replace_all.simps) simp

lemma replace_all_weight:
  assumes "old \<noteq> []" "text_weight new < text_weight old"
  shows "text_weight (replace_all old new s) \<le> text_weight s
    \<and> (sublist old s \<longrightarrow> text_weight (replace_all old new s) < text_weight s)"
proof (induction s rule: length_induct)
  case (1 s)
  show ?case
  proof (cases s)
    case Nil
    then show ?thesis
      using assms(1) by (simp add: replace_all.simps)
  next
    case (Cons c cs)
    show ?thesis
    proof (cases "prefix old s")
      case True
      then obtain t where t: "s = old @ t"
        by (auto simp: prefix_def)
      then have "length t < length s"
        using assms(1) by simp
      then have "text_weight (replace_all old new t) \<le> text_weight t"
        using 1 by blast
      moreover have "replace_all old new s = new @ replace_all old new t"
        using replace_all_Cons [OF assms(1), of new c cs] True Cons t
        by (metis append_eq_conv_conj)
      ultimately show ?thesis
        using t assms(2) by simp
    next
      case False
      then have "sublist old s \<longleftrightarrow> sublist old cs"
        using Cons by (simp add: sublist_Cons_right)
      moreover have "replace_all old new s = c # replace_all old new cs"
        using replace_all_Cons [OF assms(1), of new c cs] False Cons by simp
      ultimately show ?thesis
        using 1 Cons text_weight_Cons [of c cs] text_weight_Cons [of c "replace_all old new cs"] by simp
    qed
  qed
qed

lemma replace_all_set:
  assumes "old \<noteq> []"
  shows "set (replace_all old new s) \<subseteq> set s \<union> set new"
proof (induction s rule: length_induct)
  case (1 s)
  show ?case
  proof (cases s)
    case Nil
    then show ?thesis
      using assms by (simp add: replace_all.simps)
  next
    case (Cons c cs)
    have d: "set (drop (length old) s) \<subseteq> set s" "length (drop (length old) s) < length s"
      using assms Cons set_drop_subset [of "length old" s] by simp_all
    show ?thesis
      using 1 [rule_format, OF d(2)] 1 [rule_format, of cs] d(1) Cons
        replace_all_Cons [OF assms, of new c cs] by auto
  qed
qed

lemma repl_while_returns:
  assumes "old \<noteq> []" "text_weight new < text_weight old"
  shows "\<exists>r. repl_while old new s = Some r \<and> \<not> sublist old r \<and> set r \<subseteq> set s \<union> set new"
proof (induction "text_weight s" arbitrary: s rule: less_induct)
  case less
  show ?case
  proof (cases "sublist old s")
    case True
    then have "text_weight (replace_all old new s) < text_weight s"
      using replace_all_weight [OF assms] by blast
    from less.hyps [OF this] obtain r where
      "repl_while old new (replace_all old new s) = Some r" "\<not> sublist old r"
      "set r \<subseteq> set (replace_all old new s) \<union> set new"
      by blast
    moreover have "repl_while old new s = repl_while old new (replace_all old new s)"
      using True by (subst repl_while.simps) simp
    ultimately show ?thesis
      using replace_all_set [OF assms(1), of new s] by auto
  next
    case False
    then show ?thesis
      by (subst repl_while.simps) auto
  qed
qed

text \<open>A replacement that puts the pattern back never ends on a text that has it.\<close>

lemma sublist_replace_all:
  assumes "old \<noteq> []" "sublist old new" "sublist old s"
  shows "sublist old (replace_all old new s)"
  using assms(3)
proof (induction s rule: length_induct)
  case (1 s)
  then obtain c cs where s: "s = c # cs"
    using assms(1) by (cases s) auto
  show ?case
  proof (cases "prefix old s")
    case True
    then show ?thesis
      using replace_all_Cons [OF assms(1), of new c cs] s assms(2)
      by (simp add: sublist_appendI sublist_append)
  next
    case False
    then have "sublist old cs"
      using 1(2) s by (simp add: sublist_Cons_right)
    then show ?thesis
      using 1(1) s False replace_all_Cons [OF assms(1), of new c cs] by (simp add: sublist_Cons_right)
  qed
qed

lemma repl_while_diverges:
  assumes "old \<noteq> []" "sublist old new" "sublist old s"
  shows "repl_while old new s = None"
proof -
  have "old = old \<longrightarrow> new = new \<longrightarrow> \<not> sublist old s" if "repl_while old new s = Some r" for s r
  proof (rule repl_while.raw_induct
      [OF _ that, where P = "\<lambda>a n s r. a = old \<longrightarrow> n = new \<longrightarrow> \<not> sublist old s"])
    fix loop :: "string \<Rightarrow> string \<Rightarrow> string \<Rightarrow> string option" and a' n' s' r'
    assume IH: "\<And>a n s r. loop a n s = Some r \<Longrightarrow> a = old \<longrightarrow> n = new \<longrightarrow> \<not> sublist old s"
      and eq: "(if sublist a' s' then loop a' n' (replace_all a' n' s') else Some s') = Some r'"
    show "a' = old \<longrightarrow> n' = new \<longrightarrow> \<not> sublist old s'"
      using IH [of old new "replace_all old new s'"] eq sublist_replace_all [OF assms(1,2), of s']
      by (auto split: if_splits)
  qed
  then show ?thesis
    using assms(3) by (cases "repl_while old new s") auto
qed

text \<open>The text of \<open>detailed\<close>: always returned, without a newline.\<close>

lemma repl_returns:
  assumes "\<forall>(old, new)\<in>set ps. old \<noteq> [] \<and> text_weight new < text_weight old"
  shows "\<exists>r. repl s ps = Some r \<and> set r \<subseteq> set s \<union> (\<Union>p\<in>set ps. set (snd p))"
  using assms
proof (induction ps arbitrary: s)
  case (Cons p ps)
  obtain old new where p: "p = (old, new)"
    by fastforce
  then obtain s' where s': "repl_while old new s = Some s'" "set s' \<subseteq> set s \<union> set new"
    using repl_while_returns [of old new s] Cons.prems by auto
  then obtain r where "repl s' ps = Some r" "set r \<subseteq> set s' \<union> (\<Union>p\<in>set ps. set (snd p))"
    using Cons.IH [of s'] Cons.prems by auto
  then show ?case
    using p s' by auto
qed simp

lemma detailed_returns: "\<exists>r. detailed s = Some r \<and> CHR 0x0A \<notin> set r"
proof -
  obtain s1 where s1: "repl_while [CHR 0x0A] '' '' s = Some s1" "\<not> sublist [CHR 0x0A] s1"
    using repl_while_returns [of "[CHR 0x0A]" "'' ''" s] by (auto simp: text_weight_def)
  then have nl: "CHR 0x0A \<notin> set s1"
    by (metis sublist_code(3) in_set_conv_decomp append_Cons append_Nil sublist_appendI)
  have "\<forall>(old, new)\<in>set (tl detailed_pairs). old \<noteq> [] \<and> text_weight new < text_weight old"
    by (simp add: detailed_pairs_def text_weight_def)
  from repl_returns [OF this, of s1] obtain r where
    "repl s1 (tl detailed_pairs) = Some r" "set r \<subseteq> set s1 \<union> (\<Union>p\<in>set (tl detailed_pairs). set (snd p))"
    by blast
  moreover have "detailed s = repl s1 (tl detailed_pairs)"
    using s1(1) by (simp add: detailed_def detailed_pairs_def)
  moreover have "CHR 0x0A \<notin> (\<Union>p\<in>set (tl detailed_pairs). set (snd p))"
    by (simp add: detailed_pairs_def)
  ultimately show ?thesis
    using nl by auto
qed

end
