(* ===== verification/Net_Layer.thy ===== *)
theory Net_Layer
  imports Prelude
begin

text \<open>
  The common part of the transport layer (\<open>transport-layer/src/lib.rs\<close>), the negotiation of the
  protocol over WebTransport (\<open>wtransport/mod.rs\<close>), the choice of certificate checks (\<open>wtransport/tls.rs\<close>
  and \<open>msquic/quic_settings.rs\<close>) and the broadcasting server \<open>LiteServer\<close> (\<open>server.rs\<close>). The TLS and QUIC
  libraries are not part of the repository; the outcomes of their calls are arguments.
\<close>

section \<open>Identities\<close>

record net_credential =
  my_key :: "u8 list"
  my_certs :: "u8 list list"
  root_certs :: "u8 list list"

fun hex_digit :: "nat \<Rightarrow> char" where
  "hex_digit n = (if n < 10 then char_of (48 + n) else char_of (87 + n))"

definition hex_encode :: "u8 list \<Rightarrow> string" where
  "hex_encode bs = concat (map (\<lambda>b. [hex_digit (unat b div 16), hex_digit (unat b mod 16)]) bs)"

text \<open>\<open>sha256\<close> is the hash of \<open>cert_hash\<close>.\<close>

definition identity :: "(u8 list \<Rightarrow> u8 list) \<Rightarrow> net_credential \<Rightarrow> string" where
  "identity sha256 c =
     (case my_certs c of [] \<Rightarrow> '''' | cert # _ \<Rightarrow> hex_encode (sha256 cert))"

text \<open>The remote identity over WebTransport falls back to the address of the peer.\<close>

definition wt_remote_identity ::
  "(u8 list \<Rightarrow> u8 list) \<Rightarrow> u8 list list option \<Rightarrow> string \<Rightarrow> string" where
  "wt_remote_identity sha256 peer_identity remote_addr =
     (case peer_identity of
        Some (first_cert # _) \<Rightarrow> hex_encode (sha256 first_cert)
      | _ \<Rightarrow> remote_addr)"

lemma hex_digit_inject: "m < 16 \<Longrightarrow> n < 16 \<Longrightarrow> hex_digit m = hex_digit n \<Longrightarrow> m = n"
  by (auto simp: take_bit_eq_mod dest!: arg_cong [where f = "of_char :: char \<Rightarrow> nat"]
      split: if_splits)

lemma hex_encode_inject: "hex_encode xs = hex_encode ys \<Longrightarrow> xs = ys"
proof (induction xs arbitrary: ys)
  case Nil
  then show ?case
    by (cases ys) (auto simp: hex_encode_def)
next
  case (Cons x xs)
  then obtain y ys' where ys: "ys = y # ys'"
    by (cases ys) (auto simp: hex_encode_def)
  have b: "unat x < 256" "unat y < 256"
    using unsigned_less [of x] unsigned_less [of y] by simp_all
  then have d: "unat x div 16 < 16" "unat y div 16 < 16"
    by auto
  have "unat x div 16 = unat y div 16" "unat x mod 16 = unat y mod 16" "hex_encode xs = hex_encode ys'"
    using Cons.prems ys hex_digit_inject [OF d] hex_digit_inject [of "unat x mod 16" "unat y mod 16"]
    by (auto simp: hex_encode_def simp del: hex_digit.simps)
  then have "unat x = unat y" "xs = ys'"
    using Cons.IH by (metis div_mult_mod_eq, blast)
  then show ?case
    using ys by (simp add: word_unat_eq_iff)
qed

section \<open>Protocol negotiation\<close>

fun split_on :: "char \<Rightarrow> string \<Rightarrow> string list" where
  "split_on sep [] = [[]]"
| "split_on sep (c # cs) =
     (case split_on sep cs of
        [] \<Rightarrow> [[c]]
      | w # ws \<Rightarrow> if c = sep then [] # w # ws else (c # w) # ws)"

fun join_with :: "char \<Rightarrow> string list \<Rightarrow> string" where
  "join_with sep [] = []"
| "join_with sep [w] = w"
| "join_with sep (w # ws) = w @ sep # join_with sep ws"

text \<open>The server's choice from the header the client sent, if any.\<close>

definition negotiate_alpn :: "string set \<Rightarrow> string option \<Rightarrow> string option" where
  "negotiate_alpn supported header =
     (case header of
        None \<Rightarrow> None
      | Some preferred \<Rightarrow> List.find (\<lambda>x. x \<noteq> [] \<and> x \<in> supported) (split_on CHR '','' preferred))"

definition alpn_header :: "string list \<Rightarrow> string" where
  "alpn_header preferred = join_with CHR '','' preferred"

definition alpn_negotiated_is :: "string option \<Rightarrow> string \<Rightarrow> bool" where
  "alpn_negotiated_is negotiated protocol = (case negotiated of Some x \<Rightarrow> x = protocol | None \<Rightarrow> False)"

lemma split_on_ne: "split_on sep s \<noteq> []"
  by (induction s) (auto split: list.splits)

lemma split_on_word: "sep \<notin> set w \<Longrightarrow> split_on sep w = [w]"
  by (induction w) auto

lemma split_on_append: "sep \<notin> set w \<Longrightarrow> split_on sep (w @ sep # s) = w # split_on sep s"
proof (induction w)
  case Nil
  then show ?case
    using split_on_ne [of sep s] by (cases "split_on sep s") auto
qed auto

lemma split_join:
  assumes "ws \<noteq> []" "\<forall>w\<in>set ws. sep \<notin> set w"
  shows "split_on sep (join_with sep ws) = ws"
  using assms
proof (induction sep ws rule: join_with.induct)
  case (3 sep w v ws)
  then show ?case
    by (simp add: split_on_append)
qed (auto simp: split_on_word)

text \<open>
  The server picks the client's first preference that it supports.
\<close>

lemma negotiation:
  assumes "preferred \<noteq> []" "\<forall>p\<in>set preferred. p \<noteq> [] \<and> CHR '','' \<notin> set p"
  shows "negotiate_alpn supported (Some (alpn_header preferred)) = List.find (\<lambda>p. p \<in> supported) preferred"
proof -
  have "split_on CHR '','' (alpn_header preferred) = preferred"
    using split_join [OF assms(1), of "CHR '',''"] assms(2) by (simp add: alpn_header_def)
  moreover have "List.find (\<lambda>x. x \<noteq> [] \<and> x \<in> supported) preferred = List.find (\<lambda>p. p \<in> supported) preferred"
    using assms(2) by (intro find_cong) auto
  ultimately show ?thesis
    by (simp add: negotiate_alpn_def)
qed

section \<open>Certificate checks\<close>

datatype cert_verifier = NoCertVerification | RootCertificates "u8 list list"

definition wt_cert_verifier :: "bool \<Rightarrow> net_credential \<Rightarrow> cert_verifier" where
  "wt_cert_verifier is_debug c = (if is_debug then NoCertVerification else RootCertificates (root_certs c))"

text \<open>\<open>chain_ok\<close> is the library's check of a chain against given roots.\<close>

fun cert_accepted :: "(u8 list list \<Rightarrow> u8 list list \<Rightarrow> bool) \<Rightarrow> cert_verifier \<Rightarrow> u8 list list \<Rightarrow> bool" where
  "cert_accepted chain_ok NoCertVerification chain = True"
| "cert_accepted chain_ok (RootCertificates roots) chain = chain_ok roots chain"

datatype credential_flag =
    NoCertificateValidation | ClientFlag | IndicateCertificateReceived | UsePortableCertificates
  | RequireClientAuthentication

datatype config_factory = ClientConfig | ServerConfig

fun credential_flags :: "config_factory \<Rightarrow> credential_flag set" where
  "credential_flags ClientConfig =
     {NoCertificateValidation, ClientFlag, IndicateCertificateReceived, UsePortableCertificates}"
| "credential_flags ServerConfig =
     {RequireClientAuthentication, NoCertificateValidation, IndicateCertificateReceived,
      UsePortableCertificates}"

section \<open>The broadcasting server\<close>

datatype task_result = TaskOk | TaskErr | TaskPanicked

datatype broadcast_event = Broadcast "u8 list" | BroadcastLagged | BroadcastClosed

text \<open>
  The task of one session: what it sends to its client, and its result if it ended. Each event
  carries whether the send to the client succeeds.
\<close>

fun session_loop :: "(broadcast_event \<times> bool) list \<Rightarrow> u8 list list \<times> task_result option" where
  "session_loop [] = ([], None)"
| "session_loop ((Broadcast data, send_ok) # es) =
     (if send_ok then let (sent, r) = session_loop es in (data # sent, r) else ([], Some TaskErr))"
| "session_loop ((BroadcastLagged, _) # es) = ([], Some TaskErr)"
| "session_loop ((BroadcastClosed, _) # es) = ([], Some TaskErr)"

definition session_task :: "bool \<Rightarrow> (broadcast_event \<times> bool) list \<Rightarrow> u8 list list \<times> task_result option" where
  "session_task accepted es = (if accepted then session_loop es else ([], Some TaskErr))"

text \<open>The logger slices the first ten bytes of every message.\<close>

fun logger_task :: "broadcast_event list \<Rightarrow> task_result option" where
  "logger_task [] = None"
| "logger_task (Broadcast msg # es) = (if length msg < 10 then Some TaskPanicked else logger_task es)"
| "logger_task (BroadcastLagged # es) = Some TaskErr"
| "logger_task (BroadcastClosed # es) = Some TaskErr"

text \<open>
  The loop that supervises the pool: \<open>None\<close> while it runs, otherwise whether it returned an error.
\<close>

datatype pool_event = TaskAdded | TaskChannelClosed | TaskFinished task_result

fun sessions_handler :: "pool_event list \<Rightarrow> bool option" where
  "sessions_handler [] = None"
| "sessions_handler (TaskAdded # es) = sessions_handler es"
| "sessions_handler (TaskChannelClosed # es) = Some True"
| "sessions_handler (TaskFinished r # es) = (if r = TaskOk then sessions_handler es else Some True)"

text \<open>
  \<open>start\<close> returns when the first of its three parts does: the accept loop, the multiplexor or the
  supervisor; \<open>parts\<close> gives their results in the order in which they end.
\<close>

fun lite_server_start :: "bool option list \<Rightarrow> bool option" where
  "lite_server_start [] = None"
| "lite_server_start (None # parts) = lite_server_start parts"
| "lite_server_start (Some err # parts) = Some err"

text \<open>The multiplexor resolves the producer's address and broadcasts the pair.\<close>

fun message_multiplexor ::
  "('k \<Rightarrow> string option) \<Rightarrow> (string option \<times> u8 list \<Rightarrow> u8 list option) \<Rightarrow> ('k \<times> u8 list) list \<Rightarrow>
     u8 list list \<times> bool" where
  "message_multiplexor resolver serialize [] = ([], True)"
| "message_multiplexor resolver serialize ((node, raw_block) # ms) =
     (case serialize (resolver node, raw_block) of
        None \<Rightarrow> ([], False)
      | Some msg \<Rightarrow>
          let (sent, running) = message_multiplexor resolver serialize ms in (msg # sent, running))"

text \<open>
  A session fails as soon as its client cannot be sent to or falls behind the broadcast.
\<close>

lemma session_loop_result:
  "snd (session_loop es) = (if \<forall>(e, ok)\<in>set es. ok \<and> (\<exists>d. e = Broadcast d) then None else Some TaskErr)"
proof (induction es rule: session_loop.induct)
  case (2 data send_ok es)
  then show ?case
    by (cases "session_loop es") auto
qed auto

lemma sessions_handler_ends:
  "sessions_handler es = (if \<exists>e\<in>set es. e = TaskChannelClosed \<or> e = TaskFinished TaskErr \<or> e = TaskFinished TaskPanicked
     then Some True else None)"
proof (induction es rule: sessions_handler.induct)
  case (4 r es)
  then show ?case
    by (cases r) auto
qed auto

text \<open>
  One client that disconnects or is slow therefore ends the server for all of them.
\<close>

lemma one_session_ends_server:
  assumes "snd (session_task accepted es) = Some r" "TaskFinished r \<in> set pool"
  shows "sessions_handler pool = Some True \<and> lite_server_start [sessions_handler pool] = Some True"
proof -
  have "r = TaskErr"
    using assms(1) by (auto simp: session_task_def session_loop_result split: if_splits)
  then have "sessions_handler pool = Some True"
    using assms(2) sessions_handler_ends by auto
  then show ?thesis
    by simp
qed

end
