(* ===== verification/Network_Properties.thy ===== *)
theory Network_Properties
  imports Quic_Stream_Memory Quic_Stream_Waiters Quic_Accept Pkcs12 Transports Telemetry Text_Utils
    Net_Layer Replication_Flaws
begin

text \<open>
  What the layers below the gossip protocol guarantee: QUIC streams and connections, framed messages, the
  key container of the node's certificate, the counted channels and the formatting of errors.
\<close>

section \<open>Concrete inputs\<close>

text \<open>
  A stream the peer opened, and how it goes on: three bytes arrive and two of them are read; on
  another one a task waits for data.
\<close>

definition peer_stream :: "nat list stream" where
  "peer_stream = fst (stream_from_raw list_range_set Unidirectional)"

definition bytes_arrived :: "nat list stream_sys" where
  "bytes_arrived = (sys_init peer_stream)
     \<lparr>sys_st := fst (handle_event_receive 0 3 [[1, 2, 3]] False peer_stream), sys_received := [1, 2, 3]\<rparr>"

lemma bytes_arrived_reachable: "stream_reachable list_range_set allowed bytes_arrived"
proof -
  let ?ev = "EvReceive 0 3 [[1, 2, 3]] False"
  have "stream_callback ?ev (sys_st (sys_init peer_stream))
      = (Inl StatusPending, fst (handle_event_receive 0 3 [[1, 2, 3]] False peer_stream), [])"
    "event_expected ?ev (sys_init peer_stream)" "st_state (sys_st (sys_init peer_stream)) \<noteq> StShutdownComplete"
    by (simp_all add: sys_init_def peer_stream_def stream_from_raw_def stream_inner_new_def
        handle_event_receive_def)
  from step_event [OF this(3,2,1), of list_range_set allowed]
  have "stream_step list_range_set allowed (sys_init peer_stream) bytes_arrived"
    by (simp add: bytes_arrived_def sys_init_def)
  then show ?thesis
    unfolding stream_reachable_def initial_stream_def peer_stream_def
    by (blast intro: r_into_rtranclp)
qed



text \<open>The message \<open>BadCluster\<close> on a stream, cut in two inside the header of its frame.\<close>

definition bad_cluster_stream :: "unit source" where
  "bad_cluster_stream =
     (let frame = encode_frame (message_header TypeBadCluster) in ([take 3 frame, drop 3 frame], Eof))"

text \<open>Primitives with outputs of the right sizes, and sources of salts.\<close>

definition demo_crypto :: crypto where
  "demo_crypto = \<lparr>construct_der = (\<lambda>_. [0]), sha1 = (\<lambda>_. replicate 20 1), hmac_sha1 = (\<lambda>_ _. replicate 20 2),
     rc2_cbc = (\<lambda>_ _ data. Some data), tdes_cbc = (\<lambda>_ _ data. Some data)\<rparr>"

lemma demo_crypto_ok: "crypto_ok demo_crypto"
  by (simp add: crypto_ok_def demo_crypto_def)

section \<open>Streams\<close>

text \<open>
  C8: over every interleaving of calls and events, the bytes a stream has handed out are the first
  bytes it received, in order and without gap; while the stream is not shut down the others
  wait in its queue. No read panics, and a read of a stream that is open for reading takes from the
  queue as much as there is and as fits the slice.
\<close>

theorem stream_bytes_intact:
  assumes "range_set ops covered" "stream_reachable ops allowed s"
  shows "(\<exists>more. sys_received s = sys_delivered s @ more)
    \<and> (st_state (sys_st s) \<noteq> StShutdownComplete \<longrightarrow>
         sys_received s = sys_delivered s @ pending_bytes (st_recv_buffers (sys_st s)))
    \<and> \<not> is_panic (stream_poll_read ops w cap (sys_st s))
    \<and> (st_recv_state (sys_st s) = RecvStartComplete \<and> pending_bytes (st_recv_buffers (sys_st s)) \<noteq> [] \<longrightarrow>
         (\<exists>st' es. stream_poll_read ops w cap (sys_st s) =
             Ok (Ready (Inr (take cap (pending_bytes (st_recv_buffers (sys_st s))))), st', es)
           \<and> pending_bytes (st_recv_buffers st') = drop cap (pending_bytes (st_recv_buffers (sys_st s)))))"
proof -
  have inv: "stream_inv covered s"
    by (rule range_set.stream_reachable_inv [OF assms])
  then have wf: "\<forall>b\<in>set (st_recv_buffers (sys_st s)). rb_wf b"
    by (auto simp: stream_inv_def recv_inv_def recv_part_def)
  have "\<exists>lost. sys_received s = sys_delivered s @ pending_bytes (st_recv_buffers (sys_st s)) @ lost
      \<and> (st_state (sys_st s) \<noteq> StShutdownComplete \<longrightarrow> lost = [])"
    using inv by (simp add: stream_inv_def recv_inv_def recv_part_def)
  moreover have "\<not> is_panic (stream_poll_read ops w cap (sys_st s))"
    by (rule poll_read_generic_spec [OF wf, of w cap])
      (simp add: stream_poll_read_def Let_def split: prod.split)
  ultimately show ?thesis
    using poll_read_takes [OF _ wf] by auto
qed

theorem stream_bytes_intact_witness:
  "\<exists>st' es. stream_poll_read list_range_set 5 2 (sys_st bytes_arrived) = Ok (Ready (Inr [1, 2]), st', es)"
proof -
  have "st_recv_state (sys_st bytes_arrived) = RecvStartComplete"
    "pending_bytes (st_recv_buffers (sys_st bytes_arrived)) = [1, 2, 3]"
    by (simp_all add: bytes_arrived_def peer_stream_def stream_from_raw_def stream_inner_new_def
        handle_event_receive_def recv_buffer_new_def rb_rest_def)
  then show ?thesis
    using stream_bytes_intact [OF list_range_set_ok bytes_arrived_reachable, of 5 2] by auto
qed





text \<open>
  The event \<open>ShutdownComplete\<close> wakes everybody who waits on the stream, nobody is left waiting,
  and no later call waits.
\<close>

theorem stream_shutdown_releases:
  assumes "stream_callback (EvShutdownComplete a b c d e f) st = (r, st', es)"
  shows "wakes es = st_start_waiters st @ st_read_waiters st @ st_write_shutdown_waiters st
    \<and> st_start_waiters st' = [] \<and> st_read_waiters st' = [] \<and> st_write_shutdown_waiters st' = []
    \<and> (\<exists>x. stream_poll_read ops w cap st' = Ok (Ready x, st', []))
    \<and> (\<exists>x. stream_poll_read_chunk w st' = Ok (Ready x, st', []))
    \<and> (\<exists>x. stream_poll_write w buf fin ret st' = Ok (Ready x, st', []))
    \<and> (\<exists>x. stream_poll_write_chunks w bufs fin ret st' = Ok (Ready x, st', []))
    \<and> (\<exists>x. stream_poll_finish_write w ret st' = (Ready x, st', []))
    \<and> (\<exists>x. stream_poll_abort_write w code ret st' = (Ready x, st', []))
    \<and> (\<exists>x. stream_poll_abort_read w code ret st' = (Ready x, st', []))"
proof -
  note d = shutdown_complete_down [OF assms]
  have "st_start_waiters st' = []" "st_read_waiters st' = []" "st_write_shutdown_waiters st' = []"
    using d(1) by (simp_all add: stream_is_down_def)
  with d(2) show ?thesis
    by (intro conjI down_polls [OF d(1)]) simp_all
qed

theorem stream_shutdown_releases_witness:
  "\<exists>x st' es. stream_callback (EvShutdownComplete False False False False 0 StatusOk)
      (peer_stream\<lparr>st_read_waiters := [4]\<rparr>) = (Inr (), st', es) \<and> wakes es = [4]
    \<and> stream_poll_read list_range_set 5 2 st' = Ok (Ready x, st', [])"
proof -
  let ?st = "peer_stream\<lparr>st_read_waiters := [4]\<rparr>"
  obtain st' es where cb: "stream_callback (EvShutdownComplete False False False False 0 StatusOk) ?st
      = (Inr (), st', es)"
    by (cases "handle_event_shutdown_complete False False False False 0 StatusOk ?st") simp
  have "st_start_waiters ?st = []" "st_write_shutdown_waiters ?st = []"
    by (simp_all add: peer_stream_def stream_from_raw_def stream_inner_new_def)
  then show ?thesis
    using stream_shutdown_releases [OF cb, of list_range_set 5 2] cb by auto
qed

section \<open>Connections\<close>



text \<open>
  Streams that the peer opens on a connection are accepted in the order in which they were
  opened, none is lost or handed out twice, and the tasks that wait for one are woken in the order
  in which they came, all of them when a stream arrives; nobody waits while a stream is queued.
\<close>

theorem inbound_streams_fifo:
  assumes "cn_state c = Connected" "cn_inbound_uni_stream_waiters c = [] \<or> cn_inbound_uni_streams c = []"
  shows "\<exists>c' got waiting woken.
    run_queue (\<lambda>h. handle_event_peer_stream_started ops h Unidirectional) poll_accept_inbound_uni_stream qs c
      = Ok (c', got, waiting, woken)
    \<and> got @ cn_inbound_uni_streams c' = cn_inbound_uni_streams c
        @ map (\<lambda>h. (h, fst (stream_from_raw ops Unidirectional))) (pushed qs)
    \<and> cn_inbound_uni_stream_waiters c @ waiting = woken @ cn_inbound_uni_stream_waiters c'
    \<and> (cn_inbound_uni_stream_waiters c' = [] \<or> cn_inbound_uni_streams c' = [])"
  using accept_uni_stream.run_queue_fifo [of c ops qs] assms by (elim disjE; fastforce)

theorem inbound_streams_fifo_witness:
  "\<exists>c' got waiting woken.
    run_queue (\<lambda>h. handle_event_peer_stream_started list_range_set h Unidirectional)
      poll_accept_inbound_uni_stream [Poll 9, Push 1, Push 2, Poll 9] (connection_inner_new Connected)
      = Ok (c', got, waiting, woken)
    \<and> map fst (got @ cn_inbound_uni_streams c') = [1, 2]"
proof -
  have "cn_state (connection_inner_new Connected) = Connected"
    "cn_inbound_uni_stream_waiters (connection_inner_new Connected) = []
       \<or> cn_inbound_uni_streams (connection_inner_new Connected) = []"
    "cn_inbound_uni_streams (connection_inner_new Connected) = []"
    by (simp_all add: connection_inner_new_def)
  from inbound_streams_fifo [OF this(1,2), of list_range_set "[Poll 9, Push 1, Push 2, Poll 9]"] this(3)
  obtain c' got waiting woken where
    "run_queue (\<lambda>h. handle_event_peer_stream_started list_range_set h Unidirectional)
      poll_accept_inbound_uni_stream [Poll 9, Push 1, Push 2, Poll 9] (connection_inner_new Connected)
      = Ok (c', got, waiting, woken)"
    "got @ cn_inbound_uni_streams c' = map (\<lambda>h. (h, peer_stream)) [1, 2]"
    by (auto simp: peer_stream_def)
  moreover from this(2) have "map fst (got @ cn_inbound_uni_streams c') = [1, 2]"
    by (simp only: list.map fst_conv)
  ultimately show ?thesis by metis
qed

text \<open>
  A task that waits for a datagram is forgotten when the connection is shut down. Nothing but
  the arrival of a datagram wakes it: neither the shutdown by the peer nor its completion
  does, although asking again would return the error of the connection.
\<close>

theorem datagram_reader_forgotten:
  assumes "poll_receive_datagram w c = Ok (Pending, c1, es1)" "cn_state c = Connected"
    and "connection_callback ops (CevShutdownByPeer code) c1 = Ok (c2, es2)"
    and "connection_callback ops (CevShutdownComplete a b d) c2 = Ok (c3, es3)"
    and "w \<notin> set (cn_start_waiters c) \<union> set (cn_certificate_waiters c) \<union> set (cn_inbound_stream_waiters c)
      \<union> set (cn_inbound_uni_stream_waiters c) \<union> set (cn_shutdown_waiters c)"
  shows "w \<notin> set (wakes es2) \<and> w \<notin> set (wakes es3) \<and> w \<in> set (cn_recv_waiters c3)
    \<and> (\<exists>e. poll_receive_datagram w' c3 = Ok (Ready (Inl e), c3, []))"
proof -
  have c1: "c1 = c\<lparr>cn_recv_waiters := cn_recv_waiters c @ [w]\<rparr>"
    using assms(1,2) by (auto simp: poll_receive_datagram_def when_connected_def split: list.splits)
  have c2: "c2 = fst (shutdown_initiated (ShutdownByPeer code) c1)"
    "es2 = snd (shutdown_initiated (ShutdownByPeer code) c1)"
    using assms(3) by (auto simp: handle_event_shutdown_initiated_by_peer_def)
  have c3: "c3 = fst (connection_shutdown_complete c2)" "es3 = snd (connection_shutdown_complete c2)"
    using assms(4) by auto
  show ?thesis
    using assms(5) by (auto simp: c1 c2 c3 shutdown_initiated_def connection_shutdown_complete_def
        poll_receive_datagram_def when_connected_def connection_lost_def)
qed

theorem datagram_reader_forgotten_witness:
  "\<exists>c1 c2 c3 es1 es2 es3. poll_receive_datagram 4 (connection_inner_new Connected :: nat list connection)
       = Ok (Pending, c1, es1)
    \<and> connection_callback list_range_set (CevShutdownByPeer 0) c1 = Ok (c2, es2)
    \<and> connection_callback list_range_set (CevShutdownComplete False False False) c2 = Ok (c3, es3)
    \<and> 4 \<notin> set (wakes es3) \<and> 4 \<in> set (cn_recv_waiters c3)"
proof -
  let ?c = "connection_inner_new Connected :: nat list connection"
  obtain c1 es1 where p: "poll_receive_datagram 4 ?c = Ok (Pending, c1, es1)"
    by (simp add: poll_receive_datagram_def when_connected_def connection_inner_new_def)
  obtain c2 es2 where q: "connection_callback list_range_set (CevShutdownByPeer 0) c1 = Ok (c2, es2)"
    by fastforce
  obtain c3 es3 where r: "connection_callback list_range_set (CevShutdownComplete False False False) c2
      = Ok (c3, es3)"
    by fastforce
  have "cn_state ?c = Connected"
    "4 \<notin> set (cn_start_waiters ?c) \<union> set (cn_certificate_waiters ?c)
      \<union> set (cn_inbound_stream_waiters ?c) \<union> set (cn_inbound_uni_stream_waiters ?c) \<union> set (cn_shutdown_waiters ?c)"
    by (simp_all add: connection_inner_new_def)
  then show ?thesis
    using datagram_reader_forgotten [OF p _ q r] p q r by blast
qed

section \<open>Messages over streams\<close>

text \<open>
  C22: reading a message from a stream that ends returns exactly when the stream holds a whole
  frame, however its bytes are cut into reads, and then the result is the body that the header
  announces; a stream that ends inside its header or body makes the reader loop forever.
\<close>

theorem truncated_frame_never_returns:
  assumes "source_ok src" "snd src = Eof"
  shows "((\<exists>r. read_message_from_stream src = Some r) \<longleftrightarrow> frame_complete (source_bytes src))
    \<and> (frame_complete (source_bytes src) \<longrightarrow>
         read_message_from_stream src = Some (Inr (frame_body (source_bytes src))))"
  using read_message_result [OF assms] by simp

theorem truncated_frame_never_returns_witness:
  "read_message_from_stream ([[0, 0, 0], [2, 7], [8, 9]], Eof :: unit stream_end) = Some (Inr [7, 8])"
proof -
  let ?src = "([[0, 0, 0], [2, 7], [8, 9]], Eof :: unit stream_end) :: unit source"
  have "source_ok ?src" "snd ?src = Eof" "frame_complete (source_bytes ?src)"
    "frame_body (source_bytes ?src) = [7, 8]"
    by code_simp+
  then show ?thesis
    using truncated_frame_never_returns by metis
qed

text \<open>
  C19: gossip messages that the task of an outgoing connection sent arrive at the other side. Each
  travels framed on a stream of its own; whatever way the network cuts the streams, reading
  them returns, and the task of the incoming connection queues the messages as they were and in
  order, up to the capacity of the queue; receiving from the socket then takes the first.
\<close>

theorem quic_messages_arrive:
  assumes "zstd_ok z" "\<forall>m\<in>set ms. message_valid z m"
    and "handle_outgoing_connection z ok ms = Ok (sent, left, True)"
    and "list_all2 (\<lambda>src bytes. source_ok src \<and> snd src = Eof \<and> source_bytes src = encode_frame bytes
      \<and> length bytes < 2 ^ 32) srcs sent"
    and "length ms \<le> CHANNEL_CAPACITY"
  shows "left = [] \<and> (\<exists>received. map read_message_from_stream srcs = map (\<lambda>bytes. Some (Inr bytes)) received
    \<and> handle_incoming_connection z from False (map (Received now) received) []
        = (map (\<lambda>m. (from, now, m)) ms, Running))
    \<and> quic_recv later [] (map (\<lambda>m. (from, now, m)) ms)
        = (case ms of [] \<Rightarrow> (None, []) | m # ms' \<Rightarrow> (Some (from, m), map (\<lambda>m. (from, now, m)) ms'))"
proof -
  have sent: "list_all2 (\<lambda>m bytes. message_serialize z m = Ok bytes) ms sent" and left: "left = []"
    using outgoing_all_sent [OF assms(3)] by auto
  have "list_all2 (\<lambda>m bytes. message_valid z m \<and> message_serialize z m = Ok bytes) ms sent"
    using sent assms(2) by (auto simp: list_all2_conv_all_nth)
  then have arrived: "handle_incoming_connection z from False (map (Received now) sent) []
      = (map (\<lambda>m. (from, now, m)) ms, Running)"
    using incoming_messages_queue [OF assms(1), of ms sent "[]"] assms(5) by simp
  have "read_message_from_stream src = Some (Inr bytes)"
    if "source_ok src \<and> snd src = Eof \<and> source_bytes src = encode_frame bytes \<and> length bytes < 2 ^ 32"
    for src :: "'a source" and bytes
    using that read_message_result [of src] encode_frame_complete [of bytes "[]"] by simp
  then have "map read_message_from_stream srcs = map (\<lambda>bytes. Some (Inr bytes)) sent"
    using assms(4) by (intro nth_equalityI) (simp_all only: list_all2_conv_all_nth length_map nth_map)
  moreover have "quic_recv later [] (map (\<lambda>m. (from, now, m)) ms)
      = (case ms of [] \<Rightarrow> (None, []) | m # ms' \<Rightarrow> (Some (from, m), map (\<lambda>m. (from, now, m)) ms'))"
    using soft_ttl_never [of "map (\<lambda>m. (from, now, m)) ms"] assms(5) by (cases ms) auto
  ultimately show ?thesis
    using left arrived by blast
qed

theorem quic_messages_arrive_witness:
  "\<exists>received. map read_message_from_stream [bad_cluster_stream] = map (\<lambda>bytes. Some (Inr bytes)) received
    \<and> handle_incoming_connection zstd_none (SocketAddrV4 1 1) False (map (Received 0) received) []
        = ([(SocketAddrV4 1 1, 0, BadCluster)], Running)"
proof -
  have sent: "handle_outgoing_connection zstd_none [True] [BadCluster]
      = Ok ([message_header TypeBadCluster], [], True)"
    by simp
  have len: "length (message_header TypeBadCluster) = 4"
    by (simp add: message_header_def u16_serialize_def u8_serialize_def)
  have "be_bytes 4 n \<noteq> []" for n
    using length_be_bytes [of 4 n] by (metis list.size(3) zero_neq_numeral)
  then have "source_ok bad_cluster_stream" "snd bad_cluster_stream = Eof"
    "source_bytes bad_cluster_stream = encode_frame (message_header TypeBadCluster)"
    using len by (simp_all add: bad_cluster_stream_def source_ok_def source_bytes_def encode_frame_def Let_def)
  then have "list_all2 (\<lambda>src bytes. source_ok src \<and> snd src = Eof \<and> source_bytes src = encode_frame bytes
      \<and> length bytes < 2 ^ 32) [bad_cluster_stream] [message_header TypeBadCluster]"
    using len by simp
  from quic_messages_arrive [OF zstd_none_ok _ sent this, of "SocketAddrV4 1 1" 0]
  show ?thesis
    by (simp add: CHANNEL_CAPACITY_def)
qed

section \<open>The key container\<close>

text \<open>
  C35: the key derivation function of the container is the one of RFC 7292, appendix B.2, for any
  hash function, password, salt, iteration count, identifier and length: the addition with carry
  over the bytes of all blocks at once is the addition of \<open>B + 1\<close> to each block modulo \<open>2 ^ 512\<close>,
  and the blocks computed are enough. With a hash of 20 bytes the key has the length asked for.
\<close>

theorem kdf_rfc7292:
  assumes "\<forall>x. length (hash x) = U" "0 < r"
  shows "pbepkcs12sha1 hash pass salt r ident len = rfc_kdf hash pass salt r ident len
    \<and> length (pbepkcs12sha1 hash pass salt r ident len) = len"
proof -
  have "hash x \<noteq> []" for x
    using assms(1) by (auto simp: U_def dest: spec [of _ x])
  then show ?thesis
    using pbepkcs12sha1_rfc [of hash] length_pbepkcs12sha1 [of hash r] assms by simp
qed

theorem kdf_rfc7292_witness:
  "pbepkcs12sha1 (\<lambda>_. replicate 20 255) [0, 97] [1] 2 3 30
     = rfc_kdf (\<lambda>_. replicate 20 255) [0, 97] [1] 2 3 30"
  using kdf_rfc7292 [of "\<lambda>_. replicate 20 255" 2 "[0, 97]" "[1]" 3 30] by (simp add: U_def)

text \<open>
  With primitives that work, building the container depends on the random generator alone.
  It returns the failure the caller expects only when the first draw fails and there is a password;
  a failure of any other draw it makes is a panic. A container that was built verifies: the code
  in it is that of its contents under the key that RFC 7292 derives from the password.
\<close>

theorem pfx_outcome:
  assumes "crypto_ok cr"
  shows "(is_panic (pfx_new_with_cas cr rng cert key cas password name) \<longleftrightarrow>
        (if password = [] then rng 0 = None else rng 0 \<noteq> None \<and> (rng 1 = None \<or> rng 2 = None)))
    \<and> (pfx_new_with_cas cr rng cert key cas password name = Ok None \<longleftrightarrow> password \<noteq> [] \<and> rng 0 = None)
    \<and> (\<forall>p. pfx_new_with_cas cr rng cert key cas password name = Ok (Some p) \<longrightarrow>
         (\<exists>contents m. pfx_auth_safe p = ContentData contents \<and> pfx_mac_data p = Some m
           \<and> digest_value (mac_digest m) =
               hmac_sha1 cr (rfc_kdf (sha1 cr) (if password = [] then [] else bmp_string password)
                 (mac_salt m) (mac_iterations m) 3 20) contents))"
proof -
  have "sha1 cr x \<noteq> []" for x
    using assms unfolding crypto_ok_def by (metis list.size(3) zero_neq_numeral)
  then have "\<exists>contents m. pfx_auth_safe p = ContentData contents \<and> pfx_mac_data p = Some m
      \<and> digest_value (mac_digest m) =
          hmac_sha1 cr (rfc_kdf (sha1 cr) (if password = [] then [] else bmp_string password)
            (mac_salt m) (mac_iterations m) 3 20) contents"
    if "pfx_new_with_cas cr rng cert key cas password name = Ok (Some p)" for p
    using pfx_mac_verifies [OF that] by blast
  moreover note o = pfx_new_outcome [OF assms, where rng = rng and cert = cert and key = key and cas = cas
    and password = password and name = name]
  have "is_panic (pfx_new_with_cas cr rng cert key cas password name) \<longleftrightarrow>
      (if password = [] then rng 0 = None else rng 0 \<noteq> None \<and> (rng 1 = None \<or> rng 2 = None))"
    "pfx_new_with_cas cr rng cert key cas password name = Ok None \<longleftrightarrow> password \<noteq> [] \<and> rng 0 = None"
    using o by (cases "password = []"; cases "rng 0"; cases "rng 1"; cases "rng 2"; force)+
  ultimately show ?thesis
    by blast
qed

theorem pfx_outcome_witness:
  "is_panic (pfx_new_with_cas demo_crypto (\<lambda>_. None) [1] [2] [] [] [])
    \<and> pfx_new_with_cas demo_crypto (\<lambda>_. None) [1] [2] [] [97] [] = Ok None"
  using pfx_outcome [OF demo_crypto_ok, of "\<lambda>_. None"] by simp

section \<open>Channels and error texts\<close>

text \<open>
  The changes reported for a counted channel add up. In every state its threads can reach,
  when no call is in progress the counter is the number of queued messages, and the reports
  sum up to it; after the channel is dropped they sum up to zero.
\<close>

theorem channel_reports_balanced:
  assumes "channel_step\<^sup>*\<^sup>* instrumented_channel c" "ch_updates c = []" "ch_unreported c = []"
  shows "ch_len c = int (length (ch_queue c))
    \<and> sum_list (ch_reports c) = (if ch_dropped c then 0 else int (length (ch_queue c)))"
  using channel_reachable_inv [OF assms(1)] assms(2,3)
  by (auto simp: channel_inv_def split: if_splits)

theorem channel_reports_balanced_witness:
  "\<exists>c :: nat channel. channel_step\<^sup>*\<^sup>* instrumented_channel c \<and> ch_queue c = [5]
    \<and> sum_list (ch_reports c) = 1"
proof -
  let ?c0 = "instrumented_channel :: nat channel"
  let ?c1 = "?c0\<lparr>ch_queue := [5], ch_updates := [1]\<rparr>"
  let ?c2 = "fetch_add 1 ?c1"
  let ?c3 = "report_channel 1 ?c2"
  have "channel_step ?c0 ?c1"
    by (rule send [of _ 5 True]) (simp_all add: instrumented_channel_def channel_send_inner_def)
  moreover have "channel_step ?c1 ?c2"
    by (rule update) simp
  moreover have "channel_step ?c2 ?c3"
    by (rule report) (simp add: fetch_add_def)
  ultimately have r: "channel_step\<^sup>*\<^sup>* ?c0 ?c3"
    by (meson rtranclp.rtrancl_into_rtrancl rtranclp.rtrancl_refl)
  have "ch_updates ?c3 = []" "ch_unreported ?c3 = []" "ch_queue ?c3 = [5]" "\<not> ch_dropped ?c3"
    by (simp_all add: report_channel_def fetch_add_def instrumented_channel_def)
  then show ?thesis
    using channel_reports_balanced [OF r] r by (intro exI [of _ ?c3]) simp
qed

text \<open>
  C37: formatting an error on one line ends for every text, although each of its replacements is
  repeated until nothing is left to replace, and the result holds no line break.
\<close>

theorem detailed_terminates: "\<exists>r. detailed s = Some r \<and> CHR 0x0A \<notin> set r"
  by (rule detailed_returns)

end
