(* ===== verification/Emitted_Deltas.thy ===== *)
theory Emitted_Deltas
  imports Partial_Delta
begin

text \<open>
  What any delta computed by \<open>compute_partial_delta_respecting_mtu\<close> says, whatever its size
  limit: when the computation returns, each node delta is one that the sender's copy of that
  node emits, and no node occurs twice. The size limit, the compressor and the estimate of the
  serialized length decide only where the delta is cut. Theory \<open>Partial_Delta\<close> shows when the
  computation returns.
\<close>

lemma try_add_op_builder:
  assumes "try_add_op z op s = Ok (fits, s')"
  obtains (full) "\<not> fits" "s' = s"
  | (added) "fits" "apply_op (ds_delta_builder s) op = Ok (ds_delta_builder s')"
  using assms
  by (cases "apply_op (ds_delta_builder s) op")
    (auto simp: try_add_op_def and_then_eq_Ok_iff split: if_splits)

lemma ds_finish_built: "ds_finish z s = Ok d \<Longrightarrow> node_deltas d = built (ds_delta_builder s)"
  by (auto simp: ds_finish_def and_then_eq_Ok_iff)

text \<open>
  The loop over the key-values of a node only extends the node delta under construction, by a
  prefix of what it was given.
\<close>

definition extends :: "delta_builder \<Rightarrow> key_value_mutation list \<Rightarrow> delta_builder \<Rightarrow> bool" where
  "extends b kvs b' \<longleftrightarrow> (\<exists>nd. db_current_node_delta b = Some nd
     \<and> b' = b\<lparr>db_current_node_delta := Some (nd\<lparr>ndl_key_values := ndl_key_values nd @ kvs\<rparr>)\<rparr>)"

lemma extends_Nil: "db_current_node_delta b = Some nd \<Longrightarrow> extends b [] b"
  by (simp add: extends_def)

lemma extends_Cons: "extends b [kv] b' \<Longrightarrow> extends b' kvs b'' \<Longrightarrow> extends b (kv # kvs) b''"
  by (auto simp: extends_def)

lemma apply_op_key_value:
  "apply_op b (OpKeyValue kv) = Ok b' \<Longrightarrow> extends b [kv] b'"
  by (auto simp: extends_def split: option.splits if_splits)

lemma add_kvs_added: "add_kvs z kvs True s = Ok (all, added, s') \<Longrightarrow> added"
proof (induction kvs arbitrary: s)
  case (Cons p kvs)
  then show ?case by (cases p) (auto simp: and_then_eq_Ok_iff split: if_splits)
qed simp

lemma add_kvs_extends:
  assumes "add_kvs z kvs added s = Ok (all, added', s')"
    and "db_current_node_delta (ds_delta_builder s) = Some nd"
  shows "\<exists>pre. prefix pre (map (\<lambda>(k, vv). mutation_of k vv) kvs)
    \<and> extends (ds_delta_builder s) pre (ds_delta_builder s')
    \<and> (all \<and> \<not> added' \<longrightarrow> kvs = [])"
  using assms
proof (induction kvs arbitrary: added s nd)
  case Nil
  then show ?case by (auto intro: extends_Nil)
next
  case (Cons p kvs)
  obtain k vv where p: "p = (k, vv)" by (cases p)
  obtain fits s1 where s1: "try_add_kv z k vv s = Ok (fits, s1)"
    and go: "(if \<not> fits then Ok (False, added, s1) else add_kvs z kvs True s1) = Ok (all, added', s')"
    using Cons.prems(1) by (auto simp: p and_then_eq_Ok_iff)
  from s1 [unfolded try_add_kv_def] show ?case
  proof (cases rule: try_add_op_builder)
    case full
    then show ?thesis
      using go extends_Nil [OF Cons.prems(2)] by (intro exI [of _ "[]"]) auto
  next
    case added
    note step = apply_op_key_value [OF added(2)]
    then obtain nd1 where "db_current_node_delta (ds_delta_builder s1) = Some nd1"
      by (auto simp: extends_def)
    from Cons.IH [OF _ this, of True] go added(1) obtain pre where
      "prefix pre (map (\<lambda>(k, vv). mutation_of k vv) kvs)"
      "extends (ds_delta_builder s1) pre (ds_delta_builder s')" by auto
    moreover have "added'"
      using go added(1) add_kvs_added by auto
    ultimately show ?thesis
      using extends_Cons [OF step] by (auto simp: p intro!: exI [of _ "mutation_of k vv # pre"])
  qed
qed

section \<open>The loop over the stale nodes\<close>

definition fresh_ids :: "delta_builder \<Rightarrow> bool" where
  "fresh_ids b \<longleftrightarrow> builder_wf b \<and> distinct (map ndl_chitchat_id (built b))"

lemma apply_op_node_built:
  assumes "fresh_ids b" "apply_op b (OpNode i gc from_v) = Ok b'"
  shows "fresh_ids b'" "built b' = built b @ [\<lparr>ndl_chitchat_id = i,
      ndl_from_version_excluded = from_v, ndl_last_gc_version = gc, ndl_key_values = [],
      ndl_max_version = None\<rparr>]"
    "db_current_node_delta b' = Some \<lparr>ndl_chitchat_id = i,
      ndl_from_version_excluded = from_v, ndl_last_gc_version = gc, ndl_key_values = [],
      ndl_max_version = None\<rparr>"
  using assms
  by (auto simp: fresh_ids_def builder_wf_def built_def builder_flush_def Let_def
      split: option.splits if_splits)

lemma current_update_built:
  assumes "fresh_ids b" "db_current_node_delta b = Some nd" "built b = nds @ [nd]"
    and "ndl_chitchat_id nd' = ndl_chitchat_id nd"
  shows "fresh_ids (b\<lparr>db_current_node_delta := Some nd'\<rparr>)"
    "built (b\<lparr>db_current_node_delta := Some nd'\<rparr>) = nds @ [nd']"
  using assms by (auto simp: fresh_ids_def builder_wf_def built_def)

lemma add_stale_nodes_emitted:
  assumes "add_stale_nodes z sns s = Ok d" "fresh_ids (ds_delta_builder s)"
    and "\<forall>nd \<in> set (built (ds_delta_builder s)). \<exists>sn \<in> sns0. delta_of sn nd" "set sns \<subseteq> sns0"
  shows "distinct (map ndl_chitchat_id (node_deltas d))
    \<and> (\<forall>nd \<in> set (node_deltas d). \<exists>sn \<in> sns0. delta_of sn nd)"
  using assms
proof (induction sns arbitrary: s)
  case Nil
  then show ?case using ds_finish_built by (fastforce simp: fresh_ids_def)
next
  case (Cons sn sns)
  let ?S = "sn_node_state sn" and ?f = "sn_from_version_excluded sn"
  let ?nd = "\<lambda>kvs mv. \<lparr>ndl_chitchat_id = sn_chitchat_id sn, ndl_from_version_excluded = ?f,
    ndl_last_gc_version = ns_last_gc_version ?S, ndl_key_values = kvs, ndl_max_version = mv\<rparr>"
  let ?goal = "distinct (map ndl_chitchat_id (node_deltas d))
    \<and> (\<forall>nd \<in> set (node_deltas d). \<exists>sn \<in> sns0. delta_of sn nd)"
  have stop: ?goal if "ds_finish z s' = Ok d" "fresh_ids (ds_delta_builder s')"
    "\<forall>nd \<in> set (built (ds_delta_builder s')). \<exists>sn \<in> sns0. delta_of sn nd" for s'
    using that ds_finish_built [OF that(1)] by (auto simp: fresh_ids_def)
  have go_on: ?goal if "add_stale_nodes z sns s' = Ok d" "fresh_ids (ds_delta_builder s')"
    "\<forall>nd \<in> set (built (ds_delta_builder s')). \<exists>sn \<in> sns0. delta_of sn nd" for s'
    using Cons.IH [OF that] Cons.prems(4) by simp
  obtain fits s1 where s1: "try_add_node z (sn_chitchat_id sn) (ns_last_gc_version ?S) ?f s = Ok (fits, s1)"
    and r1: "(if \<not> fits then ds_finish z s1
     else and_then (add_kvs z (sn_stale_key_values sn) False s1) (\<lambda>(all_added, added_something, s).
          if \<not> all_added then ds_finish z s
          else if added_something then add_stale_nodes z sns s
          else and_then (try_set_max_version z (ns_max_version (sn_node_state sn)) s) (\<lambda>(_, s).
               add_stale_nodes z sns s))) = Ok d"
    using Cons.prems(1) by (auto simp: and_then_eq_Ok_iff)
  from s1 [unfolded try_add_node_def] show ?case
  proof (cases rule: try_add_op_builder)
    case full
    then show ?thesis using r1 stop [OF _ Cons.prems(2,3)] by simp
  next
    case added
    note b1 = apply_op_node_built [OF Cons.prems(2) added(2)]
    obtain all adds s2 where s2: "add_kvs z (sn_stale_key_values sn) False s1 = Ok (all, adds, s2)"
      and r2: "(if \<not> all then ds_finish z s2 else if adds then add_stale_nodes z sns s2
          else and_then (try_set_max_version z (ns_max_version ?S) s2) (\<lambda>(_, s).
               add_stale_nodes z sns s)) = Ok d"
      using r1 added(1) by (auto simp: and_then_eq_Ok_iff)
    obtain pre where pre: "prefix pre (offered ?S ?f)"
      "ds_delta_builder s2 = ds_delta_builder s1\<lparr>db_current_node_delta := Some (?nd pre None)\<rparr>"
      "all \<and> \<not> adds \<longrightarrow> offered ?S ?f = []"
      using add_kvs_extends [OF s2 b1(3)] b1(3)
      by (auto simp: extends_def offered_stale_node)
    have b2: "fresh_ids (ds_delta_builder s2)"
      "built (ds_delta_builder s2) = built (ds_delta_builder s) @ [?nd pre None]"
      using current_update_built [OF b1(1,3,2), of "?nd pre None"] pre(2) by simp_all
    have nd: "\<exists>sn \<in> sns0. delta_of sn (?nd pre mv)"
      if "mv = None \<or> mv = Some (ns_max_version ?S) \<and> offered ?S ?f = []" for mv
      using that pre(1) Cons.prems(4)
      by (intro bexI [of _ sn]) (auto simp: delta_of_def emits_def)
    have all2: "\<forall>nd \<in> set (built (ds_delta_builder s2)). \<exists>sn \<in> sns0. delta_of sn nd"
      using Cons.prems(3) nd [of None] b2(2) by auto
    show ?thesis
    proof (cases "all \<and> \<not> adds")
      case False
      then show ?thesis
        using r2 stop [OF _ b2(1) all2] go_on [OF _ b2(1) all2] by (auto split: if_splits)
    next
      case True
      then obtain fits3 s3 where s3: "try_set_max_version z (ns_max_version ?S) s2 = Ok (fits3, s3)"
        "add_stale_nodes z sns s3 = Ok d"
        using r2 by (auto simp: and_then_eq_Ok_iff)
      from s3(1) [unfolded try_set_max_version_def] show ?thesis
      proof (cases rule: try_add_op_builder)
        case full
        then show ?thesis using s3(2) go_on [OF _ b2(1) all2] by simp
      next
        case added
        have cur: "db_current_node_delta (ds_delta_builder s2) = Some (?nd pre None)"
          using pre(2) by simp
        let ?nd' = "?nd pre (Some (ns_max_version ?S))"
        have "ds_delta_builder s3 = ds_delta_builder s2\<lparr>db_current_node_delta := Some ?nd'\<rparr>"
          using added(2) cur by simp
        then show ?thesis
          using go_on [OF s3(2)] current_update_built [OF b2(1) cur b2(2), of ?nd']
            Cons.prems(3) nd [of "Some (ns_max_version ?S)"] pre(3) True by auto
      qed
    qed
  qed
qed

definition emitted_by :: "cluster_state \<Rightarrow> node_delta list \<Rightarrow> bool" where
  "emitted_by cs nds \<longleftrightarrow> distinct (map ndl_chitchat_id nds)
     \<and> (\<forall>nd \<in> set nds. \<exists>S. cs_node_state cs (ndl_chitchat_id nd) = Some S
          \<and> emits S (ndl_from_version_excluded nd) nd)"

lemma emitted_by_Nil [simp]: "emitted_by cs []"
  by (simp add: emitted_by_def)

lemma compute_partial_delta_emitted:
  assumes "compute_partial_delta_respecting_mtu z sh dg mtu sched cs = Ok d" "shuffles sh"
    and "bt_wf (cs_node_states cs)"
  shows "emitted_by cs (node_deltas d)"
    "nd \<in> set (node_deltas d) \<Longrightarrow> cs_node_state cs (ndl_chitchat_id nd) = Some S \<Longrightarrow>
     delta_from_version dg (ndl_chitchat_id nd) S = Some (ndl_from_version_excluded nd)"
proof -
  let ?sns = "stale_list sh dg sched cs"
  obtain s where s: "with_mtu mtu = Ok s" "add_stale_nodes z ?sns s = Ok d"
    using assms(1) by (auto simp: compute_partial_delta_respecting_mtu_def and_then_eq_Ok_iff
        stale_list_def)
  have b: "ds_delta_builder s = delta_builder_default"
    using s(1) by (auto simp: with_mtu_def split: if_splits)
  have d: "distinct (map ndl_chitchat_id (node_deltas d))
    \<and> (\<forall>nd \<in> set (node_deltas d). \<exists>sn \<in> set ?sns. delta_of sn nd)"
    by (rule add_stale_nodes_emitted [OF s(2)]) (simp_all add: b fresh_ids_def)
  have sn: "cs_node_state cs (sn_chitchat_id sn) = Some (sn_node_state sn)
      \<and> delta_from_version dg (sn_chitchat_id sn) (sn_node_state sn) = Some (sn_from_version_excluded sn)"
    if "sn \<in> set ?sns" for sn
    using that candidate_iff [of sn dg sched cs] bt_get_iff [OF assms(3)]
    by (simp add: stale_list_iff [OF assms(2)] cs_node_state_def)
  show "emitted_by cs (node_deltas d)"
    using d sn unfolding emitted_by_def delta_of_def by (metis emits_def)
  show "delta_from_version dg (ndl_chitchat_id nd) S = Some (ndl_from_version_excluded nd)"
    if "nd \<in> set (node_deltas d)" "cs_node_state cs (ndl_chitchat_id nd) = Some S"
    using that d sn unfolding delta_of_def emits_def by (metis option.inject)
qed

section \<open>Deltas that have room\<close>

text \<open>
  When all there is to say fits the datagram and one block of the compressed stream, nothing is
  cut, and the delta is a function of the list of stale nodes.
\<close>

definition stale_ops :: "stale_node \<Rightarrow> delta_op list" where
  "stale_ops sn = OpNode (sn_chitchat_id sn) (ns_last_gc_version (sn_node_state sn))
       (sn_from_version_excluded sn)
     # map (\<lambda>(k, vv). OpKeyValue (mutation_of k vv)) (sn_stale_key_values sn)
     @ (if sn_stale_key_values sn = [] then [OpSetMaxVersion (ns_max_version (sn_node_state sn))] else [])"

definition ops_size :: "delta_op list \<Rightarrow> nat" where
  "ops_size ops = sum_list (map delta_op_serialized_len ops)"

definition stale_size :: "stale_node list \<Rightarrow> nat" where
  "stale_size sns = sum_list (map (\<lambda>sn. ops_size (stale_ops sn)) sns)"

definition whole_delta :: "stale_node \<Rightarrow> node_delta" where
  "whole_delta sn =
     \<lparr>ndl_chitchat_id = sn_chitchat_id sn, ndl_from_version_excluded = sn_from_version_excluded sn,
      ndl_last_gc_version = ns_last_gc_version (sn_node_state sn),
      ndl_key_values = map (\<lambda>(k, vv). mutation_of k vv) (sn_stale_key_values sn),
      ndl_max_version = (if sn_stale_key_values sn = []
        then Some (ns_max_version (sn_node_state sn)) else None)\<rparr>"

definition has_room :: "delta_serializer \<Rightarrow> nat \<Rightarrow> bool" where
  "has_room s r \<longleftrightarrow> csw_output (ds_compressed_stream_writer s) = []
     \<and> csw_block_threshold (ds_compressed_stream_writer s) \<le> 65535
     \<and> length (csw_uncompressed_block (ds_compressed_stream_writer s)) + r
         \<le> csw_block_threshold (ds_compressed_stream_writer s)
     \<and> length (csw_uncompressed_block (ds_compressed_stream_writer s)) + r + 4 \<le> ds_mtu s"

lemma try_add_op_room:
  assumes "has_room s (delta_op_serialized_len op + r)" "try_add_op z op s = Ok (fits, s')"
  shows "fits" "has_room s' r" "apply_op (ds_delta_builder s) op = Ok (ds_delta_builder s')"
proof -
  let ?w = "ds_compressed_stream_writer s" and ?len = "delta_op_serialized_len op"
  have append: "csw_append z (delta_op_serialize op) ?len ?w
      = Ok (?w\<lparr>csw_uncompressed_block := csw_uncompressed_block ?w @ delta_op_serialize op\<rparr>)"
    using assms(1) by (intro csw_append_no_flush) (auto simp: has_room_def delta_op_length)
  have "serialized_len_upperbound_after ?w ?len
      = Ok (3 + length (csw_output ?w) + length (csw_uncompressed_block ?w) + ?len + 1)"
    using assms(1) delta_op_serialized_len_pos [of op]
    by (auto simp: serialized_len_upperbound_after_def has_room_def)
  then obtain b where "apply_op (ds_delta_builder s) op = Ok b" "fits"
    "s' = s\<lparr>ds_compressed_stream_writer :=
        ?w\<lparr>csw_uncompressed_block := csw_uncompressed_block ?w @ delta_op_serialize op\<rparr>,
      ds_delta_builder := b\<rparr>"
    using assms append
    by (cases "apply_op (ds_delta_builder s) op") (auto simp: try_add_op_def has_room_def)
  then show "fits" "has_room s' r" "apply_op (ds_delta_builder s) op = Ok (ds_delta_builder s')"
    using assms(1) by (auto simp: has_room_def delta_op_length)
qed

lemma add_kvs_room:
  assumes "add_kvs z kvs added s = Ok (all, added', s')"
    and "has_room s (ops_size (map (\<lambda>(k, vv). OpKeyValue (mutation_of k vv)) kvs) + r)"
    and "db_current_node_delta (ds_delta_builder s) = Some nd"
  shows "all \<and> (added' \<longleftrightarrow> added \<or> kvs \<noteq> []) \<and> has_room s' r
    \<and> extends (ds_delta_builder s) (map (\<lambda>(k, vv). mutation_of k vv) kvs) (ds_delta_builder s')"
  using assms
proof (induction kvs arbitrary: added s nd)
  case Nil
  then show ?case by (auto simp: ops_size_def intro: extends_Nil)
next
  case (Cons p kvs)
  obtain k vv where p: "p = (k, vv)" by (cases p)
  obtain fits s1 where s1: "try_add_op z (OpKeyValue (mutation_of k vv)) s = Ok (fits, s1)"
    and go: "(if \<not> fits then Ok (False, added, s1) else add_kvs z kvs True s1) = Ok (all, added', s')"
    using Cons.prems(1) by (auto simp: p and_then_eq_Ok_iff try_add_kv_def)
  have room: "has_room s (delta_op_serialized_len (OpKeyValue (mutation_of k vv))
      + (ops_size (map (\<lambda>(k, vv). OpKeyValue (mutation_of k vv)) kvs) + r))"
    using Cons.prems(2) by (simp add: p ops_size_def add.assoc)
  note step = try_add_op_room [OF room s1]
  note ext = apply_op_key_value [OF step(3)]
  then obtain nd1 where "db_current_node_delta (ds_delta_builder s1) = Some nd1"
    by (auto simp: extends_def)
  from Cons.IH [OF _ _ this, of True] go step(1,2) show ?case
    using extends_Cons [OF ext] by (auto simp: p ops_size_def)
qed

lemma add_stale_nodes_room:
  assumes "add_stale_nodes z sns s = Ok d" "has_room s (stale_size sns)"
    and "fresh_ids (ds_delta_builder s)"
  shows "node_deltas d = built (ds_delta_builder s) @ map whole_delta sns"
  using assms
proof (induction sns arbitrary: s)
  case Nil
  then show ?case using ds_finish_built by simp
next
  case (Cons sn sns)
  let ?S = "sn_node_state sn" and ?f = "sn_from_version_excluded sn" and ?kvs = "sn_stale_key_values sn"
  let ?op = "OpNode (sn_chitchat_id sn) (ns_last_gc_version ?S) ?f"
  let ?kv_ops = "map (\<lambda>(k, vv). OpKeyValue (mutation_of k vv)) ?kvs"
  let ?last = "if ?kvs = [] then [OpSetMaxVersion (ns_max_version ?S)] else []"
  let ?nd = "\<lambda>mv. \<lparr>ndl_chitchat_id = sn_chitchat_id sn, ndl_from_version_excluded = ?f,
    ndl_last_gc_version = ns_last_gc_version ?S,
    ndl_key_values = map (\<lambda>(k, vv). mutation_of k vv) ?kvs, ndl_max_version = mv\<rparr>"
  have room: "has_room s (delta_op_serialized_len ?op + (ops_size ?kv_ops + (ops_size ?last + stale_size sns)))"
    using Cons.prems(2) by (simp add: stale_size_def stale_ops_def ops_size_def add.assoc)
  obtain fits s1 where s1: "try_add_op z ?op s = Ok (fits, s1)"
    and r1: "(if \<not> fits then ds_finish z s1
     else and_then (add_kvs z ?kvs False s1) (\<lambda>(all_added, added_something, s).
          if \<not> all_added then ds_finish z s
          else if added_something then add_stale_nodes z sns s
          else and_then (try_set_max_version z (ns_max_version ?S) s) (\<lambda>(_, s).
               add_stale_nodes z sns s))) = Ok d"
    using Cons.prems(1) by (auto simp: and_then_eq_Ok_iff try_add_node_def)
  note n = try_add_op_room [OF room s1]
  note b1 = apply_op_node_built [OF Cons.prems(3) n(3)]
  obtain all adds s2 where s2: "add_kvs z ?kvs False s1 = Ok (all, adds, s2)"
    and r2: "(if \<not> all then ds_finish z s2 else if adds then add_stale_nodes z sns s2
        else and_then (try_set_max_version z (ns_max_version ?S) s2) (\<lambda>(_, s).
             add_stale_nodes z sns s)) = Ok d"
    using r1 n(1) by (auto simp: and_then_eq_Ok_iff)
  have k: "all" "adds \<longleftrightarrow> ?kvs \<noteq> []" "has_room s2 (ops_size ?last + stale_size sns)"
    "ds_delta_builder s2 = ds_delta_builder s1\<lparr>db_current_node_delta := Some (?nd None)\<rparr>"
    using add_kvs_room [OF s2 n(2) b1(3)] b1(3) by (auto simp: extends_def)
  have b2: "fresh_ids (ds_delta_builder s2)" "built (ds_delta_builder s2) = built (ds_delta_builder s) @ [?nd None]"
    using current_update_built [OF b1(1,3,2), of "?nd None"] k(4) by simp_all
  show ?case
  proof (cases "?kvs = []")
    case False
    then show ?thesis
      using Cons.IH [of s2] r2 k b2 by (simp add: whole_delta_def ops_size_def)
  next
    case True
    then obtain fits3 s3 where s3: "try_add_op z (OpSetMaxVersion (ns_max_version ?S)) s2 = Ok (fits3, s3)"
      "add_stale_nodes z sns s3 = Ok d"
      using r2 k(1,2) by (auto simp: and_then_eq_Ok_iff try_set_max_version_def)
    have room2: "has_room s2 (delta_op_serialized_len (OpSetMaxVersion (ns_max_version ?S)) + stale_size sns)"
      using k(3) True by (simp add: ops_size_def)
    note m = try_add_op_room [OF room2 s3(1)]
    have cur: "db_current_node_delta (ds_delta_builder s2) = Some (?nd None)" using k(4) by simp
    have "ds_delta_builder s3
        = ds_delta_builder s2\<lparr>db_current_node_delta := Some (?nd (Some (ns_max_version ?S)))\<rparr>"
      using m(3) cur by simp
    then show ?thesis
      using Cons.IH [OF s3(2) m(2)] current_update_built [OF b2(1) cur b2(2)] True
      by (simp add: whole_delta_def)
  qed
qed

lemma whole_delta_uncut: "uncut (sn_node_state sn) (sn_from_version_excluded sn) (whole_delta sn)"
  by (auto simp: uncut_def emits_def whole_delta_def offered_stale_node)

lemma compute_partial_delta_room:
  assumes "compute_partial_delta_respecting_mtu z sh dg mtu sched cs = Ok d"
    and "stale_size (stale_list sh dg sched cs) \<le> BLOCK_THRESHOLD"
    and "stale_size (stale_list sh dg sched cs) + 4 \<le> mtu"
  shows "node_deltas d = map whole_delta (stale_list sh dg sched cs)"
proof -
  obtain s where s: "with_mtu mtu = Ok s" "add_stale_nodes z (stale_list sh dg sched cs) s = Ok d"
    using assms(1) by (auto simp: compute_partial_delta_respecting_mtu_def and_then_eq_Ok_iff
        stale_list_def)
  have "unat (as_u16 (min BLOCK_THRESHOLD mtu)) = min BLOCK_THRESHOLD mtu"
    by (rule unat_as_u16) (simp add: BLOCK_THRESHOLD_def)
  then have "has_room s (stale_size (stale_list sh dg sched cs))" "ds_delta_builder s = delta_builder_default"
    using s(1) assms(2,3)
    by (auto simp: with_mtu_def has_room_def with_block_threshold_def BLOCK_THRESHOLD_def split: if_splits)
  then show ?thesis
    using add_stale_nodes_room [OF s(2)] by (simp add: fresh_ids_def)
qed

end
