(* ===== verification/Gossip_Network.thy ===== *)
theory Gossip_Network
  imports Gossip_Server Replication_System Emitted_Deltas
begin

text \<open>
  A network of nodes, each running the loop of \<open>chitchat/src/server.rs\<close> over the message handler
  of \<open>chitchat/src/lib.rs\<close>. Nodes join at any time, write their own key-values, tick, receive and
  answer messages; a message in flight is delivered at any later time, any number of times, in
  any order, to any node, or never. Theory \<open>Replication_System\<close> follows the copies of one node's
  state; here the copies are those the handlers keep, and the deltas are those they compute.

  A locale states what a property of copies has to satisfy to hold on every node of a reachable
  network; it is interpreted twice, for the consistency of copies and for the origin of values.
\<close>

section \<open>Networks\<close>

record 'c network =
  nw_nodes :: "chitchat_id \<rightharpoonup> 'c run_state"
  nw_history :: "chitchat_id \<Rightarrow> history"
  nw_net :: "(cluster_state \<times> chitchat_message) set"

definition empty_network :: "'c network" where
  "empty_network = \<lparr>nw_nodes = Map.empty, nw_history = (\<lambda>_. []), nw_net = {}\<rparr>"

definition run_cluster :: "'c run_state \<Rightarrow> cluster_state" where
  "run_cluster st = ch_cluster_state (sv_chitchat (run_server st))"

text \<open>The writes of \<open>set_all\<close>, in order.\<close>

fun set_history :: "(string \<times> string) list \<Rightarrow> node_state \<Rightarrow> history" where
  "set_history [] s = []"
| "set_history ((k, v) # kvs) s = (case ns_set k v s of
      Ok s' \<Rightarrow> recorded s k s' @ set_history kvs s' | _ \<Rightarrow> [])"

text \<open>
  What is sent is kept with the cluster state of the sender. A condition on deliveries says for
  each node delta of a message whether it may reach a node: whether the node is the one the
  delta is about, the copy the sender had, the delta, and the copy the receiver has.
\<close>

type_synonym delivery = "bool \<Rightarrow> node_state \<Rightarrow> node_delta \<Rightarrow> node_state \<Rightarrow> bool"

definition receivable :: "delivery \<Rightarrow> cluster_state \<Rightarrow> chitchat_message \<Rightarrow> 'c chitchat \<Rightarrow> bool" where
  "receivable ok src m c \<longleftrightarrow> (\<forall>nd \<in> set (message_deltas m).
     \<forall>S. cs_node_state src (ndl_chitchat_id nd) = Some S \<longrightarrow>
       ok (ndl_chitchat_id nd = self_chitchat_id c) S nd
         (node_state_or_new (ndl_chitchat_id nd) (ch_cluster_state c)))"

fun event_from_net :: "delivery \<Rightarrow> 'c network \<Rightarrow> 'c chitchat \<Rightarrow> server_event \<Rightarrow> bool" where
  "event_from_net ok nw c (EventRecv now sh a m) \<longleftrightarrow> shuffles sh
     \<and> (\<exists>src. (src, m) \<in> nw_net nw \<and> receivable ok src m c)"
| "event_from_net ok nw c _ \<longleftrightarrow> True"

definition sent_messages :: "'c run_state \<Rightarrow> (cluster_state \<times> chitchat_message) set" where
  "sent_messages st = (\<lambda>(_, m). (run_cluster st, m)) ` set (sv_outbox (run_server st))"

fun clear_outbox :: "'c run_state \<Rightarrow> 'c run_state" where
  "clear_outbox (Running sv) = Running (sv\<lparr>sv_outbox := []\<rparr>)"
| "clear_outbox (Stopped sv) = Stopped (sv\<lparr>sv_outbox := []\<rparr>)"
| "clear_outbox (Failed sv) = Failed (sv\<lparr>sv_outbox := []\<rparr>)"

inductive network_step :: "zstd \<Rightarrow> delivery \<Rightarrow> 'c network \<Rightarrow> 'c network \<Rightarrow> bool" for z ok where
  joins:
    "nw_nodes nw (cfg_chitchat_id config) = None \<Longrightarrow>
     0 < fd_sampling_window_size (cfg_failure_detector_config config) \<Longrightarrow>
     with_chitchat_id_and_seeds config seeds kvs max_datagram = Ok c \<Longrightarrow>
     network_step z ok nw (nw\<lparr>
       nw_nodes := (nw_nodes nw)(cfg_chitchat_id config \<mapsto>
         Running \<lparr>sv_chitchat = c, sv_outbox = []\<rparr>),
       nw_history := (nw_history nw)(cfg_chitchat_id config :=
         set_history kvs (inc_heartbeat (node_state_new (cfg_chitchat_id config) [])))\<rparr>)"
| writes_own:
    "nw_nodes nw j = Some (Running sv) \<Longrightarrow>
     cs_node_state (ch_cluster_state (sv_chitchat sv)) j = Some s \<Longrightarrow>
     run_op oper now s = Ok s' \<Longrightarrow> ns_max_version s \<noteq> - 1 \<Longrightarrow>
     deliver_events (self_node_state (\<lambda>_. s') (sv_chitchat sv)) = Ok c \<Longrightarrow>
     network_step z ok nw (nw\<lparr>
       nw_nodes := (nw_nodes nw)(j \<mapsto> Running (sv\<lparr>sv_chitchat := c\<rparr>)),
       nw_history := (nw_history nw)(j := nw_history nw j @ recorded s (op_key oper) s')\<rparr>)"
| runs:
    "nw_nodes nw j = Some (Running sv) \<Longrightarrow> event_from_net ok nw (sv_chitchat sv) ev \<Longrightarrow>
     server_step z ev sv = Ok st \<Longrightarrow>
     network_step z ok nw (nw\<lparr>
       nw_nodes := (nw_nodes nw)(j \<mapsto> clear_outbox st),
       nw_net := nw_net nw \<union> sent_messages st\<rparr>)"

inductive network_reachable :: "zstd \<Rightarrow> delivery \<Rightarrow> 'c network \<Rightarrow> bool" for z ok where
  nothing_yet: "network_reachable z ok empty_network"
| one_more: "network_reachable z ok nw \<Longrightarrow> network_step z ok nw nw' \<Longrightarrow> network_reachable z ok nw'"

section \<open>Operations on the states a node keeps\<close>

definition all_states :: "(chitchat_id \<Rightarrow> node_state \<Rightarrow> bool) \<Rightarrow> cluster_state \<Rightarrow> bool" where
  "all_states P cs \<longleftrightarrow> (\<forall>i s. cs_node_state cs i = Some s \<longrightarrow> P i s)"

lemma all_statesD: "all_states P cs \<Longrightarrow> cs_node_state cs i = Some s \<Longrightarrow> P i s"
  by (simp add: all_states_def)

lemma all_states_mono:
  "all_states P cs \<Longrightarrow> (\<And>i s. P i s \<Longrightarrow> Q i s) \<Longrightarrow> all_states Q cs"
  by (simp add: all_states_def)

lemma cs_node_state_mut [simp]:
  "cs_node_state (node_state_mut i f cs) j =
     (if j = i then Some (f (node_state_or_new i cs)) else cs_node_state cs j)"
  by (simp add: cs_node_state_def node_state_mut_def bt_get_insert)

lemma node_state_or_new_known:
  "cs_node_state cs i = Some s \<Longrightarrow> node_state_or_new i cs = s"
  by (simp add: node_state_or_new_def cs_node_state_def)

lemma node_state_or_new_unknown:
  "cs_node_state cs i = None \<Longrightarrow> node_state_or_new i cs = node_state_new i []"
  by (simp add: node_state_or_new_def cs_node_state_def)

lemma node_state_or_new_mut [simp]:
  "node_state_or_new j (node_state_mut i f cs) =
     (if j = i then f (node_state_or_new i cs) else node_state_or_new j cs)"
  by (simp add: node_state_or_new_def node_state_mut_def bt_get_insert)

lemma cs_node_state_gc:
  "cs_node_state (cs_gc_keys_marked_for_deletion now grace cs) i =
     map_option (gc_keys_marked_for_deletion now grace) (cs_node_state cs i)"
  by (simp add: cs_node_state_def cs_gc_keys_marked_for_deletion_def bt_get_map_values)

lemma cs_node_state_remove:
  "cs_node_state (fold remove_node gone cs) i = (if i \<in> set gone then None else cs_node_state cs i)"
  by (induction gone arbitrary: cs) (auto simp: cs_node_state_def remove_node_def bt_get_remove)

lemma cs_apply_delta_get:
  assumes "distinct (map ndl_chitchat_id (node_deltas d))"
  shows "cs_node_state (cs_apply_delta d now cs) i =
    (case find (\<lambda>nd. ndl_chitchat_id nd = i) (node_deltas d) of
       Some nd \<Rightarrow> Some (ns_apply_delta nd now (node_state_or_new i cs))
     | None \<Rightarrow> cs_node_state cs i)"
proof -
  have "cs_node_state (fold (\<lambda>nd cs. node_state_mut (ndl_chitchat_id nd) (ns_apply_delta nd now) cs) nds cs) i
      = (case find (\<lambda>nd. ndl_chitchat_id nd = i) nds of
           Some nd \<Rightarrow> Some (ns_apply_delta nd now (node_state_or_new i cs))
         | None \<Rightarrow> cs_node_state cs i)"
    if "distinct (map ndl_chitchat_id nds)" for nds
    using that
  proof (induction nds arbitrary: cs)
    case (Cons nd nds)
    have "find (\<lambda>nd. ndl_chitchat_id nd = i) nds = None" if "ndl_chitchat_id nd = i"
      using Cons.prems that by (simp add: find_None_iff) (metis imageI)
    then show ?case
      using Cons by (auto split: option.splits)
  qed simp
  then show ?thesis using assms by (simp add: cs_apply_delta_def)
qed

text \<open>Reporting heartbeats changes nothing else of the states, and forgets no state.\<close>

definition beats :: "'c chitchat \<Rightarrow> 'c chitchat \<Rightarrow> bool" where
  "beats c c' \<longleftrightarrow>
     (\<forall>i. \<exists>h. node_state_or_new i (ch_cluster_state c') =
        node_state_or_new i (ch_cluster_state c)\<lparr>ns_heartbeat := h\<rparr>)
     \<and> (\<forall>i. cs_node_state (ch_cluster_state c') i = None \<longrightarrow> cs_node_state (ch_cluster_state c) i = None)
     \<and> ch_config c' = ch_config c
     \<and> fd_dead_nodes (ch_failure_detector c') = fd_dead_nodes (ch_failure_detector c)
     \<and> fd_config (ch_failure_detector c') = fd_config (ch_failure_detector c)"

lemma same_heartbeat: "\<exists>h. s = (s :: node_state)\<lparr>ns_heartbeat := h\<rparr>"
  by (rule exI [of _ "ns_heartbeat s"]) simp

lemma beats_refl: "beats c c"
  unfolding beats_def by (auto intro: same_heartbeat)

lemma beats_trans:
  assumes "beats c c'" "beats c' c''"
  shows "beats c c''"
proof -
  have "\<exists>h. node_state_or_new i (ch_cluster_state c'') =
      node_state_or_new i (ch_cluster_state c)\<lparr>ns_heartbeat := h\<rparr>" for i
  proof -
    obtain h h' where "node_state_or_new i (ch_cluster_state c'') =
        node_state_or_new i (ch_cluster_state c')\<lparr>ns_heartbeat := h\<rparr>"
      "node_state_or_new i (ch_cluster_state c') =
        node_state_or_new i (ch_cluster_state c)\<lparr>ns_heartbeat := h'\<rparr>"
      using assms unfolding beats_def by blast
    then show ?thesis by (intro exI [of _ h]) simp
  qed
  then show ?thesis using assms unfolding beats_def by simp
qed

lemma beats_mut:
  assumes "\<And>s. \<exists>h. f s = s\<lparr>ns_heartbeat := h\<rparr>"
  shows "beats c (ch_update_cluster (node_state_mut i f) c)"
  using assms beats_refl [of c] by (auto simp: beats_def ch_update_cluster_def)

lemma beats_update_self_heartbeat: "beats c (update_self_heartbeat c)"
  unfolding update_self_heartbeat_def self_node_state_def
  by (rule beats_mut) (auto simp: inc_heartbeat_def)

lemma try_set_heartbeat_only: "\<exists>h'. snd (try_set_heartbeat h s) = s\<lparr>ns_heartbeat := h'\<rparr>"
  by (cases s) (auto simp: try_set_heartbeat_def)

lemma fd_report_heartbeat_dead:
  "fd_report_heartbeat i now fd = Ok fd' \<Longrightarrow>
   fd_dead_nodes fd' = fd_dead_nodes fd \<and> fd_config fd' = fd_config fd"
  by (auto simp: fd_report_heartbeat_def get_or_create_sampling_window_def and_then_eq_Ok_iff Let_def
      split: option.splits prod.splits)

lemma beats_report_heartbeat:
  assumes "report_heartbeat now i h c = Ok c'"
  shows "beats c c'"
proof (cases "i = self_chitchat_id c")
  case True
  then show ?thesis using assms beats_refl by (auto simp: report_heartbeat_def)
next
  case False
  let ?c = "ch_update_cluster (node_state_mut i (\<lambda>s. snd (try_set_heartbeat h s))) c"
  have "beats c ?c" by (rule beats_mut) (rule try_set_heartbeat_only)
  moreover have "\<exists>fd. c' = ?c\<lparr>ch_failure_detector := fd\<rparr>
      \<and> fd_dead_nodes fd = fd_dead_nodes (ch_failure_detector ?c)
      \<and> fd_config fd = fd_config (ch_failure_detector ?c)"
    using assms False fd_report_heartbeat_dead
    by (fastforce simp: report_heartbeat_def Let_def and_then_eq_Ok_iff split: if_splits
        intro: exI [of _ "ch_failure_detector ?c"])
  ultimately show ?thesis by (auto simp: beats_def)
qed

lemma beats_report_heartbeats: "report_heartbeats now nds c = Ok c' \<Longrightarrow> beats c c'"
proof (induction now nds c arbitrary: c' rule: report_heartbeats.induct)
  case (2 now i nd nds c)
  then show ?case
    by (auto simp: and_then_eq_Ok_iff intro: beats_trans [OF beats_report_heartbeat])
qed (simp add: beats_refl)

lemma beats_known:
  assumes "beats c c'" "cs_node_state (ch_cluster_state c) i = Some s"
  obtains h where "cs_node_state (ch_cluster_state c') i = Some (s\<lparr>ns_heartbeat := h\<rparr>)"
proof -
  obtain s' where s': "cs_node_state (ch_cluster_state c') i = Some s'"
    using assms unfolding beats_def by (cases "cs_node_state (ch_cluster_state c') i") auto
  moreover obtain h where "node_state_or_new i (ch_cluster_state c') =
      node_state_or_new i (ch_cluster_state c)\<lparr>ns_heartbeat := h\<rparr>"
    using assms(1) unfolding beats_def by blast
  ultimately show thesis
    using that [of h] assms(2) by (simp add: node_state_or_new_known)
qed

text \<open>The node never declares itself dead, so it never drops its own state.\<close>

lemma update_node_liveness_dead:
  "set (map fst (fd_dead_nodes (update_node_liveness i now fd)))
     \<subseteq> insert i (set (map fst (fd_dead_nodes fd)))"
  by (auto simp: update_node_liveness_def Let_def bt_remove_def fst_set_bt_insert image_iff
      split: option.splits dest: fst_set_bt_insert [THEN equalityD1, THEN subsetD, OF imageI])

lemma fold_liveness_dead:
  "set (map fst (fd_dead_nodes (fold (\<lambda>i fd. if i \<noteq> self then update_node_liveness i now fd else fd) is fd)))
     \<subseteq> (set is - {self}) \<union> set (map fst (fd_dead_nodes fd))"
proof (induction "is" arbitrary: fd)
  case (Cons i "is")
  show ?case
    using Cons.IH [of "if i \<noteq> self then update_node_liveness i now fd else fd"]
      update_node_liveness_dead [of i now fd]
    by (cases "i = self") (simp_all, blast+)
qed simp

lemma garbage_collect_dead:
  assumes "garbage_collect now fd = (gone, fd')"
  shows "set gone \<subseteq> set (map fst (fd_dead_nodes fd))"
    "set (map fst (fd_dead_nodes fd')) \<subseteq> set (map fst (fd_dead_nodes fd))"
proof -
  have sub: "set (map fst (fd_dead_nodes (fold (\<lambda>i fd. fd\<lparr>fd_dead_nodes := bt_remove i (fd_dead_nodes fd),
      fd_node_samples := bt_remove i (fd_node_samples fd)\<rparr>) is fd)))
      \<subseteq> set (map fst (fd_dead_nodes fd))" for "is" fd
    by (induction "is" arbitrary: fd) (simp, fastforce simp: bt_remove_def)
  show "set gone \<subseteq> set (map fst (fd_dead_nodes fd))"
    "set (map fst (fd_dead_nodes fd')) \<subseteq> set (map fst (fd_dead_nodes fd))"
    using assms sub [of _ fd] by (auto simp: garbage_collect_def Let_def)
qed

definition own_state_kept :: "'c chitchat \<Rightarrow> bool" where
  "own_state_kept c \<longleftrightarrow> self_chitchat_id c \<notin> set (map fst (fd_dead_nodes (ch_failure_detector c)))
     \<and> cs_node_state (ch_cluster_state c) (self_chitchat_id c) \<noteq> None"

lemma beats_own_state_kept: "beats c c' \<Longrightarrow> own_state_kept c \<Longrightarrow> own_state_kept c'"
  by (auto simp: own_state_kept_def beats_def self_chitchat_id_def)

lemma update_nodes_liveness_cluster:
  assumes "own_state_kept c"
  obtains gone where "ch_cluster_state (update_nodes_liveness now c) = fold remove_node gone (ch_cluster_state c)"
    "self_chitchat_id c \<notin> set gone" "own_state_kept (update_nodes_liveness now c)"
    "self_chitchat_id (update_nodes_liveness now c) = self_chitchat_id c"
proof -
  let ?self = "self_chitchat_id c"
  let ?fd = "fold (\<lambda>i fd. if i \<noteq> ?self then update_node_liveness i now fd else fd)
    (cs_nodes (ch_cluster_state c)) (ch_failure_detector c)"
  obtain gone fd' where g: "garbage_collect now ?fd = (gone, fd')"
    by (cases "garbage_collect now ?fd")
  have dead: "?self \<notin> set (map fst (fd_dead_nodes ?fd))"
    using fold_liveness_dead [of ?self now "cs_nodes (ch_cluster_state c)" "ch_failure_detector c"]
      assms by (auto simp: own_state_kept_def)
  have c': "ch_cluster_state (update_nodes_liveness now c) = fold remove_node gone (ch_cluster_state c)"
    "ch_failure_detector (update_nodes_liveness now c) = fd'"
    "self_chitchat_id (update_nodes_liveness now c) = ?self"
    using g by (simp_all add: update_nodes_liveness_def Let_def self_chitchat_id_def)
  have notin: "?self \<notin> set gone" "?self \<notin> set (map fst (fd_dead_nodes fd'))"
    using garbage_collect_dead [OF g] dead by blast+
  then have "own_state_kept (update_nodes_liveness now c)"
    using assms unfolding own_state_kept_def c' cs_node_state_remove by simp
  then show thesis using that c'(1,3) notin(1) by blast
qed

text \<open>
  A property of the states a node keeps that heartbeats, garbage collection and the applied
  deltas keep is kept by the whole handler.
\<close>

definition kept_by_heartbeats :: "(chitchat_id \<Rightarrow> node_state \<Rightarrow> bool) \<Rightarrow> bool" where
  "kept_by_heartbeats P \<longleftrightarrow> (\<forall>i s h. P i s \<longrightarrow> P i (s\<lparr>ns_heartbeat := h\<rparr>))"

definition tracked :: "(chitchat_id \<Rightarrow> node_state \<Rightarrow> bool) \<Rightarrow> 'c chitchat \<Rightarrow> bool" where
  "tracked P c \<longleftrightarrow> own_state_kept c \<and> all_states P (ch_cluster_state c)
     \<and> (\<forall>i. i \<noteq> self_chitchat_id c \<longrightarrow> P i (node_state_new i []))"

lemma tracked_or_new:
  assumes "tracked P c"
  shows "P i (node_state_or_new i (ch_cluster_state c))"
proof (cases "cs_node_state (ch_cluster_state c) i")
  case None
  then have "i \<noteq> self_chitchat_id c" using assms by (auto simp: tracked_def own_state_kept_def)
  then show ?thesis using assms None by (simp add: tracked_def node_state_or_new_unknown)
next
  case (Some s)
  then show ?thesis
    using assms by (simp add: tracked_def node_state_or_new_known all_states_def)
qed

lemma tracked_beats:
  assumes "tracked P c" "beats c c'" "kept_by_heartbeats P"
  shows "tracked P c'"
proof -
  have "P i s" if s: "cs_node_state (ch_cluster_state c') i = Some s" for i s
  proof -
    obtain h where "node_state_or_new i (ch_cluster_state c')
        = node_state_or_new i (ch_cluster_state c)\<lparr>ns_heartbeat := h\<rparr>"
      using assms(2) unfolding beats_def by blast
    then show ?thesis
      using tracked_or_new [OF assms(1), of i] assms(3) node_state_or_new_known [OF s]
      by (auto simp: kept_by_heartbeats_def)
  qed
  then show ?thesis
    using assms(1) beats_own_state_kept [OF assms(2)] assms(2)
    by (auto simp: tracked_def all_states_def beats_def self_chitchat_id_def)
qed

text \<open>What has to hold of a message for its deltas to keep the property.\<close>

definition deltas_keep ::
  "(chitchat_id \<Rightarrow> node_state \<Rightarrow> bool) \<Rightarrow> instant \<Rightarrow> node_delta list \<Rightarrow> 'c chitchat \<Rightarrow> bool" where
  "deltas_keep P now nds c \<longleftrightarrow> distinct (map ndl_chitchat_id nds)
     \<and> (\<forall>nd \<in> set nds. \<forall>h. P (ndl_chitchat_id nd) (ns_apply_delta nd now
          (node_state_or_new (ndl_chitchat_id nd) (ch_cluster_state c)\<lparr>ns_heartbeat := h\<rparr>)))"

lemma deltas_keep_beats:
  assumes "deltas_keep P now nds c" "beats c c'"
  shows "deltas_keep P now nds c'"
proof -
  have "P (ndl_chitchat_id nd) (ns_apply_delta nd now
      (node_state_or_new (ndl_chitchat_id nd) (ch_cluster_state c')\<lparr>ns_heartbeat := h\<rparr>))"
    if "nd \<in> set nds" for nd h
  proof -
    obtain h' where "node_state_or_new (ndl_chitchat_id nd) (ch_cluster_state c')
        = node_state_or_new (ndl_chitchat_id nd) (ch_cluster_state c)\<lparr>ns_heartbeat := h'\<rparr>"
      using assms(2) unfolding beats_def by blast
    then show ?thesis using assms(1) that by (simp add: deltas_keep_def)
  qed
  then show ?thesis using assms(1) by (simp add: deltas_keep_def)
qed

lemma deliver_events_same: "deliver_events c = Ok c' \<Longrightarrow> c' = c"
  by (auto simp: deliver_events_def split: if_splits)

lemma process_delta_cluster:
  assumes "process_delta now d c = Ok c'"
  shows "ch_cluster_state c' = cs_apply_delta d now (ch_cluster_state c)"
    "ch_config c' = ch_config c" "ch_failure_detector c' = ch_failure_detector c"
  using deliver_events_same [OF assms [unfolded process_delta_def]]
  by (simp_all add: ch_update_cluster_def maybe_trigger_catchup_callback_def Let_def)

lemma tracked_process_delta:
  assumes "tracked P c" "deltas_keep P now (node_deltas d) c" "process_delta now d c = Ok c'"
  shows "tracked P c'"
proof -
  note c' = process_delta_cluster [OF assms(3)]
  have get: "cs_node_state (ch_cluster_state c') i =
    (case find (\<lambda>nd. ndl_chitchat_id nd = i) (node_deltas d) of
       Some nd \<Rightarrow> Some (ns_apply_delta nd now (node_state_or_new i (ch_cluster_state c)))
     | None \<Rightarrow> cs_node_state (ch_cluster_state c) i)" for i
    using assms(2) cs_apply_delta_get [of d now "ch_cluster_state c" i]
    by (simp add: deltas_keep_def c'(1))
  have "P i s" if "cs_node_state (ch_cluster_state c') i = Some s" for i s
  proof (cases "find (\<lambda>nd. ndl_chitchat_id nd = i) (node_deltas d)")
    case None
    then show ?thesis using that get [of i] assms(1) by (simp add: tracked_def all_states_def)
  next
    case (Some nd)
    then have nd: "nd \<in> set (node_deltas d)" "ndl_chitchat_id nd = i"
      by (auto simp: find_Some_iff)
    have "P i (ns_apply_delta nd now (node_state_or_new i (ch_cluster_state c)
        \<lparr>ns_heartbeat := ns_heartbeat (node_state_or_new i (ch_cluster_state c))\<rparr>))"
      using assms(2) nd unfolding deltas_keep_def by blast
    then show ?thesis using that get Some by simp
  qed
  moreover have "own_state_kept c'"
    using assms(1) get [of "self_chitchat_id c"] c'(2,3)
    by (auto simp: tracked_def own_state_kept_def self_chitchat_id_def split: option.splits)
  ultimately show ?thesis
    using assms(1) c'(2) by (simp add: tracked_def all_states_def self_chitchat_id_def)
qed

text \<open>The three parts of the handler: heartbeats, then the delta, then the reply.\<close>

lemma process_message_parts:
  assumes "process_message z sh now m c = Ok (reply, c')"
  obtains c1 where "beats c c1"
    "c' = c1 \<and> message_deltas m = [] \<or> (\<exists>d. message_deltas m = node_deltas d \<and> process_delta now d c1 = Ok c')"
    "reply = None \<or> reply = Some BadCluster
     \<or> (\<exists>dg mtu sched d. compute_partial_delta_respecting_mtu z sh dg mtu sched (ch_cluster_state c') = Ok d
          \<and> (reply = Some (Ack d) \<or> (\<exists>dg. reply = Some (SynAck dg d))))"
proof -
  let ?c = "update_self_heartbeat c"
  note b = beats_update_self_heartbeat [of c]
  have rep: "beats c c1" if "report_heartbeats_in_digest now dg ?c = Ok c1" for dg c1
    using beats_trans [OF b beats_report_heartbeats] that
    unfolding report_heartbeats_in_digest_def by blast
  show thesis
  proof (cases m)
    case (Syn cluster_id dg)
    show thesis
    proof (cases "cluster_id = cfg_cluster_id (ch_config ?c)")
      case True
      then obtain c1 d where "report_heartbeats_in_digest now dg ?c = Ok c1" "c' = c1"
        "\<exists>mtu sched. compute_partial_delta_respecting_mtu z sh dg mtu sched (ch_cluster_state c1) = Ok d"
        "\<exists>dg. reply = Some (SynAck dg d)"
        using assms Syn by (auto simp: Let_def and_then_eq_Ok_iff)
      then show thesis using that [of c1] rep Syn by auto blast
    next
      case False
      then show thesis using assms that [of ?c] Syn b by (auto simp: Let_def)
    qed
  next
    case (SynAck dg d)
    then obtain c1 d' where "report_heartbeats_in_digest now dg ?c = Ok c1" "process_delta now d c1 = Ok c'"
      "\<exists>mtu sched. compute_partial_delta_respecting_mtu z sh dg mtu sched (ch_cluster_state c') = Ok d'"
      "reply = Some (Ack d')"
      using assms by (auto simp: Let_def and_then_eq_Ok_iff)
    then show thesis using that [of c1] rep SynAck by auto
  next
    case (Ack d)
    then show thesis using assms that [of ?c] b by (auto simp: Let_def and_then_eq_Ok_iff)
  next
    case BadCluster
    then show thesis using assms that [of ?c] b by auto
  qed
qed

lemma tracked_process_message:
  assumes "tracked P c" "kept_by_heartbeats P" "deltas_keep P now (message_deltas m) c"
    and "process_message z sh now m c = Ok (reply, c')"
  shows "tracked P c'"
proof -
  obtain c1 where c1: "beats c c1" "c' = c1 \<and> message_deltas m = []
      \<or> (\<exists>d. message_deltas m = node_deltas d \<and> process_delta now d c1 = Ok c')"
    using process_message_parts [OF assms(4)] by metis
  show ?thesis
    using c1(2) tracked_beats [OF assms(1) c1(1) assms(2)]
      tracked_process_delta deltas_keep_beats [OF assms(3) c1(1)] by metis
qed

lemma process_message_reply_emitted:
  assumes "process_message z sh now m c = Ok (Some reply, c')" "shuffles sh" "ch_inv c'"
  shows "emitted_by (ch_cluster_state c') (message_deltas reply)"
proof -
  have wf: "bt_wf (cs_node_states (ch_cluster_state c'))"
    using assms(3) by (simp add: ch_inv_def cs_inv_def)
  show ?thesis
    using process_message_parts [OF assms(1)] compute_partial_delta_emitted(1) [OF _ assms(2) wf]
    by (metis emitted_by_Nil message_deltas.simps(2-4) option.inject option.distinct(1))
qed

lemma tracked_gossip_multiple:
  assumes "tracked P (sv_chitchat sv)" "kept_by_heartbeats P"
    and gc: "\<And>i s now grace. P i s \<Longrightarrow> P i (gc_keys_marked_for_deletion now grace s)"
  shows "tracked P (sv_chitchat (gossip_multiple rng now sv))"
proof -
  let ?c = "update_self_heartbeat (sv_chitchat sv)"
  let ?g = "ch_gc_keys_marked_for_deletion now ?c"
  have c: "tracked P ?c" by (rule tracked_beats [OF assms(1) beats_update_self_heartbeat assms(2)])
  then have g: "tracked P ?g"
    using gc by (auto simp: tracked_def all_states_def own_state_kept_def self_chitchat_id_def
        ch_gc_keys_marked_for_deletion_def ch_update_cluster_def cs_node_state_gc)
  then obtain gone where gone: "ch_cluster_state (update_nodes_liveness now ?g)
      = fold remove_node gone (ch_cluster_state ?g)" "own_state_kept (update_nodes_liveness now ?g)"
    "self_chitchat_id (update_nodes_liveness now ?g) = self_chitchat_id ?g"
    using update_nodes_liveness_cluster unfolding tracked_def by metis
  then have "all_states P (ch_cluster_state (update_nodes_liveness now ?g))"
    using g by (simp add: tracked_def all_states_def cs_node_state_remove)
  then show ?thesis
    using g gone by (simp add: tracked_def gossip_multiple_chitchat)
qed

text \<open>One step of the loop.\<close>

lemma tracked_server_step:
  assumes "tracked P (sv_chitchat sv)" "kept_by_heartbeats P"
    and gc: "\<And>i s now grace. P i s \<Longrightarrow> P i (gc_keys_marked_for_deletion now grace s)"
    and keep: "\<And>now sh a m. ev = EventRecv now sh a m \<Longrightarrow>
      deltas_keep P now (message_deltas m) (sv_chitchat sv)"
    and "server_step z ev sv = Ok st"
  shows "tracked P (sv_chitchat (run_server st))"
proof (cases ev)
  case (EventRecv now sh a m)
  then obtain response c' where "process_message z sh now m (sv_chitchat sv) = Ok (response, c')"
    "sv_chitchat (run_server st) = c'"
    using assms(5) by (auto simp: handle_message_def sv_send_def and_then_eq_Ok_iff Let_def split: option.splits)
  then show ?thesis
    using tracked_process_message [OF assms(1,2) keep [OF EventRecv]] by blast
next
  case (EventTick now rng)
  then show ?thesis
    using assms(5) tracked_gossip_multiple [OF assms(1,2) gc] by auto
qed (use assms(1,5) in \<open>auto simp: server_gossip_def sv_send_def\<close>)

section \<open>The invariant of a network\<close>

definition nw_own :: "'c network \<Rightarrow> chitchat_id \<Rightarrow> node_state" where
  "nw_own nw i = (case nw_nodes nw i of
      None \<Rightarrow> node_state_new i [] | Some st \<Rightarrow> node_state_or_new i (run_cluster st))"

definition copies_ok ::
  "(history \<Rightarrow> version \<Rightarrow> node_state \<Rightarrow> bool) \<Rightarrow> 'c network \<Rightarrow> cluster_state \<Rightarrow> bool" where
  "copies_ok copy nw cs \<longleftrightarrow>
     all_states (\<lambda>i s. copy (nw_history nw i) (ns_max_version (nw_own nw i)) s) cs"

definition node_ok ::
  "(history \<Rightarrow> version \<Rightarrow> node_state \<Rightarrow> bool) \<Rightarrow> 'c network \<Rightarrow> chitchat_id \<Rightarrow> 'c run_state \<Rightarrow> bool" where
  "node_ok copy nw j st \<longleftrightarrow> ch_inv (sv_chitchat (run_server st))
     \<and> own_state_kept (sv_chitchat (run_server st))
     \<and> self_chitchat_id (sv_chitchat (run_server st)) = j \<and> sv_outbox (run_server st) = []
     \<and> copies_ok copy nw (run_cluster st)"

definition message_ok ::
  "(history \<Rightarrow> version \<Rightarrow> node_state \<Rightarrow> bool) \<Rightarrow> 'c network \<Rightarrow> cluster_state \<times> chitchat_message \<Rightarrow> bool"
where
  "message_ok copy nw p \<longleftrightarrow> cs_inv (fst p) \<and> emitted_by (fst p) (message_deltas (snd p))
     \<and> copies_ok copy nw (fst p)"

definition network_inv ::
  "(history \<Rightarrow> version \<Rightarrow> node_state \<Rightarrow> bool) \<Rightarrow> (history \<Rightarrow> node_state \<Rightarrow> bool) \<Rightarrow> 'c network \<Rightarrow> bool"
where
  "network_inv copy own nw \<longleftrightarrow>
     (\<forall>i. own (nw_history nw i) (nw_own nw i))
     \<and> (\<forall>j. nw_nodes nw j = None \<longrightarrow> nw_history nw j = [])
     \<and> (\<forall>j st. nw_nodes nw j = Some st \<longrightarrow> node_ok copy nw j st)
     \<and> (\<forall>p \<in> nw_net nw. message_ok copy nw p)"

lemma emitted_delta_wf:
  assumes "emitted_by cs nds" "cs_inv cs" "nd \<in> set nds"
  shows "node_delta_wf nd"
proof -
  obtain S where S: "cs_node_state cs (ndl_chitchat_id nd) = Some S"
    "emits S (ndl_from_version_excluded nd) nd"
    using assms(1,3) by (auto simp: emitted_by_def)
  have "ns_inv S" using assms(2) S(1) by (auto simp: cs_inv_get cs_node_state_def)
  moreover obtain kvs where
    "offered S (ndl_from_version_excluded nd) = ndl_key_values nd @ kvs"
    using S(2) by (auto simp: emits_def elim: prefixE)
  ultimately show ?thesis
    using offered_strict_sorted [of S "ndl_from_version_excluded nd"]
    by (simp add: node_delta_wf_def sorted_wrt_append)
qed

text \<open>Every message of a tick or of a gossip command is a SYN.\<close>

lemma fold_server_gossip_outbox:
  "set (sv_outbox (fold (server_gossip now) addrs sv)) \<subseteq>
     set (sv_outbox sv) \<union> UNIV \<times> {create_syn_message now (sv_chitchat sv)}"
  by (induction addrs arbitrary: sv) (force simp: server_gossip_def sv_send_def)+

lemma gossip_multiple_outbox:
  assumes "(a, m) \<in> set (sv_outbox (gossip_multiple rng now sv))" "sv_outbox sv = []"
  shows "message_deltas m = []"
proof -
  let ?c = "ch_gc_keys_marked_for_deletion now (update_self_heartbeat (sv_chitchat sv))"
  obtain addrs where "sv_outbox (gossip_multiple rng now sv)
      = sv_outbox (fold (server_gossip now) addrs (sv\<lparr>sv_chitchat := ?c\<rparr>))"
  proof -
    obtain nodes dead seed where sel: "select_nodes_for_gossip rng (peer_addrs (sv_chitchat sv))
        (live_addrs (sv_chitchat sv)) (dead_addrs (sv_chitchat sv)) (seed_addrs (sv_chitchat sv))
        = (nodes, dead, seed)"
      by (cases "select_nodes_for_gossip rng (peer_addrs (sv_chitchat sv))
        (live_addrs (sv_chitchat sv)) (dead_addrs (sv_chitchat sv)) (seed_addrs (sv_chitchat sv))")
    show thesis
      by (rule that [of "nodes @ (case dead of Some a \<Rightarrow> [a] | None \<Rightarrow> [])
          @ (case seed of Some a \<Rightarrow> [a] | None \<Rightarrow> [])"])
        (auto simp: gossip_multiple_def sel Let_def split: option.splits)
  qed
  then show ?thesis
    using fold_server_gossip_outbox [of now addrs "sv\<lparr>sv_chitchat := ?c\<rparr>"] assms
    by (auto simp: create_syn_message_def)
qed

lemma update_nodes_liveness_config: "ch_config (update_nodes_liveness now c) = ch_config c"
  by (simp add: update_nodes_liveness_def Let_def split: prod.splits)

lemma gossip_multiple_config:
  "ch_config (sv_chitchat (gossip_multiple rng now sv)) = ch_config (sv_chitchat sv)"
  by (simp add: gossip_multiple_chitchat update_nodes_liveness_config ch_gc_keys_marked_for_deletion_def
      ch_update_cluster_def update_self_heartbeat_def self_node_state_def)

lemma clear_outbox_run_server [simp]:
  "run_server (clear_outbox st) = (run_server st)\<lparr>sv_outbox := []\<rparr>"
  by (cases st) simp_all

text \<open>
  The property of the states one node keeps: the owner's property of its own, after which the
  copies of it elsewhere are still copies, and the property of copies for the others.
\<close>

definition node_pred ::
  "(history \<Rightarrow> version \<Rightarrow> node_state \<Rightarrow> bool) \<Rightarrow> (history \<Rightarrow> node_state \<Rightarrow> bool) \<Rightarrow>
   'c network \<Rightarrow> chitchat_id \<Rightarrow> chitchat_id \<Rightarrow> node_state \<Rightarrow> bool" where
  "node_pred copy own nw j i s \<longleftrightarrow> ns_inv s
     \<and> (if i = j then own (nw_history nw j) s
          \<and> (\<forall>c. copy (nw_history nw j) (ns_max_version (nw_own nw j)) c \<longrightarrow>
               copy (nw_history nw j) (ns_max_version s) c)
        else copy (nw_history nw i) (ns_max_version (nw_own nw i)) s)"

lemma ns_inv_heartbeat [simp]: "ns_inv (s\<lparr>ns_heartbeat := h\<rparr>) = ns_inv s"
  by (simp add: ns_inv_def)

lemma network_invD:
  assumes "network_inv copy own nw"
  shows "own (nw_history nw i) (nw_own nw i)" "nw_nodes nw j = None \<Longrightarrow> nw_history nw j = []"
    "nw_nodes nw j = Some st \<Longrightarrow> node_ok copy nw j st" "p \<in> nw_net nw \<Longrightarrow> message_ok copy nw p"
  using assms by (auto simp: network_inv_def)

lemma own_stateD:
  assumes "node_ok copy nw j st" "nw_nodes nw j = Some st"
  shows "cs_node_state (run_cluster st) j = Some (nw_own nw j)"
  using assms by (auto simp: node_ok_def own_state_kept_def nw_own_def run_cluster_def node_state_or_new_known)

lemma message_delta_sender:
  assumes "message_ok copy nw (src, m)" "nd \<in> set (message_deltas m)"
  obtains S where "cs_node_state src (ndl_chitchat_id nd) = Some S" "ns_inv S"
    "emits S (ndl_from_version_excluded nd) nd"
    "copy (nw_history nw (ndl_chitchat_id nd)) (ns_max_version (nw_own nw (ndl_chitchat_id nd))) S"
proof -
  obtain S where S: "cs_node_state src (ndl_chitchat_id nd) = Some S"
    "emits S (ndl_from_version_excluded nd) nd"
    using assms by (auto simp: message_ok_def emitted_by_def)
  moreover have "ns_inv S"
    using assms(1) S(1) by (auto simp: message_ok_def cs_inv_get cs_node_state_def)
  moreover have "copy (nw_history nw (ndl_chitchat_id nd))
      (ns_max_version (nw_own nw (ndl_chitchat_id nd))) S"
    using assms(1) S(1) by (simp add: message_ok_def copies_ok_def all_states_def)
  ultimately show thesis using that by blast
qed

lemma run_op_inv:
  "ns_inv s \<Longrightarrow> run_op oper now s = Ok s' \<Longrightarrow> ns_max_version s \<noteq> - 1 \<Longrightarrow> ns_inv s'"
  by (cases oper) (auto intro: ns_set_inv set_with_ttl_inv ns_delete_inv delete_after_ttl_inv)

section \<open>Properties of copies that spread\<close>

text \<open>
  \<open>own\<close> is what the owner's state satisfies, \<open>copy\<close> what a copy does when the owner is at a
  version. A write of the owner, garbage collection, heartbeats and the deliveries that are
  allowed keep both.
\<close>

locale replicated_property =
  fixes copy :: "history \<Rightarrow> version \<Rightarrow> node_state \<Rightarrow> bool"
    and own :: "history \<Rightarrow> node_state \<Rightarrow> bool"
    and ok :: delivery
  assumes own_new: "own [] (node_state_new i ls)"
    and copy_new: "own H s \<Longrightarrow> copy H (ns_max_version s) (node_state_new i ls)"
    and own_copy: "own H s \<Longrightarrow> copy H (ns_max_version s) s"
    and own_heartbeat: "own H s \<Longrightarrow> own H (s\<lparr>ns_heartbeat := h\<rparr>)"
    and copy_heartbeat: "copy H m s \<Longrightarrow> copy H m (s\<lparr>ns_heartbeat := h\<rparr>)"
    and ok_heartbeat: "ok b S nd R \<Longrightarrow> ok b S nd (R\<lparr>ns_heartbeat := h\<rparr>)"
    and own_gc: "own H s \<Longrightarrow> ns_inv s \<Longrightarrow> own H (gc_keys_marked_for_deletion now grace s)"
    and copy_gc: "copy H m s \<Longrightarrow> ns_inv s \<Longrightarrow> copy H m (gc_keys_marked_for_deletion now grace s)"
    and own_write: "own H s \<Longrightarrow> ns_inv s \<Longrightarrow> run_op oper now s = Ok s' \<Longrightarrow> ns_max_version s \<noteq> - 1 \<Longrightarrow>
      own (H @ recorded s (op_key oper) s') s'"
    and copy_write: "own H s \<Longrightarrow> ns_inv s \<Longrightarrow> run_op oper now s = Ok s' \<Longrightarrow> ns_max_version s \<noteq> - 1 \<Longrightarrow>
      copy H (ns_max_version s) c \<Longrightarrow> copy (H @ recorded s (op_key oper) s') (ns_max_version s') c"
    and copy_apply: "own H s \<Longrightarrow> copy H (ns_max_version s) R \<Longrightarrow> copy H (ns_max_version s) S \<Longrightarrow>
      ns_inv S \<Longrightarrow> emits S (ndl_from_version_excluded nd) nd \<Longrightarrow> ok False S nd R \<Longrightarrow>
      copy H (ns_max_version s) (ns_apply_delta nd now R)"
    and own_apply: "own H R \<Longrightarrow> copy H (ns_max_version R) S \<Longrightarrow> ns_inv S \<Longrightarrow>
      emits S (ndl_from_version_excluded nd) nd \<Longrightarrow> ok True S nd R \<Longrightarrow>
      own H (ns_apply_delta nd now R)"
    and own_apply_copy: "own H R \<Longrightarrow> copy H (ns_max_version R) S \<Longrightarrow> ns_inv S \<Longrightarrow>
      emits S (ndl_from_version_excluded nd) nd \<Longrightarrow> ok True S nd R \<Longrightarrow>
      copy H (ns_max_version R) c \<Longrightarrow> copy H (ns_max_version (ns_apply_delta nd now R)) c"

context replicated_property
begin

lemma node_pred_heartbeats: "kept_by_heartbeats (node_pred copy own nw j)"
  by (auto simp: kept_by_heartbeats_def node_pred_def intro: own_heartbeat copy_heartbeat)

lemma node_pred_gc:
  "node_pred copy own nw j i s \<Longrightarrow> node_pred copy own nw j i (gc_keys_marked_for_deletion now grace s)"
  by (auto simp: node_pred_def intro: own_gc copy_gc gc_inv)

lemma tracked_node:
  assumes "network_inv copy own nw" "nw_nodes nw j = Some st"
  shows "tracked (node_pred copy own nw j) (sv_chitchat (run_server st))"
proof -
  have st: "node_ok copy nw j st" by (rule network_invD(3) [OF assms])
  have "node_pred copy own nw j i s" if s: "cs_node_state (run_cluster st) i = Some s" for i s
  proof -
    have "ns_inv s"
      using st s by (auto simp: node_ok_def ch_inv_def cs_inv_get cs_node_state_def run_cluster_def)
    moreover have "copy (nw_history nw i) (ns_max_version (nw_own nw i)) s"
      using st s by (simp add: node_ok_def copies_ok_def all_states_def)
    ultimately show ?thesis
      using own_stateD [OF st assms(2)] s network_invD(1) [OF assms(1), of j]
      by (auto simp: node_pred_def)
  qed
  moreover have "node_pred copy own nw j i (node_state_new i [])" if "i \<noteq> j" for i
    using that copy_new [OF network_invD(1) [OF assms(1)]] by (simp add: node_pred_def ns_inv_new)
  ultimately show ?thesis
    using st by (auto simp: tracked_def all_states_def node_ok_def run_cluster_def)
qed

lemma deltas_keep_network:
  assumes inv: "network_inv copy own nw" "nw_nodes nw j = Some st"
    and m: "(src, m) \<in> nw_net nw" "receivable ok src m (sv_chitchat (run_server st))"
  shows "deltas_keep (node_pred copy own nw j) now (message_deltas m) (sv_chitchat (run_server st))"
proof -
  let ?c = "sv_chitchat (run_server st)"
  note mok = network_invD(4) [OF inv(1) m(1)]
  have st: "node_ok copy nw j st" by (rule network_invD(3) [OF inv])
  have "node_pred copy own nw j (ndl_chitchat_id nd) (ns_apply_delta nd now
      (node_state_or_new (ndl_chitchat_id nd) (ch_cluster_state ?c)\<lparr>ns_heartbeat := h\<rparr>))"
    if nd: "nd \<in> set (message_deltas m)" for nd h
  proof -
    let ?i = "ndl_chitchat_id nd"
    let ?R = "node_state_or_new ?i (ch_cluster_state ?c)"
    let ?R' = "?R\<lparr>ns_heartbeat := h\<rparr>"
    obtain S where S: "cs_node_state src ?i = Some S" "ns_inv S"
      "emits S (ndl_from_version_excluded nd) nd"
      "copy (nw_history nw ?i) (ns_max_version (nw_own nw ?i)) S"
      by (rule message_delta_sender [OF mok nd])
    have "ok (?i = j) S nd ?R"
      using m(2) S(1) nd st by (auto simp: receivable_def node_ok_def)
    then have ok: "ok (?i = j) S nd ?R'" by (rule ok_heartbeat)
    have R: "node_pred copy own nw j ?i ?R"
      by (rule tracked_or_new [OF tracked_node [OF inv]])
    have "node_delta_wf nd"
      using emitted_delta_wf [OF _ _ nd, of src] mok by (simp add: message_ok_def)
    then have inv': "ns_inv (ns_apply_delta nd now ?R')"
      using R by (intro ns_inv_apply_delta) (simp_all add: node_pred_def)
    show ?thesis
    proof (cases "?i = j")
      case True
      then have "?R = nw_own nw ?i"
        using own_stateD [OF st inv(2)] by (simp add: node_state_or_new_known run_cluster_def)
      then have "own (nw_history nw ?i) ?R'" "copy (nw_history nw ?i) (ns_max_version ?R') S"
        using S(4) network_invD(1) [OF inv(1), of ?i] by (simp_all add: own_heartbeat)
      from own_apply [OF this S(2,3)] own_apply_copy [OF this S(2,3)] show ?thesis
        using True ok inv' \<open>?R = nw_own nw ?i\<close> by (simp add: node_pred_def)
    next
      case False
      then show ?thesis
        using copy_apply [OF network_invD(1) [OF inv(1), of ?i] _ S(4,2,3), of ?R'] ok R inv'
        by (simp add: node_pred_def copy_heartbeat)
    qed
  qed
  then show ?thesis
    using mok by (simp add: deltas_keep_def message_ok_def emitted_by_def)
qed

text \<open>One step of the loop of a node.\<close>

lemma server_step_tracked:
  assumes inv: "network_inv copy own nw" "nw_nodes nw j = Some (Running sv)"
    and ev: "event_from_net ok nw (sv_chitchat sv) ev" "server_step z ev sv = Ok st"
  shows "tracked (node_pred copy own nw j) (sv_chitchat (run_server st))
    \<and> ch_inv (sv_chitchat (run_server st)) \<and> self_chitchat_id (sv_chitchat (run_server st)) = j
    \<and> (\<forall>(a, m) \<in> set (sv_outbox (run_server st)). emitted_by (run_cluster st) (message_deltas m))"
proof -
  let ?P = "node_pred copy own nw j"
  have nd: "node_ok copy nw j (Running sv)" by (rule network_invD(3) [OF inv])
  then have c: "ch_inv (sv_chitchat sv)" "sv_outbox sv = []" "self_chitchat_id (sv_chitchat sv) = j"
    by (simp_all add: node_ok_def)
  have "tracked ?P (sv_chitchat sv)" using tracked_node [OF inv] by simp
  then have t: "tracked ?P (sv_chitchat (run_server st))"
    by (rule tracked_server_step [OF _ node_pred_heartbeats node_pred_gc _ ev(2)])
      (use deltas_keep_network [OF inv] ev(1) in auto)
  show ?thesis
  proof (cases ev)
    case (EventRecv now sh a m)
    then obtain src where m: "shuffles sh" "(src, m) \<in> nw_net nw"
      "receivable ok src m (sv_chitchat sv)" using ev(1) by auto
    obtain response c' where pm: "process_message z sh now m (sv_chitchat sv) = Ok (response, c')"
      and st': "st = Running (case response of Some r \<Rightarrow> sv_send a r (sv\<lparr>sv_chitchat := c'\<rparr>)
        | None \<Rightarrow> sv\<lparr>sv_chitchat := c'\<rparr>)"
      using ev(2) EventRecv by (auto simp: handle_message_def and_then_eq_Ok_iff Let_def)
    have st: "sv_chitchat (run_server st) = c'"
      "set (sv_outbox (run_server st)) = (case response of Some r \<Rightarrow> {(a, r)} | None \<Rightarrow> {})"
      using c(2) by (simp_all add: st' sv_send_def split: option.splits)
    have "\<forall>nd \<in> set (message_deltas m). node_delta_wf nd"
      using network_invD(4) [OF inv(1) m(2)] emitted_delta_wf by (auto simp: message_ok_def)
    from process_message_inv [OF c(1) this pm] have inv': "ch_inv c'" "ch_config c' = ch_config (sv_chitchat sv)"
      by (simp_all add: same_frame_def)
    have "emitted_by (ch_cluster_state c') (message_deltas r)" if "response = Some r" for r
      using process_message_reply_emitted [OF _ m(1) inv'(1)] pm that by blast
    then show ?thesis
      using t st inv' c(3) by (auto simp: run_cluster_def self_chitchat_id_def split: option.splits)
  next
    case (EventTick now rng)
    then have st: "st = Running (gossip_multiple rng now sv)" using ev(2) by simp
    have "self_chitchat_id (sv_chitchat (gossip_multiple rng now sv)) = j"
      using c(1,3) update_nodes_liveness_inv(2) gossip_multiple_config [of rng now sv]
      by (simp add: self_chitchat_id_def)
    then show ?thesis
      using t st gossip_multiple_inv [OF c(1)]
        gossip_multiple_outbox [OF _ c(2)] by fastforce
  next
    case (EventCommandGossip now a)
    then show ?thesis
      using ev(2) c t by (auto simp: server_gossip_def sv_send_def create_syn_message_def)
  qed (use ev(2) c t in auto)
qed

lemma network_inv_update:
  assumes inv: "network_inv copy own nw"
    and s': "s' = node_state_or_new j (run_cluster st)" "own H' s'"
    and lift: "\<And>c. copy (nw_history nw j) (ns_max_version (nw_own nw j)) c \<Longrightarrow> copy H' (ns_max_version s') c"
    and st: "ch_inv (sv_chitchat (run_server st))" "own_state_kept (sv_chitchat (run_server st))"
      "self_chitchat_id (sv_chitchat (run_server st)) = j" "sv_outbox (run_server st) = []"
    and others: "\<And>i s. i \<noteq> j \<Longrightarrow> cs_node_state (run_cluster st) i = Some s \<Longrightarrow>
      copy (nw_history nw i) (ns_max_version (nw_own nw i)) s"
    and new: "\<And>src m. (src, m) \<in> M \<Longrightarrow> src = run_cluster st \<and> emitted_by src (message_deltas m)"
  shows "network_inv copy own (nw\<lparr>nw_nodes := (nw_nodes nw)(j \<mapsto> st),
    nw_history := (nw_history nw)(j := H'), nw_net := nw_net nw \<union> M\<rparr>)"
proof -
  let ?nw = "nw\<lparr>nw_nodes := (nw_nodes nw)(j \<mapsto> st), nw_history := (nw_history nw)(j := H'),
    nw_net := nw_net nw \<union> M\<rparr>"
  have own': "nw_own ?nw i = (if i = j then s' else nw_own nw i)" for i
    by (simp add: nw_own_def s'(1))
  have old: "copies_ok copy ?nw cs" if "copies_ok copy nw cs" for cs
    using that lift by (auto simp: copies_ok_def all_states_def own')
  have "cs_node_state (run_cluster st) j = Some s'"
    using st(2,3) s'(1) by (auto simp: own_state_kept_def run_cluster_def node_state_or_new_known)
  then have here: "copies_ok copy ?nw (run_cluster st)"
    using others own_copy [OF s'(2)] by (auto simp: copies_ok_def all_states_def own')
  have "node_ok copy ?nw j' st'" if "nw_nodes ?nw j' = Some st'" for j' st'
  proof (cases "j' = j")
    case True
    then show ?thesis using that st here by (auto simp: node_ok_def)
  next
    case False
    then show ?thesis using network_invD(3) [OF inv] that old by (auto simp: node_ok_def)
  qed
  moreover have "message_ok copy ?nw p" if "p \<in> nw_net ?nw" for p
    using that network_invD(4) [OF inv, of p] old new here st(1)
    by (cases p) (auto simp: message_ok_def ch_inv_def run_cluster_def)
  moreover have "own (nw_history ?nw i) (nw_own ?nw i)" for i
    using network_invD(1) [OF inv] s'(2) own' by simp
  ultimately show ?thesis
    using network_invD(2) [OF inv] by (auto simp: network_inv_def)
qed

lemma set_all_own:
  assumes "set_all kvs s = Ok s'" "own H s" "ns_inv s"
  shows "own (H @ set_history kvs s) s' \<and> ns_inv s'
    \<and> (\<forall>c. copy H (ns_max_version s) c \<longrightarrow> copy (H @ set_history kvs s) (ns_max_version s') c)"
  using assms
proof (induction kvs s arbitrary: H rule: set_all.induct)
  case (2 k v kvs s)
  then obtain s1 where s1: "ns_set k v s = Ok s1" "set_all kvs s1 = Ok s'"
    by (auto simp: and_then_eq_Ok_iff)
  let ?H = "H @ recorded s k s1"
  have "own ?H s1 \<and> (\<forall>c. copy H (ns_max_version s) c \<longrightarrow> copy ?H (ns_max_version s1) c)"
  proof (cases "ns_max_version s = - 1")
    case True
    then have "s1 = s" using s1(1) by (auto simp: ns_set_cases split: if_splits)
    then show ?thesis using "2.prems" by (simp add: recorded_def)
  next
    case False
    then show ?thesis
      using own_write [OF "2.prems"(2,3), of "OpSet k v" 0 s1]
        copy_write [OF "2.prems"(2,3), of "OpSet k v" 0 s1] s1(1) by simp
  qed
  then show ?case
    using "2.IH" [of s1 ?H] s1 ns_set_inv [OF "2.prems"(3) s1(1)] by simp
qed simp

lemma no_node_yet: "cs_node_state (with_seed_addrs seeds) i = None"
  by (simp add: cs_node_state_def with_seed_addrs_def)

lemma network_inv_joins:
  assumes inv: "network_inv copy own nw" and j: "nw_nodes nw (cfg_chitchat_id config) = None"
    and w: "0 < fd_sampling_window_size (cfg_failure_detector_config config)"
    and c: "with_chitchat_id_and_seeds config seeds kvs max_datagram = Ok c"
  shows "network_inv copy own (nw\<lparr>
       nw_nodes := (nw_nodes nw)(cfg_chitchat_id config \<mapsto>
         Running \<lparr>sv_chitchat = c, sv_outbox = []\<rparr>),
       nw_history := (nw_history nw)(cfg_chitchat_id config :=
         set_history kvs (inc_heartbeat (node_state_new (cfg_chitchat_id config) [])))\<rparr>)"
proof -
  let ?j = "cfg_chitchat_id config" and ?st = "Running \<lparr>sv_chitchat = c, sv_outbox = []\<rparr>"
  let ?s0 = "inc_heartbeat (node_state_new ?j [])"
  obtain s where s: "set_all kvs ?s0 = Ok s" "c = \<lparr>ch_config = config,
      ch_cluster_state = node_state_mut ?j (\<lambda>_. s) (with_seed_addrs seeds),
      ch_listeners = inner_listeners_default,
      ch_failure_detector = failure_detector_new (cfg_failure_detector_config config),
      ch_previous_live_nodes = [], ch_live_nodes_watcher = [],
      ch_max_datagram_payload_size = max_datagram, ch_catchup_runs = 0\<rparr>"
    using c by (auto simp: with_chitchat_id_and_seeds_def Let_def and_then_eq_Ok_iff
        deliver_events_def self_node_state_def ch_update_cluster_def self_chitchat_id_def
        node_state_or_new_def with_seed_addrs_def split: if_splits)
  have own0: "own [] ?s0" "ns_inv ?s0"
    using own_heartbeat [OF own_new] by (simp_all add: inc_heartbeat_def ns_inv_new)
  note r = set_all_own [OF s(1) own0]
  have old: "nw_history nw ?j = []" "nw_own nw ?j = node_state_new ?j []"
    using network_invD(2) [OF inv j] j by (simp_all add: nw_own_def)
  have get: "cs_node_state (ch_cluster_state c) i = (if i = ?j then Some s else None)" for i
    by (simp add: s(2) no_node_yet)
  have "ch_inv c" using created_node [OF c w] by blast
  then have "network_inv copy own (nw\<lparr>nw_nodes := (nw_nodes nw)(?j \<mapsto> ?st),
      nw_history := (nw_history nw)(?j := set_history kvs ?s0), nw_net := nw_net nw \<union> {}\<rparr>)"
    by (intro network_inv_update [OF inv, where s' = s])
      (use r old get s(2) in \<open>auto simp: run_cluster_def own_state_kept_def self_chitchat_id_def
        failure_detector_new_def inc_heartbeat_def node_state_or_new_known no_node_yet split: if_splits\<close>)
  then show ?thesis by simp
qed

lemma network_inv_step:
  assumes inv: "network_inv copy own nw" and step: "network_step z ok nw nw'"
  shows "network_inv copy own nw'"
  using step
proof cases
  case (joins config seeds kvs max_datagram c)
  then show ?thesis using network_inv_joins [OF inv] by simp
next
  case (writes_own j sv s oper now s' c)
  let ?st = "Running (sv\<lparr>sv_chitchat := c\<rparr>)"
  have nd: "node_ok copy nw j (Running sv)" by (rule network_invD(3) [OF inv writes_own(2)])
  have s: "nw_own nw j = s"
    using own_stateD [OF nd writes_own(2)] writes_own(3) by (simp add: run_cluster_def)
  have c: "c = self_node_state (\<lambda>_. s') (sv_chitchat sv)"
    by (rule deliver_events_same [OF writes_own(6)])
  have own: "own (nw_history nw j) s" "ns_inv s"
    using network_invD(1) [OF inv, of j] s nd writes_own(3)
    by (auto simp: node_ok_def ch_inv_def cs_inv_get cs_node_state_def)
  have inv': "ns_inv s'" by (rule run_op_inv [OF own(2) writes_own(4,5)])
  have "network_inv copy own (nw\<lparr>nw_nodes := (nw_nodes nw)(j \<mapsto> ?st),
      nw_history := (nw_history nw)(j := nw_history nw j @ recorded s (op_key oper) s'),
      nw_net := nw_net nw \<union> {}\<rparr>)"
  proof (rule network_inv_update [OF inv, where s' = s'])
    show "own (nw_history nw j @ recorded s (op_key oper) s') s'"
      by (rule own_write [OF own writes_own(4,5)])
    show "copy (nw_history nw j @ recorded s (op_key oper) s') (ns_max_version s') c"
      if "copy (nw_history nw j) (ns_max_version (nw_own nw j)) c" for c
      using copy_write [OF own writes_own(4,5)] that s by simp
    show "ch_inv (sv_chitchat (run_server ?st))"
      using nd inv' by (simp add: c ch_inv_def self_node_state_def ch_update_cluster_def node_ok_def
          cs_inv_node_state_mut)
    show "copy (nw_history nw i) (ns_max_version (nw_own nw i)) s1"
      if "i \<noteq> j" "cs_node_state (run_cluster ?st) i = Some s1" for i s1
      using that nd by (simp add: c run_cluster_def self_node_state_def ch_update_cluster_def
          node_ok_def copies_ok_def all_states_def)
  qed (use nd in \<open>auto simp: c run_cluster_def self_node_state_def ch_update_cluster_def node_ok_def
      own_state_kept_def self_chitchat_id_def\<close>)
  then show ?thesis using writes_own(1) by simp
next
  case (runs j sv ev st)
  let ?c = "sv_chitchat (run_server st)"
  have t: "tracked (node_pred copy own nw j) ?c" "ch_inv ?c" "self_chitchat_id ?c = j"
    "\<And>a m. (a, m) \<in> set (sv_outbox (run_server st)) \<Longrightarrow> emitted_by (run_cluster st) (message_deltas m)"
    using server_step_tracked [OF inv runs(2-4)] by blast+
  have same: "run_cluster (clear_outbox st) = run_cluster st" by (simp add: run_cluster_def)
  have j: "node_pred copy own nw j j (node_state_or_new j (run_cluster st))"
    using tracked_or_new [OF t(1), of j] by (simp add: run_cluster_def)
  have "network_inv copy own (nw\<lparr>nw_nodes := (nw_nodes nw)(j \<mapsto> clear_outbox st),
      nw_history := (nw_history nw)(j := nw_history nw j), nw_net := nw_net nw \<union> sent_messages st\<rparr>)"
  proof (rule network_inv_update [OF inv refl])
    show "copy (nw_history nw i) (ns_max_version (nw_own nw i)) s"
      if "i \<noteq> j" "cs_node_state (run_cluster (clear_outbox st)) i = Some s" for i s
      using that t(1) by (auto simp: same tracked_def all_states_def node_pred_def run_cluster_def)
    show "src = run_cluster (clear_outbox st) \<and> emitted_by src (message_deltas m)"
      if "(src, m) \<in> sent_messages st" for src m
      using that t(4) by (auto simp: sent_messages_def same)
  qed (use j t in \<open>auto simp: node_pred_def tracked_def same\<close>)
  then show ?thesis using runs(1) by simp
qed

lemma network_inv_empty: "network_inv copy own empty_network"
  by (simp add: network_inv_def empty_network_def nw_own_def own_new)

lemma network_inv_reachable: "network_reachable z ok nw \<Longrightarrow> network_inv copy own nw"
  by (induction rule: network_reachable.induct) (blast intro: network_inv_empty network_inv_step)+

end

section \<open>Copies are consistent with the history of their owner\<close>

text \<open>
  The deliveries that keep copies consistent: those of theory \<open>Replication_System\<close>, and for a
  delta about the receiver itself those that do not make it reset its own state.
\<close>

definition timely :: delivery where
  "timely self S nd R \<longleftrightarrow>
     (if self then ndl_last_gc_version nd < ns_max_version R
          \<or> ndl_last_gc_version nd \<le> ns_last_gc_version R
      else deliverable S (ndl_from_version_excluded nd) R)"

lemma timely_heartbeat [simp]: "timely b S nd (s\<lparr>ns_heartbeat := h\<rparr>) = timely b S nd s"
  by (simp add: timely_def deliverable_def)

interpretation consistent_copies: replicated_property copy_of owner timely
proof unfold_locales
  fix H s R S nd now
  assume "owner H s" "copy_of H (ns_max_version s) R" "copy_of H (ns_max_version s) S"
    "emits S (ndl_from_version_excluded nd) nd" "timely False S nd R"
  then show "copy_of H (ns_max_version s) (ns_apply_delta nd now R)"
    using ns_apply_delta_copy_of by (auto simp: owner_def timely_def)
next
  fix H R S nd now c
  assume a: "owner H R" "copy_of H (ns_max_version R) S"
    "emits S (ndl_from_version_excluded nd) nd" "timely True S nd R"
  then have same: "ns_apply_delta nd now R = R"
    by (intro owner_ignores_delta) (simp_all add: timely_def)
  show "owner H (ns_apply_delta nd now R)" using a(1) same by simp
  show "copy_of H (ns_max_version (ns_apply_delta nd now R)) c" if "copy_of H (ns_max_version R) c"
    using that same by simp
qed (simp_all add: owner_new owner_copy_new owner_copy_of gc_copy_of gc_owner run_op_owner)

section \<open>Values come from their owner\<close>

text \<open>Without any condition on deliveries: a copy holds nothing the owner did not write.\<close>

definition genuine :: "history \<Rightarrow> node_state \<Rightarrow> bool" where
  "genuine H s \<longleftrightarrow> (\<forall>k vv. get_versioned s k = Some vv \<longrightarrow> mutation_of k vv \<in> set H)"

definition any_delivery :: delivery where
  "any_delivery self S nd R \<longleftrightarrow> True"

lemma genuine_fold:
  assumes "genuine H s" "set kvs \<subseteq> set H"
  shows "genuine H (fold (apply_mutation cur now) kvs s)"
  using assms
proof (induction kvs arbitrary: s)
  case (Cons kv kvs)
  have "genuine H (apply_mutation cur now kv s)"
    using Cons.prems by (auto simp: genuine_def apply_mutation_alt get_svv split: if_splits)
  then show ?case using Cons by simp
qed simp

lemma genuine_apply:
  assumes "genuine H R" "genuine H S" "ns_inv S" "emits S from_v nd"
  shows "genuine H (ns_apply_delta nd now R)"
proof -
  have "kv \<in> set H" if "kv \<in> set (ndl_key_values nd)" for kv
  proof -
    have "kv \<in> set (offered S from_v)"
      using that assms(4) set_mono_prefix by (fastforce simp: emits_def)
    then have "holds S kv" using set_offered assms(3) by (auto simp: ns_inv_def)
    then show ?thesis using assms(2) unfolding holds_def genuine_def by metis
  qed
  then have kvs: "set (ndl_key_values nd) \<subseteq> set H" by blast
  have "genuine H (reset_state nd R)" by (simp add: genuine_def)
  then show ?thesis
    using assms(1) genuine_fold [OF _ kvs]
    by (cases rule: ns_apply_delta_cases [of nd now R]) (simp_all add: receive_def)
qed

lemma genuine_write:
  assumes "genuine H s" "ns_inv s" "run_op oper now s = Ok s'" "ns_max_version s \<noteq> - 1"
  shows "genuine (H @ recorded s (op_key oper) s') s'"
proof -
  let ?k = "op_key oper"
  consider "s' = s" | vv where "vv_version vv = ns_max_version s + 1" "ns_max_version s' = vv_version vv"
    "get_versioned s' = (get_versioned s)(?k \<mapsto> vv)"
  proof -
    note lt = word_less_Suc [OF assms(4)]
    have svv: "ns_max_version (set_versioned_value ?k vv s) = vv_version vv
        \<and> get_versioned (set_versioned_value ?k vv s) = (get_versioned s)(?k \<mapsto> vv)"
      if "vv_version vv = ns_max_version s + 1" for vv
      using that lt ns_inv_accepts [OF assms(2), of "vv_version vv" ?k]
      by (auto simp: get_svv fun_eq_iff max_def)
    show thesis
      using run_op_shape [OF assms(3)] that svv
      by (force simp: get_versioned_def bt_get_insert fun_eq_iff)
  qed
  then show ?thesis
  proof cases
    case 1
    then show ?thesis using assms(1) by (simp add: recorded_def)
  next
    case (2 vv)
    then have "recorded s ?k s' = [mutation_of ?k vv]"
      using word_less_Suc [OF assms(4)] by (auto simp: recorded_def)
    then show ?thesis using assms(1) 2(3) by (auto simp: genuine_def split: if_splits)
  qed
qed

lemma genuine_gc:
  "genuine H s \<Longrightarrow> ns_inv s \<Longrightarrow> genuine H (gc_keys_marked_for_deletion now grace s)"
  using gc_get by (auto simp: genuine_def ns_inv_def split: option.splits if_splits)

lemma genuine_new: "genuine H (node_state_new i ls)"
  by (simp add: genuine_def node_state_new_def get_versioned_def)

lemma genuine_heartbeat [simp]: "genuine H (s\<lparr>ns_heartbeat := h\<rparr>) = genuine H s"
  by (simp add: genuine_def)

lemma genuine_append: "genuine H s \<Longrightarrow> genuine (H @ H') s"
  by (auto simp: genuine_def)

interpretation genuine_values: replicated_property "\<lambda>H m. genuine H" genuine any_delivery
  by unfold_locales
    (simp_all add: genuine_new genuine_gc genuine_write genuine_append genuine_apply any_delivery_def)

end
