(* ===== verification/Gossip_Handshake.thy ===== *)
theory Gossip_Handshake
  imports Gossip_Network
begin

text \<open>
  The three messages of a gossip round between two nodes of a network, SYN, SYN-ACK and ACK, and
  what the two nodes read of each other's key-values after it. Then the delivery that theory
  \<open>Gossip_Network\<close> excludes: a late answer that makes a node lose its own writes.
\<close>

section \<open>Reads\<close>

definition read_key :: "'c chitchat \<Rightarrow> chitchat_id \<Rightarrow> string \<Rightarrow> string option" where
  "read_key c i k = (case cs_node_state (ch_cluster_state c) i of
      None \<Rightarrow> None | Some s \<Rightarrow> ns_get s k)"

text \<open>A delta that says all there is to say about a node to the sender of a digest.\<close>

definition answered_in_full :: "digest \<Rightarrow> chitchat_id \<Rightarrow> node_state \<Rightarrow> delta \<Rightarrow> bool" where
  "answered_in_full dg i S d \<longleftrightarrow> (\<forall>from_v. delta_from_version dg i S = Some from_v \<longrightarrow>
     (\<exists>nd \<in> set (node_deltas d). ndl_chitchat_id nd = i \<and> uncut S from_v nd))"

text \<open>
  The case in which the sender of a delta does not see that the receiver will have to reset: see
  \<open>incremental_delta_loses_keys\<close>.
\<close>

definition gc_edge :: "node_state \<Rightarrow> node_state \<Rightarrow> bool" where
  "gc_edge S R \<longleftrightarrow> ns_max_version R = ns_last_gc_version S
     \<and> ns_last_gc_version R < ns_last_gc_version S"

lemma read_key_or_new: "read_key c i k = ns_get (node_state_or_new i (ch_cluster_state c)) k"
  by (cases "cs_node_state (ch_cluster_state c) i")
    (simp_all add: read_key_def node_state_or_new_known node_state_or_new_unknown, simp add:
      node_state_new_def ns_get_def get_versioned_def)

section \<open>One direction\<close>

text \<open>What matters of a digest is what it says of the node.\<close>

definition digest_says :: "digest \<Rightarrow> chitchat_id \<Rightarrow> node_state \<Rightarrow> bool" where
  "digest_says dg i R \<longleftrightarrow> (case bt_get (node_digests dg) i of
      Some nd \<Rightarrow> nd_last_gc_version nd = ns_last_gc_version R \<and> nd_max_version nd = ns_max_version R
    | None \<Rightarrow> ns_last_gc_version R = 0 \<and> ns_max_version R = 0)"

lemma digest_says_from:
  assumes "digest_says dg i R"
  shows "delta_from_version dg i S = delta_from_version \<lparr>node_digests = [(i, ns_digest R)]\<rparr> i S"
  using assms
  by (cases "bt_get (node_digests dg) i")
    (simp_all add: digest_says_def delta_from_version_def ns_digest_def)

lemma digest_says_own:
  assumes "digest_says dg i R" "copy_of H (ns_max_version R) S"
  shows "delta_from_version dg i S = None"
  using assms(2) unfolding digest_says_from [OF assms(1)]
  by (simp add: delta_from_version_def ns_digest_def copy_of_def)

lemma digest_says_heartbeat [simp]: "digest_says dg i (R\<lparr>ns_heartbeat := h\<rparr>) = digest_says dg i R"
  by (cases "bt_get (node_digests dg) i") (simp_all add: digest_says_def)

lemma digest_says_computed:
  assumes "bt_wf (cs_node_states (ch_cluster_state c))" "i \<notin> sched"
  shows "digest_says (ch_compute_digest sched c) i (node_state_or_new i (ch_cluster_state c))"
proof -
  have "bt_get (node_digests (ch_compute_digest sched c)) i
      = map_option ns_digest (cs_node_state (ch_cluster_state c) i)"
    using assms by (simp add: ch_compute_digest_def compute_digest_def bt_get_map_values
        bt_get_retain cs_node_state_def split: option.splits)
  then show ?thesis
    by (cases "cs_node_state (ch_cluster_state c) i")
      (simp_all add: digest_says_def ns_digest_def node_state_or_new_known node_state_or_new_unknown,
        simp add: node_state_new_def)
qed

text \<open>What the receiver of a delta holds of a node after it.\<close>

definition after_delta :: "delta \<Rightarrow> instant \<Rightarrow> chitchat_id \<Rightarrow> node_state \<Rightarrow> node_state" where
  "after_delta d now i R = (case find (\<lambda>nd. ndl_chitchat_id nd = i) (node_deltas d) of
      Some nd \<Rightarrow> ns_apply_delta nd now R | None \<Rightarrow> R)"

lemma node_state_or_new_apply_delta:
  assumes "distinct (map ndl_chitchat_id (node_deltas d))"
  shows "node_state_or_new i (cs_apply_delta d now cs) = after_delta d now i (node_state_or_new i cs)"
  using cs_apply_delta_get [OF assms, of now cs i]
  by (auto simp: after_delta_def node_state_or_new_def cs_node_state_def split: option.splits)

lemma find_distinct:
  assumes "distinct (map f xs)" "x \<in> set xs"
  shows "find (\<lambda>y. f y = f x) xs = Some x"
  using assms by (induction xs) (auto simp: rev_image_eqI)

lemma delta_of_owner_read:
  assumes own: "owner H S" "copy_of H (ns_max_version S) R" and dg: "digest_says dg i R"
    and d: "distinct (map ndl_chitchat_id (node_deltas d))"
      "\<And>nd. nd \<in> set (node_deltas d) \<Longrightarrow> ndl_chitchat_id nd = i \<Longrightarrow> delta_from_version dg i S \<noteq> None"
    and full: "answered_in_full dg i S d" and edge: "\<not> gc_edge S R" and ttl: "\<not> expiring H k"
  shows "ns_get (after_delta d now i R) k = ns_get S k"
proof (cases "delta_from_version dg i S")
  case None
  then have "find (\<lambda>nd. ndl_chitchat_id nd = i) (node_deltas d) = None"
    using d(2) by (auto simp: find_None_iff)
  moreover have "ns_max_version S \<le> ns_max_version R"
    using None unfolding digest_says_from [OF dg]
    by (simp add: delta_from_version_def ns_digest_def Let_def split: if_splits)
  ultimately show ?thesis
    using caught_up_same_get [OF own _ ttl] by (simp add: after_delta_def)
next
  case (Some from_v)
  then obtain nd where nd: "nd \<in> set (node_deltas d)" "ndl_chitchat_id nd = i" "uncut S from_v nd"
    using full by (auto simp: answered_in_full_def)
  have "after_delta d now i R = ns_apply_delta nd now R"
    using find_distinct [OF d(1) nd(1)] nd(2) by (simp add: after_delta_def)
  then show ?thesis
    using exchange_owner_copy [OF own Some [unfolded digest_says_from [OF dg]] _ nd(3) _ ttl] edge
    by (simp add: gc_edge_def)
qed

lemma gc_edge_heartbeat [simp]: "gc_edge S (R\<lparr>ns_heartbeat := h\<rparr>) = gc_edge S R"
  by (simp add: gc_edge_def)

lemma process_delta_or_new:
  assumes "process_delta now d c1 = Ok c'" "beats c c1"
    and "distinct (map ndl_chitchat_id (node_deltas d))"
  obtains h where "node_state_or_new i (ch_cluster_state c')
    = after_delta d now i (node_state_or_new i (ch_cluster_state c)\<lparr>ns_heartbeat := h\<rparr>)"
  using node_state_or_new_apply_delta [OF assms(3), of i now "ch_cluster_state c1"]
    process_delta_cluster(1) [OF assms(1)] assms(2) unfolding beats_def by metis

text \<open>
  A delta that a node computed for a digest of \<open>c\<close>, applied by \<open>c\<close> after heartbeats: what \<open>c\<close>
  holds of the sender.
\<close>

lemma delta_received:
  assumes comp: "compute_partial_delta_respecting_mtu z sh dg mtu sched cs = Ok d" "shuffles sh"
      "bt_wf (cs_node_states cs)"
    and S: "cs_node_state cs i = Some S" "owner H S"
    and R: "R = node_state_or_new i (ch_cluster_state c)" "copy_of H (ns_max_version S) R"
      "digest_says dg i R" "\<not> gc_edge S R"
    and c': "process_delta now d c1 = Ok c'" "beats c c1"
  shows "copy_of H (ns_max_version S) (node_state_or_new i (ch_cluster_state c'))"
    "answered_in_full dg i S d \<Longrightarrow> \<not> expiring H k \<Longrightarrow> read_key c' i k = ns_get S k"
proof -
  note em = compute_partial_delta_emitted [OF comp]
  have d: "distinct (map ndl_chitchat_id (node_deltas d))" using em(1) by (simp add: emitted_by_def)
  obtain h where h: "node_state_or_new i (ch_cluster_state c') = after_delta d now i (R\<lparr>ns_heartbeat := h\<rparr>)"
    using process_delta_or_new [OF c' d] R(1) by metis
  let ?R = "R\<lparr>ns_heartbeat := h\<rparr>"
  have nd: "emits S (ndl_from_version_excluded nd) nd \<and> deliverable S (ndl_from_version_excluded nd) ?R"
    if "nd \<in> set (node_deltas d)" "ndl_chitchat_id nd = i" for nd
  proof -
    have "delta_from_version dg i S = Some (ndl_from_version_excluded nd)"
      using em(2) [OF that(1)] S(1) that(2) by simp
    then have "ndl_from_version_excluded nd = 0 \<or> ns_last_gc_version S < ns_max_version R
        \<or> ns_last_gc_version S \<le> ns_last_gc_version R"
      using delta_from_version_starts R(4)
      unfolding digest_says_from [OF R(3)] gc_edge_def by fastforce
    moreover have "emits S (ndl_from_version_excluded nd) nd"
      using em(1) that S(1) by (auto simp: emitted_by_def)
    ultimately show ?thesis
      using R(2) by (auto simp: deliverable_def copy_of_def le_max_iff_disj)
  qed
  have hist: "history_wf H" "copy_of H (ns_max_version S) S"
    using S(2) owner_copy_of by (auto simp: owner_def)
  show "copy_of H (ns_max_version S) (node_state_or_new i (ch_cluster_state c'))"
  proof (cases "find (\<lambda>nd. ndl_chitchat_id nd = i) (node_deltas d)")
    case None
    then show ?thesis using R(2) h by (simp add: after_delta_def)
  next
    case (Some n)
    then have "n \<in> set (node_deltas d)" "ndl_chitchat_id n = i" by (auto simp: find_Some_iff)
    then show ?thesis
      using ns_apply_delta_copy_of [OF hist(1) _ hist(2), of ?R "ndl_from_version_excluded n" n now]
        nd [of n] R(2) h Some by (simp add: after_delta_def)
  qed
  have some: "delta_from_version dg i S \<noteq> None"
    if "nd \<in> set (node_deltas d)" "ndl_chitchat_id nd = i" for nd
    using em(2) [OF that(1)] that(2) S(1) by simp
  show "read_key c' i k = ns_get S k" if "answered_in_full dg i S d" "\<not> expiring H k"
    using delta_of_owner_read [where R = ?R and now = now, OF S(2) _ _ d some that(1) _ that(2)] R h
    by (simp add: read_key_or_new)
qed

text \<open>Nothing in it is about \<open>c\<close> itself.\<close>

lemma delta_not_about_receiver:
  assumes comp: "compute_partial_delta_respecting_mtu z sh dg mtu sched cs = Ok d" "shuffles sh"
      "bt_wf (cs_node_states cs)"
    and R: "R = node_state_or_new i (ch_cluster_state c)" "digest_says dg i R"
      "\<And>S. cs_node_state cs i = Some S \<Longrightarrow> copy_of H (ns_max_version R) S"
    and c': "process_delta now d c1 = Ok c'" "beats c c1"
  obtains h where "node_state_or_new i (ch_cluster_state c') = R\<lparr>ns_heartbeat := h\<rparr>"
proof -
  note em = compute_partial_delta_emitted [OF comp]
  have d: "distinct (map ndl_chitchat_id (node_deltas d))" using em(1) by (simp add: emitted_by_def)
  have "ndl_chitchat_id nd \<noteq> i" if "nd \<in> set (node_deltas d)" for nd
  proof
    assume i: "ndl_chitchat_id nd = i"
    have "\<exists>S. cs_node_state cs (ndl_chitchat_id nd) = Some S"
      using em(1) that by (auto simp: emitted_by_def)
    then obtain S where S: "cs_node_state cs i = Some S" using i by auto
    show False using em(2) [OF that, of S] S i digest_says_own [OF R(2) R(3) [OF S]] by simp
  qed
  then have "find (\<lambda>nd. ndl_chitchat_id nd = i) (node_deltas d) = None"
    unfolding find_None_iff by blast
  then have same: "after_delta d now i s = s" for s by (simp add: after_delta_def)
  show thesis
    by (rule process_delta_or_new [OF c' d, of i]) (use that R(1) in \<open>simp add: same\<close>)
qed

text \<open>When there is room, all is told about the nodes not scheduled for deletion.\<close>

lemma answered_in_full_room:
  assumes comp: "compute_partial_delta_respecting_mtu z sh dg mtu sched cs = Ok d" "shuffles sh"
    and "cs_node_state cs i = Some S" "i \<notin> sched" "bt_wf (cs_node_states cs)"
    and "stale_size (stale_list sh dg sched cs) \<le> BLOCK_THRESHOLD"
      "stale_size (stale_list sh dg sched cs) + 4 \<le> mtu"
  shows "answered_in_full dg i S d"
  unfolding answered_in_full_def
proof (intro allI impI)
  fix from_v
  assume "delta_from_version dg i S = Some from_v"
  let ?sn = "\<lparr>sn_chitchat_id = i, sn_node_state = S, sn_from_version_excluded = from_v\<rparr>"
  have "?sn \<in> set (candidates dg sched cs)"
    using assms(3,4) \<open>delta_from_version dg i S = Some from_v\<close> bt_get_iff [OF assms(5)]
    by (simp add: candidate_iff cs_node_state_def)
  then have "whole_delta ?sn \<in> set (node_deltas d)"
    using stale_list_iff [OF comp(2)] compute_partial_delta_room [OF comp(1) assms(6,7)] by simp
  then show "\<exists>nd \<in> set (node_deltas d). ndl_chitchat_id nd = i \<and> uncut S from_v nd"
    using whole_delta_uncut [of ?sn] by (intro bexI [of _ "whole_delta ?sn"]) (simp_all add: whole_delta_def)
qed

section \<open>What the handler answers when there is room\<close>

lemma syn_exact:
  assumes z: "zstd_ok z" "shuffles sh" "ch_inv c"
    and rep: "report_heartbeats_in_digest now dg (update_self_heartbeat c) = Ok c1"
    and dig: "dig = ch_compute_digest (ch_scheduled_for_deletion now c1) c1"
      "digest_serialized_len z dig = len"
    and sns: "sns = stale_list sh dg (ch_scheduled_for_deletion now c1) (ch_cluster_state c1)"
      "stale_size sns \<le> BLOCK_THRESHOLD" "stale_size sns + len + 5 \<le> ch_max_datagram_payload_size c"
    and room: "101 + len \<le> ch_max_datagram_payload_size c" "ch_max_datagram_payload_size c \<le> 65535"
  obtains n where "process_message z sh now (Syn (cfg_cluster_id (ch_config c)) dg) c
    = Ok (Some (SynAck dig \<lparr>node_deltas = map whole_delta sns, delta_serialized_len = n\<rparr>), c1)"
proof -
  obtain d where d: "process_message z sh now (Syn (cfg_cluster_id (ch_config c)) dg) c
      = Ok (Some (SynAck dig d), c1)"
    using syn_reply [OF z rep] room dig by metis
  have frame: "ch_max_datagram_payload_size c1 = ch_max_datagram_payload_size c"
    using process_message_inv [OF z(3) _ d] by (simp add: same_frame_def)
  have "compute_partial_delta_respecting_mtu z sh dg (ch_max_datagram_payload_size c - 1 - len)
      (ch_scheduled_for_deletion now c1) (ch_cluster_state c1) = Ok d"
    using d rep room frame dig(2) [unfolded dig(1)]
    by (auto simp: Let_def and_then_eq_Ok_iff usize_sub_def split: if_splits)
  then have "node_deltas d = map whole_delta sns"
    using compute_partial_delta_room sns room by fastforce
  then show thesis using that [of "delta_serialized_len d"] d by simp
qed

lemma syn_ack_returns:
  assumes z: "zstd_ok z" "shuffles sh" "ch_inv c2"
    and c: "report_heartbeats_in_digest now dg (update_self_heartbeat c) = Ok c1"
      "process_delta now d c1 = Ok c2"
    and room: "101 \<le> ch_max_datagram_payload_size c2" "ch_max_datagram_payload_size c2 \<le> 65535"
  obtains d' where "process_message z sh now (SynAck dg d) c = Ok (Some (Ack d'), c2)"
proof -
  have cs: "cs_inv (ch_cluster_state c2)" using z(3) by (simp add: ch_inv_def)
  obtain d' where "compute_partial_delta_respecting_mtu z sh dg (ch_max_datagram_payload_size c2 - 1)
      (ch_scheduled_for_deletion now c2) (ch_cluster_state c2) = Ok d'"
    using compute_partial_delta_ok [OF z(1,2) cs, of "ch_max_datagram_payload_size c2 - 1"] room
    by fastforce
  then show thesis using that [of d'] c room by (simp add: usize_sub_def)
qed

lemma process_delta_length:
  "node_deltas d = node_deltas d' \<Longrightarrow> process_delta now d c = process_delta now d' c"
proof -
  assume "node_deltas d = node_deltas d'"
  moreover from this have "cs_apply_delta d = cs_apply_delta d'"
    by (simp add: cs_apply_delta_def fun_eq_iff)
  ultimately show ?thesis by (simp add: process_delta_def maybe_trigger_catchup_callback_def)
qed

section \<open>The handshake\<close>

lemma network_copy:
  assumes "network_inv copy_of owner nw" "nw_nodes nw j = Some (Running sv)"
  shows "copy_of (nw_history nw i) (ns_max_version (nw_own nw i))
    (node_state_or_new i (ch_cluster_state (sv_chitchat sv)))"
proof (cases "i = j")
  case True
  have "node_ok copy_of nw j (Running sv)" by (rule network_invD(3) [OF assms])
  then show ?thesis
    using True own_stateD [OF _ assms(2)] network_invD(1) [OF assms(1), of j] owner_copy_of
    by (simp add: run_cluster_def node_state_or_new_known)
next
  case False
  then show ?thesis
    using tracked_or_new [OF consistent_copies.tracked_node [OF assms], of i]
    by (simp add: node_pred_def)
qed

lemma own_not_scheduled:
  "own_state_kept c \<Longrightarrow> self_chitchat_id c \<notin> ch_scheduled_for_deletion now c"
  by (force simp: own_state_kept_def ch_scheduled_for_deletion_def scheduled_for_deletion_nodes_def)

lemma syn_handled:
  assumes "process_message z sh now (create_syn_message t c0) c = Ok (Some (SynAck dg d), c')"
  obtains mtu where "beats c c'" "dg = ch_compute_digest (ch_scheduled_for_deletion now c') c'"
    "compute_partial_delta_respecting_mtu z sh (ch_compute_digest (ch_scheduled_for_deletion t c0) c0)
      mtu (ch_scheduled_for_deletion now c') (ch_cluster_state c') = Ok d"
  using assms
  by (auto simp: create_syn_message_def Let_def and_then_eq_Ok_iff report_heartbeats_in_digest_def
      split: if_splits intro: beats_trans [OF beats_update_self_heartbeat beats_report_heartbeats])

lemma syn_ack_handled:
  assumes "process_message z sh now (SynAck dg d) c = Ok (Some (Ack d'), c')"
  obtains c1 mtu where "beats c c1" "process_delta now d c1 = Ok c'"
    "compute_partial_delta_respecting_mtu z sh dg mtu (ch_scheduled_for_deletion now c')
      (ch_cluster_state c') = Ok d'"
  using assms
  by (auto simp: Let_def and_then_eq_Ok_iff report_heartbeats_in_digest_def
      intro: beats_trans [OF beats_update_self_heartbeat beats_report_heartbeats])

lemma ack_handled:
  assumes "process_message z sh now (Ack d) c = Ok (r, c')"
  obtains c1 where "beats c c1" "process_delta now d c1 = Ok c'"
  using assms beats_update_self_heartbeat by (auto simp: Let_def and_then_eq_Ok_iff)

lemma offered_heartbeat [simp]: "offered (s\<lparr>ns_heartbeat := h\<rparr>) v = offered s v"
  by (simp add: offered_def Node_State.stale_key_values_def key_values_including_deleted_def)

lemma answered_in_full_heartbeat [simp]:
  "answered_in_full dg i (S\<lparr>ns_heartbeat := h\<rparr>) d = answered_in_full dg i S d"
proof -
  have "delta_from_version dg i (S\<lparr>ns_heartbeat := h\<rparr>) = delta_from_version dg i S"
    by (cases "bt_get (node_digests dg) i") (simp_all add: delta_from_version_def)
  then show ?thesis by (simp add: answered_in_full_def uncut_def emits_def)
qed

lemma answered_in_full_code [code]:
  "answered_in_full dg i S d \<longleftrightarrow> (case delta_from_version dg i S of None \<Rightarrow> True
     | Some from_v \<Rightarrow> list_ex (\<lambda>nd. ndl_chitchat_id nd = i \<and> uncut S from_v nd) (node_deltas d))"
  by (auto simp: answered_in_full_def list_ex_iff split: option.splits)

text \<open>
  Node \<open>a\<close> has answered the SYN of \<open>b\<close>. What \<open>b\<close> holds of itself is as before; what it holds of
  \<open>a\<close> is a copy and, when \<open>a\<close> told all, reads like \<open>a\<close>'s own state.
\<close>

lemma handshake_first_half:
  assumes inv: "network_inv copy_of owner nw" "nw_nodes nw a = Some (Running sva)"
      "nw_nodes nw b = Some (Running svb)"
    and ca: "ca = sv_chitchat sva" and cb: "cb = sv_chitchat svb"
    and sh: "shuffles sh"
    and syn: "process_message z sh t1 (create_syn_message t0 cb) ca = Ok (Some (SynAck dga da), ca')"
    and c1: "beats cb c1" "process_delta t2 da c1 = Ok cb'"
    and known: "a \<notin> ch_scheduled_for_deletion t0 cb"
    and edge: "\<not> gc_edge (nw_own nw a) (node_state_or_new a (ch_cluster_state cb))"
  shows "copy_of (nw_history nw a) (ns_max_version (nw_own nw a)) (node_state_or_new a (ch_cluster_state cb'))"
    "\<exists>h. node_state_or_new b (ch_cluster_state cb') = nw_own nw b\<lparr>ns_heartbeat := h\<rparr>"
    "\<exists>h. node_state_or_new a (ch_cluster_state ca') = nw_own nw a\<lparr>ns_heartbeat := h\<rparr>"
    "answered_in_full (ch_compute_digest (ch_scheduled_for_deletion t0 cb) cb) a
       (nw_own nw a) da \<Longrightarrow>
     \<not> expiring (nw_history nw a) k \<Longrightarrow> read_key cb' a k = read_key ca' a k"
proof -
  let ?dgb = "ch_compute_digest (ch_scheduled_for_deletion t0 cb) cb"
  have oka: "node_ok copy_of nw a (Running sva)" and okb: "node_ok copy_of nw b (Running svb)"
    using network_invD(3) [OF inv(1)] inv(2,3) by blast+
  have wfb: "bt_wf (cs_node_states (ch_cluster_state cb))"
    and b: "own_state_kept cb" "self_chitchat_id cb = b"
    using okb by (simp_all add: cb node_ok_def ch_inv_def cs_inv_def)
  obtain mtu where s: "beats ca ca'" "compute_partial_delta_respecting_mtu z sh ?dgb mtu
      (ch_scheduled_for_deletion t1 ca') (ch_cluster_state ca') = Ok da"
    by (rule syn_handled [OF syn])
  have "\<forall>nd \<in> set (message_deltas (create_syn_message t0 cb)). node_delta_wf nd"
    by (simp add: create_syn_message_def)
  then have wfa: "bt_wf (cs_node_states (ch_cluster_state ca'))"
    using process_message_inv [OF _ _ syn] oka by (simp add: ca node_ok_def ch_inv_def cs_inv_def)
  obtain h where S: "cs_node_state (ch_cluster_state ca') a = Some (nw_own nw a\<lparr>ns_heartbeat := h\<rparr>)"
    using beats_known [OF s(1)] own_stateD [OF oka inv(2)] by (auto simp: ca run_cluster_def)
  then show own_a: "\<exists>h. node_state_or_new a (ch_cluster_state ca') = nw_own nw a\<lparr>ns_heartbeat := h\<rparr>"
    using node_state_or_new_known by blast
  note rec = delta_received [OF s(2) sh wfa S _ refl _ digest_says_computed [OF wfb known] _ c1(2,1)]
  have own: "owner (nw_history nw a) (nw_own nw a)" by (rule network_invD(1) [OF inv(1)])
  have copy: "copy_of (nw_history nw a) (ns_max_version (nw_own nw a)) (node_state_or_new a (ch_cluster_state cb))"
    using network_copy [OF inv(1,3)] by (simp add: cb)
  show "copy_of (nw_history nw a) (ns_max_version (nw_own nw a)) (node_state_or_new a (ch_cluster_state cb'))"
    using rec(1) own copy edge by (simp add: gc_edge_def)
  show "read_key cb' a k = read_key ca' a k"
    if "answered_in_full ?dgb a (nw_own nw a) da"
      "\<not> expiring (nw_history nw a) k"
    using rec(2) [OF _ _ _ _ that(2)] that(1) own copy edge S
    by (simp add: gc_edge_def node_state_or_new_known read_key_or_new)
  have b_own: "node_state_or_new b (ch_cluster_state cb) = nw_own nw b"
    using own_stateD [OF okb inv(3)] by (simp add: cb run_cluster_def node_state_or_new_known)
  have "digest_says ?dgb b (nw_own nw b)"
    using digest_says_computed [OF wfb own_not_scheduled [OF b(1)]] b(2) b_own by simp
  moreover have "copy_of (nw_history nw b) (ns_max_version (nw_own nw b)) T"
    if T: "cs_node_state (ch_cluster_state ca') b = Some T" for T
  proof -
    obtain h' where "T = node_state_or_new b (ch_cluster_state ca)\<lparr>ns_heartbeat := h'\<rparr>"
      using s(1) node_state_or_new_known [OF T] unfolding beats_def by metis
    then show ?thesis using network_copy [OF inv(1,2), of b] by (simp add: ca)
  qed
  ultimately show "\<exists>h. node_state_or_new b (ch_cluster_state cb') = nw_own nw b\<lparr>ns_heartbeat := h\<rparr>"
    using delta_not_about_receiver [OF s(2) sh wfa b_own [symmetric] _ _ c1(2,1)] by metis
qed

lemma handshake_own_known:
  assumes "beats c c1" "process_delta now d c1 = Ok c'" "own_state_kept c"
    and "distinct (map ndl_chitchat_id (node_deltas d))"
  shows "cs_node_state (ch_cluster_state c') (self_chitchat_id c)
    = Some (node_state_or_new (self_chitchat_id c) (ch_cluster_state c'))"
proof -
  have "cs_node_state (ch_cluster_state c1) (self_chitchat_id c) \<noteq> None"
    using assms(1,3) by (auto simp: own_state_kept_def beats_def)
  then have "cs_node_state (ch_cluster_state c') (self_chitchat_id c) \<noteq> None"
    using cs_apply_delta_get [OF assms(4)] process_delta_cluster(1) [OF assms(2)]
    by (auto split: option.splits)
  then show ?thesis by (auto simp: node_state_or_new_known)
qed

text \<open>The ACK: the other direction, and \<open>a\<close> keeps what it holds of itself.\<close>

lemma handshake_second_half:
  assumes inv: "network_inv copy_of owner nw" "nw_nodes nw a = Some (Running sva)"
    and ca: "ca = sv_chitchat sva" "beats ca ca'" "own_state_kept ca'" "self_chitchat_id ca' = a"
      "bt_wf (cs_node_states (ch_cluster_state ca'))"
      "node_state_or_new a (ch_cluster_state ca') = nw_own nw a\<lparr>ns_heartbeat := ha\<rparr>"
    and db: "compute_partial_delta_respecting_mtu z sh
        (ch_compute_digest (ch_scheduled_for_deletion t1 ca') ca') mtu sched (ch_cluster_state cb') = Ok db"
      "shuffles sh" "bt_wf (cs_node_states (ch_cluster_state cb'))"
    and cb: "cs_node_state (ch_cluster_state cb') b = Some (nw_own nw b\<lparr>ns_heartbeat := hb\<rparr>)"
      "copy_of (nw_history nw a) (ns_max_version (nw_own nw a)) (node_state_or_new a (ch_cluster_state cb'))"
    and c2: "beats ca' c2" "process_delta t3 db c2 = Ok ca''"
    and known: "b \<notin> ch_scheduled_for_deletion t1 ca'"
    and edge: "\<not> gc_edge (nw_own nw b) (node_state_or_new b (ch_cluster_state ca))"
  shows "\<exists>h. node_state_or_new a (ch_cluster_state ca'') = nw_own nw a\<lparr>ns_heartbeat := h\<rparr>"
    "answered_in_full (ch_compute_digest (ch_scheduled_for_deletion t1 ca') ca') b (nw_own nw b) db \<Longrightarrow>
     \<not> expiring (nw_history nw b) k \<Longrightarrow> read_key ca'' b k = read_key cb' b k"
proof -
  let ?dga = "ch_compute_digest (ch_scheduled_for_deletion t1 ca') ca'"
  obtain h where h: "node_state_or_new b (ch_cluster_state ca')
      = node_state_or_new b (ch_cluster_state ca)\<lparr>ns_heartbeat := h\<rparr>"
    using ca(2) unfolding beats_def by blast
  have copy: "copy_of (nw_history nw b) (ns_max_version (nw_own nw b)) (node_state_or_new b (ch_cluster_state ca'))"
    using network_copy [OF inv, of b] h by (simp add: ca(1))
  note rec = delta_received [OF db cb(1) _ refl _ digest_says_computed [OF ca(5) known] _ c2(2,1)]
  show "read_key ca'' b k = read_key cb' b k"
    if "answered_in_full ?dga b (nw_own nw b) db" "\<not> expiring (nw_history nw b) k"
    using rec(2) [OF _ _ _ _ that(2)] that(1) network_invD(1) [OF inv(1), of b] copy edge cb(1) h
    by (simp add: gc_edge_def node_state_or_new_known read_key_or_new)
  have "digest_says ?dga a (node_state_or_new a (ch_cluster_state ca'))"
    using digest_says_computed [OF ca(5) own_not_scheduled [OF ca(3)]] ca(4) by simp
  moreover have "copy_of (nw_history nw a)
      (ns_max_version (node_state_or_new a (ch_cluster_state ca'))) T"
    if "cs_node_state (ch_cluster_state cb') a = Some T" for T
    using that cb(2) ca(6) by (simp add: node_state_or_new_known)
  ultimately obtain h' where "node_state_or_new a (ch_cluster_state ca'')
      = node_state_or_new a (ch_cluster_state ca')\<lparr>ns_heartbeat := h'\<rparr>"
    by (rule delta_not_about_receiver [OF db refl _ _ c2(2,1)])
  then show "\<exists>h. node_state_or_new a (ch_cluster_state ca'') = nw_own nw a\<lparr>ns_heartbeat := h\<rparr>"
    using ca(6) by (intro exI [of _ h']) simp
qed

lemma handshake_reads_agree:
  assumes reach: "network_reachable z timely nw"
    and nodes: "nw_nodes nw a = Some (Running sva)" "nw_nodes nw b = Some (Running svb)"
    and sh: "shuffles sh" "shuffles sh'"
    and syn: "process_message z sh t1 (create_syn_message t0 (sv_chitchat svb)) (sv_chitchat sva)
      = Ok (Some (SynAck dga da), ca')"
    and syn_ack: "process_message z sh' t2 (SynAck dga da) (sv_chitchat svb) = Ok (Some (Ack db), cb')"
    and ack: "process_message z sh'' t3 (Ack db) ca' = Ok (reply, ca'')"
    and known: "a \<notin> ch_scheduled_for_deletion t0 (sv_chitchat svb)"
      "b \<notin> ch_scheduled_for_deletion t1 ca'"
    and edge: "\<not> gc_edge (nw_own nw a) (node_state_or_new a (run_cluster (Running svb)))"
      "\<not> gc_edge (nw_own nw b) (node_state_or_new b (run_cluster (Running sva)))"
    and full: "answered_in_full (ch_compute_digest (ch_scheduled_for_deletion t0 (sv_chitchat svb))
        (sv_chitchat svb)) a (nw_own nw a) da" "answered_in_full dga b (nw_own nw b) db"
  shows "(\<not> expiring (nw_history nw a) k \<longrightarrow> read_key cb' a k = read_key ca'' a k)
    \<and> (\<not> expiring (nw_history nw b) k \<longrightarrow> read_key ca'' b k = read_key cb' b k)"
proof -
  let ?ca = "sv_chitchat sva" and ?cb = "sv_chitchat svb"
  note inv = consistent_copies.network_inv_reachable [OF reach]
  have ok: "node_ok copy_of nw a (Running sva)" "node_ok copy_of nw b (Running svb)"
    using network_invD(3) [OF inv] nodes by blast+
  obtain c1 mtu where c1: "beats ?cb c1" "process_delta t2 da c1 = Ok cb'"
    "compute_partial_delta_respecting_mtu z sh' dga mtu (ch_scheduled_for_deletion t2 cb')
      (ch_cluster_state cb') = Ok db"
    by (rule syn_ack_handled [OF syn_ack])
  obtain c2 where c2: "beats ca' c2" "process_delta t3 db c2 = Ok ca''" by (rule ack_handled [OF ack])
  obtain mtu' where s: "beats ?ca ca'" "dga = ch_compute_digest (ch_scheduled_for_deletion t1 ca') ca'"
    "compute_partial_delta_respecting_mtu z sh (ch_compute_digest (ch_scheduled_for_deletion t0 ?cb) ?cb)
      mtu' (ch_scheduled_for_deletion t1 ca') (ch_cluster_state ca') = Ok da"
    by (rule syn_handled [OF syn])
  note edge = edge [unfolded run_cluster_def, simplified]
  note fst_half = handshake_first_half [OF inv nodes refl refl sh(1) syn c1(1,2) known(1) edge(1)]
  obtain ha hb where h: "node_state_or_new a (ch_cluster_state ca') = nw_own nw a\<lparr>ns_heartbeat := ha\<rparr>"
    "node_state_or_new b (ch_cluster_state cb') = nw_own nw b\<lparr>ns_heartbeat := hb\<rparr>"
    using fst_half(2,3) by blast
  have inva: "ch_inv ca'" and a: "own_state_kept ca'" "self_chitchat_id ca' = a"
    using process_message_inv [OF _ _ syn] ok(1) beats_own_state_kept [OF s(1)] s(1)
    by (auto simp: node_ok_def create_syn_message_def beats_def self_chitchat_id_def)
  have wfa: "bt_wf (cs_node_states (ch_cluster_state ca'))"
    using inva by (simp add: ch_inv_def cs_inv_def)
  note em = compute_partial_delta_emitted(1) [OF s(3) sh(1) wfa]
  have invb: "ch_inv cb'"
    using process_message_inv [OF _ _ syn_ack] ok(2) emitted_delta_wf [OF em] inva
    by (auto simp: node_ok_def ch_inv_def)
  have b: "cs_node_state (ch_cluster_state cb') b = Some (nw_own nw b\<lparr>ns_heartbeat := hb\<rparr>)"
    using handshake_own_known [OF c1(1,2)] ok(2) h(2) em
    by (auto simp: node_ok_def emitted_by_def)
  have wfb: "bt_wf (cs_node_states (ch_cluster_state cb'))"
    using invb by (simp add: ch_inv_def cs_inv_def)
  note snd_half = handshake_second_half [OF inv nodes(1) refl s(1) a wfa h(1) c1(3) [unfolded s(2)]
      sh(2) wfb b fst_half(1) c2 known(2) edge(2)]
  obtain ha' where "node_state_or_new a (ch_cluster_state ca'') = nw_own nw a\<lparr>ns_heartbeat := ha'\<rparr>"
    using snd_half(1) by blast
  then have "read_key ca'' a k = read_key ca' a k"
    using h(1) by (simp add: read_key_or_new ns_get_def)
  then show ?thesis
    using fst_half(4) [OF full(1)] snd_half(2) [folded s(2), OF full(2)] by metis
qed

end
