(* ===== verification/Gossip_Runs.thy ===== *)
theory Gossip_Runs
  imports Gossip_Handshake Replication_Flaws
begin

text \<open>
  Concrete runs of a network of two nodes, for the theorems about networks: a handshake in which
  one node learns the other's key, and the run in which a late answer makes a node lose its own
  writes. What the handler answers is given by \<open>syn_exact\<close>; the rest is evaluated.
\<close>

section \<open>Two nodes\<close>

definition net_b :: chitchat_id where
  "net_b = ChitchatId ''b'' 0 (SocketAddrV4 1 1)"

definition in_order :: shuffle where
  "in_order key g = g"

definition small_config :: "chitchat_id \<Rightarrow> chitchat_config" where
  "small_config i = \<lparr>cfg_chitchat_id = i, cfg_cluster_id = ''c'', cfg_gossip_interval = 1,
     cfg_listen_addr = SocketAddrV4 1 1, cfg_seed_nodes = [],
     cfg_failure_detector_config = \<lparr>fd_phi_threshold = 8, fd_sampling_window_size = 1,
       fd_max_interval = 1, fd_initial_interval = 1, fd_dead_node_grace_period = 2\<rparr>,
     cfg_marked_for_deletion_grace_period = 1, cfg_has_catchup_callback = False,
     cfg_extra_liveness_predicate = None\<rparr>"

definition result_or :: "'a \<Rightarrow> 'a result \<Rightarrow> 'a" where
  "result_or x r = (case r of Ok y \<Rightarrow> y | _ \<Rightarrow> x)"

definition result_is_ok :: "'a result \<Rightarrow> bool" where
  "result_is_ok r \<longleftrightarrow> (case r of Ok _ \<Rightarrow> True | _ \<Rightarrow> False)"

definition blank_node :: "chitchat_id \<Rightarrow> unit chitchat" where
  "blank_node i = \<lparr>ch_config = small_config i, ch_cluster_state = with_seed_addrs {},
     ch_listeners = inner_listeners_default,
     ch_failure_detector = failure_detector_new (cfg_failure_detector_config (small_config i)),
     ch_previous_live_nodes = [], ch_live_nodes_watcher = [],
     ch_max_datagram_payload_size = 400, ch_catchup_runs = 0\<rparr>"

definition net_created :: "chitchat_id \<Rightarrow> (string \<times> string) list \<Rightarrow> unit chitchat" where
  "net_created i kvs = result_or (blank_node i) (with_chitchat_id_and_seeds (small_config i) {} kvs 400)"

definition net_heard :: "instant \<Rightarrow> digest \<Rightarrow> unit chitchat \<Rightarrow> unit chitchat" where
  "net_heard now dg c = result_or c (report_heartbeats_in_digest now dg (update_self_heartbeat c))"

fun syn_digest :: "chitchat_message \<Rightarrow> digest" where
  "syn_digest (Syn _ dg) = dg"
| "syn_digest (SynAck dg _) = dg"
| "syn_digest _ = \<lparr>node_digests = []\<rparr>"

definition net_told :: "instant \<Rightarrow> digest \<Rightarrow> unit chitchat \<Rightarrow> stale_node list" where
  "net_told now dg c = stale_list in_order dg (ch_scheduled_for_deletion now c) (ch_cluster_state c)"

definition net_own_digest :: "instant \<Rightarrow> unit chitchat \<Rightarrow> digest" where
  "net_own_digest now c = ch_compute_digest (ch_scheduled_for_deletion now c) c"

definition net_learnt :: "instant \<Rightarrow> digest \<Rightarrow> stale_node list \<Rightarrow> unit chitchat \<Rightarrow> unit chitchat" where
  "net_learnt now dg sns c = result_or c (process_delta now
     \<lparr>node_deltas = map whole_delta sns, delta_serialized_len = 0\<rparr> (net_heard now dg c))"

definition no_draws :: gossip_rng where
  "no_draws = \<lparr>rng_choose_multiple = (\<lambda>_ _. []), rng_gen_dead = 0, rng_choose_dead = (\<lambda>_. None),
     rng_gen_seed = 0, rng_choose_seed = (\<lambda>_. None)\<rparr>"

text \<open>A handshake: the second node learns the two keys of the first.\<close>

definition net_a0 :: "unit chitchat" where
  "net_a0 = net_created node_a [(''y'', ''1''), (''x'', ''1'')]"

definition net_b0 :: "unit chitchat" where
  "net_b0 = net_created net_b []"

definition net_ha1 :: "unit chitchat" where
  "net_ha1 = net_heard 0 (net_own_digest 0 net_b0) net_a0"

definition net_hb1 :: "unit chitchat" where
  "net_hb1 = net_learnt 0 (net_own_digest 0 net_ha1) (net_told 0 (net_own_digest 0 net_b0) net_ha1) net_b0"

text \<open>The first node has two keys; an early SYN of it is still under way when it deletes one.\<close>

definition early_syn :: chitchat_message where
  "early_syn = create_syn_message 0 net_a0"

definition net_a0_own :: node_state where
  "net_a0_own = node_state_or_new node_a (ch_cluster_state net_a0)"

definition net_a1 :: "unit chitchat" where
  "net_a1 = self_node_state (\<lambda>_. ns_delete ''x'' 0 net_a0_own) net_a0"

text \<open>The other node learns both, collects the tombstone and answers the early SYN.\<close>

definition net_a2 :: "unit chitchat" where
  "net_a2 = net_heard 0 (net_own_digest 0 net_b0) net_a1"

definition net_b1 :: "unit chitchat" where
  "net_b1 = net_learnt 0 (net_own_digest 0 net_a2) (net_told 0 (net_own_digest 0 net_b0) net_a2) net_b0"

definition net_b2 :: "unit chitchat" where
  "net_b2 = update_nodes_liveness 1 (ch_gc_keys_marked_for_deletion 1 (update_self_heartbeat net_b1))"

definition net_b3 :: "unit chitchat" where
  "net_b3 = net_heard 1 (syn_digest early_syn) net_b2"

definition net_a3 :: "unit chitchat" where
  "net_a3 = net_learnt 1 (net_own_digest 1 net_b3) (net_told 1 (syn_digest early_syn) net_b3) net_a2"

section \<open>Networks in which two nodes run\<close>

definition pair_at ::
  "delivery \<Rightarrow> chitchat_id \<Rightarrow> unit chitchat \<Rightarrow> chitchat_id \<Rightarrow> unit chitchat \<Rightarrow> history \<Rightarrow> history \<Rightarrow>
   chitchat_message set \<Rightarrow> bool" where
  "pair_at ok i c j d H G M \<longleftrightarrow> i \<noteq> j \<and> (\<exists>nw. network_reachable zstd_none ok nw
     \<and> nw_nodes nw i = Some (Running \<lparr>sv_chitchat = c, sv_outbox = []\<rparr>)
     \<and> nw_nodes nw j = Some (Running \<lparr>sv_chitchat = d, sv_outbox = []\<rparr>)
     \<and> nw_history nw i = H \<and> nw_history nw j = G \<and> M \<subseteq> snd ` nw_net nw)"

lemma pair_swap: "pair_at ok i c j d H G M \<Longrightarrow> pair_at ok j d i c G H M"
  by (auto simp: pair_at_def)

lemma result_is_okD: "result_is_ok r \<Longrightarrow> r = Ok (result_or x r)"
  by (cases r) (simp_all add: result_is_ok_def result_or_def)

definition join_history :: "chitchat_id \<Rightarrow> (string \<times> string) list \<Rightarrow> history" where
  "join_history i kvs = set_history kvs (inc_heartbeat (node_state_new i []))"

lemma net_created_ok:
  "result_is_ok (with_chitchat_id_and_seeds (small_config i) {} kvs 400 :: unit chitchat result) \<Longrightarrow>
   with_chitchat_id_and_seeds (small_config i) {} kvs 400 = Ok (net_created i kvs)"
  unfolding net_created_def by (rule result_is_okD)

lemma pair_joined:
  assumes "i \<noteq> j"
    and "result_is_ok (with_chitchat_id_and_seeds (small_config i) {} kvs 400 :: unit chitchat result)"
    and "result_is_ok (with_chitchat_id_and_seeds (small_config j) {} kvs' 400 :: unit chitchat result)"
  shows "pair_at ok i (net_created i kvs) j (net_created j kvs') (join_history i kvs) (join_history j kvs') {}"
proof -
  have cfg: "cfg_chitchat_id (small_config l) = l"
    "0 < fd_sampling_window_size (cfg_failure_detector_config (small_config l))" for l
    by (simp_all add: small_config_def)
  let ?n = "empty_network :: unit network"
  let ?n1 = "?n\<lparr>nw_nodes := (nw_nodes ?n)(i \<mapsto> Running \<lparr>sv_chitchat = net_created i kvs, sv_outbox = []\<rparr>),
    nw_history := (nw_history ?n)(i := join_history i kvs)\<rparr>"
  let ?n2 = "?n1\<lparr>nw_nodes := (nw_nodes ?n1)(j \<mapsto> Running \<lparr>sv_chitchat = net_created j kvs', sv_outbox = []\<rparr>),
    nw_history := (nw_history ?n1)(j := join_history j kvs')\<rparr>"
  have "network_reachable zstd_none ok ?n1"
    using one_more [OF nothing_yet joins [of ?n "small_config i", OF _ _ net_created_ok [OF assms(2)]]]
    by (simp add: cfg join_history_def empty_network_def)
  moreover have "network_step zstd_none ok ?n1 ?n2"
    using joins [of ?n1 "small_config j", OF _ _ net_created_ok [OF assms(3)]] assms(1)
    by (simp add: cfg join_history_def empty_network_def)
  ultimately have "network_reachable zstd_none ok ?n2" by (rule one_more)
  then show ?thesis using assms(1) unfolding pair_at_def by (intro conjI exI [of _ ?n2]) simp_all
qed

lemma pair_writes:
  assumes "pair_at ok i c j d H G M" "cs_node_state (ch_cluster_state c) i = Some s"
    and "run_op oper now s = Ok s'" "ns_max_version s \<noteq> - 1"
    and "deliver_events (self_node_state (\<lambda>_. s') c) = Ok c'"
  shows "pair_at ok i c' j d (H @ recorded s (op_key oper) s') G M"
proof -
  obtain nw where nw: "network_reachable zstd_none ok nw"
    "nw_nodes nw i = Some (Running \<lparr>sv_chitchat = c, sv_outbox = []\<rparr>)"
    "nw_nodes nw j = Some (Running \<lparr>sv_chitchat = d, sv_outbox = []\<rparr>)"
    "nw_history nw i = H" "nw_history nw j = G" "M \<subseteq> snd ` nw_net nw" "i \<noteq> j"
    using assms(1) by (auto simp: pair_at_def)
  let ?nw = "nw\<lparr>
      nw_nodes := (nw_nodes nw)(i \<mapsto> Running (\<lparr>sv_chitchat = c, sv_outbox = []\<rparr>\<lparr>sv_chitchat := c'\<rparr>)),
      nw_history := (nw_history nw)(i := nw_history nw i @ recorded s (op_key oper) s')\<rparr>"
  have "network_step zstd_none ok nw ?nw"
    by (rule writes_own [OF nw(2) _ assms(3,4)]) (use assms(2,5) in simp_all)
  from one_more [OF nw(1) this] nw(3-7) show ?thesis
    unfolding pair_at_def by (intro conjI exI [of _ ?nw]) simp_all
qed

lemma pair_event:
  assumes "pair_at ok i c j d H G M"
    and "\<And>nw. M \<subseteq> snd ` nw_net nw \<Longrightarrow> event_from_net ok (nw :: unit network) c ev"
    and "server_step zstd_none ev \<lparr>sv_chitchat = c, sv_outbox = []\<rparr> = Ok (Running sv)"
  shows "pair_at ok i (sv_chitchat sv) j d H G (M \<union> snd ` set (sv_outbox sv))"
proof -
  obtain nw where nw: "network_reachable zstd_none ok nw"
    "nw_nodes nw i = Some (Running \<lparr>sv_chitchat = c, sv_outbox = []\<rparr>)"
    "nw_nodes nw j = Some (Running \<lparr>sv_chitchat = d, sv_outbox = []\<rparr>)"
    "nw_history nw i = H" "nw_history nw j = G" "M \<subseteq> snd ` nw_net nw" "i \<noteq> j"
    using assms(1) by (auto simp: pair_at_def)
  have "network_step zstd_none ok nw (nw\<lparr>nw_nodes := (nw_nodes nw)(i \<mapsto> clear_outbox (Running sv)),
      nw_net := nw_net nw \<union> sent_messages (Running sv)\<rparr>)"
    by (rule runs [OF nw(2) _ assms(3)]) (use assms(2) [OF nw(6)] in simp)
  note r = one_more [OF nw(1) this]
  have "snd ` sent_messages (Running sv) = snd ` set (sv_outbox sv)" by (force simp: sent_messages_def)
  then show ?thesis
    using r nw(3-7) unfolding pair_at_def
    by (intro conjI exI [of _ "nw\<lparr>nw_nodes := (nw_nodes nw)(i \<mapsto> clear_outbox (Running sv)),
      nw_net := nw_net nw \<union> sent_messages (Running sv)\<rparr>"]) (simp_all add: image_Un, blast)
qed

lemma pair_sends:
  assumes "pair_at ok i c j d H G M"
  shows "pair_at ok i c j d H G (insert (create_syn_message now c) M)"
  using pair_event [OF assms, of "EventCommandGossip now (SocketAddrV4 0 0)"]
  by (simp add: server_gossip_def sv_send_def)

lemma pair_weaken: "pair_at ok i c j d H G M \<Longrightarrow> M' \<subseteq> M \<Longrightarrow> pair_at ok i c j d H G M'"
  unfolding pair_at_def by blast

lemma pair_ticks:
  assumes "pair_at ok i c j d H G M"
  shows "pair_at ok i (update_nodes_liveness now (ch_gc_keys_marked_for_deletion now
    (update_self_heartbeat c))) j d H G M"
proof -
  let ?sv = "gossip_multiple no_draws now \<lparr>sv_chitchat = c, sv_outbox = []\<rparr>"
  have "pair_at ok i (sv_chitchat ?sv) j d H G (M \<union> snd ` set (sv_outbox ?sv))"
    by (rule pair_event [OF assms, of "EventTick now no_draws"]) simp_all
  then show ?thesis
    by (auto simp: gossip_multiple_chitchat intro: pair_weaken)
qed

lemma in_order_shuffles: "shuffles in_order"
  by (simp add: shuffles_def in_order_def)

lemma pair_receives:
  assumes "pair_at any_delivery i c j d H G M" "m \<in> M"
    and "process_message zstd_none in_order now m c = Ok (Some r, c')"
  shows "pair_at any_delivery i c' j d H G (insert r M)"
proof -
  have "event_from_net any_delivery nw c (EventRecv now in_order (SocketAddrV4 0 0) m)"
    if "M \<subseteq> snd ` nw_net nw" for nw :: "unit network"
    using that assms(2) in_order_shuffles by (force simp: receivable_def any_delivery_def)
  from pair_event [OF assms(1) this, of "sv_send (SocketAddrV4 0 0) r \<lparr>sv_chitchat = c', sv_outbox = []\<rparr>"]
  show ?thesis using assms(3) by (simp add: handle_message_def sv_send_def)
qed

lemma pair_inv:
  assumes "pair_at any_delivery i c j d H G M"
  shows "ch_inv c" "ch_inv d"
proof -
  have "\<exists>nw :: unit network. network_inv (\<lambda>H m. genuine H) genuine nw
      \<and> nw_nodes nw i = Some (Running \<lparr>sv_chitchat = c, sv_outbox = []\<rparr>)
      \<and> nw_nodes nw j = Some (Running \<lparr>sv_chitchat = d, sv_outbox = []\<rparr>)"
    using assms genuine_values.network_inv_reachable unfolding pair_at_def by blast
  then show "ch_inv c" "ch_inv d" using network_invD(3) by (force simp: node_ok_def)+
qed

text \<open>A SYN heard and answered, and an answer taken in.\<close>

lemma two_node_digest_len:
  assumes "map fst (node_digests dg) = [node_a, net_b]"
  shows "digest_serialized_len zstd_none dg = 90"
proof -
  obtain x y where dg: "node_digests dg = [(node_a, x), (net_b, y)]"
    using assms by (cases "node_digests dg" rule: list.exhaust) (auto simp: Cons_eq_map_conv)
  have ids: "chitchat_id_valid node_a" "chitchat_id_valid net_b"
    by (simp_all add: chitchat_id_valid_def str_valid_def as_bytes_def socket_addr_valid_def
        node_a_def net_b_def)
  have "chitchat_id_serialized_len node_a = 18" "chitchat_id_serialized_len net_b = 18"
    by (simp_all add: chitchat_id_serialized_len_def str_serialized_len_def as_bytes_def
        socket_addr_serialized_len_def u64_serialized_len_def u16_serialized_len_def node_a_def
        net_b_def)
  then show ?thesis
    using chitchat_id_codec.ser_len [OF ids(1)] chitchat_id_codec.ser_len [OF ids(2)] dg
    by (simp add: digest_serialized_len_def digest_serialize_def zstd_none_def
        digest_serialize_uncompressed_def node_digest_codec.ser_len node_digest_serialized_len_def
        heartbeat_serialized_len_def u64_serialized_len_def)
qed

definition net_answerable :: "instant \<Rightarrow> digest \<Rightarrow> unit chitchat \<Rightarrow> bool" where
  "net_answerable now dg c \<longleftrightarrow>
     result_is_ok (report_heartbeats_in_digest now dg (update_self_heartbeat c))
     \<and> map fst (node_digests (net_own_digest now (net_heard now dg c))) = [node_a, net_b]
     \<and> stale_size (net_told now dg (net_heard now dg c)) \<le> 200
     \<and> ch_max_datagram_payload_size c = 400 \<and> cfg_cluster_id (ch_config c) = ''c''"

lemma syn_answer:
  assumes "net_answerable now dg c" "ch_inv c"
  obtains n where "process_message zstd_none in_order now (Syn ''c'' dg) c
    = Ok (Some (SynAck (net_own_digest now (net_heard now dg c))
        \<lparr>node_deltas = map whole_delta (net_told now dg (net_heard now dg c)), delta_serialized_len = n\<rparr>),
        net_heard now dg c)"
proof -
  have rep: "report_heartbeats_in_digest now dg (update_self_heartbeat c) = Ok (net_heard now dg c)"
    unfolding net_heard_def by (rule result_is_okD) (use assms(1) in \<open>simp add: net_answerable_def\<close>)
  show thesis
    by (rule syn_exact [OF zstd_none_ok in_order_shuffles assms(2) rep net_own_digest_def
          two_node_digest_len net_told_def])
      (use assms(1) that in \<open>simp_all add: net_answerable_def BLOCK_THRESHOLD_def\<close>)
qed

definition net_acceptable :: "instant \<Rightarrow> digest \<Rightarrow> stale_node list \<Rightarrow> unit chitchat \<Rightarrow> bool" where
  "net_acceptable now dg sns c \<longleftrightarrow>
     result_is_ok (report_heartbeats_in_digest now dg (update_self_heartbeat c))
     \<and> result_is_ok (process_delta now \<lparr>node_deltas = map whole_delta sns, delta_serialized_len = 0\<rparr>
          (net_heard now dg c))
     \<and> (\<forall>sn \<in> set sns. node_delta_wf (whole_delta sn))
     \<and> stale_size (net_told now dg (net_learnt now dg sns c)) \<le> 200
     \<and> ch_max_datagram_payload_size (net_learnt now dg sns c) = 400"

lemma answer_taken_in:
  assumes "net_acceptable now dg sns c" "ch_inv c"
  obtains d where "process_message zstd_none in_order now
      (SynAck dg \<lparr>node_deltas = map whole_delta sns, delta_serialized_len = n\<rparr>) c
    = Ok (Some (Ack d), net_learnt now dg sns c)"
    "node_deltas d = map whole_delta (net_told now dg (net_learnt now dg sns c))"
proof -
  have rep: "report_heartbeats_in_digest now dg (update_self_heartbeat c) = Ok (net_heard now dg c)"
    unfolding net_heard_def by (rule result_is_okD) (use assms(1) in \<open>simp add: net_acceptable_def\<close>)
  have "process_delta now \<lparr>node_deltas = map whole_delta sns, delta_serialized_len = 0\<rparr>
      (net_heard now dg c) = Ok (net_learnt now dg sns c)"
    unfolding net_learnt_def by (rule result_is_okD) (use assms(1) in \<open>simp add: net_acceptable_def\<close>)
  then have delta: "process_delta now \<lparr>node_deltas = map whole_delta sns, delta_serialized_len = n\<rparr>
      (net_heard now dg c) = Ok (net_learnt now dg sns c)"
    using process_delta_length [of "\<lparr>node_deltas = map whole_delta sns, delta_serialized_len = n\<rparr>"
        "\<lparr>node_deltas = map whole_delta sns, delta_serialized_len = 0\<rparr>" now "net_heard now dg c"] by simp
  have "ch_inv (net_heard now dg c)"
    using report_heartbeats_ok [OF ch_inv_update_self_heartbeat [OF assms(2)], of now "node_digests dg"]
      rep by (metis report_heartbeats_in_digest_def result.inject(1))
  then have inv: "ch_inv (net_learnt now dg sns c)"
    by (rule process_delta_inv(1) [OF _ _ delta]) (use assms(1) in \<open>simp add: net_acceptable_def\<close>)
  have size: "ch_max_datagram_payload_size (net_learnt now dg sns c) = 400"
    using assms(1) by (simp add: net_acceptable_def)
  then obtain d where d: "process_message zstd_none in_order now
      (SynAck dg \<lparr>node_deltas = map whole_delta sns, delta_serialized_len = n\<rparr>) c
    = Ok (Some (Ack d), net_learnt now dg sns c)"
    using syn_ack_returns [OF zstd_none_ok in_order_shuffles inv rep delta] by force
  have "compute_partial_delta_respecting_mtu zstd_none in_order dg 399
      (ch_scheduled_for_deletion now (net_learnt now dg sns c)) (ch_cluster_state (net_learnt now dg sns c)) = Ok d"
    using d rep delta size by (simp add: and_then_eq_Ok_iff usize_sub_def)
  from compute_partial_delta_room [OF this] that [OF d] show thesis
    using assms(1) by (simp add: net_acceptable_def net_told_def BLOCK_THRESHOLD_def)
qed

section \<open>A late answer\<close>

lemma late_run_joined:
  "result_is_ok (with_chitchat_id_and_seeds (small_config node_a) {} [(''y'', ''1''), (''x'', ''1'')] 400 :: unit chitchat result)"
  "result_is_ok (with_chitchat_id_and_seeds (small_config net_b) {} [] 400 :: unit chitchat result)"
  by code_simp+

lemma late_run_deleted:
  "cs_node_state (ch_cluster_state net_a0) node_a = Some net_a0_own" "ns_max_version net_a0_own = 2"
  "result_is_ok (deliver_events net_a1)"
  by code_simp+

lemma late_run_handled:
  "net_answerable 0 (net_own_digest 0 net_b0) net_a1"
  "net_acceptable 0 (net_own_digest 0 net_a2) (net_told 0 (net_own_digest 0 net_b0) net_a2) net_b0"
  "net_answerable 1 (syn_digest early_syn) net_b2"
  "net_acceptable 1 (net_own_digest 1 net_b3) (net_told 1 (syn_digest early_syn) net_b3) net_a2"
  by code_simp+

lemma late_run_end:
  "map_option ns_max_version (cs_node_state (ch_cluster_state net_a3) node_a) = Some 1"
  "ns_max_version (node_state_or_new node_a (ch_cluster_state net_b3)) = 3"
  "recorded net_a0_own ''x'' (ns_delete ''x'' 0 net_a0_own)
    = [\<lparr>kvm_key = ''x'', kvm_value = [], kvm_version = 3, kvm_status = MutDelete\<rparr>]"
  by code_simp+

lemma syn_of_small:
  "cfg_cluster_id (ch_config c) = ''c'' \<Longrightarrow> create_syn_message now c = Syn ''c'' (net_own_digest now c)"
  by (simp add: create_syn_message_def net_own_digest_def)

lemma late_run_syns:
  "create_syn_message 0 net_b0 = Syn ''c'' (net_own_digest 0 net_b0)"
  "early_syn = Syn ''c'' (syn_digest early_syn)"
proof -
  have "cfg_cluster_id (ch_config net_b0) = ''c''" "cfg_cluster_id (ch_config net_a0) = ''c''" by code_simp+
  then show "create_syn_message 0 net_b0 = Syn ''c'' (net_own_digest 0 net_b0)"
    "early_syn = Syn ''c'' (syn_digest early_syn)"
    by (simp_all add: syn_of_small early_syn_def)
qed

lemma late_run_first:
  "\<exists>H G M. pair_at any_delivery node_a net_a2 net_b net_b1 H G M \<and> early_syn \<in> M
    \<and> \<lparr>kvm_key = ''x'', kvm_value = [], kvm_version = 3, kvm_status = MutDelete\<rparr> \<in> set H"
proof -
  let ?w = "\<lparr>kvm_key = ''x'', kvm_value = [], kvm_version = 3, kvm_status = MutDelete\<rparr>"
  have "node_a \<noteq> net_b" by (simp add: node_a_def net_b_def)
  from pair_sends [OF pair_joined [OF this late_run_joined]] obtain H G where
    p0: "pair_at any_delivery node_a net_a0 net_b net_b0 H G {early_syn}"
    by (auto simp: net_a0_def net_b0_def early_syn_def)
  have del: "run_op (OpDelete ''x'') 0 net_a0_own = Ok (ns_delete ''x'' 0 net_a0_own)" by simp
  have "deliver_events (self_node_state (\<lambda>_. ns_delete ''x'' 0 net_a0_own) net_a0) = Ok net_a1"
    using late_run_deleted(3) deliver_events_same result_is_okD by (metis net_a1_def)
  from pair_writes [OF p0 late_run_deleted(1) del _ this] have
    p1: "pair_at any_delivery node_a net_a1 net_b net_b0 (H @ [?w]) G {early_syn}"
    using late_run_deleted(2) late_run_end(3) by simp
  from pair_swap [OF pair_sends [OF pair_swap [OF p1]], of 0] have
    p2: "pair_at any_delivery node_a net_a1 net_b net_b0 (H @ [?w]) G {Syn ''c'' (net_own_digest 0 net_b0), early_syn}"
    by (simp add: late_run_syns(1))
  obtain n where "process_message zstd_none in_order 0 (Syn ''c'' (net_own_digest 0 net_b0)) net_a1
    = Ok (Some (SynAck (net_own_digest 0 net_a2) \<lparr>node_deltas = map whole_delta (net_told 0 (net_own_digest 0 net_b0) net_a2),
        delta_serialized_len = n\<rparr>), net_a2)"
    using syn_answer [OF late_run_handled(1) pair_inv(1) [OF p2]] unfolding net_a2_def by metis
  note p3 = pair_swap [OF pair_receives [OF p2 _ this]]
  obtain d where "process_message zstd_none in_order 0 (SynAck (net_own_digest 0 net_a2)
      \<lparr>node_deltas = map whole_delta (net_told 0 (net_own_digest 0 net_b0) net_a2), delta_serialized_len = n\<rparr>) net_b0
    = Ok (Some (Ack d), net_b1)"
    using answer_taken_in [OF late_run_handled(2) pair_inv(2) [OF p2]] unfolding net_b1_def by metis
  from pair_swap [OF pair_receives [OF p3 _ this]] show ?thesis by fastforce
qed

lemma late_run:
  "\<exists>H G M. pair_at any_delivery node_a net_a3 net_b net_b3 H G M
    \<and> \<lparr>kvm_key = ''x'', kvm_value = [], kvm_version = 3, kvm_status = MutDelete\<rparr> \<in> set H"
proof -
  obtain H G M where p: "pair_at any_delivery node_a net_a2 net_b net_b1 H G M" "early_syn \<in> M"
    "\<lparr>kvm_key = ''x'', kvm_value = [], kvm_version = 3, kvm_status = MutDelete\<rparr> \<in> set H"
    using late_run_first by blast
  have q: "pair_at any_delivery net_b net_b2 node_a net_a2 G H M"
    unfolding net_b2_def by (rule pair_ticks [OF pair_swap [OF p(1)]])
  obtain n where "process_message zstd_none in_order 1 early_syn net_b2
    = Ok (Some (SynAck (net_own_digest 1 net_b3) \<lparr>node_deltas = map whole_delta (net_told 1 (syn_digest early_syn) net_b3),
        delta_serialized_len = n\<rparr>), net_b3)"
    using syn_answer [OF late_run_handled(3) pair_inv(1) [OF q]] late_run_syns(2) unfolding net_b3_def by metis
  note q1 = pair_swap [OF pair_receives [OF q p(2) this]]
  obtain d where "process_message zstd_none in_order 1 (SynAck (net_own_digest 1 net_b3)
      \<lparr>node_deltas = map whole_delta (net_told 1 (syn_digest early_syn) net_b3), delta_serialized_len = n\<rparr>) net_a2
    = Ok (Some (Ack d), net_a3)"
    using answer_taken_in [OF late_run_handled(4) pair_inv(2) [OF q]] unfolding net_a3_def by metis
  from pair_receives [OF q1 _ this] p(3) show ?thesis by fastforce
qed

section \<open>A handshake\<close>

lemma handshake_handled:
  "net_answerable 0 (net_own_digest 0 net_b0) net_a0"
  "net_acceptable 0 (net_own_digest 0 net_ha1) (net_told 0 (net_own_digest 0 net_b0) net_ha1) net_b0"
  "net_told 0 (net_own_digest 0 net_ha1) net_hb1 = []"
  "result_is_ok (process_delta 0 \<lparr>node_deltas = [], delta_serialized_len = 0\<rparr> (update_self_heartbeat net_ha1))"
  by code_simp+

lemma handshake_run:
  assumes "ch_inv net_a0" "ch_inv net_b0"
  obtains da db ca where
    "process_message zstd_none in_order 0 (create_syn_message 0 net_b0) net_a0
      = Ok (Some (SynAck (net_own_digest 0 net_ha1) da), net_ha1)"
    "process_message zstd_none in_order 0 (SynAck (net_own_digest 0 net_ha1) da) net_b0 = Ok (Some (Ack db), net_hb1)"
    "process_message zstd_none in_order 0 (Ack db) net_ha1 = Ok (None, ca)"
    "node_deltas da = map whole_delta (net_told 0 (net_own_digest 0 net_b0) net_ha1)"
proof -
  obtain n where syn: "process_message zstd_none in_order 0 (Syn ''c'' (net_own_digest 0 net_b0)) net_a0
    = Ok (Some (SynAck (net_own_digest 0 net_ha1) \<lparr>node_deltas = map whole_delta (net_told 0 (net_own_digest 0 net_b0) net_ha1),
        delta_serialized_len = n\<rparr>), net_ha1)"
    using syn_answer [OF handshake_handled(1) assms(1)] unfolding net_ha1_def by metis
  obtain db where db: "process_message zstd_none in_order 0 (SynAck (net_own_digest 0 net_ha1)
      \<lparr>node_deltas = map whole_delta (net_told 0 (net_own_digest 0 net_b0) net_ha1), delta_serialized_len = n\<rparr>) net_b0
    = Ok (Some (Ack db), net_hb1)" "node_deltas db = []"
    using answer_taken_in [OF handshake_handled(2) assms(2)] handshake_handled(3)
    unfolding net_hb1_def by (metis list.map(1))
  obtain ca where "process_delta 0 \<lparr>node_deltas = [], delta_serialized_len = 0\<rparr>
      (update_self_heartbeat net_ha1) = Ok ca"
    using result_is_okD [OF handshake_handled(4)] by metis
  then have "process_delta 0 db (update_self_heartbeat net_ha1) = Ok ca"
    using process_delta_length [of db "\<lparr>node_deltas = [], delta_serialized_len = 0\<rparr>" 0
        "update_self_heartbeat net_ha1"] db(2) by simp
  then have ack: "process_message zstd_none in_order 0 (Ack db) net_ha1 = Ok (None, ca)" by simp
  show thesis
    by (rule that [OF _ db(1) ack]) (use syn late_run_syns(1) in simp_all)
qed

end
