(* ===== verification/Gossip_Refinement.thy ===== *)
theory Gossip_Refinement
  imports Gossip_Network
begin

text \<open>
  Networks of running nodes refine the transition system of theory \<open>Replication_System\<close>: seen from
  one owner, a network is a world, and a step of the network is a sequence of steps of the world
  (none, when the step does not concern the owner's state).
\<close>

section \<open>The world of an owner\<close>

definition world_copies :: "chitchat_id \<Rightarrow> 'c network \<Rightarrow> chitchat_id \<Rightarrow> node_state" where
  "world_copies i nw j = (case nw_nodes nw j of
      None \<Rightarrow> node_state_new i [] | Some st \<Rightarrow> node_state_or_new i (run_cluster st))"

definition told_by ::
  "chitchat_id \<Rightarrow> (cluster_state \<times> chitchat_message) set \<Rightarrow> (node_state \<times> version \<times> node_delta) set"
where
  "told_by i M = {(S, ndl_from_version_excluded nd, nd) | S nd. \<exists>src m. (src, m) \<in> M
     \<and> nd \<in> set (message_deltas m) \<and> ndl_chitchat_id nd = i \<and> cs_node_state src i = Some S}"

definition project :: "chitchat_id \<Rightarrow> 'c network \<Rightarrow> world" where
  "project i nw = \<lparr>wd_history = nw_history nw i, wd_copies = world_copies i nw,
     wd_net = told_by i (nw_net nw)\<rparr>"

lemma told_by_Un: "told_by i (M \<union> N) = told_by i M \<union> told_by i N"
  by (auto simp: told_by_def)

lemma project_empty: "project i empty_network = initial_world i"
  by (auto simp: project_def empty_network_def initial_world_def world_copies_def told_by_def)

lemma world_copies_own: "world_copies i nw i = nw_own nw i"
  by (simp add: world_copies_def nw_own_def)

section \<open>Paths of a world\<close>

abbreviation world_path :: "chitchat_id \<Rightarrow> world \<Rightarrow> world \<Rightarrow> bool" where
  "world_path i \<equiv> (world_step i)\<^sup>*\<^sup>*"

lemma reachable_path: "world_path i w w' \<Longrightarrow> reachable i w \<Longrightarrow> reachable i w'"
  by (induction rule: rtranclp_induct) (auto intro: next_step)

text \<open>The copy of one node in a world, replaced.\<close>

abbreviation with_copy :: "world \<Rightarrow> chitchat_id \<Rightarrow> node_state \<Rightarrow> world" where
  "with_copy w j s \<equiv> w\<lparr>wd_copies := (wd_copies w)(j := s)\<rparr>"

lemma with_copy_beats: "world_step i (with_copy w j s) (with_copy w j (s\<lparr>ns_heartbeat := h\<rparr>))"
  using beats [of i "with_copy w j s" j h] by simp

lemma with_copy_collects:
  "world_step i (with_copy w j s) (with_copy w j (gc_keys_marked_for_deletion now grace s))"
  using collects [of i "with_copy w j s" j now grace] by simp

lemma with_copy_delivers:
  "(S, from_v, nd) \<in> wd_net w \<Longrightarrow> j \<noteq> i \<Longrightarrow> deliverable S from_v s \<Longrightarrow>
   world_step i (with_copy w j s) (with_copy w j (ns_apply_delta nd now s))"
  using delivers [of S from_v nd "with_copy w j s" j i now] by simp

lemma path_sends:
  assumes "finite X" "\<And>S from_v nd. (S, from_v, nd) \<in> X \<Longrightarrow> S = wd_copies w j \<and> emits S from_v nd"
  shows "world_path i w (w\<lparr>wd_net := wd_net w \<union> X\<rparr>)"
  using assms
proof (induction X rule: finite_induct)
  case (insert p X)
  obtain S from_v nd where p: "p = (S, from_v, nd)" by (cases p)
  then have "world_step i (w\<lparr>wd_net := wd_net w \<union> X\<rparr>)
      (w\<lparr>wd_net := insert (wd_copies w j, from_v, nd) (wd_net w \<union> X)\<rparr>)"
    using sends [of "w\<lparr>wd_net := wd_net w \<union> X\<rparr>" j from_v nd i] insert.prems [of S from_v nd] by simp
  moreover have "wd_copies w j = S" using insert.prems [of S from_v nd] p by simp
  ultimately show ?case
    using insert.IH insert.prems p by (auto intro: rtranclp.rtrancl_into_rtrancl)
qed simp

text \<open>The writes of \<open>set_all\<close> are writes of the owner.\<close>

lemma path_set_all:
  assumes "set_all kvs s = Ok s'" "wd_copies w i = s"
  shows "world_path i w (w\<lparr>wd_history := wd_history w @ set_history kvs s,
    wd_copies := (wd_copies w)(i := s')\<rparr>)"
  using assms
proof (induction kvs s arbitrary: w rule: set_all.induct)
  case (1 s)
  then have "s' = wd_copies w i" by simp
  then show ?case by simp
next
  case (2 k v kvs s)
  then obtain s1 where s1: "ns_set k v s = Ok s1" "set_all kvs s1 = Ok s'"
    by (auto simp: and_then_eq_Ok_iff)
  let ?w = "w\<lparr>wd_history := wd_history w @ recorded s k s1, wd_copies := (wd_copies w)(i := s1)\<rparr>"
  have "world_path i w ?w"
  proof (cases "ns_max_version s = - 1")
    case True
    then have "s1 = wd_copies w i" using s1(1) "2.prems"(2) by (auto simp: ns_set_cases split: if_splits)
    then have "?w = w" using "2.prems"(2) by (simp add: recorded_def fun_upd_idem)
    then show ?thesis by simp
  next
    case False
    then show ?thesis
      using owner_writes [of "OpSet k v" 0 w i s1] s1(1) "2.prems"(2) by auto
  qed
  moreover have "world_path i ?w (?w\<lparr>wd_history := wd_history ?w @ set_history kvs s1,
    wd_copies := (wd_copies ?w)(i := s')\<rparr>)"
    by (rule "2.IH") (use s1 in simp_all)
  ultimately have "world_path i w (?w\<lparr>wd_history := wd_history ?w @ set_history kvs s1,
    wd_copies := (wd_copies ?w)(i := s')\<rparr>)"
    by (rule rtranclp_trans)
  then show ?case
    using s1(1) by (simp add: fun_upd_def cong: if_cong)
qed

section \<open>Steps of the network\<close>

lemma project_update:
  "project i (nw\<lparr>nw_nodes := (nw_nodes nw)(j \<mapsto> st), nw_history := (nw_history nw)(j := H),
      nw_net := nw_net nw \<union> M\<rparr>)
    = (project i nw)\<lparr>wd_history := (if j = i then H else wd_history (project i nw)),
        wd_copies := (wd_copies (project i nw))(j := node_state_or_new i (run_cluster st)),
        wd_net := wd_net (project i nw) \<union> told_by i M\<rparr>"
  by (auto simp: project_def world_copies_def told_by_Un)

text \<open>What a node keeps of the owner's state is reached by steps of the world.\<close>

definition reached_from :: "chitchat_id \<Rightarrow> world \<Rightarrow> chitchat_id \<Rightarrow> chitchat_id \<Rightarrow> node_state \<Rightarrow> bool" where
  "reached_from i w j k s \<longleftrightarrow> (k = i \<longrightarrow> world_path i w (with_copy w j s))"

lemma reached_from_step:
  "reached_from i w j k s \<Longrightarrow> (k = i \<Longrightarrow> world_step i (with_copy w j s) (with_copy w j s')) \<Longrightarrow>
   reached_from i w j k s'"
  by (auto simp: reached_from_def intro: rtranclp.rtrancl_into_rtrancl)

lemma reached_from_heartbeats: "kept_by_heartbeats (reached_from i w j)"
  unfolding kept_by_heartbeats_def
  by (auto intro: reached_from_step with_copy_beats)

lemma reached_from_gc:
  "reached_from i w j k s \<Longrightarrow> reached_from i w j k (gc_keys_marked_for_deletion now grace s)"
  by (auto intro: reached_from_step with_copy_collects)

lemma node_inv:
  assumes "network_reachable z timely nw" "nw_nodes nw j = Some st"
  shows "network_inv copy_of owner nw" "node_ok copy_of nw j st"
    "self_chitchat_id (sv_chitchat (run_server st)) = j" "own_state_kept (sv_chitchat (run_server st))"
proof -
  show inv: "network_inv copy_of owner nw"
    by (rule consistent_copies.network_inv_reachable [OF assms(1)])
  show st: "node_ok copy_of nw j st" by (rule network_invD(3) [OF inv assms(2)])
  show "self_chitchat_id (sv_chitchat (run_server st)) = j" "own_state_kept (sv_chitchat (run_server st))"
    using st by (simp_all add: node_ok_def)
qed

lemma tracked_reached_from:
  assumes "network_reachable z timely nw" "nw_nodes nw j = Some st"
  shows "tracked (reached_from i (project i nw) j) (sv_chitchat (run_server st))"
proof -
  have "reached_from i (project i nw) j k s" if "cs_node_state (run_cluster st) k = Some s" for k s
  proof -
    have "wd_copies (project i nw) j = s" if "k = i"
      using \<open>cs_node_state (run_cluster st) k = Some s\<close> that assms(2)
      by (simp add: project_def world_copies_def node_state_or_new_known)
    then show ?thesis by (auto simp: reached_from_def)
  qed
  moreover have "reached_from i (project i nw) j k (node_state_new k [])" if "k \<noteq> j" for k
    using that forgets [of j i "project i nw"] by (auto simp: reached_from_def)
  ultimately show ?thesis
    using node_inv(3,4) [OF assms] by (auto simp: tracked_def all_states_def run_cluster_def)
qed

lemma deltas_keep_reached_from:
  assumes nw: "network_reachable z timely nw" "nw_nodes nw j = Some st"
    and m: "(src, m) \<in> nw_net nw" "receivable timely src m (sv_chitchat (run_server st))"
  shows "deltas_keep (reached_from i (project i nw) j) now (message_deltas m) (sv_chitchat (run_server st))"
proof -
  let ?c = "sv_chitchat (run_server st)"
  note inv = node_inv [OF nw]
  note mok = network_invD(4) [OF inv(1) m(1)]
  have "reached_from i (project i nw) j (ndl_chitchat_id nd) (ns_apply_delta nd now
      (node_state_or_new (ndl_chitchat_id nd) (ch_cluster_state ?c)\<lparr>ns_heartbeat := h\<rparr>))"
    if nd: "nd \<in> set (message_deltas m)" for nd h
  proof (cases "ndl_chitchat_id nd = i")
    case False
    then show ?thesis by (simp add: reached_from_def)
  next
    case True
    let ?R = "node_state_or_new i (ch_cluster_state ?c)"
    let ?R' = "?R\<lparr>ns_heartbeat := h\<rparr>"
    obtain S where S: "cs_node_state src i = Some S" "emits S (ndl_from_version_excluded nd) nd"
      "copy_of (nw_history nw i) (ns_max_version (nw_own nw i)) S"
      using message_delta_sender [OF mok nd] True by metis
    have "timely (i = j) S nd ?R"
      using m(2) S(1) nd True inv(3) by (auto simp: receivable_def)
    then have ok: "timely (i = j) S nd ?R'" by simp
    have "reached_from i (project i nw) j i ?R"
      by (rule tracked_or_new [OF tracked_reached_from [OF nw]])
    then have R': "reached_from i (project i nw) j i ?R'"
      using reached_from_heartbeats by (auto simp: kept_by_heartbeats_def)
    show ?thesis
    proof (cases "i = j")
      case own: True
      then have "?R = nw_own nw i"
        using own_stateD [OF inv(2) nw(2)] by (simp add: node_state_or_new_known run_cluster_def)
      then have "ns_apply_delta nd now ?R' = ?R'"
        using network_invD(1) [OF inv(1), of i] S(2,3) ok own
        by (intro owner_ignores_delta [where H = "nw_history nw i" and S = S]) (simp_all add: timely_def)
      then show ?thesis using R' True by simp
    next
      case False
      have "(S, ndl_from_version_excluded nd, nd) \<in> wd_net (project i nw)"
        using m(1) nd S(1) True by (auto simp: project_def told_by_def)
      then have "world_step i (with_copy (project i nw) j ?R')
          (with_copy (project i nw) j (ns_apply_delta nd now ?R'))"
        using ok False by (intro with_copy_delivers) (simp_all add: timely_def)
      then show ?thesis using reached_from_step [OF R'] True by simp
    qed
  qed
  then show ?thesis
    using mok by (simp add: deltas_keep_def message_ok_def emitted_by_def)
qed

lemma finite_told_by: "finite M \<Longrightarrow> finite (told_by i M)"
proof -
  assume "finite M"
  have "told_by i M \<subseteq> (\<Union>(src, m) \<in> M. (\<lambda>nd. (node_state_or_new i src, ndl_from_version_excluded nd, nd))
      ` set (message_deltas m))"
    by (force simp: told_by_def node_state_or_new_known)
  then show ?thesis
    by (rule finite_subset) (use \<open>finite M\<close> in auto)
qed

lemma path_runs:
  assumes nw: "network_reachable z timely nw" "nw_nodes nw j = Some (Running sv)"
    and ev: "event_from_net timely nw (sv_chitchat sv) ev" "server_step z ev sv = Ok st"
  shows "world_path i (project i nw) (project i (nw\<lparr>nw_nodes := (nw_nodes nw)(j \<mapsto> clear_outbox st),
    nw_net := nw_net nw \<union> sent_messages st\<rparr>))"
proof -
  let ?c = "sv_chitchat (run_server st)" and ?w = "project i nw"
  let ?s = "node_state_or_new i (run_cluster st)"
  note inv = node_inv [OF nw]
  note t = consistent_copies.server_step_tracked [OF inv(1) nw(2) ev]
  have "tracked (reached_from i ?w j) (sv_chitchat sv)"
    using tracked_reached_from [OF nw] by simp
  then have "tracked (reached_from i ?w j) ?c"
    by (rule tracked_server_step [OF _ reached_from_heartbeats reached_from_gc _ ev(2)])
      (use deltas_keep_reached_from [OF nw] ev(1) in auto)
  then have "reached_from i ?w j i ?s"
    using tracked_or_new by (fastforce simp: run_cluster_def)
  then have path: "world_path i ?w (with_copy ?w j ?s)" by (simp add: reached_from_def)
  let ?w' = "with_copy ?w j ?s" and ?X = "told_by i (sent_messages st)"
  have "S = wd_copies ?w' j \<and> emits S from_v nd" if X: "(S, from_v, nd) \<in> ?X" for S from_v nd
  proof -
    obtain a m where m: "(a, m) \<in> set (sv_outbox (run_server st))" "nd \<in> set (message_deltas m)"
      "ndl_chitchat_id nd = i" "cs_node_state (run_cluster st) i = Some S"
      "from_v = ndl_from_version_excluded nd"
      using X by (auto simp: told_by_def sent_messages_def)
    then have "emitted_by (run_cluster st) (message_deltas m)" using t by auto
    then have "emits S from_v nd" using m by (auto simp: emitted_by_def)
    then show ?thesis using m(4) by (simp add: node_state_or_new_known)
  qed
  then have "world_path i ?w' (?w'\<lparr>wd_net := wd_net ?w' \<union> ?X\<rparr>)"
    by (intro path_sends [where j = j] finite_told_by) (auto simp: sent_messages_def)
  with path have "world_path i ?w (?w'\<lparr>wd_net := wd_net ?w' \<union> ?X\<rparr>)" by (rule rtranclp_trans)
  moreover have "run_cluster (clear_outbox st) = run_cluster st" by (simp add: run_cluster_def)
  ultimately show ?thesis
    using project_update [where i = i and nw = nw and j = j and st = "clear_outbox st"
        and H = "nw_history nw j" and M = "sent_messages st"]
    by (cases "j = i") (simp_all add: project_def)
qed

lemma path_writes_own:
  assumes nw: "network_reachable z timely nw" "nw_nodes nw j = Some (Running sv)"
    and s: "cs_node_state (ch_cluster_state (sv_chitchat sv)) j = Some s"
      "run_op oper now s = Ok s'" "ns_max_version s \<noteq> - 1"
    and c: "deliver_events (self_node_state (\<lambda>_. s') (sv_chitchat sv)) = Ok c"
  shows "world_path i (project i nw) (project i (nw\<lparr>
    nw_nodes := (nw_nodes nw)(j \<mapsto> Running (sv\<lparr>sv_chitchat := c\<rparr>)),
    nw_history := (nw_history nw)(j := nw_history nw j @ recorded s (op_key oper) s')\<rparr>))"
proof -
  have self: "self_chitchat_id (sv_chitchat sv) = j" using node_inv(3) [OF nw] by simp
  have c: "ch_cluster_state c = node_state_mut j (\<lambda>_. s') (ch_cluster_state (sv_chitchat sv))"
    using deliver_events_same [OF c] self by (simp add: self_node_state_def ch_update_cluster_def)
  then have get: "node_state_or_new i (run_cluster (Running (sv\<lparr>sv_chitchat := c\<rparr>))) =
      (if i = j then s' else wd_copies (project i nw) j)"
    using nw(2) by (simp add: run_cluster_def project_def world_copies_def)
  have copy: "wd_copies (project i nw) i = s" if "i = j"
    using that nw(2) s(1) by (simp add: project_def world_copies_def run_cluster_def node_state_or_new_known)
  show ?thesis
    using project_update [where i = i and nw = nw and j = j and st = "Running (sv\<lparr>sv_chitchat := c\<rparr>)"
        and H = "nw_history nw j @ recorded s (op_key oper) s'" and M = "{}"]
      owner_writes [of oper now "project i nw" i s'] copy s(2,3) get
    by (cases "i = j") (auto simp: told_by_def project_def)
qed

lemma path_joins:
  assumes j: "nw_nodes nw (cfg_chitchat_id config) = None" "nw_history nw (cfg_chitchat_id config) = []"
    and c: "with_chitchat_id_and_seeds config seeds kvs max_datagram = Ok c"
  shows "world_path i (project i nw) (project i (nw\<lparr>
       nw_nodes := (nw_nodes nw)(cfg_chitchat_id config \<mapsto> Running \<lparr>sv_chitchat = c, sv_outbox = []\<rparr>),
       nw_history := (nw_history nw)(cfg_chitchat_id config :=
         set_history kvs (inc_heartbeat (node_state_new (cfg_chitchat_id config) [])))\<rparr>))"
proof -
  let ?j = "cfg_chitchat_id config" and ?w = "project i nw"
  let ?s0 = "inc_heartbeat (node_state_new ?j [])" and ?st = "Running \<lparr>sv_chitchat = c, sv_outbox = []\<rparr>"
  obtain s where s: "set_all kvs ?s0 = Ok s"
    "ch_cluster_state c = node_state_mut ?j (\<lambda>_. s) (with_seed_addrs seeds)"
    using c by (auto simp: with_chitchat_id_and_seeds_def Let_def and_then_eq_Ok_iff
        deliver_events_def self_node_state_def ch_update_cluster_def self_chitchat_id_def
        node_state_or_new_def with_seed_addrs_def split: if_splits)
  have old: "wd_copies ?w ?j = node_state_new i []" "wd_history ?w = (if i = ?j then [] else wd_history ?w)"
    using j by (simp_all add: project_def world_copies_def)
  have get: "node_state_or_new i (run_cluster ?st) = (if i = ?j then s else node_state_new i [])"
    using s(2) consistent_copies.no_node_yet by (simp add: run_cluster_def node_state_or_new_unknown)
  note new = project_update [where i = i and nw = nw and j = ?j and st = ?st
    and H = "set_history kvs ?s0" and M = "{}"]
  show ?thesis
  proof (cases "i = ?j")
    case True
    have "world_step i ?w (with_copy ?w i ?s0)"
      using beats [of i ?w i "ns_heartbeat ?s0"] old(1) True by (simp add: inc_heartbeat_def)
    moreover have "world_path i (with_copy ?w i ?s0) ((with_copy ?w i ?s0)\<lparr>
        wd_history := wd_history (with_copy ?w i ?s0) @ set_history kvs ?s0,
        wd_copies := (wd_copies (with_copy ?w i ?s0))(i := s)\<rparr>)"
      by (rule path_set_all [OF s(1)]) (simp add: True)
    ultimately show ?thesis
      using new get old True by (auto simp: told_by_def intro: converse_rtranclp_into_rtranclp)
  next
    case False
    then have "project i (nw\<lparr>nw_nodes := (nw_nodes nw)(?j \<mapsto> ?st),
        nw_history := (nw_history nw)(?j := set_history kvs ?s0)\<rparr>) = ?w"
      using new get old(1) fun_upd_triv [of "wd_copies ?w" ?j] by (simp add: told_by_def)
    then show ?thesis by simp
  qed
qed

lemma path_network_step:
  assumes "network_reachable z timely nw" "network_step z timely nw nw'"
  shows "world_path i (project i nw) (project i nw')"
  using assms(2)
proof cases
  case (joins config seeds kvs max_datagram c)
  have "nw_history nw (cfg_chitchat_id config) = []"
    by (rule network_invD(2) [OF consistent_copies.network_inv_reachable [OF assms(1)] joins(2)])
  then show ?thesis
    using path_joins [OF joins(2) _ joins(4)] joins(1) by simp
next
  case (writes_own j sv s oper now s' c)
  then show ?thesis
    using path_writes_own [OF assms(1)] by simp
next
  case (runs j sv ev st)
  then show ?thesis
    using path_runs [OF assms(1)] by simp
qed

lemma project_reachable:
  "network_reachable z timely nw \<Longrightarrow> reachable i (project i nw)"
proof (induction rule: network_reachable.induct)
  case nothing_yet
  then show ?case by (simp add: project_empty start)
next
  case (one_more nw nw')
  then show ?case using path_network_step reachable_path by blast
qed

end
