(* ===== verification/Gossip_Properties.thy ===== *)
theory Gossip_Properties
  imports Gossip_Runs Gossip_Refinement
begin

text \<open>
  The properties of networks of gossiping nodes, from the invariants of theory \<open>Gossip_Network\<close>,
  the handshake of theory \<open>Gossip_Handshake\<close>, the runs of theory \<open>Gossip_Runs\<close> and the simulation of
  theory \<open>Gossip_Refinement\<close>.
\<close>

section \<open>Networks\<close>



text \<open>
  C2: in every reachable network, whatever the order, delay, repetition or loss of the messages
  it allows, every copy of a node's state on every node is consistent with what the owner wrote:
  it holds only writes of the owner, none above \<open>max_version\<close>, the last write of every key up to
  \<open>max_version\<close> unless that deleted the key and was collected, and no key in a version older than a
  collected deletion. It never claims versions the owner has not reached. The excluded deliveries
  are those of \<open>incremental_delta_loses_keys\<close>, \<open>deleted_key_returns\<close> and \<open>late_answer_loses_writes\<close>.
\<close>

theorem network_copies_consistent:
  assumes "network_reachable z timely nw" "nw_nodes nw j = Some st"
    and "cs_node_state (run_cluster st) i = Some s"
  shows "consistent (nw_history nw i) s \<and> ns_max_version s \<le> ns_max_version (nw_own nw i)
    \<and> ns_last_gc_version s \<le> ns_max_version (nw_own nw i) \<and> owner (nw_history nw i) (nw_own nw i)"
proof -
  note inv = consistent_copies.network_inv_reachable [OF assms(1)]
  have "copy_of (nw_history nw i) (ns_max_version (nw_own nw i)) s"
    using network_invD(3) [OF inv assms(2)] assms(3)
    by (simp add: node_ok_def copies_ok_def all_states_def)
  then show ?thesis using network_invD(1) [OF inv] by (simp add: copy_of_def)
qed

theorem network_copies_consistent_witness:
  "\<exists>(nw :: unit network) st. network_reachable zstd_none timely nw \<and> nw_nodes nw node_a = Some st
    \<and> cs_node_state (run_cluster st) node_a = Some net_a0_own \<and> consistent (nw_history nw node_a) net_a0_own"
proof -
  have ne: "node_a \<noteq> net_b" by (simp add: node_a_def net_b_def)
  obtain nw :: "unit network" where nw: "network_reachable zstd_none timely nw"
    "nw_nodes nw node_a = Some (Running \<lparr>sv_chitchat = net_a0, sv_outbox = []\<rparr>)"
    using pair_joined [OF ne late_run_joined, folded net_a0_def net_b0_def] unfolding pair_at_def by blast
  have "cs_node_state (run_cluster (Running \<lparr>sv_chitchat = net_a0, sv_outbox = []\<rparr>)) node_a = Some net_a0_own"
    using late_run_deleted(1) by (simp add: run_cluster_def)
  with network_copies_consistent [OF nw this] nw show ?thesis by blast
qed



text \<open>
  C6: no value is made up. In every reachable network, with no condition on deliveries at all,
  a node that holds a value for a key of another node holds one that node wrote for that key,
  with the version it had then.
\<close>

theorem no_value_forged:
  assumes "network_reachable z any_delivery nw" "nw_nodes nw j = Some st"
    and "cs_node_state (run_cluster st) i = Some s" "get_versioned s k = Some vv"
  shows "mutation_of k vv \<in> set (nw_history nw i)"
proof -
  note inv = genuine_values.network_inv_reachable [OF assms(1)]
  have "genuine (nw_history nw i) s"
    using network_invD(3) [OF inv assms(2)] assms(3)
    by (simp add: node_ok_def copies_ok_def all_states_def)
  then show ?thesis using assms(4) by (simp add: genuine_def)
qed

theorem no_value_forged_witness:
  "\<exists>nw :: unit network. network_reachable zstd_none any_delivery nw
    \<and> \<lparr>kvm_key = ''y'', kvm_value = ''1'', kvm_version = 1, kvm_status = MutSet\<rparr> \<in> set (nw_history nw node_a)"
proof -
  obtain H G M where "pair_at any_delivery node_a net_a3 net_b net_b3 H G M" using late_run by blast
  then obtain nw :: "unit network" where nw: "network_reachable zstd_none any_delivery nw"
    "nw_nodes nw net_b = Some (Running \<lparr>sv_chitchat = net_b3, sv_outbox = []\<rparr>)"
    unfolding pair_at_def by blast
  let ?vv = "\<lparr>vv_value = ''1'', vv_version = 1, vv_status = StatusSet\<rparr>"
  have "map_option (\<lambda>s. get_versioned s ''y'') (cs_node_state (ch_cluster_state net_b3) node_a) = Some (Some ?vv)"
    by code_simp
  then obtain s where "cs_node_state (ch_cluster_state net_b3) node_a = Some s" "get_versioned s ''y'' = Some ?vv"
    by auto
  with no_value_forged [OF nw, of node_a s "''y''" ?vv] nw(1) show ?thesis
    by (auto simp: run_cluster_def mutation_of_def)
qed

text \<open>
  C36: a late answer makes a node lose its own writes. Nothing in the handler excepts the node's own state
  from the deltas it applies. A SYN that is answered after the other node has collected the
  node's last tombstone brings back a delta that makes the node reset its own state: its
  \<open>max_version\<close> falls below versions it already used, so its next writes reuse them and are
  not sent to nodes that have seen more.
\<close>

theorem late_answer_loses_writes:
  "\<exists>(nw :: unit network) a stb. network_reachable zstd_none any_delivery nw
    \<and> nw_nodes nw net_b = Some stb \<and> a \<noteq> net_b
    \<and> (\<exists>w \<in> set (nw_history nw a). ns_max_version (nw_own nw a) < kvm_version w)
    \<and> (\<exists>v s'. ns_set ''z'' v (nw_own nw a) = Ok s'
          \<and> delta_from_version (compute_digest {} (run_cluster stb)) a s' = None)"
proof -
  obtain H G M where p: "pair_at any_delivery node_a net_a3 net_b net_b3 H G M"
    "\<lparr>kvm_key = ''x'', kvm_value = [], kvm_version = 3, kvm_status = MutDelete\<rparr> \<in> set H"
    using late_run by blast
  then obtain nw :: "unit network" where nw: "network_reachable zstd_none any_delivery nw"
    "nw_nodes nw node_a = Some (Running \<lparr>sv_chitchat = net_a3, sv_outbox = []\<rparr>)"
    "nw_nodes nw net_b = Some (Running \<lparr>sv_chitchat = net_b3, sv_outbox = []\<rparr>)"
    "nw_history nw node_a = H" "node_a \<noteq> net_b"
    unfolding pair_at_def by blast
  have own: "nw_own nw node_a = node_state_or_new node_a (ch_cluster_state net_a3)"
    using nw(2) by (simp add: nw_own_def run_cluster_def)
  have "ns_max_version (nw_own nw node_a) < 3" unfolding own by code_simp
  then have "\<exists>w \<in> set (nw_history nw node_a). ns_max_version (nw_own nw node_a) < kvm_version w"
    using p(2) nw(4) by force
  moreover have "case ns_set ''z'' ''1'' (node_state_or_new node_a (ch_cluster_state net_a3)) of
      Ok s' \<Rightarrow> delta_from_version (compute_digest {} (ch_cluster_state net_b3)) node_a s' = None | _ \<Rightarrow> False"
    by code_simp
  then have "\<exists>v s'. ns_set ''z'' v (nw_own nw node_a) = Ok s'
      \<and> delta_from_version (compute_digest {} (run_cluster (Running \<lparr>sv_chitchat = net_b3, sv_outbox = []\<rparr>))) node_a s' = None"
    unfolding own by (auto simp: run_cluster_def split: result.splits)
  ultimately show ?thesis using nw(1,3,5) by blast
qed

text \<open>
  C11: a delta that has room tells all. When what is to be told about the stale nodes, in
  serialized form, fits the datagram and one block of the compressed stream, the computation
  returns the delta with exactly one whole node delta for each stale node, in the order of
  staleness.
\<close>

theorem delta_in_full:
  assumes "zstd_ok z" "shuffles sh" "cs_inv cs" "100 \<le> mtu" "mtu \<le> 65535"
    and "stale_size (stale_list sh dg sched cs) \<le> BLOCK_THRESHOLD"
    and "stale_size (stale_list sh dg sched cs) + 4 \<le> mtu"
  shows "\<exists>d. compute_partial_delta_respecting_mtu z sh dg mtu sched cs = Ok d
    \<and> node_deltas d = map whole_delta (stale_list sh dg sched cs)
    \<and> (\<forall>i S. cs_node_state cs i = Some S \<and> i \<notin> sched \<longrightarrow> answered_in_full dg i S d)"
proof -
  have wf: "bt_wf (cs_node_states cs)" using assms(3) by (simp add: cs_inv_def)
  obtain d where d: "compute_partial_delta_respecting_mtu z sh dg mtu sched cs = Ok d"
    using compute_partial_delta_ok [OF assms(1-5)] by blast
  show ?thesis
    using d compute_partial_delta_room [OF d assms(6,7)]
      answered_in_full_room [OF d assms(2) _ _ wf assms(6,7)] by blast
qed

theorem delta_in_full_witness:
  "\<exists>d. compute_partial_delta_respecting_mtu zstd_none in_order (net_own_digest 0 net_b0) 300 {} (ch_cluster_state net_a0) = Ok d
    \<and> length (node_deltas d) = 1"
proof -
  have "pair_at any_delivery node_a net_a0 net_b net_b0 (join_history node_a [(''y'', ''1''), (''x'', ''1'')])
      (join_history net_b []) {}"
    unfolding net_a0_def net_b0_def
    by (rule pair_joined [OF _ late_run_joined]) (simp add: node_a_def net_b_def)
  then have inv: "cs_inv (ch_cluster_state net_a0)" using pair_inv(1) by (auto simp: ch_inv_def)
  have size: "stale_size (stale_list in_order (net_own_digest 0 net_b0) {} (ch_cluster_state net_a0)) \<le> 200"
    and len: "length (stale_list in_order (net_own_digest 0 net_b0) {} (ch_cluster_state net_a0)) = 1"
    by code_simp+
  show ?thesis
    using delta_in_full [OF zstd_none_ok in_order_shuffles inv, of 300 "net_own_digest 0 net_b0" "{}"] size len
    by (auto simp: BLOCK_THRESHOLD_def)
qed

end
