(* ===== verification/Igniter_Start.thy ===== *)
theory Igniter_Start
  imports Routes Gossip_Server Transports
begin

text \<open>
  From the command line to a running node: reading the configuration and the keys
  (\<open>igniter/src/config.rs\<close>), downloading the seeds and putting the parameters together
  (\<open>igniter/src/cli.rs\<close>), starting the gossip server (\<open>igniter/src/gossip.rs\<close> and
  \<open>spawn_chitchat\<close> of \<open>chitchat/src/server.rs\<close>) and the tasks the process waits for
  (\<open>igniter/src/bin/acki-nacki-igniter.rs\<close>).

  Parameters: the environment variables, the file system, the parser and the resolver of
  addresses, the HTTP client, the YAML parser, the generator of identifiers and the clock. The
  YAML parser yields the fields of a document; what becomes of missing fields and of addresses
  is decided by the code and modelled. Arguments are taken as parsed.
\<close>

section \<open>The environment\<close>

text \<open>The fields of a configuration file, \<open>None\<close> when missing.\<close>

record raw_config =
  rc_cluster_id :: "string option"
  rc_proxies :: "proxy_config list option"
  rc_listen_addr :: "string option"
  rc_api_addr :: "string option"
  rc_advertise_addr :: "string option"
  rc_seeds :: "string list option"
  rc_node_id :: "string option"
  rc_interval :: "u64 option"
  rc_signatures :: "licence_signature list option"
  rc_auto_update :: "bool option"

record start_env =
  se_var :: "string \<Rightarrow> string option"
  se_expand :: "string \<Rightarrow> string"
  se_file :: "string \<Rightarrow> string option"
  se_yaml_config :: "string \<Rightarrow> raw_config option"
  se_yaml_keys :: "string \<Rightarrow> keys_config option"
  se_yaml_seeds :: "string \<Rightarrow> string list option"
  se_parse_addr :: "string \<Rightarrow> socket_addr option"
  se_to_socket_addrs :: "string \<Rightarrow> socket_addr list option"
  se_http_text :: "string \<Rightarrow> string option \<Rightarrow> string option"

definition ascii_lower :: "char \<Rightarrow> char" where
  "ascii_lower c = (if CHR ''A'' \<le> c \<and> c \<le> CHR ''Z'' then char_of (of_char c + 32 :: nat) else c)"

definition eq_ignore_ascii_case :: "string \<Rightarrow> string \<Rightarrow> bool" where
  "eq_ignore_ascii_case s t \<longleftrightarrow> map ascii_lower s = map ascii_lower t"

definition DEV_MODE :: "start_env \<Rightarrow> bool" where
  "DEV_MODE e = (case se_var e ''DEV_MODE'' of
      Some val \<Rightarrow> eq_ignore_ascii_case val ''true'' | None \<Rightarrow> False)"

definition BACKEND_VERIFYING_KEY :: "start_env \<Rightarrow> string" where
  "BACKEND_VERIFYING_KEY e = (if DEV_MODE e
     then ''ee99af158c8b50f6bee3360615e08db957bd898568638f308d8f320cf4e37638''
     else ''75631f108a226740a8649ff7946bf19d2884c373615d27f5b6d1863b5d97adf3'')"

definition IGNITER_IMAGE :: "start_env \<Rightarrow> string" where
  "IGNITER_IMAGE e = (if DEV_MODE e then ''docker.gosh.sh/acki-nacki-igniter-pre-release''
     else ''teamgosh/acki-nacki-igniter'')"

definition IGNITER_SEEDS :: "start_env \<Rightarrow> string" where
  "IGNITER_SEEDS e = (if DEV_MODE e
     then ''https://raw.githubusercontent.com/gosh-sh/acki-nacki-igniter-seeds/refs/heads/main/seeds.yaml''
     else ''https://raw.githubusercontent.com/ackinacki/acki-nacki-igniter-seeds/refs/heads/main/seeds.yaml'')"

section \<open>Configuration\<close>

definition default_interval :: u64 where
  "default_interval = 500"

definition default_cluster_id :: string where
  "default_cluster_id = ''acki-nacki-igniter''"

definition default_listen_addr :: socket_addr where
  "default_listen_addr = SocketAddrV4 0 10000"

definition default_api_addr :: socket_addr where
  "default_api_addr = SocketAddrV4 0 10001"

definition default_advertise_addr :: socket_addr where
  "default_advertise_addr = SocketAddrV4 0x7F000001 8080"

text \<open>An address is parsed, or else resolved and the first result taken.\<close>

definition deserialize_addr :: "start_env \<Rightarrow> string \<Rightarrow> socket_addr option" where
  "deserialize_addr e addr_str =
     (case se_parse_addr e addr_str of
        Some addr \<Rightarrow> Some addr
      | None \<Rightarrow>
          (case se_to_socket_addrs e addr_str of
             Some (socket # _) \<Rightarrow> Some socket
           | _ \<Rightarrow> None))"

definition addr_field :: "start_env \<Rightarrow> socket_addr \<Rightarrow> string option \<Rightarrow> socket_addr option" where
  "addr_field e dflt field =
     (case field of None \<Rightarrow> Some dflt | Some s \<Rightarrow> deserialize_addr e s)"

text \<open>\<open>Deserialize for Config\<close>: every field but \<open>auto_update\<close> has a default.\<close>

definition or_default :: "'a \<Rightarrow> 'a option \<Rightarrow> 'a" where
  "or_default x field = (case field of Some y \<Rightarrow> y | None \<Rightarrow> x)"

definition config_of_yaml :: "start_env \<Rightarrow> raw_config \<Rightarrow> igniter_config option" where
  "config_of_yaml e rc =
     (case addr_field e default_listen_addr (rc_listen_addr rc) of None \<Rightarrow> None
      | Some listen_addr \<Rightarrow>
     (case addr_field e default_api_addr (rc_api_addr rc) of None \<Rightarrow> None
      | Some api_addr \<Rightarrow>
     (case addr_field e default_advertise_addr (rc_advertise_addr rc) of None \<Rightarrow> None
      | Some advertise_addr \<Rightarrow>
     (case rc_auto_update rc of None \<Rightarrow> None
      | Some auto_update \<Rightarrow>
          Some \<lparr>ic_cluster_id = or_default default_cluster_id (rc_cluster_id rc),
                ic_proxies = or_default [] (rc_proxies rc),
                ic_listen_addr = listen_addr, ic_api_addr = api_addr,
                ic_advertise_addr = advertise_addr,
                ic_seeds = or_default [] (rc_seeds rc), ic_node_id = rc_node_id rc,
                ic_interval = or_default default_interval (rc_interval rc),
                ic_signatures = or_default [] (rc_signatures rc),
                ic_auto_update = auto_update\<rparr>))))"

text \<open>A path is a string or not valid Unicode.\<close>

datatype os_path = Utf8Path string | OtherPath

fun read_yaml :: "start_env \<Rightarrow> (string \<Rightarrow> 'a option) \<Rightarrow> os_path \<Rightarrow> 'a option" where
  "read_yaml e parse OtherPath = None"
| "read_yaml e parse (Utf8Path path) =
     (case se_file e (se_expand e path) of None \<Rightarrow> None | Some text \<Rightarrow> parse text)"

definition yaml_config :: "start_env \<Rightarrow> string \<Rightarrow> igniter_config option" where
  "yaml_config e text = (case se_yaml_config e text of
      None \<Rightarrow> None | Some rc \<Rightarrow> config_of_yaml e rc)"

section \<open>Printing the settings\<close>

text \<open>
  \<open>Debug\<close> of strings, addresses and timestamps is a parameter. The derived \<open>Debug\<close> of a record in
  the alternate form puts each field on lines of its own, indented; \<open>hide_secrets_fmt\<close> is a plain
  \<open>write!\<close> and ignores the form.
\<close>

record fmt_env =
  fe_str :: "string \<Rightarrow> string"
  fe_addr :: "socket_addr \<Rightarrow> string"

fun join_strings :: "string \<Rightarrow> string list \<Rightarrow> string" where
  "join_strings sep [] = []"
| "join_strings sep [s] = s"
| "join_strings sep (s # ss) = s @ sep @ join_strings sep ss"

definition contains_str :: "string \<Rightarrow> string \<Rightarrow> bool" where
  "contains_str p s \<longleftrightarrow> sublist p s"

definition hidden_field :: "string \<Rightarrow> bool" where
  "hidden_field name \<longleftrightarrow> name = ''secret'' \<or> contains_str ''rnd'' name"

definition hide_secrets_fmt :: "fmt_env \<Rightarrow> string \<Rightarrow> (string \<times> string) list \<Rightarrow> string" where
  "hide_secrets_fmt fe name fs = name @ '' { '' @ join_strings '', ''
     (map (\<lambda>(field, v). if hidden_field field then field @ '': <hidden>''
            else field @ '': '' @ fe_str fe v) fs) @ '' }''"

definition wallet_config_fmt :: "fmt_env \<Rightarrow> wallet_config \<Rightarrow> string" where
  "wallet_config_fmt fe w = hide_secrets_fmt fe ''WalletConfig''
     [(''pubkey'', wc_pubkey w), (''secret'', wc_secret w)]"

definition bls_config_fmt :: "fmt_env \<Rightarrow> bls_config \<Rightarrow> string" where
  "bls_config_fmt fe b = hide_secrets_fmt fe ''BlsConfig''
     [(''pubkey'', bc_pubkey b), (''secret'', bc_secret b), (''rnd'', bc_rnd b)]"

fun indent :: "bool \<Rightarrow> string \<Rightarrow> string" where
  "indent at_start [] = []"
| "indent at_start (c # cs) =
     (if at_start then ''    '' else []) @ c # indent (c = CHR 0x0A) cs"

definition debug_struct :: "string \<Rightarrow> (string \<times> string) list \<Rightarrow> string" where
  "debug_struct name fs = name @ '' {'' @ [CHR 0x0A]
     @ concat (map (\<lambda>(field, v). indent True (field @ '': '' @ v @ '','' @ [CHR 0x0A])) fs) @ ''}''"

definition debug_list :: "string list \<Rightarrow> string" where
  "debug_list vs = (if vs = [] then ''[]'' else ''['' @ [CHR 0x0A]
     @ concat (map (\<lambda>v. indent True (v @ '','' @ [CHR 0x0A])) vs) @ '']'')"

definition debug_option :: "string option \<Rightarrow> string" where
  "debug_option v = (case v of None \<Rightarrow> ''None''
     | Some s \<Rightarrow> ''Some('' @ [CHR 0x0A] @ indent True (s @ '','' @ [CHR 0x0A]) @ '')'')"

definition debug_bool :: "bool \<Rightarrow> string" where
  "debug_bool b = (if b then ''true'' else ''false'')"

definition proxy_config_fmt :: "fmt_env \<Rightarrow> proxy_config \<Rightarrow> string" where
  "proxy_config_fmt fe p = debug_struct ''ProxyConfig''
     [(''socket_address'', debug_option (map_option (fe_addr fe) (pc_socket_address p))),
      (''cert'', debug_option (map_option (fe_str fe) (pc_cert p)))]"

definition licence_signature_fmt :: "fmt_env \<Rightarrow> licence_signature \<Rightarrow> string" where
  "licence_signature_fmt fe s = debug_struct ''LicenceSignature''
     [(''license_id'', fe_str fe (ls_license_id s)),
      (''license_owner_pubkey'', fe_str fe (ls_license_owner_pubkey s)),
      (''provider_pubkey'', fe_str fe (ls_provider_pubkey s)),
      (''delegation_sig'', fe_str fe (ls_delegation_sig s)),
      (''delegation_confirm_sig'', fe_str fe (ls_delegation_confirm_sig s)),
      (''timestamp'', decimal (unat (ls_timestamp s))),
      (''license_proof_sig'', fe_str fe (ls_license_proof_sig s))]"

definition config_fmt :: "fmt_env \<Rightarrow> igniter_config \<Rightarrow> string" where
  "config_fmt fe c = debug_struct ''Config''
     [(''cluster_id'', fe_str fe (ic_cluster_id c)),
      (''proxies'', debug_list (map (proxy_config_fmt fe) (ic_proxies c))),
      (''listen_addr'', fe_addr fe (ic_listen_addr c)),
      (''api_addr'', fe_addr fe (ic_api_addr c)),
      (''advertise_addr'', fe_addr fe (ic_advertise_addr c)),
      (''seeds'', debug_list (map (fe_str fe) (ic_seeds c))),
      (''node_id'', debug_option (map_option (fe_str fe) (ic_node_id c))),
      (''interval'', decimal (unat (ic_interval c))),
      (''signatures'', debug_list (map (licence_signature_fmt fe) (ic_signatures c))),
      (''auto_update'', debug_bool (ic_auto_update c))]"

definition keys_fmt :: "fmt_env \<Rightarrow> keys_config \<Rightarrow> string" where
  "keys_fmt fe k = debug_struct ''Keys''
     [(''wallet'', wallet_config_fmt fe (kc_wallet k)), (''bls'', bls_config_fmt fe (kc_bls k))]"

section \<open>The parameters of the process\<close>

record params =
  pa_config :: igniter_config
  pa_docker_socket :: "string option"
  pa_docker_config :: "string option"
  pa_keys :: keys_config

record cli_args =
  ca_keys :: os_path
  ca_config :: os_path
  ca_docker_socket :: "string option"
  ca_docker_config :: "string option"

definition params_fmt :: "fmt_env \<Rightarrow> params \<Rightarrow> string" where
  "params_fmt fe p = debug_struct ''Params''
     [(''config'', config_fmt fe (pa_config p)),
      (''docker_socket'', debug_option (map_option (fe_str fe) (pa_docker_socket p))),
      (''docker_config'', debug_option (map_option (fe_str fe) (pa_docker_config p))),
      (''keys'', keys_fmt fe (pa_keys p))]"

datatype start_failure =
    ConfigUnreadable
  | SeedsUnavailable
  | KeysUnreadable
  | NotPublishable igniter_error
  | SocketNotOpened
  | TaskEnded

text \<open>The HTTP status is not looked at: any body that parses as a list of seeds is taken.\<close>

definition read_seeds :: "start_env \<Rightarrow> string \<Rightarrow> string list option" where
  "read_seeds e url =
     (let token = se_var e ''GITHUB_TOKEN'' in
      if token = None \<and> DEV_MODE e then None
      else case se_http_text e url token of None \<Rightarrow> None | Some body \<Rightarrow> se_yaml_seeds e body)"

text \<open>The initialiser of \<open>CLI\<close>; every failure exits the process with code 1.\<close>

definition CLI :: "start_env \<Rightarrow> cli_args \<Rightarrow> start_failure + params" where
  "CLI e args =
     (case read_yaml e (yaml_config e) (ca_config args) of None \<Rightarrow> Inl ConfigUnreadable
      | Some config \<Rightarrow>
     (case read_seeds e (IGNITER_SEEDS e) of None \<Rightarrow> Inl SeedsUnavailable
      | Some seeds \<Rightarrow>
     (case read_yaml e (se_yaml_keys e) (ca_keys args) of None \<Rightarrow> Inl KeysUnreadable
      | Some keys \<Rightarrow>
          Inr \<lparr>pa_config = config\<lparr>ic_seeds := seeds\<rparr>, pa_docker_socket = ca_docker_socket args,
               pa_docker_config = ca_docker_config args, pa_keys = keys\<rparr>)))"

section \<open>Starting the gossip\<close>

definition DEFAULT_GOSSIP_INTERVAL :: duration where
  "DEFAULT_GOSSIP_INTERVAL = 500000000"

record gossip_start_env =
  ge_parse_addr :: "string \<Rightarrow> socket_addr option"
  ge_lookup_host :: "string \<Rightarrow> socket_addr list option"
  ge_bind :: "socket_addr \<Rightarrow> bool"
  ge_cool_id :: string
  ge_now_secs :: u64
  ge_addr_text :: "socket_addr \<Rightarrow> string"

definition generate_server_id :: "gossip_start_env \<Rightarrow> socket_addr \<Rightarrow> string" where
  "generate_server_id g public_addr =
     ''server:'' @ ge_addr_text g public_addr @ ''-'' @ ge_cool_id g"

text \<open>
  \<open>spawn_chitchat\<close>: the seeds are resolved, the socket is opened, the node is created; the server
  starts with it.
\<close>

definition spawn_chitchat ::
  "gossip_start_env \<Rightarrow> nat \<Rightarrow> chitchat_config \<Rightarrow> (string \<times> string) list \<Rightarrow>
   (start_failure + 'c server) result" where
  "spawn_chitchat g max_datagram_payload_size config initial_key_values =
     (let (seed_addrs, _, _) =
            spawn_dns_refresh_loop (ge_parse_addr g) (ge_lookup_host g) (cfg_seed_nodes config)
      in if \<not> ge_bind g (cfg_listen_addr config) then Ok (Inl SocketNotOpened)
         else and_then (with_chitchat_id_and_seeds config seed_addrs initial_key_values
                          max_datagram_payload_size) (\<lambda>chitchat.
              Ok (Inr \<lparr>sv_chitchat = chitchat, sv_outbox = []\<rparr>)))"

text \<open>\<open>gossip::run\<close>; the REST server binds in a task of its own.\<close>

definition gossip_config ::
  "gossip_start_env \<Rightarrow> socket_addr \<Rightarrow> socket_addr \<Rightarrow> string list \<Rightarrow> string \<Rightarrow> chitchat_config" where
  "gossip_config g listen_addr advertise_addr seeds cluster_id =
     (let server_id = generate_server_id g advertise_addr;
          generation = ge_now_secs g
      in \<lparr>cfg_chitchat_id = ChitchatId server_id generation advertise_addr,
          cfg_cluster_id = cluster_id, cfg_gossip_interval = DEFAULT_GOSSIP_INTERVAL,
          cfg_listen_addr = listen_addr, cfg_seed_nodes = seeds,
          cfg_failure_detector_config = failure_detector_config_default,
          cfg_marked_for_deletion_grace_period = 10000000000,
          cfg_has_catchup_callback = False, cfg_extra_liveness_predicate = None\<rparr>)"

definition gossip_run ::
  "gossip_start_env \<Rightarrow> socket_addr \<Rightarrow> nat \<Rightarrow> socket_addr \<Rightarrow> string list \<Rightarrow> string \<Rightarrow>
   (string \<times> string) list \<Rightarrow> (start_failure + 'c server) result" where
  "gossip_run g listen_addr max_datagram_payload_size advertise_addr seeds cluster_id
       initial_key_values =
     spawn_chitchat g max_datagram_payload_size
       (gossip_config g listen_addr advertise_addr seeds cluster_id) initial_key_values"

section \<open>The updater\<close>

text \<open>
  \<open>updater/src/lib.rs\<close>. The container service is a parameter: whether it can be reached, what a
  pull ends in, the identifier it gives to a created container, whether a start succeeds.
\<close>

definition DEFAULT_UPDATE_INTERVAL :: duration where
  "DEFAULT_UPDATE_INTERVAL = 120000000000"

definition DEFAULT_WATCHTOWER_IMAGE :: string where
  "DEFAULT_WATCHTOWER_IMAGE = ''containrrr/watchtower:1.7.1''"

definition DEFAULT_WATCHTOWER_SCOPE :: string where
  "DEFAULT_WATCHTOWER_SCOPE = ''acki-nacki''"

definition DEFAULT_DOCKER_SOCKET :: string where
  "DEFAULT_DOCKER_SOCKET = ''/var/run/docker.sock''"

record container_updater =
  cu_image_name :: string
  cu_interval :: duration
  cu_docker_socket :: string
  cu_docker_config :: "string option"

record container_spec =
  ct_image :: string
  ct_binds :: "string list"
  ct_auto_remove :: bool
  ct_cmd :: "string list"

record docker =
  dk_connect :: bool
  dk_ping :: bool
  dk_pull :: "string \<Rightarrow> bool"
  dk_create :: "container_spec \<Rightarrow> string option"
  dk_start :: "string \<Rightarrow> bool"

datatype updater_error =
    DockerNotConnected
  | DockerNoPing
  | PullFailed
  | CreateFailed
  | StartFailed

definition updater_try_new ::
  "docker \<Rightarrow> string \<Rightarrow> duration \<Rightarrow> string option \<Rightarrow> string option \<Rightarrow> updater_error + container_updater"
where
  "updater_try_new dk image_name interval docker_socket docker_config =
     (if \<not> dk_connect dk then Inl DockerNotConnected
      else if \<not> dk_ping dk then Inl DockerNoPing
      else Inr \<lparr>cu_image_name = image_name, cu_interval = interval,
                cu_docker_socket = or_default DEFAULT_DOCKER_SOCKET docker_socket,
                cu_docker_config = docker_config\<rparr>)"

text \<open>The calls to the container service are recorded in order.\<close>

datatype docker_call =
    CallPing
  | CallPull string
  | CallCreate container_spec
  | CallStart string

definition watchtower_spec :: "container_updater \<Rightarrow> container_spec" where
  "watchtower_spec u =
     \<lparr>ct_image = ''containrrr/watchtower:1.7.1'',
      ct_binds = (cu_docker_socket u @ '':/var/run/docker.sock'')
        # (case cu_docker_config u of Some config \<Rightarrow> [config @ '':/config.json''] | None \<Rightarrow> []),
      ct_auto_remove = True,
      ct_cmd = [''--run-once'', ''--scope'', DEFAULT_WATCHTOWER_SCOPE]\<rparr>"

definition try_update_container ::
  "container_updater \<Rightarrow> docker \<Rightarrow> docker_call list \<times> (updater_error + unit)" where
  "try_update_container u dk =
     (if \<not> dk_ping dk then ([CallPing], Inl DockerNoPing)
      else if \<not> dk_pull dk DEFAULT_WATCHTOWER_IMAGE
      then ([CallPing, CallPull DEFAULT_WATCHTOWER_IMAGE], Inl PullFailed)
      else case dk_create dk (watchtower_spec u) of
             None \<Rightarrow> ([CallPing, CallPull DEFAULT_WATCHTOWER_IMAGE, CallCreate (watchtower_spec u)],
                Inl CreateFailed)
           | Some container_id \<Rightarrow>
               ([CallPing, CallPull DEFAULT_WATCHTOWER_IMAGE, CallCreate (watchtower_spec u),
                 CallStart container_id],
                if dk_start dk container_id then Inr () else Inl StartFailed))"

text \<open>
  The loop of \<open>run\<close> has no exit: a failed turn is logged and the next follows after the interval.
  Given how the service behaves at each turn, the calls made and whether each turn failed.
\<close>

fun updater_turns :: "container_updater \<Rightarrow> docker list \<Rightarrow> (docker_call list \<times> (updater_error + unit)) list" where
  "updater_turns u [] = []"
| "updater_turns u (dk # dks) = try_update_container u dk # updater_turns u dks"

section \<open>The process\<close>

datatype igniter_task = UpdaterTask | GossipTask | RestTask | WatcherTask

text \<open>The task of the updater ends only when it is enabled and cannot be set up.\<close>

definition updater_task_ends :: "docker \<Rightarrow> start_env \<Rightarrow> params \<Rightarrow> bool" where
  "updater_task_ends dk e p =
     (ic_auto_update (pa_config p)
      \<and> (case updater_try_new dk (IGNITER_IMAGE e) DEFAULT_UPDATE_INTERVAL (pa_docker_socket p)
             (pa_docker_config p) of Inl _ \<Rightarrow> True | Inr _ \<Rightarrow> False))"

text \<open>
  Which of the other tasks end is a parameter. Whichever task of the \<open>select!\<close> ends first, the
  process fails.
\<close>

datatype 'c process_state =
    ProcessExit int
  | ProcessRunning "'c server"

definition tokio_main_inner ::
  "start_env \<Rightarrow> igniter_env \<Rightarrow> gossip_start_env \<Rightarrow> params \<Rightarrow> (start_failure + 'c server) result" where
  "tokio_main_inner e ienv g p =
     (case to_gossip (ienv\<lparr>backend_verifying_key := BACKEND_VERIFYING_KEY e\<rparr>) (pa_config p) (pa_keys p) of
        Inl err \<Rightarrow> Ok (Inl (NotPublishable err))
      | Inr initial_key_values \<Rightarrow>
          gossip_run g (ic_listen_addr (pa_config p)) MAX_UDP_DATAGRAM_PAYLOAD_SIZE
            (ic_advertise_addr (pa_config p)) (ic_seeds (pa_config p)) (ic_cluster_id (pa_config p))
            initial_key_values)"

definition select_tasks ::
  "igniter_task set \<Rightarrow> start_failure + 'c server \<Rightarrow> start_failure + 'c server" where
  "select_tasks ended started =
     (case started of Inl failure \<Rightarrow> Inl failure
      | Inr sv \<Rightarrow> if ended = {} then Inr sv else Inl TaskEnded)"

definition igniter_main ::
  "start_env \<Rightarrow> igniter_env \<Rightarrow> gossip_start_env \<Rightarrow> docker \<Rightarrow> igniter_task set \<Rightarrow> cli_args \<Rightarrow>
   'c process_state result" where
  "igniter_main e ienv g dk ended args =
     (case CLI e args of
        Inl _ \<Rightarrow> Ok (ProcessExit 1)
      | Inr p \<Rightarrow> and_then (tokio_main_inner e ienv g p) (\<lambda>started.
          let ended' = ended \<union> (if updater_task_ends dk e p then {UpdaterTask} else {}) in
          case select_tasks ended' started of
            Inl _ \<Rightarrow> Ok (ProcessExit 1)
          | Inr sv \<Rightarrow> Ok (ProcessRunning sv)))"

section \<open>Printing depends on no secret\<close>

lemma hide_secrets_fmt_cong:
  assumes "map fst fs = map fst fs'"
    and "\<And>field v v'. (field, v) \<in> set fs \<Longrightarrow> (field, v') \<in> set fs' \<Longrightarrow> \<not> hidden_field field \<Longrightarrow> v = v'"
  shows "hide_secrets_fmt fe name fs = hide_secrets_fmt fe name fs'"
proof -
  have "map (\<lambda>(field, v). if hidden_field field then field @ '': <hidden>''
          else field @ '': '' @ fe_str fe v) fs
      = map (\<lambda>(field, v). if hidden_field field then field @ '': <hidden>''
          else field @ '': '' @ fe_str fe v) fs'"
    using assms
  proof (induction fs fs' rule: list_induct2')
    case (4 x xs y ys)
    have "fst x = fst y" "\<not> hidden_field (fst x) \<Longrightarrow> snd x = snd y"
      using "4.prems"(1) "4.prems"(2) [of "fst x" "snd x" "snd y"] by (cases x, cases y, auto)+
    moreover have "map (\<lambda>(field, v). if hidden_field field then field @ '': <hidden>''
          else field @ '': '' @ fe_str fe v) xs
      = map (\<lambda>(field, v). if hidden_field field then field @ '': <hidden>''
          else field @ '': '' @ fe_str fe v) ys"
      by (rule "4.IH") (use "4.prems" in \<open>auto\<close>)
    ultimately show ?case by (cases x; cases y) auto
  qed auto
  then show ?thesis by (simp add: hide_secrets_fmt_def)
qed

lemma hidden_fields: "hidden_field ''secret''" "hidden_field ''rnd''" "\<not> hidden_field ''pubkey''"
  by (simp_all add: hidden_field_def contains_str_def sublist_code)

lemma wallet_config_fmt_public:
  "wc_pubkey w = wc_pubkey w' \<Longrightarrow> wallet_config_fmt fe w = wallet_config_fmt fe w'"
  unfolding wallet_config_fmt_def
  by (rule hide_secrets_fmt_cong) (use hidden_fields in auto)

lemma bls_config_fmt_public:
  "bc_pubkey b = bc_pubkey b' \<Longrightarrow> bls_config_fmt fe b = bls_config_fmt fe b'"
  unfolding bls_config_fmt_def
  by (rule hide_secrets_fmt_cong) (use hidden_fields in auto)

section \<open>Creating the node never fails\<close>

lemma ns_set_room:
  assumes "unat (ns_max_version s) < 2 ^ 64 - 1"
  shows "\<exists>s'. ns_set k v s = Ok s' \<and> unat (ns_max_version s') \<le> unat (ns_max_version s) + 1"
proof -
  have "unat (- 1 :: u64) = 2 ^ 64 - 1" by (simp add: unsigned_minus_1_eq_mask mask_eq_exp_minus_1)
  then have ne: "ns_max_version s \<noteq> - 1" using assms by auto
  have "unat (ns_max_version s + 1) = unat (ns_max_version s) + 1"
    using unat_word_ariths(1) [of "ns_max_version s" 1] assms by simp
  then show ?thesis
    using ne by (simp add: ns_set_cases max_def)
qed

lemma set_all_room:
  "unat (ns_max_version s) + length kvs < 2 ^ 64 \<Longrightarrow> \<exists>s'. set_all kvs s = Ok s'"
proof (induction kvs s rule: set_all.induct)
  case (2 k v kvs s)
  obtain s1 where "ns_set k v s = Ok s1" "unat (ns_max_version s1) \<le> unat (ns_max_version s) + 1"
    using ns_set_room [of s k v] "2.prems" by auto
  then show ?case using "2.IH" [of s1] "2.prems" by simp
qed simp

lemma ns_set_events:
  "ns_set k v s = Ok s' \<Longrightarrow> ev \<in> set (ns_listeners s') \<Longrightarrow> ev \<in> set (ns_listeners s) \<or> kce_key ev = k"
  by (auto simp: ns_set_cases listeners_svv split: if_splits)

lemma set_all_events:
  "set_all kvs s = Ok s' \<Longrightarrow> ev \<in> set (ns_listeners s') \<Longrightarrow>
   ev \<in> set (ns_listeners s) \<or> kce_key ev \<in> fst ` set kvs"
proof (induction kvs s rule: set_all.induct)
  case (2 k v kvs s)
  then obtain s1 where "ns_set k v s = Ok s1" "set_all kvs s1 = Ok s'"
    by (auto simp: and_then_eq_Ok_iff)
  then show ?case using "2.IH" "2.prems"(2) ns_set_events by force
qed simp

lemma ascii_keys_deliverable:
  "k \<in> {key_pubkey, key_bls_pubkey, key_proxies, key_version, key_signatures, key_licenses} \<Longrightarrow>
   first_byte_is_char k"
  by (auto simp: zerostate_keys first_byte_is_char_def as_bytes_def utf8_cont_def)

lemma created_from_published:
  assumes "to_gossip env config keys = Inr kvs"
  shows "\<exists>c :: 'c chitchat. with_chitchat_id_and_seeds cfg seeds kvs mtu = Ok c"
proof -
  let ?s0 = "inc_heartbeat (node_state_or_new (cfg_chitchat_id cfg) (with_seed_addrs seeds))"
  note kvs = to_gossip_Inr(3) [OF assms]
  have s0: "ns_listeners ?s0 = []" "ns_max_version ?s0 = 0"
    by (simp_all add: inc_heartbeat_def node_state_or_new_def with_seed_addrs_def node_state_new_def)
  obtain s where s: "set_all kvs ?s0 = Ok s"
    using set_all_room [of ?s0 kvs] s0(2) by (auto simp: kvs)
  have "first_byte_is_char (kce_key ev)" if "ev \<in> set (ns_listeners s)" for ev
    using set_all_events [OF s that] s0(1) by (intro ascii_keys_deliverable) (auto simp: kvs)
  then show ?thesis
    using s by (auto simp: with_chitchat_id_and_seeds_def Let_def deliver_events_def
        self_node_state_def ch_update_cluster_def self_chitchat_id_def node_state_mut_def
        with_seed_addrs_def trigger_event_panic)
qed

section \<open>What a start leads to\<close>

lemma gossip_run_cases:
  assumes "to_gossip env config keys = Inr kvs"
  obtains (bound) c :: "'c chitchat" where "ge_bind g listen"
      "with_chitchat_id_and_seeds (gossip_config g listen adv seeds cid)
        (fst (spawn_dns_refresh_loop (ge_parse_addr g) (ge_lookup_host g) seeds)) kvs mtu = Ok c"
      "gossip_run g listen mtu adv seeds cid kvs = Ok (Inr \<lparr>sv_chitchat = c, sv_outbox = []\<rparr>)"
  | (taken) "\<not> ge_bind g listen"
      "(gossip_run g listen mtu adv seeds cid kvs :: (start_failure + 'c server) result)
        = Ok (Inl SocketNotOpened)"
proof (cases "ge_bind g listen")
  case True
  obtain c :: "'c chitchat" where "with_chitchat_id_and_seeds (gossip_config g listen adv seeds cid)
      (fst (spawn_dns_refresh_loop (ge_parse_addr g) (ge_lookup_host g) seeds)) kvs mtu = Ok c"
    using created_from_published [OF assms] by blast
  then show thesis
    using bound [of c] True
    by (auto simp: gossip_run_def spawn_chitchat_def gossip_config_def Let_def case_prod_beta)
next
  case False
  then show thesis
    using taken by (auto simp: gossip_run_def spawn_chitchat_def gossip_config_def Let_def case_prod_beta)
qed

text \<open>The key-values a node state exports are those it reads.\<close>

lemma key_values_get:
  assumes "ns_inv s"
  shows "bt_get (key_values s) k = ns_get s k"
proof -
  have wf: "bt_wf (ns_key_values s)" using assms by (simp add: ns_inv_def)
  have "key_values s = bt_map_values vv_value (bt_retain (\<lambda>_ vv. \<not> is_deleted vv) (ns_key_values s))"
    by (simp add: key_values_def key_values_including_deleted_def bt_map_values_def bt_retain_def
        case_prod_unfold)
  then show ?thesis
    using wf by (auto simp: bt_get_map_values bt_get_retain ns_get_def get_versioned_def split: option.splits)
qed

lemma created_holds_published:
  assumes "to_gossip env config keys = Inr kvs"
    and "with_chitchat_id_and_seeds cfg seeds kvs mtu = Ok c"
    and "0 < fd_sampling_window_size (cfg_failure_detector_config cfg)"
  obtains s where "ch_inv c" "cs_node_states (ch_cluster_state c) = [(cfg_chitchat_id cfg, s)]"
    "holds_published (key_values s) kvs" "ch_config c = cfg"
proof -
  obtain s where s: "ch_inv c" "cs_node_states (ch_cluster_state c) = [(cfg_chitchat_id cfg, s)]"
    "\<And>k. ns_get s k = map_of (rev kvs) k" "ch_config c = cfg"
    using created_node [OF assms(2,3)] by blast
  have inv: "ns_inv s" using s(1,2) by (simp add: ch_inv_def cs_inv_def)
  have "holds_published (key_values s) kvs"
    by (simp add: holds_published_def key_values_get [OF inv] s(3) to_gossip_Inr(3) [OF assms(1)]
        zerostate_keys)
  then show thesis using that s by blast
qed

text \<open>
  The outcome of a start: the process never panics, it runs exactly when everything it needs is
  there and no task has ended, and otherwise it exits with code 1.
\<close>

definition start_ready ::
  "start_env \<Rightarrow> igniter_env \<Rightarrow> gossip_start_env \<Rightarrow> docker \<Rightarrow> igniter_task set \<Rightarrow> cli_args \<Rightarrow> bool" where
  "start_ready e ienv g dk ended args \<longleftrightarrow>
     (\<exists>p kvs. CLI e args = Inr p
        \<and> to_gossip (ienv\<lparr>backend_verifying_key := BACKEND_VERIFYING_KEY e\<rparr>) (pa_config p) (pa_keys p) = Inr kvs
        \<and> ge_bind g (ic_listen_addr (pa_config p)) \<and> ended = {}
        \<and> (ic_auto_update (pa_config p) \<longrightarrow> dk_connect dk \<and> dk_ping dk))"

lemma updater_task_ends_iff:
  "updater_task_ends dk e p \<longleftrightarrow> ic_auto_update (pa_config p) \<and> \<not> (dk_connect dk \<and> dk_ping dk)"
  by (auto simp: updater_task_ends_def updater_try_new_def)

lemma igniter_main_cases:
  obtains (exits) "\<not> start_ready e ienv g dk ended args"
      "(igniter_main e ienv g dk ended args :: 'c process_state result) = Ok (ProcessExit 1)"
  | (running) p kvs c where "start_ready e ienv g dk ended args" "CLI e args = Inr p"
      "to_gossip (ienv\<lparr>backend_verifying_key := BACKEND_VERIFYING_KEY e\<rparr>) (pa_config p) (pa_keys p) = Inr kvs"
      "with_chitchat_id_and_seeds (gossip_config g (ic_listen_addr (pa_config p))
          (ic_advertise_addr (pa_config p)) (ic_seeds (pa_config p)) (ic_cluster_id (pa_config p)))
        (fst (spawn_dns_refresh_loop (ge_parse_addr g) (ge_lookup_host g) (ic_seeds (pa_config p)))) kvs
        MAX_UDP_DATAGRAM_PAYLOAD_SIZE = Ok (c :: 'c chitchat)"
      "igniter_main e ienv g dk ended args = Ok (ProcessRunning \<lparr>sv_chitchat = c, sv_outbox = []\<rparr>)"
proof (cases "CLI e args")
  case (Inl f)
  then show thesis using exits by (simp add: igniter_main_def start_ready_def)
next
  case (Inr p)
  let ?tg = "to_gossip (ienv\<lparr>backend_verifying_key := BACKEND_VERIFYING_KEY e\<rparr>) (pa_config p) (pa_keys p)"
  show thesis
  proof (cases ?tg)
    case (Inl err)
    then show thesis
      using exits Inr by (simp add: igniter_main_def start_ready_def tokio_main_inner_def select_tasks_def)
  next
    case kvs: (Inr kvs)
    have inner: "(tokio_main_inner e ienv g p :: (start_failure + 'c server) result)
        = gossip_run g (ic_listen_addr (pa_config p)) MAX_UDP_DATAGRAM_PAYLOAD_SIZE
            (ic_advertise_addr (pa_config p)) (ic_seeds (pa_config p)) (ic_cluster_id (pa_config p)) kvs"
      using kvs by (simp add: tokio_main_inner_def)
    have ready: "start_ready e ienv g dk ended args \<longleftrightarrow> ge_bind g (ic_listen_addr (pa_config p))
        \<and> ended \<union> (if updater_task_ends dk e p then {UpdaterTask} else {}) = {}"
      using Inr kvs by (auto simp: start_ready_def updater_task_ends_iff)
    show thesis
    proof (cases rule: gossip_run_cases [OF kvs, of g "ic_listen_addr (pa_config p)"
          "ic_advertise_addr (pa_config p)" "ic_seeds (pa_config p)" "ic_cluster_id (pa_config p)"
          MAX_UDP_DATAGRAM_PAYLOAD_SIZE, where ?'c = 'c])
      case (1 c)
      then show thesis
      proof (cases "start_ready e ienv g dk ended args")
        case True
        then show thesis
          using running [OF True Inr kvs 1(2)] ready 1(3) inner Inr
          by (simp add: igniter_main_def select_tasks_def)
      next
        case False
        then have "ended \<union> (if updater_task_ends dk e p then {UpdaterTask} else {}) \<noteq> {}"
          using ready 1(1) by blast
        then show thesis
          using exits [OF False] 1(3) inner Inr
          by (simp add: igniter_main_def select_tasks_def del: Un_empty)
      qed
    next
      case 2
      then show thesis
        using exits ready inner Inr by (simp add: igniter_main_def select_tasks_def)
    qed
  qed
qed

end
