(* ===== verification/Igniter_Properties.thy ===== *)
theory Igniter_Properties
  imports Igniter_Start
begin

text \<open>The properties of the start of the igniter, and the concrete start they are exercised on.\<close>

section \<open>Concrete inputs\<close>

text \<open>
  A configuration file with one licence, updates off, and libraries under which every signature
  is good. The file of keys differs in its secrets from another one that is used for printing.
\<close>

definition start_signature :: licence_signature where
  "start_signature = \<lparr>ls_license_id = ''7'', ls_license_owner_pubkey = replicate 64 (CHR ''0''),
     ls_provider_pubkey = replicate 64 (CHR ''0''), ls_delegation_sig = '''',
     ls_delegation_confirm_sig = '''', ls_timestamp = 12, ls_license_proof_sig = ''''\<rparr>"

definition start_libraries :: igniter_env where
  "start_libraries = \<lparr>ed25519_verify = (\<lambda>_ _ _. True), base64_decode = (\<lambda>s. Some (str_bytes s)),
     hex_decode = (\<lambda>s. if even (length s) then Some (replicate (length s div 2) 0) else None),
     json_of_signatures = (\<lambda>_. ''s''), signatures_of_json = (\<lambda>_. Some [start_signature]),
     json_of_licences = (\<lambda>_. ''l''),
     licences_of_json = (\<lambda>_. Some (derive_licences (VerifiedSignatures [start_signature]))),
     json_of_proxies = (\<lambda>_. ''p''), proxies_of_json = (\<lambda>_. Some []),
     backend_verifying_key = '''', cargo_pkg_version = ''1''\<rparr>"

definition start_file :: raw_config where
  "start_file = \<lparr>rc_cluster_id = None, rc_proxies = None, rc_listen_addr = None,
     rc_api_addr = None, rc_advertise_addr = Some ''h'', rc_seeds = None, rc_node_id = None,
     rc_interval = Some 1000, rc_signatures = Some [start_signature], rc_auto_update = Some False\<rparr>"

definition start_keys :: "string \<Rightarrow> keys_config" where
  "start_keys secret = \<lparr>kc_wallet = \<lparr>wc_pubkey = ''w'', wc_secret = secret\<rparr>,
     kc_bls = \<lparr>bc_pubkey = ''b'', bc_secret = secret, bc_rnd = secret\<rparr>\<rparr>"

definition start_world :: start_env where
  "start_world = \<lparr>se_var = (\<lambda>_. None), se_expand = (\<lambda>p. p),
     se_file = (\<lambda>p. if p = ''c'' \<or> p = ''k'' then Some p else None),
     se_yaml_config = (\<lambda>_. Some start_file), se_yaml_keys = (\<lambda>_. Some (start_keys ''x'')),
     se_yaml_seeds = (\<lambda>_. Some []), se_parse_addr = (\<lambda>_. None),
     se_to_socket_addrs = (\<lambda>_. Some [SocketAddrV4 1 1]), se_http_text = (\<lambda>_ _. Some '''')\<rparr>"

definition start_args :: cli_args where
  "start_args = \<lparr>ca_keys = Utf8Path ''k'', ca_config = Utf8Path ''c'',
     ca_docker_socket = None, ca_docker_config = None\<rparr>"

definition start_network :: gossip_start_env where
  "start_network = \<lparr>ge_parse_addr = (\<lambda>_. None), ge_lookup_host = (\<lambda>_. None), ge_bind = (\<lambda>_. True),
     ge_cool_id = ''i'', ge_now_secs = 1, ge_addr_text = (\<lambda>_. ''h'')\<rparr>"

definition no_docker :: docker where
  "no_docker = \<lparr>dk_connect = False, dk_ping = False, dk_pull = (\<lambda>_. False),
     dk_create = (\<lambda>_. None), dk_start = (\<lambda>_. False)\<rparr>"

definition start_config :: igniter_config where
  "start_config = \<lparr>ic_cluster_id = default_cluster_id, ic_proxies = [],
     ic_listen_addr = default_listen_addr, ic_api_addr = default_api_addr,
     ic_advertise_addr = SocketAddrV4 1 1, ic_seeds = [], ic_node_id = None, ic_interval = 1000,
     ic_signatures = [start_signature], ic_auto_update = False\<rparr>"

definition start_params :: params where
  "start_params = \<lparr>pa_config = start_config, pa_docker_socket = None, pa_docker_config = None,
     pa_keys = start_keys ''x''\<rparr>"

definition no_fmt :: fmt_env where
  "no_fmt = \<lparr>fe_str = (\<lambda>s. s), fe_addr = (\<lambda>_. ''h'')\<rparr>"

lemma start_cli: "CLI start_world start_args = Inr start_params"
  by (simp add: CLI_def start_world_def start_args_def yaml_config_def config_of_yaml_def
      addr_field_def deserialize_addr_def or_default_def start_file_def read_seeds_def DEV_MODE_def
      start_params_def start_config_def Let_def)

abbreviation start_checked :: igniter_env where
  "start_checked \<equiv> start_libraries\<lparr>backend_verifying_key := BACKEND_VERIFYING_KEY start_world\<rparr>"

lemma start_json_ok: "json_ok start_checked start_config"
  by (simp add: json_ok_def start_libraries_def start_config_def)

lemma start_publishes: "\<exists>kvs. to_gossip start_checked start_config (start_keys ''x'') = Inr kvs"
proof -
  have key: "key_of_hex start_checked (BACKEND_VERIFYING_KEY start_world) = Some (replicate 32 0)"
    "key_of_hex start_checked (replicate 64 (CHR ''0'')) = Some (replicate 32 0)"
    by code_simp+
  have "signatures_valid start_checked pk own bls start_signature" for pk own bls
    using key(2) by (simp add: signatures_valid_def start_signature_def)
      (simp add: start_libraries_def)
  then have "verified_signatures_create start_checked [start_signature]
      (BACKEND_VERIFYING_KEY start_world) ''w'' ''b'' = Inr (VerifiedSignatures [start_signature])"
    using key(1) by (simp add: verified_signatures_create_iff MAX_ALLOWED_LICENSES_def)
  moreover have "check_proxy_socket_addresses start_checked (Some (json_of_proxies start_checked []))"
    by (simp add: check_proxy_socket_addresses_def) (simp add: start_libraries_def MAX_PROXIES_def)
  ultimately show ?thesis
    by (simp add: to_gossip_def Let_def start_config_def start_keys_def require_def)
qed

section \<open>Start-up\<close>

text \<open>
  C23: a node that starts is sound, takes part in the gossip under the configured cluster and
  address, publishes what the configuration and the keys say (its public keys, proxies, licence
  signatures and licences), and lists itself in its own REST interface.
\<close>

theorem started_node_listed:
  fixes sv :: "'c server"
  assumes "igniter_main e ienv g dk ended args = Ok (ProcessRunning sv)" "CLI e args = Inr p"
    and "json_ok (ienv\<lparr>backend_verifying_key := BACKEND_VERIFYING_KEY e\<rparr>) (pa_config p)"
  shows "\<exists>kvs s. to_gossip (ienv\<lparr>backend_verifying_key := BACKEND_VERIFYING_KEY e\<rparr>)
        (pa_config p) (pa_keys p) = Inr kvs
    \<and> ch_inv (sv_chitchat sv) \<and> sv_outbox sv = []
    \<and> cs_node_states (ch_cluster_state (sv_chitchat sv)) = [(self_chitchat_id (sv_chitchat sv), s)]
    \<and> gossip_advertise_addr (self_chitchat_id (sv_chitchat sv)) = ic_advertise_addr (pa_config p)
    \<and> cfg_cluster_id (ch_config (sv_chitchat sv)) = ic_cluster_id (pa_config p)
    \<and> holds_published (key_values s) kvs
    \<and> s \<in> set (ar_node_states (api_index
        (ienv\<lparr>backend_verifying_key := BACKEND_VERIFYING_KEY e\<rparr>) (sv_chitchat sv)))"
proof (cases rule: igniter_main_cases [of e ienv g dk ended args, where ?'c = 'c])
  case exits
  then show ?thesis using assms(1) by simp
next
  case (running p' kvs c)
  then have p: "p' = p" and sv: "sv = \<lparr>sv_chitchat = c, sv_outbox = []\<rparr>" using assms(1,2) by simp_all
  let ?env = "ienv\<lparr>backend_verifying_key := BACKEND_VERIFYING_KEY e\<rparr>"
  note kvs = running(3) [unfolded p]
  obtain s where s: "ch_inv c" "holds_published (key_values s) kvs"
    "ch_config c = gossip_config g (ic_listen_addr (pa_config p)) (ic_advertise_addr (pa_config p))
      (ic_seeds (pa_config p)) (ic_cluster_id (pa_config p))"
    "cs_node_states (ch_cluster_state c) = [(self_chitchat_id c, s)]"
    using created_holds_published [OF kvs running(4) [unfolded p]]
    by (auto simp: self_chitchat_id_def gossip_config_def failure_detector_config_default_def Let_def)
  have snap: "snap_node_states (state_snapshot c) = [s]"
    using s(4) by (simp add: state_snapshot_def cluster_state_snapshot_of_def)
  have fg: "from_gossip ?env (key_values s') = Inr d \<Longrightarrow> s' \<in> set [s] \<Longrightarrow>
      vn_signatures d = ic_signatures (pa_config p)" for s' d
    using published_from_gossip [OF assms(3) kvs s(2)] by auto
  have "index_keeps ?env (fst (extract_verified_state_without_licences ?env [s])) s"
    by (rule index_keeps_published [OF assms(3) kvs _ s(2)]) (use fg in auto)
  then have "s \<in> set (ar_node_states (api_index ?env c))"
    by (simp add: api_index_def get_verified_state_def snap case_prod_beta Let_def)
  then show ?thesis
    using kvs s by (auto simp: sv self_chitchat_id_def gossip_config_def Let_def)
qed

theorem started_node_listed_witness:
  "\<exists>(sv :: unit server) s. igniter_main start_world start_libraries start_network no_docker {} start_args
      = Ok (ProcessRunning sv)
    \<and> s \<in> set (ar_node_states (api_index start_checked (sv_chitchat sv)))"
proof -
  have "start_ready start_world start_libraries start_network no_docker {} start_args"
    using start_publishes
    by (auto simp: start_ready_def start_cli start_params_def start_network_def start_config_def)
  then obtain sv :: "unit server" where
    sv: "igniter_main start_world start_libraries start_network no_docker {} start_args
      = Ok (ProcessRunning sv)"
    by (cases rule: igniter_main_cases [of start_world start_libraries start_network no_docker "{}"
        start_args, where ?'c = unit]) auto
  have "json_ok start_checked (pa_config start_params)"
    using start_json_ok by (simp add: start_params_def)
  from started_node_listed [OF sv start_cli this] sv show ?thesis by blast
qed


text \<open>
  C26: the settings the process prints at start do not depend on the secrets: whatever the wallet's
  secret, the BLS secret and its random seed are, the text is the same.
\<close>

theorem settings_hide_secrets:
  assumes "pa_config p = pa_config p'" "pa_docker_socket p = pa_docker_socket p'"
    and "pa_docker_config p = pa_docker_config p'"
    and "wc_pubkey (kc_wallet (pa_keys p)) = wc_pubkey (kc_wallet (pa_keys p'))"
    and "bc_pubkey (kc_bls (pa_keys p)) = bc_pubkey (kc_bls (pa_keys p'))"
  shows "params_fmt fe p = params_fmt fe p'"
  using assms(1-3) wallet_config_fmt_public [OF assms(4)] bls_config_fmt_public [OF assms(5)]
  by (simp add: params_fmt_def keys_fmt_def)

theorem settings_hide_secrets_witness:
  "params_fmt no_fmt start_params = params_fmt no_fmt (start_params\<lparr>pa_keys := start_keys ''y''\<rparr>)
    \<and> start_keys ''x'' \<noteq> start_keys ''y''"
  using settings_hide_secrets [of start_params "start_params\<lparr>pa_keys := start_keys ''y''\<rparr>" no_fmt]
  by (simp add: start_params_def start_keys_def)

text \<open>The same world, in which the configuration file gives another interval, identifier and seeds.\<close>

definition other_settings :: "u64 option \<Rightarrow> string option \<Rightarrow> string list option \<Rightarrow> start_env \<Rightarrow> start_env" where
  "other_settings i n seeds e = e\<lparr>se_yaml_config := (\<lambda>text. map_option
     (\<lambda>rc. rc\<lparr>rc_interval := i, rc_node_id := n, rc_seeds := seeds\<rparr>) (se_yaml_config e text))\<rparr>"

definition replace_settings :: "u64 option \<Rightarrow> string option \<Rightarrow> params \<Rightarrow> params" where
  "replace_settings i n p = p\<lparr>pa_config := (pa_config p)\<lparr>ic_interval := or_default default_interval i,
     ic_node_id := n\<rparr>\<rparr>"

lemma other_settings_same:
  "se_var (other_settings i n seeds e) = se_var e"
  "addr_field (other_settings i n seeds e) d f = addr_field e d f"
  "DEV_MODE (other_settings i n seeds e) = DEV_MODE e"
  "BACKEND_VERIFYING_KEY (other_settings i n seeds e) = BACKEND_VERIFYING_KEY e"
  "IGNITER_SEEDS (other_settings i n seeds e) = IGNITER_SEEDS e"
  "read_seeds (other_settings i n seeds e) url = read_seeds e url"
  "se_yaml_keys (other_settings i n seeds e) = se_yaml_keys e"
  by (simp_all add: other_settings_def addr_field_def deserialize_addr_def DEV_MODE_def
      BACKEND_VERIFYING_KEY_def IGNITER_SEEDS_def read_seeds_def Let_def cong: option.case_cong)

lemma read_yaml_other_settings:
  "read_yaml (other_settings i n seeds e) parse path = read_yaml e parse path"
  by (cases path) (simp_all add: other_settings_def cong: option.case_cong)

lemma config_of_yaml_other_settings:
  "config_of_yaml (other_settings i n seeds e) (rc\<lparr>rc_interval := i, rc_node_id := n, rc_seeds := seeds\<rparr>)
   = map_option (\<lambda>c. c\<lparr>ic_seeds := or_default [] seeds, ic_interval := or_default default_interval i,
       ic_node_id := n\<rparr>) (config_of_yaml e rc)"
  by (simp add: config_of_yaml_def other_settings_same split: option.split)

lemma yaml_config_other_settings:
  "yaml_config (other_settings i n seeds e) = (\<lambda>text. map_option
     (\<lambda>c. c\<lparr>ic_seeds := or_default [] seeds, ic_interval := or_default default_interval i, ic_node_id := n\<rparr>)
     (yaml_config e text))"
proof
  fix doc
  have "se_yaml_config (other_settings i n seeds e) doc = map_option
      (\<lambda>rc. rc\<lparr>rc_interval := i, rc_node_id := n, rc_seeds := seeds\<rparr>) (se_yaml_config e doc)"
    by (simp add: other_settings_def)
  then show "yaml_config (other_settings i n seeds e) doc = map_option
      (\<lambda>c. c\<lparr>ic_seeds := or_default [] seeds, ic_interval := or_default default_interval i, ic_node_id := n\<rparr>)
      (yaml_config e doc)"
    by (cases "se_yaml_config e doc") (simp_all add: yaml_config_def config_of_yaml_other_settings)
qed

lemma read_yaml_map:
  "read_yaml e (\<lambda>text. map_option h (parse text)) path = map_option h (read_yaml e parse path)"
  by (cases path) (simp_all split: option.split)

lemma CLI_other_settings:
  "CLI (other_settings i n seeds e) args = map_sum id (replace_settings i n) (CLI e args)"
  by (simp add: CLI_def read_yaml_other_settings other_settings_same yaml_config_other_settings
      read_yaml_map replace_settings_def split: option.split)

lemma replace_settings_same:
  "to_gossip env (pa_config (replace_settings i n p)) keys = to_gossip env (pa_config p) keys"
  "ic_auto_update (pa_config (replace_settings i n p)) = ic_auto_update (pa_config p)"
  "pa_keys (replace_settings i n p) = pa_keys p"
  "ic_listen_addr (pa_config (replace_settings i n p)) = ic_listen_addr (pa_config p)"
  "ic_advertise_addr (pa_config (replace_settings i n p)) = ic_advertise_addr (pa_config p)"
  "ic_seeds (pa_config (replace_settings i n p)) = ic_seeds (pa_config p)"
  "ic_cluster_id (pa_config (replace_settings i n p)) = ic_cluster_id (pa_config p)"
  by (simp_all add: replace_settings_def to_gossip_def)

text \<open>
  Three settings of the configuration file have no effect. Whatever interval, node identifier
  and seeds the file gives, the start has the same outcome and the same node runs: the interval
  of the gossip is a constant, the identifier is generated, and the seeds are replaced by those
  that were downloaded.
\<close>

theorem configured_interval_ignored:
  "igniter_main (other_settings i n seeds e) ienv g dk ended args
     = (igniter_main e ienv g dk ended args :: 'c process_state result)"
proof (cases "CLI e args")
  case (Inr p)
  have "(tokio_main_inner (other_settings i n seeds e) ienv g (replace_settings i n p)
      :: (start_failure + 'c server) result) = tokio_main_inner e ienv g p"
    by (simp add: tokio_main_inner_def other_settings_same replace_settings_same cong: sum.case_cong)
  moreover have "updater_task_ends dk (other_settings i n seeds e) (replace_settings i n p)
      = updater_task_ends dk e p"
    by (simp add: updater_task_ends_iff replace_settings_same)
  ultimately show ?thesis using Inr by (simp add: igniter_main_def CLI_other_settings)
qed (simp add: igniter_main_def CLI_other_settings)

section \<open>Updates\<close>

text \<open>
  A turn of the updater starts a container only after the service answered, the image was
  pulled and the container was created, and it starts the one that was created; the container
  sees the socket of the service and, when one is given, its configuration. A turn that fails
  does not end the loop.
\<close>

theorem updater_turn:
  "CallStart i \<in> set (fst (try_update_container u dk)) \<longleftrightarrow>
     dk_ping dk \<and> dk_pull dk DEFAULT_WATCHTOWER_IMAGE \<and> dk_create dk (watchtower_spec u) = Some i"
  "snd (try_update_container u dk) = Inr () \<longleftrightarrow>
     dk_ping dk \<and> dk_pull dk DEFAULT_WATCHTOWER_IMAGE
     \<and> (\<exists>i. dk_create dk (watchtower_spec u) = Some i \<and> dk_start dk i)"
  "length (updater_turns u dks) = length dks"
  by (auto simp: try_update_container_def split: option.splits) (induction dks; simp)

end
