(* ===== verification/Quic_Handles.thy ===== *)
theory Quic_Handles
  imports Quic_Stream "HOL-Library.Multiset"
begin

text \<open>
  The handles through which tasks use a stream (\<open>transport-layer/src/msquic/msquic_async/stream.rs\<close>):
  \<open>Stream\<close>, which reads and writes, and the halves \<open>ReadStream\<close> and \<open>WriteStream\<close> that \<open>split\<close> gives
  out. All share one \<open>StreamInstance\<close>. A call through a handle is a value; what a handle offers is
  which calls it has. The futures \<open>ReadChunk\<close>, \<open>WriteChunk\<close> and \<open>WriteChunks\<close> are calls that wait for
  their waker.

  The two halves are independent: a call through one does not change what the other sees, and
  their calls can be exchanged.
\<close>

section \<open>Calls\<close>

datatype read_call =
    ReadInto waker nat
  | ReadNextChunk waker
  | PollAbortRead waker u64 "status option"
  | AbortReadNow u64 "status option"

datatype write_call =
    WriteFrom waker "u8 list" bool "status option"
  | WriteOneChunk waker "u8 list" bool "status option"
  | WriteManyChunks waker "u8 list list" bool "status option"
  | PollFinishWrite waker "status option"
  | PollAbortWrite waker u64 "status option"
  | AbortWriteNow u64 "status option"

datatype read_reply =
    ReadBytes "(read_error + u8 list) poll"
  | ReadChunkReply "(read_error + recv_buffer option) poll"
  | ReadAborted "(read_error + unit) poll"

datatype write_reply =
    Wrote "(write_error + nat) poll"
  | WriteEnded "(write_error + unit) poll"

definition replies :: "('a \<Rightarrow> 'b) \<Rightarrow> 'a \<times> 's \<times> effect list \<Rightarrow> 'b \<times> 's \<times> effect list" where
  "replies f r = (case r of (x, st, es) \<Rightarrow> (f x, st, es))"

lemma map_result_eq_Ok_iff: "map_result f r = Ok y \<longleftrightarrow> (\<exists>x. r = Ok x \<and> y = f x)"
  by (cases r) auto

text \<open>\<open>impl ReadStream\<close>.\<close>

fun read_stream_call ::
  "'rs range_set_ops \<Rightarrow> read_call \<Rightarrow> 'rs stream \<Rightarrow> (read_reply \<times> 'rs stream \<times> effect list) result"
where
  "read_stream_call ops (ReadInto w cap) st =
     map_result (replies ReadBytes) (stream_poll_read ops w cap st)"
| "read_stream_call ops (ReadNextChunk w) st =
     map_result (replies ReadChunkReply) (stream_poll_read_chunk w st)"
| "read_stream_call ops (PollAbortRead w code ret) st =
     Ok (replies ReadAborted (stream_poll_abort_read w code ret st))"
| "read_stream_call ops (AbortReadNow code ret) st =
     Ok (replies (\<lambda>r. ReadAborted (Ready r)) (stream_abort_read code ret st))"

text \<open>\<open>impl WriteStream\<close>.\<close>

fun write_stream_call ::
  "write_call \<Rightarrow> 'rs stream \<Rightarrow> (write_reply \<times> 'rs stream \<times> effect list) result"
where
  "write_stream_call (WriteFrom w buf fin ret) st =
     map_result (replies Wrote) (stream_poll_write w buf fin ret st)"
| "write_stream_call (WriteOneChunk w buf fin ret) st =
     map_result (replies Wrote) (stream_poll_write_chunk w buf fin ret st)"
| "write_stream_call (WriteManyChunks w bufs fin ret) st =
     map_result (replies Wrote) (stream_poll_write_chunks w bufs fin ret st)"
| "write_stream_call (PollFinishWrite w ret) st =
     Ok (replies WriteEnded (stream_poll_finish_write w ret st))"
| "write_stream_call (PollAbortWrite w code ret) st =
     Ok (replies WriteEnded (stream_poll_abort_write w code ret st))"
| "write_stream_call (AbortWriteNow code ret) st =
     Ok (replies (\<lambda>r. WriteEnded (Ready r)) (stream_abort_write code ret st))"

text \<open>\<open>impl Stream\<close>: both.\<close>

fun whole_stream_call ::
  "'rs range_set_ops \<Rightarrow> read_call + write_call \<Rightarrow> 'rs stream \<Rightarrow>
   ((read_reply + write_reply) \<times> 'rs stream \<times> effect list) result"
where
  "whole_stream_call ops (Inl c) st = map_result (replies Inl) (read_stream_call ops c st)"
| "whole_stream_call ops (Inr c) st = map_result (replies Inr) (write_stream_call c st)"

text \<open>The futures: what is polled, given the waker of the task that polls.\<close>

datatype stream_future =
    ReadChunk
  | WriteChunk "u8 list" bool
  | WriteChunks "u8 list list" bool

fun future_call :: "stream_future \<Rightarrow> waker \<Rightarrow> status option \<Rightarrow> read_call + write_call" where
  "future_call ReadChunk w ret = Inl (ReadNextChunk w)"
| "future_call (WriteChunk buf fin) w ret = Inr (WriteOneChunk w buf fin ret)"
| "future_call (WriteChunks bufs fin) w ret = Inr (WriteManyChunks w bufs fin ret)"

text \<open>
  The adapters to the standard traits; \<open>poll_flush\<close> does nothing, as writes are handed to the
  library at once.
\<close>

definition poll_flush :: "'rs stream \<Rightarrow> (io_error_kind + unit) poll \<times> 'rs stream \<times> effect list" where
  "poll_flush st = (Ready (Inr ()), st, [])"

text \<open>The handles \<open>split\<close> gives out and the calls they have.\<close>

datatype stream_handle = HandleStream | HandleRead | HandleWrite

definition split_handles :: "'rs stream \<Rightarrow> stream_handle list" where
  "split_handles st = (case stream_split st of (r, s) \<Rightarrow>
     (if r then [HandleRead] else []) @ (if s then [HandleWrite] else []))"

fun handle_offers :: "stream_handle \<Rightarrow> read_call + write_call \<Rightarrow> bool" where
  "handle_offers HandleStream _ \<longleftrightarrow> True"
| "handle_offers HandleRead c \<longleftrightarrow> isl c"
| "handle_offers HandleWrite c \<longleftrightarrow> \<not> isl c"

section \<open>The two sides of a stream\<close>

text \<open>
  The parts of the state the reading calls change, and those the writing calls change. Both wait
  for a stream that is starting in the same queue.
\<close>

definition read_side :: "'rs stream \<Rightarrow> waker list \<Rightarrow> 'rs stream \<Rightarrow> 'rs stream" where
  "read_side from ws st = st
     \<lparr>st_recv_state := st_recv_state from, st_recv_buffers := st_recv_buffers from,
      st_complete_map := st_complete_map from, st_complete_cursor := st_complete_cursor from,
      st_read_waiters := st_read_waiters from, st_start_waiters := ws\<rparr>"

definition write_side :: "'rs stream \<Rightarrow> waker list \<Rightarrow> 'rs stream \<Rightarrow> 'rs stream" where
  "write_side from ws st = st
     \<lparr>st_send_state := st_send_state from, st_write_pool := st_write_pool from,
      st_write_shutdown_waiters := st_write_shutdown_waiters from, st_start_waiters := ws\<rparr>"

lemma sides_simps [simp]:
  "st_recv_state (write_side fr ws st) = st_recv_state st"
  "st_recv_buffers (write_side fr ws st) = st_recv_buffers st"
  "st_complete_map (write_side fr ws st) = st_complete_map st"
  "st_complete_cursor (write_side fr ws st) = st_complete_cursor st"
  "st_read_waiters (write_side fr ws st) = st_read_waiters st"
  "st_conn_error (write_side fr ws st) = st_conn_error st"
  "st_recv_error_code (write_side fr ws st) = st_recv_error_code st"
  "st_start_waiters (write_side fr ws st) = ws"
  "st_send_state (read_side fr ws st) = st_send_state st"
  "st_write_pool (read_side fr ws st) = st_write_pool st"
  "st_write_shutdown_waiters (read_side fr ws st) = st_write_shutdown_waiters st"
  "st_conn_error (read_side fr ws st) = st_conn_error st"
  "st_send_error_code (read_side fr ws st) = st_send_error_code st"
  "st_start_waiters (read_side fr ws st) = ws"
  by (simp_all add: write_side_def read_side_def)

text \<open>Who waits for the start of the stream after a call.\<close>

fun read_waits :: "read_call \<Rightarrow> 'rs stream \<Rightarrow> waker list" where
  "read_waits (ReadInto w cap) st = (if st_recv_state st = RecvStart then [w] else [])"
| "read_waits (ReadNextChunk w) st = (if st_recv_state st = RecvStart then [w] else [])"
| "read_waits (PollAbortRead w code ret) st = (if st_recv_state st = RecvStart then [w] else [])"
| "read_waits (AbortReadNow code ret) st = []"

fun write_waits :: "write_call \<Rightarrow> 'rs stream \<Rightarrow> waker list" where
  "write_waits (WriteFrom w buf fin ret) st = (if st_send_state st = SendStart then [w] else [])"
| "write_waits (WriteOneChunk w buf fin ret) st = (if st_send_state st = SendStart then [w] else [])"
| "write_waits (WriteManyChunks w bufs fin ret) st = (if st_send_state st = SendStart then [w] else [])"
| "write_waits (PollFinishWrite w ret) st = (if st_send_state st = SendStart then [w] else [])"
| "write_waits (PollAbortWrite w code ret) st = (if st_send_state st = SendStart then [w] else [])"
| "write_waits (AbortWriteNow code ret) st = []"

text \<open>What a call on each side depends on.\<close>

definition read_view where
  "read_view st = (st_recv_state st, st_recv_buffers st, st_complete_map st, st_complete_cursor st,
     st_read_waiters st, st_conn_error st, st_recv_error_code st)"

definition write_view where
  "write_view st = (st_send_state st, st_write_pool st, st_write_shutdown_waiters st, st_conn_error st,
     st_send_error_code st)"

text \<open>
  A call on one side does to any stream that looks the same from that side what it does to one of
  them, and adds its waker to the queue it finds.
\<close>

definition on_read_side ::
  "waker list \<Rightarrow> 'rs stream \<Rightarrow> 'a \<times> 'rs stream \<times> effect list \<Rightarrow> 'a \<times> 'rs stream \<times> effect list" where
  "on_read_side ws st p = (case p of (r, fr, es) \<Rightarrow> (r, read_side fr (st_start_waiters st @ ws) st, es))"

definition on_write_side ::
  "waker list \<Rightarrow> 'rs stream \<Rightarrow> 'a \<times> 'rs stream \<times> effect list \<Rightarrow> 'a \<times> 'rs stream \<times> effect list" where
  "on_write_side ws st p = (case p of (r, fr, es) \<Rightarrow> (r, write_side fr (st_start_waiters st @ ws) st, es))"

text \<open>Completing buffers touches the set of completed ranges and the cursor only.\<close>

definition completion ::
  "'rs range_set_ops \<Rightarrow> recv_buffer \<Rightarrow> 'rs \<Rightarrow> nat \<Rightarrow> 'rs \<times> nat \<times> effect list" where
  "completion ops b m cur =
     (let (start, stop) = recv_buffer_range b;
          m' = (if start < stop then rs_insert ops (start, stop) m else m)
      in case rs_first ops m' of
           Some (lo, hi) \<Rightarrow>
             if lo = 0 \<and> cur < hi then (m', hi, [ReceiveComplete (hi - cur)])
             else (m', cur, if lo = 0 \<and> cur = hi \<and> rb_offset b = hi \<and> recv_buffer_is_empty b \<and> rb_fin b
                            then [ReceiveComplete 0] else [])
         | None \<Rightarrow> (m', cur, if recv_buffer_is_empty b \<and> rb_fin b then [ReceiveComplete 0] else []))"

fun completions ::
  "'rs range_set_ops \<Rightarrow> recv_buffer list \<Rightarrow> 'rs \<Rightarrow> nat \<Rightarrow> 'rs \<times> nat \<times> effect list" where
  "completions ops [] m cur = (m, cur, [])"
| "completions ops (b # bs) m cur =
     (if rb_stream b
      then let (m1, cur1, es1) = completion ops b m cur; (m2, cur2, es2) = completions ops bs m1 cur1
           in (m2, cur2, es1 @ es2)
      else completions ops bs m cur)"

lemma read_complete_completion:
  "read_complete ops b st = (case completion ops b (st_complete_map st) (st_complete_cursor st) of
     (m, cur, es) \<Rightarrow> (st\<lparr>st_complete_map := m, st_complete_cursor := cur\<rparr>, es))"
proof -
  obtain start stop where r: "recv_buffer_range b = (start, stop)" by (cases "recv_buffer_range b")
  define m where "m = (if start < stop then rs_insert ops (start, stop) (st_complete_map st)
    else st_complete_map st)"
  show ?thesis
  proof (cases "rs_first ops m")
    case None
    then show ?thesis
      unfolding read_complete_def completion_def r Let_def prod.case m_def [symmetric] by (cases st) simp
  next
    case (Some p)
    then show ?thesis
      unfolding read_complete_def completion_def r Let_def prod.case m_def [symmetric]
      by (cases st; cases p) auto
  qed
qed

lemma drop_recv_buffers_completions:
  "drop_recv_buffers ops bs st = (case completions ops bs (st_complete_map st) (st_complete_cursor st) of
     (m, cur, es) \<Rightarrow> (st\<lparr>st_complete_map := m, st_complete_cursor := cur\<rparr>, es))"
proof (induction bs arbitrary: st)
  case Nil
  then show ?case by (cases st) simp
next
  case (Cons b bs)
  then show ?case
    by (simp add: drop_recv_buffer_def read_complete_completion case_prod_beta Let_def)
qed

lemma read_side_same: "read_view st = read_view fr \<Longrightarrow> read_side fr (st_start_waiters st @ []) st = st"
  by (cases st; cases fr) (simp add: read_view_def read_side_def)

lemma write_side_same: "write_view st = write_view fr \<Longrightarrow> write_side fr (st_start_waiters st @ []) st = st"
  by (cases st; cases fr) (simp add: write_view_def write_side_def)

lemma poll_read_on_side:
  assumes "read_view st = read_view fr"
  shows "poll_read_generic w read_fn st = map_result (\<lambda>(r, fr', cs).
      (r, read_side fr' (st_start_waiters st @ (if st_recv_state fr = RecvStart then [w] else [])) st, cs))
    (poll_read_generic w read_fn fr)"
proof (cases "st_recv_state fr = RecvStartComplete")
  case True
  show ?thesis
  proof (cases "read_fn (st_recv_buffers fr)")
    case (Ok x)
    obtain status bufs completed where x: "x = (status, bufs, completed)" by (cases x)
    show ?thesis
      using assms True Ok x
      by (cases st; cases fr; cases status)
        (auto simp: read_view_def poll_read_generic_def read_side_def Let_def split: option.split)
  qed (use assms True in \<open>simp_all add: read_view_def poll_read_generic_def\<close>)
next
  case False
  then show ?thesis
    using assms
    by (cases st; cases fr; cases "st_recv_state fr")
      (auto simp: read_view_def poll_read_generic_def read_side_def split: option.split)
qed

lemma poll_write_on_side:
  assumes "write_view st = write_view fr"
  shows "poll_write_generic w write_fn ret st
    = map_result (on_write_side (if st_send_state fr = SendStart then [w] else []) st)
        (poll_write_generic w write_fn ret fr)"
proof (cases "st_send_state fr = SendStartComplete")
  case True
  obtain wb pool where pop: "pool_pop (st_write_pool fr) = (wb, pool)" by (cases "pool_pop (st_write_pool fr)")
  obtain status wb1 where wr: "write_fn wb = (status, wb1)" by (cases "write_fn wb")
  obtain bufs wb2 where gb: "get_buffers wb1 = (bufs, wb2)" by (cases "get_buffers wb1")
  show ?thesis
    using assms True pop wr gb
    by (cases st; cases fr; cases status)
      (auto simp: write_view_def poll_write_generic_def write_side_def on_write_side_def Let_def split: option.split)
next
  case False
  then show ?thesis
    using assms
    by (cases st; cases fr; cases "st_send_state fr")
      (auto simp: write_view_def poll_write_generic_def write_side_def on_write_side_def
        split: option.split)
qed

lemma poll_shutdown_on_side:
  assumes "write_view st = write_view fr"
  shows "poll_shutdown_write flag code w ret st
    = on_write_side (if st_send_state fr = SendStart then [w] else []) st
        (poll_shutdown_write flag code w ret fr)"
  using assms
  by (cases st; cases fr; cases "st_send_state fr")
    (auto simp: write_view_def poll_shutdown_write_def write_side_def on_write_side_def
      write_shutdown_outcome_def Let_def split: option.split)

lemma stream_poll_read_on_side:
  assumes "read_view st = read_view fr"
  shows "stream_poll_read ops w cap st
    = map_result (on_read_side (if st_recv_state fr = RecvStart then [w] else []) st)
        (stream_poll_read ops w cap fr)"
proof -
  note g = poll_read_on_side [OF assms, of w "\<lambda>bufs. read_loop cap bufs [] False []"]
  show ?thesis
  proof (cases "poll_read_generic w (\<lambda>bufs. read_loop cap bufs [] False []) fr")
    case (Ok x)
    obtain r fr1 cs where x: "x = (r, fr1, cs)" by (cases x)
    obtain m cur es where d: "completions ops cs (st_complete_map fr1) (st_complete_cursor fr1) = (m, cur, es)"
      by (cases "completions ops cs (st_complete_map fr1) (st_complete_cursor fr1)")
    have "st_complete_map (read_side fr1 ws st) = st_complete_map fr1"
      "st_complete_cursor (read_side fr1 ws st) = st_complete_cursor fr1" for ws
      by (simp_all add: read_side_def)
    then show ?thesis
      using g Ok x d
      by (simp add: stream_poll_read_def drop_recv_buffers_completions on_read_side_def)
        (simp add: read_side_def)
  qed (use g in \<open>simp_all add: stream_poll_read_def\<close>)
qed

lemma read_call_frame:
  assumes "read_view st = read_view fr"
  shows "read_stream_call ops c st
    = map_result (on_read_side (read_waits c fr) st) (read_stream_call ops c fr)"
proof (cases c)
  case (ReadInto w cap)
  then show ?thesis
    using stream_poll_read_on_side [OF assms, of ops w cap]
    by (cases "stream_poll_read ops w cap fr") (auto simp: replies_def on_read_side_def split: prod.split)
next
  case (ReadNextChunk w)
  then show ?thesis
    using poll_read_on_side [OF assms, of w pop_chunk]
    by (cases "poll_read_generic w pop_chunk fr")
      (auto simp: stream_poll_read_chunk_def replies_def on_read_side_def split: prod.split)
next
  case (PollAbortRead w code ret)
  then show ?thesis
    using assms
    by (cases st; cases fr; cases "st_recv_state fr")
      (auto simp: read_view_def stream_poll_abort_read_def read_side_def on_read_side_def replies_def
        split: option.split)
next
  case (AbortReadNow code ret)
  then show ?thesis
    using assms
    by (cases st; cases fr; cases "st_recv_state fr")
      (auto simp: read_view_def stream_abort_read_def read_side_def on_read_side_def replies_def
        split: option.split)
qed

lemma write_call_frame:
  assumes "write_view st = write_view fr"
  shows "write_stream_call c st
    = map_result (on_write_side (write_waits c fr) st) (write_stream_call c fr)"
proof -
  have generic: "map_result (replies Wrote) (unwrap_or_zero (poll_write_generic w f ret st))
      = map_result (on_write_side (if st_send_state fr = SendStart then [w] else []) st)
          (map_result (replies Wrote) (unwrap_or_zero (poll_write_generic w f ret fr)))" for w f ret
    using poll_write_on_side [OF assms, of w f ret]
    by (cases "poll_write_generic w f ret fr")
      (auto simp: unwrap_or_zero_def replies_def on_write_side_def split: prod.split)
  show ?thesis
  proof (cases c)
    case (AbortWriteNow code ret)
    then show ?thesis
      using assms
      by (cases st; cases fr; cases "st_send_state fr")
        (auto simp: write_view_def stream_abort_write_def write_side_def on_write_side_def replies_def
          split: option.split)
  qed (use generic poll_shutdown_on_side [OF assms] in \<open>auto simp: stream_poll_write_def
    stream_poll_write_chunk_def stream_poll_write_chunks_def stream_poll_finish_write_def
    stream_poll_abort_write_def replies_def on_write_side_def split: prod.split\<close>)
qed

section \<open>Independence of the halves\<close>

text \<open>The states two orders of calls end in, up to the order in which tasks wait for the start.\<close>

definition same_but_start_order :: "'rs stream \<Rightarrow> 'rs stream \<Rightarrow> bool" where
  "same_but_start_order st st' \<longleftrightarrow> mset (st_start_waiters st) = mset (st_start_waiters st')
     \<and> st = st'\<lparr>st_start_waiters := st_start_waiters st\<rparr>"

lemma read_call_after:
  assumes "read_stream_call ops c st = Ok (r, st1, es)"
  shows "st1 = read_side st1 (st_start_waiters st @ read_waits c st) st"
  using read_call_frame [of st st ops c] assms by (simp add: on_read_side_def)

lemma write_call_after:
  assumes "write_stream_call c st = Ok (r, st1, es)"
  shows "st1 = write_side st1 (st_start_waiters st @ write_waits c st) st"
  using write_call_frame [of st st c] assms by (simp add: on_write_side_def)

lemma read_call_keeps_write_view:
  "read_stream_call ops c st = Ok (r, st1, es) \<Longrightarrow> write_view st1 = write_view st"
  by (subst read_call_after) (simp_all add: write_view_def)

lemma write_call_keeps_read_view:
  assumes "write_stream_call c st = Ok (r, st1, es)"
  shows "read_view st1 = read_view st"
  by (subst write_call_after [OF assms]) (simp add: read_view_def)

lemma calls_exchange:
  assumes r: "read_stream_call ops c st = Ok (r, st1, es1)"
    and q: "write_stream_call d st = Ok (q, st1', es2)"
  shows "\<exists>st2 st2'. write_stream_call d st1 = Ok (q, st2, es2)
    \<and> read_stream_call ops c st1' = Ok (r, st2', es1) \<and> same_but_start_order st2 st2'"
proof -
  let ?r = "read_waits c st" and ?q = "write_waits d st"
  define st2 where "st2 = write_side st1' (st_start_waiters st1 @ ?q) st1"
  define st2' where "st2' = read_side st1 (st_start_waiters st1' @ ?r) st1'"
  have "write_stream_call d st1 = Ok (q, st2, es2)"
    using write_call_frame [OF read_call_keeps_write_view [OF r], of d] q
    by (simp add: on_write_side_def st2_def)
  moreover have "read_stream_call ops c st1' = Ok (r, st2', es1)"
    using read_call_frame [OF write_call_keeps_read_view [OF q], of ops c] r
    by (simp add: on_read_side_def st2'_def)
  moreover have "same_but_start_order st2 st2'"
  proof -
    have st1: "st1 = read_side st1 (st_start_waiters st @ ?r) st" by (rule read_call_after [OF r])
    have st1': "st1' = write_side st1' (st_start_waiters st @ ?q) st" by (rule write_call_after [OF q])
    have w: "st_start_waiters st1 = st_start_waiters st @ ?r" "st_start_waiters st1' = st_start_waiters st @ ?q"
      using arg_cong [OF st1, of st_start_waiters] arg_cong [OF st1', of st_start_waiters] by simp_all
    have "st2 = write_side st1' (st_start_waiters st @ ?r @ ?q) (read_side st1 (st_start_waiters st @ ?r) st)"
      using st1 w(1) by (simp add: st2_def)
    moreover have "st2' = read_side st1 (st_start_waiters st @ ?q @ ?r) (write_side st1' (st_start_waiters st @ ?q) st)"
      using st1' w(2) by (simp add: st2'_def)
    ultimately show ?thesis
      by (simp add: same_but_start_order_def) (simp add: read_side_def write_side_def)
  qed
  ultimately show ?thesis by blast
qed

section \<open>Interleaved calls\<close>

text \<open>Calls through both halves in some order, with the reply and the effects of each.\<close>

fun run_calls ::
  "'rs range_set_ops \<Rightarrow> (read_call + write_call) list \<Rightarrow> 'rs stream \<Rightarrow>
   (((read_reply + write_reply) \<times> effect list) list \<times> 'rs stream) result"
where
  "run_calls ops [] st = Ok ([], st)"
| "run_calls ops (c # cs) st =
     and_then (whole_stream_call ops c st) (\<lambda>(r, st1, es).
     and_then (run_calls ops cs st1) (\<lambda>(rs, st2). Ok ((r, es) # rs, st2)))"

lemma run_calls_Cons_Ok:
  "run_calls ops (c # cs) st = Ok (rs, st2) \<longleftrightarrow>
     (\<exists>r st1 es rs'. whole_stream_call ops c st = Ok (r, st1, es) \<and> run_calls ops cs st1 = Ok (rs', st2)
        \<and> rs = (r, es) # rs')"
  by (auto simp: and_then_eq_Ok_iff)

text \<open>The second state differs from the first only in what calls change.\<close>

definition side_change :: "'rs stream \<Rightarrow> 'rs stream \<Rightarrow> bool" where
  "side_change st st' \<longleftrightarrow>
     st' = write_side st' (st_start_waiters st') (read_side st' (st_start_waiters st') st)"

lemma side_change_refl: "side_change st st"
  by (cases st) (simp add: side_change_def write_side_def read_side_def)

lemma side_change_read: "side_change st (read_side fr ws st)"
  by (cases st) (simp add: side_change_def write_side_def read_side_def)

lemma side_change_write: "side_change st (write_side fr ws st)"
  by (cases st) (simp add: side_change_def write_side_def read_side_def)

lemma side_change_trans: "side_change st st1 \<Longrightarrow> side_change st1 st2 \<Longrightarrow> side_change st st2"
  by (cases st; cases st1; cases st2) (simp add: side_change_def write_side_def read_side_def)

lemma side_change_same:
  assumes "side_change st st1" "side_change st st2" "read_view st1 = read_view st2"
    "write_view st1 = write_view st2" "mset (st_start_waiters st1) = mset (st_start_waiters st2)"
  shows "same_but_start_order st1 st2"
  using assms
  by (cases st; cases st1; cases st2)
    (simp add: side_change_def same_but_start_order_def write_side_def read_side_def read_view_def write_view_def)

text \<open>A call through a half does to any stream of the same view what it does to one of them.\<close>

lemma read_call_step:
  assumes "read_view st = read_view fr" "whole_stream_call ops (Inl c) fr = Ok (r, fr1, es)"
  shows "\<exists>st1. whole_stream_call ops (Inl c) st = Ok (r, st1, es) \<and> read_view st1 = read_view fr1
    \<and> write_view st1 = write_view st \<and> side_change st st1
    \<and> mset (st_start_waiters st1) + mset (st_start_waiters fr) = mset (st_start_waiters st) + mset (st_start_waiters fr1)"
proof -
  obtain r0 where r: "read_stream_call ops c fr = Ok (r0, fr1, es)" "r = Inl r0"
    using assms(2) by (auto simp: replies_def map_result_eq_Ok_iff split: prod.splits)
  let ?st1 = "read_side fr1 (st_start_waiters st @ read_waits c fr) st"
  have st: "read_stream_call ops c st = Ok (r0, ?st1, es)"
    using read_call_frame [OF assms(1), of ops c] r(1) by (simp add: on_read_side_def)
  note fr1 = read_call_after [OF r(1)]
  have "st_conn_error fr1 = st_conn_error fr" "st_recv_error_code fr1 = st_recv_error_code fr"
    "st_start_waiters fr1 = st_start_waiters fr @ read_waits c fr"
    by (subst fr1, simp add: read_side_def)+
  moreover have "read_view ?st1 = read_view fr1"
    using assms(1) calculation(1,2) by (simp add: read_view_def read_side_def)
  ultimately show ?thesis
    using st r(2) side_change_read read_call_keeps_write_view [OF st] by (auto simp: replies_def)
qed

lemma write_call_step:
  assumes "write_view st = write_view fr" "whole_stream_call ops (Inr c) fr = Ok (r, fr1, es)"
  shows "\<exists>st1. whole_stream_call ops (Inr c) st = Ok (r, st1, es) \<and> write_view st1 = write_view fr1
    \<and> read_view st1 = read_view st \<and> side_change st st1
    \<and> mset (st_start_waiters st1) + mset (st_start_waiters fr) = mset (st_start_waiters st) + mset (st_start_waiters fr1)"
proof -
  obtain r0 where r: "write_stream_call c fr = Ok (r0, fr1, es)" "r = Inr r0"
    using assms(2) by (auto simp: replies_def map_result_eq_Ok_iff split: prod.splits)
  let ?st1 = "write_side fr1 (st_start_waiters st @ write_waits c fr) st"
  have st: "write_stream_call c st = Ok (r0, ?st1, es)"
    using write_call_frame [OF assms(1), of c] r(1) by (simp add: on_write_side_def)
  note fr1 = write_call_after [OF r(1)]
  have "st_conn_error fr1 = st_conn_error fr" "st_send_error_code fr1 = st_send_error_code fr"
    "st_start_waiters fr1 = st_start_waiters fr @ write_waits c fr"
    by (subst fr1, simp add: write_side_def)+
  moreover have "write_view ?st1 = write_view fr1"
    using assms(1) calculation(1,2) by (simp add: write_view_def write_side_def)
  ultimately show ?thesis
    using st r(2) side_change_write write_call_keeps_read_view [OF st] by (auto simp: replies_def)
qed

text \<open>What a half does alone does not panic either.\<close>

lemma run_reads_alone:
  "run_calls ops cs st = Ok (rs, st') \<Longrightarrow> read_view fr = read_view st \<Longrightarrow>
   \<exists>rr fr'. run_calls ops (filter isl cs) fr = Ok (rr, fr')"
proof (induction cs arbitrary: st fr rs)
  case (Cons c cs)
  then obtain r st1 es rs1 where c: "whole_stream_call ops c st = Ok (r, st1, es)"
    "run_calls ops cs st1 = Ok (rs1, st')"
    by (auto simp: run_calls_Cons_Ok simp del: run_calls.simps)
  show ?case
  proof (cases c)
    case (Inl a)
    then obtain fr1 where "whole_stream_call ops c fr = Ok (r, fr1, es)" "read_view fr1 = read_view st1"
      using read_call_step [OF Cons.prems(2), of ops a r st1 es] c(1) by blast
    then show ?thesis using Cons.IH [OF c(2)] Inl by fastforce
  next
    case (Inr b)
    then have "read_view st1 = read_view st"
      using write_call_step [of st st ops b r st1 es] c(1) by auto
    then show ?thesis using Cons.IH [OF c(2)] Cons.prems(2) Inr by simp
  qed
qed simp

lemma run_writes_alone:
  "run_calls ops cs st = Ok (rs, st') \<Longrightarrow> write_view fr = write_view st \<Longrightarrow>
   \<exists>rr fr'. run_calls ops (filter (\<lambda>c. \<not> isl c) cs) fr = Ok (rr, fr')"
proof (induction cs arbitrary: st fr rs)
  case (Cons c cs)
  then obtain r st1 es rs1 where c: "whole_stream_call ops c st = Ok (r, st1, es)"
    "run_calls ops cs st1 = Ok (rs1, st')"
    by (auto simp: run_calls_Cons_Ok simp del: run_calls.simps)
  show ?case
  proof (cases c)
    case (Inr a)
    then obtain fr1 where "whole_stream_call ops c fr = Ok (r, fr1, es)" "write_view fr1 = write_view st1"
      using write_call_step [OF Cons.prems(2), of ops a r st1 es] c(1) by blast
    then show ?thesis using Cons.IH [OF c(2)] Inr by fastforce
  next
    case (Inl b)
    then have "write_view st1 = write_view st"
      using read_call_step [of st st ops b r st1 es] c(1) by auto
    then show ?thesis using Cons.IH [OF c(2)] Cons.prems(2) Inl by simp
  qed
qed simp

lemma exchange_counts:
  fixes s s0 s1 f0 f1 w x :: "nat multiset"
  assumes "s + (f1 + w) = s1 + x" "s1 + f0 = s0 + f1"
  shows "s + (f0 + w) = s0 + x"
proof -
  have "s + (f0 + w) + f1 = s0 + x + f1"
    using assms by (metis (no_types, opaque_lifting) add.assoc add.commute)
  then show ?thesis by simp
qed

text \<open>An interleaving does what its two halves do alone.\<close>

lemma run_merged:
  assumes "run_calls ops (filter isl cs) fr = Ok (rr, fr')"
    and "run_calls ops (filter (\<lambda>c. \<not> isl c) cs) fw = Ok (ww, fw')"
    and "read_view st = read_view fr" "write_view st = write_view fw"
  shows "\<exists>rs st'. run_calls ops cs st = Ok (rs, st') \<and> filter (\<lambda>x. isl (fst x)) rs = rr
    \<and> filter (\<lambda>x. \<not> isl (fst x)) rs = ww \<and> side_change st st'
    \<and> read_view st' = read_view fr' \<and> write_view st' = write_view fw'
    \<and> mset (st_start_waiters st') + (mset (st_start_waiters fr) + mset (st_start_waiters fw))
      = mset (st_start_waiters st) + (mset (st_start_waiters fr') + mset (st_start_waiters fw'))"
  using assms
proof (induction cs arbitrary: st fr fw rr ww)
  case Nil
  then show ?case using side_change_refl by simp
next
  case (Cons c cs)
  show ?case
  proof (cases c)
    case (Inl a)
    obtain r fr1 es rr1 where fr: "whole_stream_call ops c fr = Ok (r, fr1, es)"
      "run_calls ops (filter isl cs) fr1 = Ok (rr1, fr')" "rr = (r, es) # rr1"
      using Cons.prems(1) Inl by (auto simp: run_calls_Cons_Ok simp del: run_calls.simps whole_stream_call.simps)
    obtain st1 where st1: "whole_stream_call ops c st = Ok (r, st1, es)" "read_view st1 = read_view fr1"
      "write_view st1 = write_view st" "side_change st st1"
      "mset (st_start_waiters st1) + mset (st_start_waiters fr) = mset (st_start_waiters st) + mset (st_start_waiters fr1)"
      using read_call_step [OF Cons.prems(3), of ops a r fr1 es] fr(1) Inl by blast
    have r: "isl r"
      using fr(1) Inl by (auto simp: replies_def map_result_eq_Ok_iff split: prod.splits)
    have "run_calls ops (filter (\<lambda>c. \<not> isl c) cs) fw = Ok (ww, fw')" using Cons.prems(2) Inl by simp
    from Cons.IH [OF fr(2) this st1(2)] obtain rs st' where rs: "run_calls ops cs st1 = Ok (rs, st')"
      "filter (\<lambda>x. isl (fst x)) rs = rr1" "filter (\<lambda>x. \<not> isl (fst x)) rs = ww" "side_change st1 st'"
      "read_view st' = read_view fr'" "write_view st' = write_view fw'"
      "mset (st_start_waiters st') + (mset (st_start_waiters fr1) + mset (st_start_waiters fw))
        = mset (st_start_waiters st1) + (mset (st_start_waiters fr') + mset (st_start_waiters fw'))"
      using st1(3) Cons.prems(4) by auto
    have "run_calls ops (c # cs) st = Ok ((r, es) # rs, st')" using st1(1) rs(1) by simp
    moreover have "mset (st_start_waiters st') + (mset (st_start_waiters fr) + mset (st_start_waiters fw))
        = mset (st_start_waiters st) + (mset (st_start_waiters fr') + mset (st_start_waiters fw'))"
      using rs(7) st1(5) by (rule exchange_counts)
    ultimately show ?thesis
      using rs(2-6) r fr(3) side_change_trans [OF st1(4) rs(4)] by auto
  next
    case (Inr a)
    obtain r fw1 es ww1 where fw: "whole_stream_call ops c fw = Ok (r, fw1, es)"
      "run_calls ops (filter (\<lambda>c. \<not> isl c) cs) fw1 = Ok (ww1, fw')" "ww = (r, es) # ww1"
      using Cons.prems(2) Inr by (auto simp: run_calls_Cons_Ok simp del: run_calls.simps whole_stream_call.simps)
    obtain st1 where st1: "whole_stream_call ops c st = Ok (r, st1, es)" "write_view st1 = write_view fw1"
      "read_view st1 = read_view st" "side_change st st1"
      "mset (st_start_waiters st1) + mset (st_start_waiters fw) = mset (st_start_waiters st) + mset (st_start_waiters fw1)"
      using write_call_step [OF Cons.prems(4), of ops a r fw1 es] fw(1) Inr by blast
    have r: "\<not> isl r"
      using fw(1) Inr by (auto simp: replies_def map_result_eq_Ok_iff split: prod.splits)
    have "run_calls ops (filter isl cs) fr = Ok (rr, fr')" using Cons.prems(1) Inr by simp
    from Cons.IH [OF this fw(2) _ st1(2)] obtain rs st' where rs: "run_calls ops cs st1 = Ok (rs, st')"
      "filter (\<lambda>x. isl (fst x)) rs = rr" "filter (\<lambda>x. \<not> isl (fst x)) rs = ww1" "side_change st1 st'"
      "read_view st' = read_view fr'" "write_view st' = write_view fw'"
      "mset (st_start_waiters st') + (mset (st_start_waiters fr) + mset (st_start_waiters fw1))
        = mset (st_start_waiters st1) + (mset (st_start_waiters fr') + mset (st_start_waiters fw'))"
      using st1(3) Cons.prems(3) by auto
    have "run_calls ops (c # cs) st = Ok ((r, es) # rs, st')" using st1(1) rs(1) by simp
    moreover have "mset (st_start_waiters st') + (mset (st_start_waiters fr) + mset (st_start_waiters fw))
        = mset (st_start_waiters st) + (mset (st_start_waiters fr') + mset (st_start_waiters fw'))"
      using exchange_counts [OF rs(7) [unfolded add.commute [of "mset (st_start_waiters fr)"]] st1(5)]
      by (simp add: ac_simps)
    ultimately show ?thesis
      using rs(2-6) r fw(3) side_change_trans [OF st1(4) rs(4)] by auto
  qed
qed

section \<open>What a half cannot do\<close>

text \<open>The effects that concern the sending side of the stream.\<close>

fun sends_something :: "effect \<Rightarrow> bool" where
  "sends_something (StreamSend bufs fin) = True"
| "sends_something (StreamShutdown flag code) = (flag \<noteq> AbortReceive)"
| "sends_something _ = False"

lemma completions_send_nothing:
  "completions ops bs m cur = (m', cur', es) \<Longrightarrow> e \<in> set es \<Longrightarrow> \<not> sends_something e"
proof (induction ops bs m cur arbitrary: m' cur' es rule: completions.induct)
  case (2 ops b bs m cur)
  obtain m1 cur1 es1 where c1: "completion ops b m cur = (m1, cur1, es1)" by (cases "completion ops b m cur")
  have "\<not> sends_something x" if "x \<in> set es1" for x
    using c1 that by (auto simp: completion_def Let_def split: prod.splits option.splits if_splits)
  show ?case
  proof (cases "rb_stream b")
    case True
    obtain m2 cur2 es2 where c2: "completions ops bs m1 cur1 = (m2, cur2, es2)"
      by (cases "completions ops bs m1 cur1")
    then have "es = es1 @ es2" using "2.prems"(1) c1 True by simp
    moreover have "\<not> sends_something e" if "e \<in> set es2"
      using "2.IH"(1) [OF True refl c1 [symmetric] refl c2 that] .
    ultimately show ?thesis
      using \<open>\<And>x. x \<in> set es1 \<Longrightarrow> \<not> sends_something x\<close> "2.prems"(2) by auto
  next
    case False
    then show ?thesis using "2.IH"(2) "2.prems" by simp
  qed
qed simp

lemma read_call_sends_nothing:
  assumes "read_stream_call ops c st = Ok (r, st1, es)" "e \<in> set es"
  shows "\<not> sends_something e"
proof (cases c)
  case (ReadInto w cap)
  then obtain r' fr cs where "poll_read_generic w (\<lambda>bufs. read_loop cap bufs [] False []) st = Ok (r', fr, cs)"
    "drop_recv_buffers ops cs fr = (st1, es)"
    using assms(1)
    by (cases "poll_read_generic w (\<lambda>bufs. read_loop cap bufs [] False []) st")
      (auto simp: stream_poll_read_def replies_def split: prod.splits)
  then show ?thesis
    using completions_send_nothing [OF _ assms(2)]
    by (auto simp: drop_recv_buffers_completions split: prod.splits)
next
  case (ReadNextChunk w)
  then show ?thesis
    using assms by (cases "poll_read_generic w pop_chunk st")
      (auto simp: stream_poll_read_chunk_def replies_def split: prod.splits)
qed (use assms in \<open>auto simp: stream_poll_abort_read_def stream_abort_read_def
  replies_def and_then_eq_Ok_iff split: prod.splits recv_state.splits option.splits if_splits\<close>)

end
