(* ===== verification/Endpoints.thy ===== *)
theory Endpoints
  imports Quic_Listener Net_Layer Types Pkcs12
begin

text \<open>
  The two implementations of the traits of \<open>transport-layer/src/lib.rs\<close>: over msquic
  (\<open>msquic/mod.rs\<close> and \<open>quic_settings.rs\<close>, on the connections and listeners of the asynchronous binding) and over
  WebTransport (\<open>wtransport/mod.rs\<close>), and the accept loop of \<open>LiteServer\<close> (\<open>server.rs\<close>). What the TLS and
  QUIC libraries return is an argument; \<open>sha256\<close> is the hash of \<open>cert_hash\<close>.

  A task that awaits a future of a connection polls it; while it is pending, events of the library
  change the connection, in batches between one poll and the next.
\<close>

section \<open>Awaiting on a connection\<close>

fun handle_events ::
  "'rs range_set_ops \<Rightarrow> connection_event list \<Rightarrow> 'rs connection \<Rightarrow> 'rs connection result" where
  "handle_events ops [] c = Ok c"
| "handle_events ops (ev # evs) c =
     and_then (connection_callback ops ev c) (\<lambda>(c', _). handle_events ops evs c')"

text \<open>\<open>None\<close>: still pending after the given batches.\<close>

fun await ::
  "'rs range_set_ops \<Rightarrow> ('rs connection \<Rightarrow> ('a poll \<times> 'rs connection \<times> effect list) result) \<Rightarrow>
   connection_event list list \<Rightarrow> 'rs connection \<Rightarrow> ('a \<times> 'rs connection) option result" where
  "await ops poll [] c =
     and_then (poll c) (\<lambda>(p, c', _). Ok (case p of Ready x \<Rightarrow> Some (x, c') | Pending \<Rightarrow> None))"
| "await ops poll (evs # batches) c =
     and_then (poll c) (\<lambda>(p, c', _). case p of
       Ready x \<Rightarrow> Ok (Some (x, c'))
     | Pending \<Rightarrow> and_then (handle_events ops evs c') (await ops poll batches))"

text \<open>\<open>future.await?\<close>: the value, with errors mapped, or the end of the function.\<close>

definition await_ok ::
  "('e \<Rightarrow> 'f) \<Rightarrow> (('e + 'a) \<times> 'rs connection) option result \<Rightarrow>
   ('a \<Rightarrow> 'rs connection \<Rightarrow> ('f + 'b) option result) \<Rightarrow> ('f + 'b) option result" where
  "await_ok err r go = and_then r (\<lambda>x. case x of
     None \<Rightarrow> Ok None
   | Some (Inl e, _) \<Rightarrow> Ok (Some (Inl (err e)))
   | Some (Inr y, c) \<Rightarrow> go y c)"

section \<open>msquic\<close>

datatype net_error =
    NetPkcs12
  | NetConfiguration status
  | NetTls
  | NetConnection connection_error
  | NetStart conn_start_error
  | NetStream start_error
  | NetListen listen_error
  | NetLibrary

record 'rs msquic_connection =
  mc_inner :: "'rs connection"
  mc_local_identity :: string
  mc_remote_identity :: string

record 'rs msquic_listener =
  ml_instance :: "'rs listener_inner"
  ml_local_identity :: string

record 'rs msquic_incoming_request =
  mi_connection :: "'rs connection"
  mi_local_identity :: string

text \<open>The configuration of an endpoint (\<open>msquic/quic_settings.rs\<close>); \<open>None\<close>: not set.\<close>

datatype resumption_level = NoResume | ResumeOnly | ResumeAndZerortt

record settings =
  se_server_resumption_level :: "resumption_level option"
  se_peer_bidi_stream_count :: "nat option"
  se_peer_unidi_stream_count :: "nat option"
  se_initial_rtt_ms :: "nat option"
  se_idle_timeout_ms :: "nat option"
  se_max_ack_delay_ms :: "nat option"

definition settings_new :: settings where
  "settings_new = \<lparr>se_server_resumption_level = None, se_peer_bidi_stream_count = None,
     se_peer_unidi_stream_count = None, se_initial_rtt_ms = None, se_idle_timeout_ms = None,
     se_max_ack_delay_ms = None\<rparr>"

definition build_settings :: settings where
  "build_settings = settings_new
     \<lparr>se_server_resumption_level := Some ResumeAndZerortt, se_peer_bidi_stream_count := Some 0,
      se_peer_unidi_stream_count := Some 300, se_initial_rtt_ms := Some 2, se_idle_timeout_ms := Some 0,
      se_max_ack_delay_ms := Some 1\<rparr>"

record credential_config =
  cc_flags :: "credential_flag set"
  cc_pkcs12 :: "u8 list"

definition build_credential ::
  "crypto \<Rightarrow> rng \<Rightarrow> config_factory \<Rightarrow> net_credential \<Rightarrow> (net_error + credential_config) result" where
  "build_credential cr rng factory credential =
     and_then (build_pkcs12 cr rng (my_certs credential) (my_key credential)) (\<lambda>pkcs12.
       Ok (case pkcs12 of
             None \<Rightarrow> Inl NetPkcs12
           | Some der \<Rightarrow> Inr \<lparr>cc_flags = credential_flags factory, cc_pkcs12 = der\<rparr>))"

record configuration =
  cf_alpn :: "string list"
  cf_settings :: settings
  cf_credential :: credential_config

text \<open>
  What the calls of the library return, and what the container is built with: opening a
  configuration and loading its credential, opening a connection or listener, and starting it.
\<close>

record msquic_env =
  me_crypto :: crypto
  me_rng :: rng
  me_open :: "string list \<Rightarrow> settings \<Rightarrow> status option"
  me_load :: "credential_config \<Rightarrow> status option"
  me_new :: "status option"
  me_start :: "status option"

definition config_build ::
  "msquic_env \<Rightarrow> config_factory \<Rightarrow> string list \<Rightarrow> net_credential \<Rightarrow> (net_error + configuration) result" where
  "config_build env factory alpn credential =
     and_then (build_credential (me_crypto env) (me_rng env) factory credential) (\<lambda>r.
       Ok (case r of
             Inl e \<Rightarrow> Inl e
           | Inr cred \<Rightarrow>
               (case me_open env alpn build_settings of
                  Some s \<Rightarrow> Inl (NetConfiguration s)
                | None \<Rightarrow>
                    (case me_load env cred of
                       Some s \<Rightarrow> Inl (NetConfiguration s)
                     | None \<Rightarrow> Inr \<lparr>cf_alpn = alpn, cf_settings = build_settings, cf_credential = cred\<rparr>))))"

definition msquic_create_listener ::
  "msquic_env \<Rightarrow> (u8 list \<Rightarrow> u8 list) \<Rightarrow> string list \<Rightarrow> net_credential \<Rightarrow>
   (net_error + 'rs msquic_listener) result" where
  "msquic_create_listener env sha256 alpn credential =
     and_then (config_build env ServerConfig alpn credential) (\<lambda>config.
       Ok (case config of
             Inl e \<Rightarrow> Inl e
           | Inr _ \<Rightarrow>
               (case fst (listener_new (me_new env)) of
                  Inl e \<Rightarrow> Inl (NetListen e)
                | Inr l \<Rightarrow>
                    (case listener_start (me_start env) l of
                       (Inl e, _, _) \<Rightarrow> Inl (NetListen e)
                     | (Inr _, l', _) \<Rightarrow>
                         Inr \<lparr>ml_instance = l', ml_local_identity = identity sha256 credential\<rparr>))))"

text \<open>What both sides do once the connection is there: wait for the certificate of the peer.\<close>

definition identify_peer ::
  "'rs range_set_ops \<Rightarrow> (u8 list \<Rightarrow> u8 list) \<Rightarrow> waker \<Rightarrow> connection_event list list \<Rightarrow> string \<Rightarrow>
   'rs connection \<Rightarrow> (net_error + 'rs msquic_connection) option result" where
  "identify_peer ops sha256 w batches local_identity c =
     await_ok NetStart (await ops (poll_receive_remote_certificate w) batches c) (\<lambda>remote_cert c'.
       Ok (Some (Inr \<lparr>mc_inner = c', mc_local_identity = local_identity,
         mc_remote_identity = hex_encode (sha256 remote_cert)\<rparr>)))"

definition msquic_connect ::
  "'rs range_set_ops \<Rightarrow> msquic_env \<Rightarrow> (u8 list \<Rightarrow> u8 list) \<Rightarrow> waker \<Rightarrow>
   connection_event list list \<Rightarrow> connection_event list list \<Rightarrow> string list \<Rightarrow> net_credential \<Rightarrow>
   (net_error + 'rs msquic_connection) option result" where
  "msquic_connect ops env sha256 w starting identifying alpn credential =
     and_then (config_build env ClientConfig alpn credential) (\<lambda>config.
       case config of
         Inl e \<Rightarrow> Ok (Some (Inl e))
       | Inr _ \<Rightarrow>
           (case connection_new (me_new env) of
              Inl e \<Rightarrow> Ok (Some (Inl (NetConnection e)))
            | Inr conn \<Rightarrow>
                await_ok NetStart (await ops (connection_poll_start w (me_start env)) starting conn) (\<lambda>_ conn.
                  identify_peer ops sha256 w identifying (identity sha256 credential) conn)))"

definition msquic_listener_accept ::
  "waker \<Rightarrow> 'rs msquic_listener \<Rightarrow>
   ((net_error + 'rs msquic_incoming_request) poll \<times> 'rs msquic_listener) result" where
  "msquic_listener_accept w l =
     and_then (listener_poll_accept w (ml_instance l)) (\<lambda>(p, l', _).
       Ok (map_poll (map_sum NetListen (\<lambda>(_, c). \<lparr>mi_connection = c,
             mi_local_identity = ml_local_identity l\<rparr>)) p, l\<lparr>ml_instance := l'\<rparr>))"

definition msquic_request_accept ::
  "'rs range_set_ops \<Rightarrow> (u8 list \<Rightarrow> u8 list) \<Rightarrow> waker \<Rightarrow> connection_event list list \<Rightarrow>
   connection_event list list \<Rightarrow> 'rs msquic_incoming_request \<Rightarrow>
   (net_error + 'rs msquic_connection) option result" where
  "msquic_request_accept ops sha256 w starting identifying r =
     await_ok NetStart (await ops (connection_poll_accept w) starting (mi_connection r)) (\<lambda>_ conn.
       identify_peer ops sha256 w identifying (mi_local_identity r) conn)"

text \<open>The address the library reports may be of another family.\<close>

definition get_socket_addr ::
  "status + socket_addr option \<Rightarrow> (connection_error + socket_addr) result" where
  "get_socket_addr reported =
     (case reported of
        Inl s \<Rightarrow> Ok (Inl (ConnectionOtherError s))
      | Inr None \<Rightarrow> Panic UnwrapFailed
      | Inr (Some a) \<Rightarrow> Ok (Inr a))"

definition msquic_addr :: "status + socket_addr option \<Rightarrow> socket_addr result" where
  "msquic_addr reported = and_then (get_socket_addr reported) (\<lambda>r.
     Ok (case r of Inr a \<Rightarrow> a | Inl _ \<Rightarrow> SocketAddrV4 0 0))"

definition msquic_alpn_negotiated :: "'rs msquic_connection \<Rightarrow> u8 list option" where
  "msquic_alpn_negotiated c = get_negotiated_alpn (mc_inner c)"

definition msquic_accept_recv ::
  "'rs range_set_ops \<Rightarrow> waker \<Rightarrow> connection_event list list \<Rightarrow> 'rs msquic_connection \<Rightarrow>
   (net_error + handle \<times> 'rs stream) option result" where
  "msquic_accept_recv ops w batches c =
     await_ok NetStream (await ops (poll_accept_inbound_uni_stream w) batches (mc_inner c))
       (\<lambda>stream _. Ok (Some (Inr stream)))"

definition msquic_close :: "u64 \<Rightarrow> 'rs msquic_connection \<Rightarrow> 'rs msquic_connection \<times> effect list" where
  "msquic_close code c =
     (case connection_shutdown code (mc_inner c) of (_, c', es) \<Rightarrow> (c\<lparr>mc_inner := c'\<rparr>, es))"

section \<open>WebTransport\<close>

record wt_transport =
  wt_debug_tls_mode :: bool

definition with_debug_tls_mode :: "bool \<Rightarrow> wt_transport \<Rightarrow> wt_transport" where
  "with_debug_tls_mode mode t = t\<lparr>wt_debug_tls_mode := mode\<rparr>"

text \<open>
  The debug mode takes every certificate and every signature of the handshake, so a peer does not
  have to hold the key of the certificate it shows (\<open>wtransport/tls.rs\<close>). \<open>signature_ok\<close> is the
  library's check.
\<close>

datatype signature_scheme =
    RSA_PKCS1_SHA1 | ECDSA_SHA1_Legacy | RSA_PKCS1_SHA256 | ECDSA_NISTP256_SHA256 | RSA_PKCS1_SHA384
  | ECDSA_NISTP384_SHA384 | RSA_PKCS1_SHA512 | ECDSA_NISTP521_SHA512 | RSA_PSS_SHA256 | RSA_PSS_SHA384
  | RSA_PSS_SHA512 | ED25519 | ED448

fun supported_verify_schemes :: "signature_scheme list \<Rightarrow> cert_verifier \<Rightarrow> signature_scheme list" where
  "supported_verify_schemes library_schemes NoCertVerification =
     [RSA_PKCS1_SHA1, ECDSA_SHA1_Legacy, RSA_PKCS1_SHA256, ECDSA_NISTP256_SHA256, RSA_PKCS1_SHA384,
      ECDSA_NISTP384_SHA384, RSA_PKCS1_SHA512, ECDSA_NISTP521_SHA512, RSA_PSS_SHA256, RSA_PSS_SHA384,
      RSA_PSS_SHA512, ED25519, ED448]"
| "supported_verify_schemes library_schemes (RootCertificates roots) = library_schemes"

fun verify_signature ::
  "(u8 list \<Rightarrow> u8 list \<Rightarrow> u8 list \<Rightarrow> bool) \<Rightarrow> cert_verifier \<Rightarrow> u8 list \<Rightarrow> u8 list \<Rightarrow> u8 list \<Rightarrow> bool" where
  "verify_signature signature_ok NoCertVerification message cert signature = True"
| "verify_signature signature_ok (RootCertificates roots) message cert signature =
     signature_ok message cert signature"

lemma debug_mode_unauthenticated:
  "cert_accepted chain_ok (wt_cert_verifier True credential) chain
    \<and> verify_signature signature_ok (wt_cert_verifier True credential) message cert signature"
  by (simp add: wt_cert_verifier_def)

text \<open>A connection of the library: the certificates the peer presented, the addresses.\<close>

record wt_library_connection =
  wl_peer_identity :: "u8 list list option"
  wl_remote_addr :: socket_addr
  wl_local_addr :: "socket_addr option"

record wt_connection =
  wc_connection :: wt_library_connection
  wc_local_addr :: socket_addr
  wc_local_identity :: string
  wc_alpn_negotiated :: "string option"

text \<open>
  The configuration of the server; \<open>dflt\<close> is the library's default. Times are in milliseconds.
\<close>

record quic_transport_config =
  qt_max_concurrent_uni_streams :: nat
  qt_keep_alive_interval :: "nat option"
  qt_max_idle_timeout :: "nat option"
  qt_send_window :: nat
  qt_bbr :: bool

record wt_server_config =
  sc_bind_address :: socket_addr
  sc_verifier :: cert_verifier
  sc_transport :: quic_transport_config
  sc_max_udp_payload_size :: nat
  sc_min_reset_interval :: nat

definition wt_build_server_config ::
  "quic_transport_config \<Rightarrow> socket_addr \<Rightarrow> cert_verifier \<Rightarrow> wt_server_config" where
  "wt_build_server_config dflt bind_addr verifier =
     (let quic_transport_config = dflt\<lparr>qt_max_concurrent_uni_streams := 1000\<rparr>;
          server_config = \<lparr>sc_bind_address = bind_addr, sc_verifier = verifier,
            sc_transport = quic_transport_config
              \<lparr>qt_keep_alive_interval := Some 1500, qt_max_idle_timeout := Some 3000\<rparr>,
            sc_max_udp_payload_size = 65000, sc_min_reset_interval = 2\<rparr>;
          transport_config = dflt\<lparr>qt_bbr := True, qt_max_idle_timeout := Some 10000,
            qt_keep_alive_interval := Some 2000, qt_send_window := 2 * 1024 * 1024\<rparr>
      in server_config\<lparr>sc_transport := transport_config\<rparr>)"

text \<open>The limit on concurrent streams is set in a configuration that is then replaced.\<close>

lemma uni_stream_limit_lost:
  "qt_max_concurrent_uni_streams (sc_transport (wt_build_server_config dflt addr v))
    = qt_max_concurrent_uni_streams dflt"
  by (simp add: wt_build_server_config_def)

record wt_listener =
  wn_config :: wt_server_config
  wn_local_addr :: socket_addr
  wn_local_identity :: string
  wn_alpn_supported :: "string set"

text \<open>\<open>tls_ok\<close>: whether the library takes the verifier and the credential; \<open>binds\<close>: whether the endpoint opens.\<close>

definition wt_create_listener ::
  "(u8 list \<Rightarrow> u8 list) \<Rightarrow> (cert_verifier \<Rightarrow> net_credential \<Rightarrow> bool) \<Rightarrow> (wt_server_config \<Rightarrow> bool) \<Rightarrow>
   quic_transport_config \<Rightarrow> wt_transport \<Rightarrow> socket_addr \<Rightarrow> string list \<Rightarrow> net_credential \<Rightarrow>
   net_error + wt_listener" where
  "wt_create_listener sha256 tls_ok binds dflt t bind_addr alpn_supported credential =
     (let verifier = wt_cert_verifier (wt_debug_tls_mode t) credential;
          config = wt_build_server_config dflt bind_addr verifier in
      if \<not> tls_ok verifier credential then Inl NetTls
      else if \<not> binds config then Inl NetLibrary
      else Inr \<lparr>wn_config = config, wn_local_addr = bind_addr,
                wn_local_identity = identity sha256 credential, wn_alpn_supported = set alpn_supported\<rparr>)"

text \<open>
  The client sends its preferences in a header; the library's connection attempt gets the
  verifier and that header.
\<close>

definition wt_connect ::
  "(u8 list \<Rightarrow> u8 list) \<Rightarrow> (cert_verifier \<Rightarrow> net_credential \<Rightarrow> bool) \<Rightarrow>
   (cert_verifier \<Rightarrow> string \<Rightarrow> wt_library_connection option) \<Rightarrow> wt_transport \<Rightarrow> string list \<Rightarrow>
   net_credential \<Rightarrow> net_error + wt_connection" where
  "wt_connect sha256 tls_ok connects t alpn_preferred credential =
     (let verifier = wt_cert_verifier (wt_debug_tls_mode t) credential in
      if \<not> tls_ok verifier credential then Inl NetTls
      else case connects verifier (alpn_header alpn_preferred) of
        None \<Rightarrow> Inl NetLibrary
      | Some c \<Rightarrow>
          (case wl_local_addr c of
             None \<Rightarrow> Inl NetLibrary
           | Some a \<Rightarrow> Inr \<lparr>wc_connection = c, wc_local_addr = a,
                            wc_local_identity = identity sha256 credential,
                            wc_alpn_negotiated = None\<rparr>))"

text \<open>
  A request at the server: the header it carries, if any, and whether the library's accept
  succeeds; \<open>None\<close> when the session could not be set up. The listener hands out every one.
\<close>

record wt_incoming_request =
  wi_request :: "(string option \<times> wt_library_connection option) option"
  wi_local_addr :: socket_addr
  wi_local_identity :: string
  wi_alpn_supported :: "string set"

definition wt_listener_accept ::
  "(string option \<times> wt_library_connection option) option \<Rightarrow> wt_listener \<Rightarrow> wt_incoming_request" where
  "wt_listener_accept request l = \<lparr>wi_request = request, wi_local_addr = wn_local_addr l,
     wi_local_identity = wn_local_identity l, wi_alpn_supported = wn_alpn_supported l\<rparr>"

definition wt_request_accept :: "wt_incoming_request \<Rightarrow> net_error + wt_connection" where
  "wt_request_accept r =
     (case wi_request r of
        Some (header, Some c) \<Rightarrow>
          Inr \<lparr>wc_connection = c, wc_local_addr = wi_local_addr r,
               wc_local_identity = wi_local_identity r,
               wc_alpn_negotiated = negotiate_alpn (wi_alpn_supported r) header\<rparr>
      | _ \<Rightarrow> Inl NetLibrary)"

definition wt_connection_remote_identity ::
  "(u8 list \<Rightarrow> u8 list) \<Rightarrow> (socket_addr \<Rightarrow> string) \<Rightarrow> wt_connection \<Rightarrow> string" where
  "wt_connection_remote_identity sha256 addr_text c =
     wt_remote_identity sha256 (wl_peer_identity (wc_connection c))
       (addr_text (wl_remote_addr (wc_connection c)))"

text \<open>
  A message is the whole content of a stream of its own: what each step of sending ends in, and
  what the receiver gets, \<open>None\<close> for an error.
\<close>

definition wt_send :: "bool \<Rightarrow> (u8 list \<Rightarrow> bool) \<Rightarrow> bool \<Rightarrow> u8 list \<Rightarrow> net_error + u8 list" where
  "wt_send opens writes finishes data =
     (if opens \<and> writes data \<and> finishes then Inr data else Inl NetLibrary)"

definition wt_recv :: "u8 list option \<Rightarrow> net_error + u8 list" where
  "wt_recv stream = (case stream of Some data \<Rightarrow> Inr data | None \<Rightarrow> Inl NetLibrary)"

definition wt_close_code :: "u64 \<Rightarrow> u32" where
  "wt_close_code code = ucast code"

section \<open>The accept loop of \<open>LiteServer\<close>\<close>

text \<open>
  What each round ends in: a request with whether the session handler still receives, or an
  error, which is only logged. The result is the requests handed over and whether the loop
  ended with an error.
\<close>

datatype 'q accept_outcome = RequestAccepted 'q bool | RequestFailed

fun lite_server_accept :: "'q accept_outcome list \<Rightarrow> 'q list \<times> bool option" where
  "lite_server_accept [] = ([], None)"
| "lite_server_accept (RequestAccepted q receiving # os) =
     (if receiving then let (qs, r) = lite_server_accept os in (q # qs, r) else ([], Some True))"
| "lite_server_accept (RequestFailed # os) = lite_server_accept os"

text \<open>\<open>server\<close>: the listener is created first.\<close>

definition lite_server :: "net_error + 'l \<Rightarrow> 'q accept_outcome list \<Rightarrow> 'q list \<times> bool option" where
  "lite_server listener os = (case listener of Inl _ \<Rightarrow> ([], Some True) | Inr _ \<Rightarrow> lite_server_accept os)"

section \<open>Which certificates are seen\<close>

definition certificates_in :: "connection_event list \<Rightarrow> u8 list set" where
  "certificates_in evs = {cert. CevPeerCertificateReceived (Some cert) \<in> set evs}"

definition known_certificate :: "'rs connection \<Rightarrow> u8 list set" where
  "known_certificate c = set_option (cn_certificate c)"

lemma connection_callback_certificate:
  "connection_callback ops ev c = Ok (c', es) \<Longrightarrow>
   known_certificate c' \<subseteq> known_certificate c \<union> certificates_in [ev]"
  by (cases ev) (auto simp: known_certificate_def certificates_in_def handle_event_connected_def
      handle_event_shutdown_initiated_by_transport_def handle_event_shutdown_initiated_by_peer_def
      shutdown_initiated_def connection_shutdown_complete_def handle_event_peer_stream_started_def
      handle_event_datagram_received_def handle_event_datagram_send_state_changed_def
      handle_event_peer_certificate_received_def Let_def split: prod.splits if_splits option.splits)

lemma certificates_in_append: "certificates_in (xs @ ys) = certificates_in xs \<union> certificates_in ys"
  by (auto simp: certificates_in_def)

lemma certificates_in_Cons: "certificates_in (ev # evs) = certificates_in [ev] \<union> certificates_in evs"
  by (auto simp: certificates_in_def)

lemma handle_events_certificate:
  "handle_events ops evs c = Ok c' \<Longrightarrow>
   known_certificate c' \<subseteq> known_certificate c \<union> certificates_in evs"
proof (induction ops evs c rule: handle_events.induct)
  case (2 ops ev evs c)
  then obtain c1 es where c1: "connection_callback ops ev c = Ok (c1, es)" "handle_events ops evs c1 = Ok c'"
    by (auto simp: and_then_eq_Ok_iff)
  show ?case
    using "2.IH" [OF c1(2)] connection_callback_certificate [OF c1(1)] certificates_in_Cons [of ev evs]
    by blast
qed simp

text \<open>An operation that does not touch the certificate, and what it may answer with.\<close>

definition reads_certificate ::
  "('rs connection \<Rightarrow> ('a poll \<times> 'rs connection \<times> effect list) result) \<Rightarrow> ('a \<Rightarrow> u8 list set) \<Rightarrow> bool" where
  "reads_certificate poll used \<longleftrightarrow> (\<forall>c p c' es. poll c = Ok (p, c', es) \<longrightarrow>
     known_certificate c' = known_certificate c \<and> (\<forall>x. p = Ready x \<longrightarrow> used x \<subseteq> known_certificate c))"

lemma await_certificate:
  assumes "reads_certificate poll used" "await ops poll batches c = Ok (Some (x, c'))"
  shows "known_certificate c' \<union> used x \<subseteq> known_certificate c \<union> certificates_in (concat batches)"
  using assms(2)
proof (induction batches arbitrary: c)
  case Nil
  then obtain p c1 es where p: "poll c = Ok (p, c1, es)"
    by (auto simp: and_then_eq_Ok_iff)
  then have "p = Ready x" "c1 = c'" using Nil by (cases p; simp)+
  then show ?case
    using assms(1) p unfolding reads_certificate_def by blast
next
  case (Cons evs batches)
  obtain p c1 es where p: "poll c = Ok (p, c1, es)"
    using Cons.prems by (auto simp: and_then_eq_Ok_iff)
  then have same: "known_certificate c1 = known_certificate c" "\<And>y. p = Ready y \<Longrightarrow> used y \<subseteq> known_certificate c"
    using assms(1) unfolding reads_certificate_def by blast+
  show ?case
  proof (cases p)
    case (Ready y)
    then show ?thesis using Cons.prems p same by auto
  next
    case Pending
    then obtain c2 where "handle_events ops evs c1 = Ok c2" "await ops poll batches c2 = Ok (Some (x, c'))"
      using Cons.prems p by (auto simp: and_then_eq_Ok_iff)
    then show ?thesis
      using Cons.IH handle_events_certificate same(1) certificates_in_append [of evs "concat batches"]
      by fastforce
  qed
qed

lemma polls_read_certificate:
  "reads_certificate (connection_poll_start w ret) (\<lambda>_. {})"
  "reads_certificate (connection_poll_accept w) (\<lambda>_. {})"
  "reads_certificate (poll_receive_remote_certificate w) (case_sum (\<lambda>_. {}) (\<lambda>cert. {cert}))"
  by (auto simp: reads_certificate_def known_certificate_def connection_poll_start_def
      connection_poll_accept_def poll_receive_remote_certificate_def wait_start_def connection_lost_def
      split: connection_state.splits option.splits if_splits)

lemma await_ok_Inr:
  assumes "await_ok err r go = Ok (Some (Inr y))"
  obtains x c where "r = Ok (Some (Inr x, c))" "go x c = Ok (Some (Inr y))"
proof (cases r)
  case (Ok o1)
  then obtain z c where "o1 = Some (z, c)"
    using assms by (cases o1) (auto simp: await_ok_def)
  then show thesis
    using assms Ok that by (cases z) (auto simp: await_ok_def)
qed (use assms in \<open>simp_all add: await_ok_def\<close>)

text \<open>
  A connection of a node with credential \<open>own\<close> to a peer that presented the certificate \<open>peer\<close>,
  whichever side opened it.
\<close>

definition msquic_established ::
  "(u8 list \<Rightarrow> u8 list) \<Rightarrow> net_credential \<Rightarrow> u8 list set \<Rightarrow> 'rs msquic_connection \<Rightarrow> bool" where
  "msquic_established sha256 own seen c \<longleftrightarrow>
     (\<exists>ops w w' env alpn starting identifying r.
        certificates_in (concat starting @ concat identifying) \<subseteq> seen
        \<and> (msquic_connect ops env sha256 w starting identifying alpn own = Ok (Some (Inr c))
           \<or> mi_local_identity r = identity sha256 own \<and> known_certificate (mi_connection r) \<subseteq> seen
             \<and> msquic_request_accept ops sha256 w' starting identifying r = Ok (Some (Inr c))))"

lemma identify_peer_established:
  assumes "identify_peer ops sha256 w batches local conn = Ok (Some (Inr c))"
  shows "mc_local_identity c = local \<and> (\<exists>cert. mc_remote_identity c = hex_encode (sha256 cert)
    \<and> cert \<in> known_certificate conn \<union> certificates_in (concat batches))"
proof -
  obtain cert c' where a: "await ops (poll_receive_remote_certificate w) batches conn = Ok (Some (Inr cert, c'))"
    "c = \<lparr>mc_inner = c', mc_local_identity = local, mc_remote_identity = hex_encode (sha256 cert)\<rparr>"
    using assms unfolding identify_peer_def by (elim await_ok_Inr) auto
  then show ?thesis
    using await_certificate [OF polls_read_certificate(3) a(1)] by auto
qed

lemma msquic_connect_Inr:
  assumes "msquic_connect ops env sha256 w starting identifying alpn own = Ok (Some (Inr c))"
  obtains conn conn' where "connection_new (me_new env) = Inr conn"
    "await ops (connection_poll_start w (me_start env)) starting conn = Ok (Some (Inr (), conn'))"
    "identify_peer ops sha256 w identifying (identity sha256 own) conn' = Ok (Some (Inr c))"
proof -
  obtain config where "config_build env ClientConfig alpn own = Ok config"
    using assms by (auto simp: msquic_connect_def and_then_eq_Ok_iff)
  moreover have "isl config = False"
    using assms calculation by (cases config) (auto simp: msquic_connect_def)
  ultimately show thesis
    using assms that
    by (cases config; cases "connection_new (me_new env) :: connection_error + 'a connection")
      (auto simp: msquic_connect_def elim!: await_ok_Inr)
qed

text \<open>
  With primitives that work, building a configuration never ends in the error that the container
  could not be built: the password is empty, so a random draw that fails is a panic.
\<close>

lemma config_build_outcome:
  assumes "crypto_ok (me_crypto env)"
  shows "is_panic (config_build env factory alpn credential) \<longleftrightarrow> my_certs credential = [] \<or> me_rng env 0 = None"
    "config_build env factory alpn credential \<noteq> Ok (Inl NetPkcs12)"
    "my_certs credential \<noteq> [] \<Longrightarrow> me_rng env 0 \<noteq> None \<Longrightarrow> me_open env = (\<lambda>_ _. None) \<Longrightarrow>
     me_load env = (\<lambda>_. None) \<Longrightarrow> \<exists>config. config_build env factory alpn credential = Ok (Inr config)"
proof -
  note o = pfx_new_outcome(2,3) [OF assms refl, of "me_rng env" "hd (my_certs credential)"
    "my_key credential" "[]" "[]"]
  have "is_panic (config_build env factory alpn credential) \<and> (my_certs credential = [] \<or> me_rng env 0 = None)
    \<or> my_certs credential \<noteq> [] \<and> me_rng env 0 \<noteq> None
      \<and> (\<exists>cred. config_build env factory alpn credential = Ok (
           case me_open env alpn build_settings of Some s \<Rightarrow> Inl (NetConfiguration s)
           | None \<Rightarrow> (case me_load env cred of Some s \<Rightarrow> Inl (NetConfiguration s)
              | None \<Rightarrow> Inr \<lparr>cf_alpn = alpn, cf_settings = build_settings, cf_credential = cred\<rparr>)))"
    using o by (cases "my_certs credential"; cases "me_rng env 0")
      (auto simp: config_build_def build_credential_def build_pkcs12_def pfx_new_def)
  then show "is_panic (config_build env factory alpn credential) \<longleftrightarrow> my_certs credential = [] \<or> me_rng env 0 = None"
    "config_build env factory alpn credential \<noteq> Ok (Inl NetPkcs12)"
    "my_certs credential \<noteq> [] \<Longrightarrow> me_rng env 0 \<noteq> None \<Longrightarrow> me_open env = (\<lambda>_ _. None) \<Longrightarrow>
     me_load env = (\<lambda>_. None) \<Longrightarrow> \<exists>config. config_build env factory alpn credential = Ok (Inr config)"
    by (auto split: option.splits)
qed

text \<open>A credential without a certificate has an identity, but no endpoint can be made from it.\<close>

lemma no_certificate_panics:
  assumes "my_certs credential = []"
  shows "identity sha256 credential = ''''"
    "is_panic (msquic_create_listener env sha256 alpn credential)"
    "is_panic (msquic_connect ops env sha256 w starting identifying alpn credential)"
  using assms by (simp_all add: identity_def msquic_create_listener_def msquic_connect_def config_build_def
      build_credential_def build_pkcs12_def)

lemma msquic_established_identities:
  assumes "msquic_established sha256 own seen c"
  shows "mc_local_identity c = identity sha256 own
    \<and> (\<exists>cert \<in> seen. mc_remote_identity c = hex_encode (sha256 cert))"
proof -
  obtain ops w w' env alpn starting identifying r where
    seen: "certificates_in (concat starting @ concat identifying) \<subseteq> seen" and
    est: "msquic_connect ops env sha256 w starting identifying alpn own = Ok (Some (Inr c))
      \<or> mi_local_identity r = identity sha256 own \<and> known_certificate (mi_connection r) \<subseteq> seen
        \<and> msquic_request_accept ops sha256 w' starting identifying r = Ok (Some (Inr c))"
    using assms unfolding msquic_established_def by blast
  note sub = seen [unfolded certificates_in_append]
  from est show ?thesis
  proof
    assume "msquic_connect ops env sha256 w starting identifying alpn own = Ok (Some (Inr c))"
    then obtain conn conn' where conn: "connection_new (me_new env) = Inr conn"
      "await ops (connection_poll_start w (me_start env)) starting conn = Ok (Some (Inr (), conn'))"
      "identify_peer ops sha256 w identifying (identity sha256 own) conn' = Ok (Some (Inr c))"
      by (rule msquic_connect_Inr)
    have "known_certificate conn = {}"
      using conn(1) by (auto simp: connection_new_def connection_inner_new_def known_certificate_def
          split: option.splits)
    then have "known_certificate conn' \<subseteq> certificates_in (concat starting)"
      using await_certificate [OF polls_read_certificate(1) conn(2)] by simp
    then show ?thesis
      using identify_peer_established [OF conn(3)] sub by blast
  next
    assume r: "mi_local_identity r = identity sha256 own \<and> known_certificate (mi_connection r) \<subseteq> seen
      \<and> msquic_request_accept ops sha256 w' starting identifying r = Ok (Some (Inr c))"
    then obtain conn' where conn:
      "await ops (connection_poll_accept w') starting (mi_connection r) = Ok (Some (Inr (), conn'))"
      "identify_peer ops sha256 w' identifying (mi_local_identity r) conn' = Ok (Some (Inr c))"
      unfolding msquic_request_accept_def by (auto elim!: await_ok_Inr)
    have "known_certificate conn' \<subseteq> seen"
      using await_certificate [OF polls_read_certificate(2) conn(1)] r sub by blast
    then show ?thesis
      using identify_peer_established [OF conn(2)] r sub by auto
  qed
qed

text \<open>A connection that was accepted carries the identity of the listener.\<close>

lemma msquic_listener_accept_identity:
  assumes "msquic_listener_accept w l = Ok (Ready (Inr r), l')"
  shows "mi_local_identity r = ml_local_identity l"
proof -
  obtain p l1 es where "listener_poll_accept w (ml_instance l) = Ok (p, l1, es)"
    "Ready (Inr r) = map_poll (map_sum NetListen (\<lambda>(_, c). \<lparr>mi_connection = c,
        mi_local_identity = ml_local_identity l\<rparr>)) p"
    using assms by (auto simp: msquic_listener_accept_def and_then_eq_Ok_iff)
  then show ?thesis
    by (cases p; cases "case p of Ready x \<Rightarrow> x"; cases "projr (case p of Ready x \<Rightarrow> x)") auto
qed

text \<open>The same over WebTransport, where the library reports the certificates of the peer.\<close>

definition wt_established ::
  "(u8 list \<Rightarrow> u8 list) \<Rightarrow> net_credential \<Rightarrow> u8 list set \<Rightarrow> wt_connection \<Rightarrow> bool" where
  "wt_established sha256 own seen c \<longleftrightarrow>
     (\<exists>cert certs. wl_peer_identity (wc_connection c) = Some (cert # certs) \<and> cert \<in> seen)
     \<and> (\<exists>tls_ok connects t preferred request l.
          wt_connect sha256 tls_ok connects t preferred own = Inr c
          \<or> wn_local_identity l = identity sha256 own
            \<and> wt_request_accept (wt_listener_accept request l) = Inr c)"

lemma wt_request_accept_identity:
  "wt_request_accept (wt_listener_accept request l) = Inr c \<Longrightarrow> wc_local_identity c = wn_local_identity l"
  by (cases request; cases "snd (the request)"; cases "the request")
    (auto simp: wt_request_accept_def wt_listener_accept_def)

lemma wt_established_identities:
  assumes "wt_established sha256 own seen c"
  shows "wc_local_identity c = identity sha256 own
    \<and> (\<exists>cert \<in> seen. wt_connection_remote_identity sha256 addr_text c = hex_encode (sha256 cert))"
proof -
  have "wc_local_identity c = identity sha256 own"
    if "wt_connect sha256 tls_ok connects t preferred own = Inr c" for tls_ok connects t preferred
    using that by (auto simp: wt_connect_def Let_def split: if_splits option.splits)
  then show ?thesis
    using assms wt_request_accept_identity
    by (fastforce simp: wt_established_def wt_connection_remote_identity_def wt_remote_identity_def)
qed

section \<open>The contract of identities\<close>

text \<open>
  What users of the traits rely on: the local identity is that of the node's own credential, the
  remote one is the hash of a certificate the peer presented.
\<close>

locale identified_connections =
  fixes sha256 :: "u8 list \<Rightarrow> u8 list"
    and established :: "net_credential \<Rightarrow> u8 list set \<Rightarrow> 'c \<Rightarrow> bool"
    and local_id :: "'c \<Rightarrow> string"
    and remote_id :: "'c \<Rightarrow> string"
  assumes local_identity: "established own seen c \<Longrightarrow> local_id c = identity sha256 own"
    and remote_identity: "established own seen c \<Longrightarrow>
      \<exists>cert \<in> seen. remote_id c = hex_encode (sha256 cert)"
begin

lemma facing:
  assumes "established a {hd (my_certs b)} ca" "established b {hd (my_certs a)} cb"
    and "my_certs a \<noteq> []" "my_certs b \<noteq> []"
  shows "remote_id ca = local_id cb \<and> remote_id cb = local_id ca"
  using local_identity [OF assms(1)] local_identity [OF assms(2)] remote_identity [OF assms(1)]
    remote_identity [OF assms(2)] assms(3,4)
  by (simp add: identity_def split: list.splits)

lemma pinned:
  assumes "established a seen c" "inj sha256" "my_certs b \<noteq> []" "remote_id c = identity sha256 b"
  shows "hd (my_certs b) \<in> seen"
proof -
  obtain cert where cert: "cert \<in> seen" "remote_id c = hex_encode (sha256 cert)"
    using remote_identity [OF assms(1)] by blast
  then have "sha256 cert = sha256 (hd (my_certs b))"
    using assms(3,4) hex_encode_inject by (auto simp: identity_def split: list.splits)
  then show ?thesis using cert(1) injD [OF assms(2)] by metis
qed

end

interpretation msquic_identities:
  identified_connections sha256 "msquic_established sha256" mc_local_identity mc_remote_identity
  for sha256
  using msquic_established_identities by unfold_locales blast+

interpretation wt_identities:
  identified_connections sha256 "wt_established sha256" wc_local_identity
    "wt_connection_remote_identity sha256 addr_text"
  for sha256 addr_text
  using wt_established_identities by unfold_locales blast+

section \<open>The accept loop\<close>

text \<open>The requests handed over are those accepted before the session handler went away, in order.\<close>

lemma lite_server_accept_requests:
  "lite_server_accept os = (let taken = takeWhile (\<lambda>oc. oc = RequestFailed \<or> (\<exists>q. oc = RequestAccepted q True)) os
     in ([q. RequestAccepted q _ \<leftarrow> taken], if taken = os then None else Some True))"
  by (induction os rule: lite_server_accept.induct) (auto simp: Let_def split: prod.split)

end
