(* ===== verification/Transport_Wrappers.thy ===== *)
theory Transport_Wrappers
  imports Transports Gossip_Server "HOL-Library.Multiset"
begin

text \<open>
  What stands between the gossip server and its transports: opening sockets
  (\<open>chitchat/src/transport/udp.rs\<close>, \<open>transport_layer.rs\<close>), the wrappers of \<open>utils.rs\<close> that drop and
  delay messages, and the handle through which a program controls its server (\<open>ChitchatHandle\<close> of
  \<open>chitchat/src/server.rs\<close>).
\<close>

section \<open>Opening sockets\<close>

text \<open>The buffer for sending and whether the system bound the address.\<close>

record udp_socket =
  us_buf_send :: "u8 list"
  us_bound :: socket_addr

definition udp_socket_open :: "(socket_addr \<Rightarrow> bool) \<Rightarrow> socket_addr \<Rightarrow> transport_error + udp_socket" where
  "udp_socket_open binds bind_addr =
     (if binds bind_addr then Inr \<lparr>us_buf_send = [], us_bound = bind_addr\<rparr> else Inl AddressNotAvailable)"

text \<open>\<open>UdpSocket::send\<close> clears the buffer of the socket before it serializes into it.\<close>

definition udp_socket_send ::
  "zstd \<Rightarrow> (u8 list \<Rightarrow> bool) \<Rightarrow> chitchat_message \<Rightarrow> udp_socket \<Rightarrow> ((transport_error + unit) \<times> udp_socket) result"
where
  "udp_socket_send z send_to m s =
     and_then (message_serialize z m) (\<lambda>bytes.
       let buf = bytes in
       Ok (if send_to buf then Inr () else Inl SendFailed, s\<lparr>us_buf_send := buf\<rparr>))"

definition MAX_QUIC_DATAGRAM_PAYLOAD_SIZE :: nat where "MAX_QUIC_DATAGRAM_PAYLOAD_SIZE = 10000000"

text \<open>
  Opening the QUIC transport never fails: the listener is created by the task that is spawned. The
  watched flag tells that task to stop; dropping the socket sets it.
\<close>

definition quic_open :: "quic_socket \<times> bool" where
  "quic_open = (\<lparr>qs_outgoing = [], qs_incoming = [], qs_incoming_closed = False\<rparr>, False)"

definition quic_socket_drop :: "quic_socket \<times> bool \<Rightarrow> quic_socket \<times> bool" where
  "quic_socket_drop p = (fst p, True)"

definition open_connections :: "quic_socket \<Rightarrow> nat" where
  "open_connections s = length (qs_outgoing s)"

section \<open>Dropping messages\<close>

text \<open>\<open>Bernoulli::new(p).unwrap()\<close>.\<close>

record 't with_message_drop =
  wd_drop_probability :: rat
  wd_transport :: 't

definition drop_message :: "rat \<Rightarrow> 't \<Rightarrow> 't with_message_drop result" where
  "drop_message p transport =
     (if 0 \<le> p \<and> p \<le> 1 then Ok \<lparr>wd_drop_probability = p, wd_transport = transport\<rparr>
      else Panic UnwrapFailed)"

text \<open>
  Both wrappers forward the datagram size and opening, and wrap the socket that was opened.
\<close>

definition forward_open :: "('s \<Rightarrow> 'w) \<Rightarrow> transport_error + 's \<Rightarrow> transport_error + 'w" where
  "forward_open wrap opened = (case opened of Inl e \<Rightarrow> Inl e | Inr s \<Rightarrow> Inr (wrap s))"

section \<open>Delaying messages\<close>

text \<open>
  A send only spawns a task that sleeps and then sends through the shared inner socket, whose
  lock \<open>recv\<close> holds while it waits. The sleeping tasks are kept with the time they wake up.
\<close>

record 's socket_with_delay =
  dl_socket :: 's
  dl_tasks :: "(instant \<times> socket_addr \<times> chitchat_message) list"
  dl_receiving :: bool

definition delay_open :: "'s \<Rightarrow> 's socket_with_delay" where
  "delay_open socket = \<lparr>dl_socket = socket, dl_tasks = [], dl_receiving = False\<rparr>"

text \<open>\<open>Duration::from_secs_f32\<close> panics for a draw that is negative or not finite (\<open>None\<close>).\<close>

definition delay_send ::
  "instant \<Rightarrow> duration option \<Rightarrow> socket_addr \<Rightarrow> chitchat_message \<Rightarrow> 's socket_with_delay \<Rightarrow>
   's socket_with_delay result" where
  "delay_send now delay to m s =
     (case delay of
        None \<Rightarrow> Panic AssertionFailed
      | Some d \<Rightarrow> Ok (s\<lparr>dl_tasks := dl_tasks s @ [(now + d, to, m)]\<rparr>))"

text \<open>The task at a position wakes up and gets the lock; the result of sending is ignored.\<close>

definition delay_task_sends ::
  "(socket_addr \<Rightarrow> chitchat_message \<Rightarrow> 's \<Rightarrow> (transport_error + unit) \<times> 's) \<Rightarrow> instant \<Rightarrow> nat \<Rightarrow>
   's socket_with_delay \<Rightarrow> 's socket_with_delay option" where
  "delay_task_sends send now n s =
     (if n < length (dl_tasks s) \<and> fst (dl_tasks s ! n) \<le> now \<and> \<not> dl_receiving s
      then case dl_tasks s ! n of (_, to, m) \<Rightarrow>
        Some (s\<lparr>dl_socket := snd (send to m (dl_socket s)),
                dl_tasks := take n (dl_tasks s) @ drop (Suc n) (dl_tasks s)\<rparr>)
      else None)"

text \<open>\<open>recv\<close>: it takes the lock, and gives it back with a message or when it is cancelled.\<close>

definition delay_recv_starts :: "'s socket_with_delay \<Rightarrow> 's socket_with_delay option" where
  "delay_recv_starts s = (if dl_receiving s then None else Some (s\<lparr>dl_receiving := True\<rparr>))"

definition delay_recv_ends ::
  "('s \<Rightarrow> 'm \<times> 's) \<Rightarrow> 's socket_with_delay \<Rightarrow> ('m \<times> 's socket_with_delay) option" where
  "delay_recv_ends recv s =
     (if dl_receiving s then case recv (dl_socket s) of (m, socket) \<Rightarrow>
        Some (m, s\<lparr>dl_socket := socket, dl_receiving := False\<rparr>)
      else None)"

definition delay_recv_cancelled :: "'s socket_with_delay \<Rightarrow> 's socket_with_delay" where
  "delay_recv_cancelled s = s\<lparr>dl_receiving := False\<rparr>"

text \<open>What was asked for, with the time it may go out, and what went out, with the time it did.\<close>

record 's delay_run =
  dr_socket :: "'s socket_with_delay"
  dr_asked :: "(instant \<times> socket_addr \<times> chitchat_message) list"
  dr_sent :: "(instant \<times> instant \<times> socket_addr \<times> chitchat_message) list"

inductive delay_step ::
  "(socket_addr \<Rightarrow> chitchat_message \<Rightarrow> 's \<Rightarrow> (transport_error + unit) \<times> 's) \<Rightarrow> ('s \<Rightarrow> 'm \<times> 's) \<Rightarrow>
   's delay_run \<Rightarrow> 's delay_run \<Rightarrow> bool" for send recv where
  asks: "delay_send now (Some d) to m (dr_socket r) = Ok s \<Longrightarrow>
    delay_step send recv r (r\<lparr>dr_socket := s, dr_asked := dr_asked r @ [(now + d, to, m)]\<rparr>)"
| goes_out: "delay_task_sends send now n (dr_socket r) = Some s \<Longrightarrow>
    delay_step send recv r (r\<lparr>dr_socket := s,
      dr_sent := dr_sent r @ [(now, dl_tasks (dr_socket r) ! n)]\<rparr>)"
| recv_starts: "delay_recv_starts (dr_socket r) = Some s \<Longrightarrow> delay_step send recv r (r\<lparr>dr_socket := s\<rparr>)"
| recv_ends: "delay_recv_ends recv (dr_socket r) = Some (m, s) \<Longrightarrow>
    delay_step send recv r (r\<lparr>dr_socket := s\<rparr>)"
| recv_cancelled: "delay_step send recv r (r\<lparr>dr_socket := delay_recv_cancelled (dr_socket r)\<rparr>)"

definition delay_start :: "'s \<Rightarrow> 's delay_run" where
  "delay_start socket = \<lparr>dr_socket = delay_open socket, dr_asked = [], dr_sent = []\<rparr>"

definition delay_inv :: "'s delay_run \<Rightarrow> bool" where
  "delay_inv r \<longleftrightarrow> mset (dr_asked r) = mset (dl_tasks (dr_socket r)) + mset (map snd (dr_sent r))
     \<and> (\<forall>(now, due, p) \<in> set (dr_sent r). due \<le> now)"

lemma mset_remove_nth: "n < length xs \<Longrightarrow> mset (take n xs @ drop (Suc n) xs) + {#xs ! n#} = mset xs"
  by (metis add_mset_add_single id_take_nth_drop mset.simps(2) mset_append union_mset_add_mset_right)

lemma delay_inv_step:
  assumes "delay_step send recv r r'" "delay_inv r"
  shows "delay_inv r'"
  using assms(1)
proof cases
  case (asks now d to m s)
  then show ?thesis using assms(2) by (auto simp: delay_inv_def delay_send_def)
next
  case (goes_out now n s)
  then have n: "n < length (dl_tasks (dr_socket r))" "fst (dl_tasks (dr_socket r) ! n) \<le> now"
    "dl_tasks s = take n (dl_tasks (dr_socket r)) @ drop (Suc n) (dl_tasks (dr_socket r))"
    by (auto simp: delay_task_sends_def split: if_splits prod.splits)
  show ?thesis
    using assms(2) n mset_remove_nth [OF n(1)] goes_out(1)
    by (cases "dl_tasks (dr_socket r) ! n") (auto simp: delay_inv_def)
qed (use assms(2) in \<open>auto simp: delay_inv_def delay_recv_starts_def delay_recv_ends_def
    delay_recv_cancelled_def split: if_splits prod.splits\<close>)

lemma delay_inv_reachable:
  assumes "(delay_step send recv)\<^sup>*\<^sup>* (delay_start socket) r"
  shows "delay_inv r"
  using assms
proof (induction rule: rtranclp_induct)
  case base
  then show ?case by (simp add: delay_inv_def delay_start_def delay_open_def)
next
  case (step y z)
  then show ?case using delay_inv_step by blast
qed

text \<open>As long as a node waits for a message, none of its delayed messages goes out.\<close>

lemma receiving_blocks_sending: "dl_receiving s \<Longrightarrow> delay_task_sends send now n s = None"
  by (simp add: delay_task_sends_def)

section \<open>The handle of a server\<close>

datatype command = CommandGossip socket_addr | CommandShutdown

text \<open>
  The handle, with the commands the server has not taken yet and the state of its task. A handle
  that is dropped closes the channel, which the server takes for a command to stop.
\<close>

record 'c chitchat_handle =
  hd_chitchat_id :: chitchat_id
  hd_commands :: "command list"
  hd_server :: "'c run_state"
  hd_aborted :: bool
  hd_dropped :: bool

definition handle_new :: "'c server \<Rightarrow> 'c chitchat_handle" where
  "handle_new sv = \<lparr>hd_chitchat_id = self_chitchat_id (sv_chitchat sv), hd_commands = [],
     hd_server = Gossip_Server.Running sv, hd_aborted = False, hd_dropped = False\<rparr>"

text \<open>The receiver of commands exists as long as the task runs.\<close>

definition server_runs :: "'c chitchat_handle \<Rightarrow> bool" where
  "server_runs h \<longleftrightarrow> \<not> hd_aborted h \<and> (case hd_server h of Gossip_Server.Running _ \<Rightarrow> True | _ \<Rightarrow> False)"

definition send_command :: "command \<Rightarrow> 'c chitchat_handle \<Rightarrow> (unit + unit) \<times> 'c chitchat_handle" where
  "send_command cmd h =
     (if server_runs h then (Inr (), h\<lparr>hd_commands := hd_commands h @ [cmd]\<rparr>) else (Inl (), h))"

definition handle_abort :: "'c chitchat_handle \<Rightarrow> 'c chitchat_handle" where
  "handle_abort h = h\<lparr>hd_aborted := True\<rparr>"

definition gossip_handle_drop :: "'c chitchat_handle \<Rightarrow> 'c chitchat_handle" where
  "gossip_handle_drop h = h\<lparr>hd_dropped := True\<rparr>"

definition handle_gossip :: "socket_addr \<Rightarrow> 'c chitchat_handle \<Rightarrow> (unit + unit) \<times> 'c chitchat_handle" where
  "handle_gossip addr h = send_command (CommandGossip addr) h"

definition run_state_map :: "('c server \<Rightarrow> 'c server) \<Rightarrow> 'c run_state \<Rightarrow> 'c run_state" where
  "run_state_map f st = (case st of Gossip_Server.Running sv \<Rightarrow> Gossip_Server.Running (f sv)
     | Stopped sv \<Rightarrow> Stopped (f sv) | Failed sv \<Rightarrow> Failed (f sv))"

text \<open>\<open>with_chitchat\<close> runs a function on the node, under its lock, whether or not the server runs.\<close>

definition with_chitchat ::
  "('c chitchat \<Rightarrow> 'a \<times> 'c chitchat) \<Rightarrow> 'c chitchat_handle \<Rightarrow> 'a \<times> 'c chitchat_handle" where
  "with_chitchat f h =
     (let (x, c) = f (sv_chitchat (run_server (hd_server h)))
      in (x, h\<lparr>hd_server := run_state_map (\<lambda>sv. sv\<lparr>sv_chitchat := c\<rparr>) (hd_server h)\<rparr>))"

text \<open>The server's task takes one step: another event, or the next command.\<close>

fun command_event :: "instant \<Rightarrow> command \<Rightarrow> server_event" where
  "command_event now (CommandGossip addr) = EventCommandGossip now addr"
| "command_event now CommandShutdown = EventShutdown"

fun is_command_event :: "server_event \<Rightarrow> bool" where
  "is_command_event (EventCommandGossip now addr) = True"
| "is_command_event EventShutdown = True"
| "is_command_event _ = False"

definition server_takes_event ::
  "zstd \<Rightarrow> server_event \<Rightarrow> 'c chitchat_handle \<Rightarrow> 'c chitchat_handle result" where
  "server_takes_event z ev h =
     (case hd_server h of
        Gossip_Server.Running sv \<Rightarrow>
          if hd_aborted h \<or> is_command_event ev then Ok h
          else and_then (server_step z ev sv) (\<lambda>st. Ok (h\<lparr>hd_server := st\<rparr>))
      | _ \<Rightarrow> Ok h)"

text \<open>\<open>None\<close>: no command is queued and the channel is open.\<close>

fun next_command :: "command list \<Rightarrow> bool \<Rightarrow> (command \<times> command list) option" where
  "next_command (cmd # cmds) dropped = Some (cmd, cmds)"
| "next_command [] dropped = (if dropped then Some (CommandShutdown, []) else None)"

definition server_takes_command ::
  "zstd \<Rightarrow> instant \<Rightarrow> 'c chitchat_handle \<Rightarrow> 'c chitchat_handle result" where
  "server_takes_command z now h =
     (case (hd_server h, next_command (hd_commands h) (hd_dropped h)) of
        (Gossip_Server.Running sv, Some (cmd, cmds)) \<Rightarrow>
          if hd_aborted h then Ok h
          else and_then (server_step z (command_event now cmd) sv)
                 (\<lambda>st. Ok (h\<lparr>hd_server := st, hd_commands := cmds\<rparr>))
      | _ \<Rightarrow> Ok h)"

text \<open>What awaiting the task gives: \<open>None\<close> while it runs, otherwise whether it ended well.\<close>

definition join_result :: "'c chitchat_handle \<Rightarrow> bool option" where
  "join_result h =
     (if hd_aborted h then Some False
      else case hd_server h of Gossip_Server.Running _ \<Rightarrow> None | Stopped _ \<Rightarrow> Some True | Failed _ \<Rightarrow> Some False)"

definition handle_shutdown :: "'c chitchat_handle \<Rightarrow> 'c chitchat_handle" where
  "handle_shutdown h = snd (send_command CommandShutdown h)"

inductive server_moves :: "zstd \<Rightarrow> 'c chitchat_handle \<Rightarrow> 'c chitchat_handle \<Rightarrow> bool" for z where
  "server_takes_event z ev h = Ok h' \<Longrightarrow> server_moves z h h'"
| "server_takes_command z now h = Ok h' \<Longrightarrow> server_moves z h h'"

text \<open>While the server runs, a shutdown that was asked for is still queued, or the channel is closed.\<close>

definition shutdown_queued :: "'c chitchat_handle \<Rightarrow> bool" where
  "shutdown_queued h \<longleftrightarrow> (server_runs h \<longrightarrow> CommandShutdown \<in> set (hd_commands h) \<or> hd_dropped h)"

lemma server_takes_command_cases:
  assumes "server_takes_command z now h = Ok h'"
  obtains "h' = h"
  | sv cmd cmds st where "hd_server h = Gossip_Server.Running sv" "\<not> hd_aborted h"
      "next_command (hd_commands h) (hd_dropped h) = Some (cmd, cmds)"
      "server_step z (command_event now cmd) sv = Ok st" "h' = h\<lparr>hd_server := st, hd_commands := cmds\<rparr>"
  using assms
  by (cases "hd_server h"; cases "next_command (hd_commands h) (hd_dropped h)")
    (auto simp: server_takes_command_def and_then_eq_Ok_iff split: if_splits)

lemma shutdown_queued_command:
  assumes "next_command (hd_commands h) (hd_dropped h) = Some (cmd, cmds)" "shutdown_queued h" "server_runs h"
    "server_step z (command_event now cmd) sv = Ok st"
  shows "shutdown_queued (h\<lparr>hd_server := st, hd_commands := cmds\<rparr>)"
  using assms
  by (cases cmd; cases "hd_commands h") (auto simp: shutdown_queued_def server_runs_def split: if_splits)

lemma shutdown_queued_moves:
  assumes "server_moves z h h'" "shutdown_queued h"
  shows "shutdown_queued h'"
  using assms(1)
proof cases
  case (1 ev)
  then show ?thesis
    using assms(2) by (auto simp: shutdown_queued_def server_runs_def server_takes_event_def
        and_then_eq_Ok_iff split: run_state.splits if_splits)
next
  case (2 now)
  then show ?thesis
  proof (cases rule: server_takes_command_cases)
    case (2 sv cmd cmds st)
    then have "server_runs h" by (simp add: server_runs_def)
    then show ?thesis using shutdown_queued_command [OF 2(3) assms(2) _ 2(4)] 2(5) by simp
  qed (use assms(2) in simp)
qed

lemma shutdown_queued_run:
  "(server_moves z)\<^sup>*\<^sup>* h h' \<Longrightarrow> shutdown_queued h \<Longrightarrow> shutdown_queued h'"
  by (induction rule: rtranclp_induct) (auto intro: shutdown_queued_moves)

lemma join_result_None: "join_result h = None \<longleftrightarrow> server_runs h"
  by (auto simp: join_result_def server_runs_def split: run_state.splits)

end
