(* ===== verification/Transport_Properties.thy ===== *)
theory Transport_Properties
  imports Quic_Handles Endpoints Transport_Wrappers Network_Properties Gossip_Runs
begin

text \<open>
  What the users of the transports rely on: who is at the other end of a connection, that the two
  halves of a stream do not disturb each other, what the wrapper that delays messages does to
  them, and that a server that is told to stop stops.
\<close>

section \<open>Sample connections\<close>

text \<open>Credentials that are told apart by their certificates, and the events of a handshake.\<close>

definition credential_with :: "u8 \<Rightarrow> net_credential" where
  "credential_with n = \<lparr>my_key = [], my_certs = [[n]], root_certs = []\<rparr>"

definition arrival :: "u8 \<Rightarrow> connection_event list list" where
  "arrival n = [[CevPeerCertificateReceived (Some [n]), CevConnected False []]]"

definition all_succeeds :: msquic_env where
  "all_succeeds = \<lparr>me_crypto = demo_crypto, me_rng = (\<lambda>_. Some [7]), me_open = (\<lambda>_ _. None),
     me_load = (\<lambda>_. None), me_new = None, me_start = None\<rparr>"

text \<open>The listener of credential 2, when a connection came in.\<close>

definition called_listener :: "nat list msquic_listener" where
  "called_listener =
     \<lparr>ml_instance = fst (snd (handle_event_new_connection 3 None
        (fst (snd (listener_start None listener_inner_new))))),
      ml_local_identity = identity id (credential_with 2)\<rparr>"

definition calling_client :: "(net_error + nat list msquic_connection) option result" where
  "calling_client = msquic_connect list_range_set all_succeeds id 5 (arrival 2) [] [] (credential_with 1)"

definition the_request :: "nat list msquic_incoming_request" where
  "the_request = \<lparr>mi_connection = connection_from_raw False, mi_local_identity = ''02''\<rparr>"

lemma called_listener_accepts:
  "\<exists>l. msquic_listener_accept 6 called_listener = Ok (Ready (Inr the_request), l)"
proof -
  have "ml_local_identity called_listener = ''02''" by code_simp
  then show ?thesis
    by (simp add: msquic_listener_accept_def called_listener_def listener_start_def listener_inner_new_def
        handle_event_new_connection_def listener_poll_accept_def the_request_def)
qed

lemma calling_client_run:
  "calling_client = await_ok NetStart
     (await list_range_set (connection_poll_start 5 None) (arrival 2) (connection_inner_new ConnOpen))
     (\<lambda>_ conn. identify_peer list_range_set id 5 [] (identity id (credential_with 1)) conn)"
proof -
  obtain config where "config_build all_succeeds ClientConfig [] (credential_with 1) = Ok (Inr config)"
    using config_build_outcome(3) [of all_succeeds "credential_with 1" ClientConfig "[]"] demo_crypto_ok
    by (auto simp: all_succeeds_def credential_with_def)
  then show ?thesis
    by (simp add: calling_client_def msquic_connect_def connection_new_def) (simp add: all_succeeds_def)
qed

lemma both_connected:
  "case calling_client of Ok (Some (Inr c)) \<Rightarrow>
     mc_remote_identity c = identity id (credential_with 2) \<and> mc_local_identity c = ''01'' | _ \<Rightarrow> False"
  "case msquic_request_accept list_range_set id 6 (arrival 1) [] the_request of
     Ok (Some (Inr c)) \<Rightarrow> mc_local_identity c = ''02'' | _ \<Rightarrow> False"
  unfolding calling_client_run by code_simp+

section \<open>Who is at the other end\<close>

text \<open>
  C21: a client with credential \<open>a\<close> and a server with credential \<open>b\<close> that connect over msquic, where
  TLS shows each side the first certificate of the other and no other: whatever events come in
  between, each side knows the other by the identity the other gives itself.
\<close>

theorem msquic_peers_identified:
  assumes "msquic_connect ops env sha256 w starting identifying alpn a = Ok (Some (Inr ca))"
    and "msquic_listener_accept w' l = Ok (Ready (Inr r), l')"
    and "ml_local_identity l = identity sha256 b" "known_certificate (mi_connection r) \<subseteq> {hd (my_certs a)}"
    and "msquic_request_accept ops sha256 w' starting' identifying' r = Ok (Some (Inr cb))"
    and "certificates_in (concat starting @ concat identifying) \<subseteq> {hd (my_certs b)}"
    and "certificates_in (concat starting' @ concat identifying') \<subseteq> {hd (my_certs a)}"
    and "my_certs a \<noteq> []" "my_certs b \<noteq> []"
  shows "mc_remote_identity ca = mc_local_identity cb \<and> mc_remote_identity cb = mc_local_identity ca"
proof -
  have "mi_local_identity r = identity sha256 b"
    using msquic_listener_accept_identity [OF assms(2)] assms(3) by simp
  then have "msquic_established sha256 b {hd (my_certs a)} cb"
    using assms(4,5,7) unfolding msquic_established_def by blast
  moreover have "msquic_established sha256 a {hd (my_certs b)} ca"
    using assms(1,6) unfolding msquic_established_def by blast
  ultimately show ?thesis
    using msquic_identities.facing assms(8,9) by blast
qed

theorem msquic_peers_identified_witness:
  "\<exists>ca cb. calling_client = Ok (Some (Inr ca))
    \<and> msquic_request_accept list_range_set id 6 (arrival 1) [] the_request = Ok (Some (Inr cb))
    \<and> mc_remote_identity ca = mc_local_identity cb \<and> mc_local_identity ca = ''01''"
proof -
  obtain ca where ca: "calling_client = Ok (Some (Inr ca))" "mc_local_identity ca = ''01''"
    using both_connected(1) by (auto split: result.splits option.splits sum.splits)
  obtain cb where cb: "msquic_request_accept list_range_set id 6 (arrival 1) [] the_request = Ok (Some (Inr cb))"
    using both_connected(2) by (auto split: result.splits option.splits sum.splits)
  obtain l where l: "msquic_listener_accept 6 called_listener = Ok (Ready (Inr the_request), l)"
    using called_listener_accepts by blast
  have "identity id (credential_with 2) = ml_local_identity called_listener"
    "known_certificate (mi_connection the_request) = {}"
    by (simp_all add: called_listener_def the_request_def known_certificate_def connection_from_raw_def
        connection_inner_new_def)
  then show ?thesis
    using msquic_peers_identified [OF ca(1) [unfolded calling_client_def] l _ _ cb, of "credential_with 2"] ca cb
    by (auto simp: credential_with_def arrival_def certificates_in_def)
qed

text \<open>
  An identity can be relied on: if the hash has no collisions, a node that reports the
  identity of \<open>b\<close> presented the certificate of \<open>b\<close>, over msquic and over WebTransport.
\<close>

theorem remote_identity_pins_certificate:
  assumes "inj sha256" "my_certs b \<noteq> []"
    and "msquic_established sha256 own seen c \<and> mc_remote_identity c = identity sha256 b
      \<or> wt_established sha256 own seen wc
        \<and> wt_connection_remote_identity sha256 addr_text wc = identity sha256 b"
  shows "hd (my_certs b) \<in> seen"
  using msquic_identities.pinned wt_identities.pinned assms by blast

theorem remote_identity_pins_certificate_witness:
  "\<exists>c. calling_client = Ok (Some (Inr c)) \<and> hd (my_certs (credential_with 2)) \<in> {[1], [2]}"
proof -
  obtain ca where ca: "calling_client = Ok (Some (Inr ca))"
    "mc_remote_identity ca = identity id (credential_with 2)"
    using both_connected(1) by (auto split: result.splits option.splits sum.splits)
  have "msquic_established id (credential_with 1) {[1], [2]} ca"
    using ca(1) unfolding msquic_established_def calling_client_def
    by (force simp: arrival_def certificates_in_def)
  then show ?thesis
    using remote_identity_pins_certificate [of id "credential_with 2" "credential_with 1" "{[1], [2]}" ca] ca
    by (auto simp: credential_with_def)
qed

text \<open>
  Over WebTransport nothing requires a common protocol: a request is accepted whatever the
  client prefers, and the client never learns what was chosen.
\<close>

theorem wt_accepts_without_protocol:
  "\<exists>c. wt_request_accept (wt_listener_accept (Some (Some (alpn_header [''x'']), Some lib))
      (l\<lparr>wn_alpn_supported := {''y''}\<rparr>)) = Inr c \<and> wc_alpn_negotiated c = None"
  "wt_connect sha256 tls_ok connects t preferred a = Inr c' \<Longrightarrow> wc_alpn_negotiated c' = None"
  by (auto simp: wt_request_accept_def wt_listener_accept_def negotiate_alpn_def alpn_header_def wt_connect_def Let_def
      split: if_splits option.splits)

section \<open>The halves of a stream\<close>

text \<open>
  C20: the halves of a split stream are independent: calls through them can be interleaved in any way.
  Every call gets the same reply and has the same effects, and the stream ends in the same
  state, up to the order in which tasks wait for its start.
\<close>

theorem halves_independent:
  assumes "run_calls ops cs st = Ok (rs, st1)"
    and "filter isl cs' = filter isl cs" "filter (\<lambda>c. \<not> isl c) cs' = filter (\<lambda>c. \<not> isl c) cs"
  shows "\<exists>rs' st1'. run_calls ops cs' st = Ok (rs', st1')
    \<and> filter (\<lambda>x. isl (fst x)) rs' = filter (\<lambda>x. isl (fst x)) rs
    \<and> filter (\<lambda>x. \<not> isl (fst x)) rs' = filter (\<lambda>x. \<not> isl (fst x)) rs
    \<and> same_but_start_order st1 st1'"
proof -
  obtain rr fr where fr: "run_calls ops (filter isl cs) st = Ok (rr, fr)"
    using run_reads_alone [OF assms(1)] by blast
  obtain ww fw where fw: "run_calls ops (filter (\<lambda>c. \<not> isl c) cs) st = Ok (ww, fw)"
    using run_writes_alone [OF assms(1)] by blast
  note first = run_merged [OF fr fw refl refl, unfolded assms(1)]
  obtain rs' st1' where second: "run_calls ops cs' st = Ok (rs', st1')"
    "filter (\<lambda>x. isl (fst x)) rs' = rr" "filter (\<lambda>x. \<not> isl (fst x)) rs' = ww" "side_change st st1'"
    "read_view st1' = read_view fr" "write_view st1' = write_view fw"
    "mset (st_start_waiters st1') + (mset (st_start_waiters st) + mset (st_start_waiters st))
      = mset (st_start_waiters st) + (mset (st_start_waiters fr) + mset (st_start_waiters fw))"
    using run_merged [of ops cs' st rr fr st ww fw st] fr fw assms(2,3) by auto
  have "mset (st_start_waiters st1) = mset (st_start_waiters st1')"
    using first second(7) by (metis Pair_inject add_right_cancel result.inject(1))
  then have "same_but_start_order st1 st1'"
    using first second(4-6) by (auto intro!: side_change_same [of st])
  then show ?thesis using first second(1-3) by auto
qed

theorem halves_independent_witness:
  "\<exists>rs' st1'. run_calls list_range_set [Inr (WriteFrom 1 [5] False None), Inl (ReadInto 2 9)]
      (fst (stream_from_raw list_range_set Bidirectional)) = Ok (rs', st1')
    \<and> filter (\<lambda>x. isl (fst x)) rs' = [(Inl (ReadBytes Pending), [])]"
proof -
  let ?st = "fst (stream_from_raw list_range_set Bidirectional)"
  have "case run_calls list_range_set [Inl (ReadInto 2 9), Inr (WriteFrom 1 [5] False None)] ?st of
      Ok (rs, _) \<Rightarrow> filter (\<lambda>x. isl (fst x)) rs = [(Inl (ReadBytes Pending), [])] | _ \<Rightarrow> False"
    by code_simp
  then obtain rs st1 where "run_calls list_range_set [Inl (ReadInto 2 9), Inr (WriteFrom 1 [5] False None)] ?st = Ok (rs, st1)"
    "filter (\<lambda>x. isl (fst x)) rs = [(Inl (ReadBytes Pending), [])]"
    by (auto split: result.splits)
  with halves_independent [OF this(1), of "[Inr (WriteFrom 1 [5] False None), Inl (ReadInto 2 9)]"]
  show ?thesis by auto
qed

text \<open>Nothing done through the reading half sends data or ends the sending side.\<close>

theorem read_half_cannot_send:
  "handle_offers HandleRead c \<Longrightarrow> whole_stream_call ops c st = Ok (r, st1, es) \<Longrightarrow> e \<in> set es \<Longrightarrow>
   \<not> sends_something e"
  by (cases c) (auto simp: map_result_eq_Ok_iff replies_def dest: read_call_sends_nothing split: prod.splits)

theorem read_half_cannot_send_witness:
  "handle_offers HandleRead (Inl (AbortReadNow 7 None))
    \<and> \<not> sends_something (StreamShutdown AbortReceive 7)"
proof -
  have "whole_stream_call list_range_set (Inl (AbortReadNow 7 None)) (fst (stream_from_raw list_range_set Bidirectional))
      = Ok (Inl (ReadAborted (Ready (Inr ()))), (fst (stream_from_raw list_range_set Bidirectional))
          \<lparr>st_recv_state := RecvShutdownComplete, st_read_waiters := []\<rparr>, [StreamShutdown AbortReceive 7])"
    by code_simp
  from read_half_cannot_send [OF _ this, of "StreamShutdown AbortReceive 7"] show ?thesis by simp
qed

section \<open>Delayed messages\<close>

text \<open>
  The wrapper that delays messages sends each message at most once, not before its delay is over,
  and nothing that was not asked for. What was asked for and not sent still sleeps; while
  the socket waits for a message, none of it goes out.
\<close>

theorem delayed_once:
  assumes "(delay_step send recv)\<^sup>*\<^sup>* (delay_start socket) r"
  shows "mset (dr_asked r) = mset (dl_tasks (dr_socket r)) + mset (map snd (dr_sent r))
    \<and> (\<forall>(now, due, p) \<in> set (dr_sent r). due \<le> now)
    \<and> (dl_receiving (dr_socket r) \<longrightarrow> (\<forall>now n. delay_task_sends send now n (dr_socket r) = None))"
  using delay_inv_reachable [OF assms] receiving_blocks_sending by (auto simp: delay_inv_def)

theorem delayed_once_witness:
  "mset (dr_asked (delay_start (0 :: nat))) = {#} \<and> dl_tasks (dr_socket (delay_start (0 :: nat))) = []"
  using delayed_once [of "\<lambda>_ _ s. (Inr (), s)" "\<lambda>s. ((), s)" "0 :: nat" "delay_start 0"]
  by (simp add: delay_start_def delay_open_def)

section \<open>Stopping a server\<close>

text \<open>The task takes commands from its channel, one after the other.\<close>

fun take_commands :: "zstd \<Rightarrow> instant list \<Rightarrow> 'c chitchat_handle \<Rightarrow> 'c chitchat_handle result" where
  "take_commands z [] h = Ok h"
| "take_commands z (now # nows) h = and_then (server_takes_command z now h) (take_commands z nows)"

lemma take_commands_ends:
  "shutdown_queued h \<Longrightarrow> length nows = Suc (length (hd_commands h)) \<Longrightarrow>
   \<exists>h'. take_commands z nows h = Ok h' \<and> \<not> server_runs h'"
proof (induction nows arbitrary: h)
  case (Cons now nows)
  show ?case
  proof (cases "server_runs h")
    case False
    then have "server_takes_command z n h = Ok h" for n
      by (cases "next_command (hd_commands h) (hd_dropped h)")
        (auto simp: server_runs_def server_takes_command_def split: run_state.splits)
    then have "take_commands z ns h = Ok h" for ns by (induction ns) simp_all
    then show ?thesis using False by blast
  next
    case True
    then obtain sv where sv: "hd_server h = Gossip_Server.Running sv" "\<not> hd_aborted h"
      by (auto simp: server_runs_def split: run_state.splits)
    obtain cmd cmds where cmd: "next_command (hd_commands h) (hd_dropped h) = Some (cmd, cmds)"
      using Cons.prems(1) True by (cases "hd_commands h") (auto simp: shutdown_queued_def)
    obtain st where st: "server_step z (command_event now cmd) sv = Ok st" by (cases cmd) simp_all
    let ?h = "h\<lparr>hd_server := st, hd_commands := cmds\<rparr>"
    have step: "server_takes_command z now h = Ok ?h"
      using sv cmd st by (simp add: server_takes_command_def)
    show ?thesis
    proof (cases "hd_commands h")
      case Nil
      then have "\<not> server_runs ?h" "nows = []"
        using cmd st Cons.prems(2) by (auto simp: server_runs_def split: if_splits)
      then show ?thesis using step by simp
    next
      case (Cons c cs)
      then have "length nows = Suc (length (hd_commands ?h))" using cmd Cons.prems(2) by auto
      from Cons.IH [OF shutdown_queued_command [OF cmd Cons.prems(1) True st] this] step show ?thesis by simp
    qed
  qed
qed simp

text \<open>
  C16: a server that is told to stop, or whose handle is dropped, stops. Whatever events and commands
  its task takes afterwards, once it has looked into the channel of commands as often as there are
  commands in it then, and once more, the task has ended, so that awaiting it returns; none of
  the commands makes it panic.
\<close>

theorem shutdown_ends:
  assumes "(server_moves z)\<^sup>*\<^sup>* h0 h1" "h0 = handle_shutdown h \<or> h0 = gossip_handle_drop h"
    and "length nows = Suc (length (hd_commands h1))"
  shows "\<exists>h2. take_commands z nows h1 = Ok h2 \<and> join_result h2 \<noteq> None"
proof -
  have "shutdown_queued h0"
    using assms(2)
    by (auto simp: shutdown_queued_def handle_shutdown_def gossip_handle_drop_def send_command_def server_runs_def)
  from take_commands_ends [OF shutdown_queued_run [OF assms(1) this] assms(3)] show ?thesis
    by (simp add: join_result_None)
qed

theorem shutdown_ends_witness:
  "\<exists>h2. take_commands zstd_none [7, 8, 9] (handle_shutdown (snd (handle_gossip (SocketAddrV4 1 2) (handle_new
      \<lparr>sv_chitchat = net_a0, sv_outbox = []\<rparr>)))) = Ok h2
    \<and> join_result h2 \<noteq> None"
  by (rule shutdown_ends [OF rtranclp.rtrancl_refl disjI1 [OF refl]])
    (simp add: handle_shutdown_def handle_gossip_def send_command_def server_runs_def handle_new_def)

end
