(* ===== verification/Spec2Isabelle.thy ===== *)
theory Spec2Isabelle
  imports Prelude Types Serialize Compressed_Stream Digest Delta Delta_Correct Node_State
    Node_State_Correct Cluster_State Stale_Nodes Replication Replication_System Partial_Delta
    Replication_Flaws Listener Failure_Detector Message Chitchat Chitchat_Correct Gossip_Server
    Licenses Revocation Routes Quic_Types Quic_Buffer Quic_Stream Quic_Stream_Correct Quic_Stream_Memory
    Quic_Stream_Waiters Quic_Connection Quic_Listener Quic_Accept Framing Pkcs12_Kdf Pkcs12 Transports
    Telemetry Text_Utils Net_Layer Network_Properties Emitted_Deltas Gossip_Network Gossip_Handshake
    Gossip_Runs Gossip_Refinement Gossip_Properties Igniter_Start Igniter_Properties Quic_Handles Endpoints
    Transport_Wrappers Transport_Properties
begin

text \<open>
  This development models the Acki Nacki igniter: a node that gossips what it knows about itself
  and about the licences delegated to it, and that verifies what it hears of other nodes. The
  repository has five crates. \<open>chitchat\<close> is the gossip library (Scuttlebutt reconciliation with
  versioned key-values, a phi accrual failure detector, a wire format with compressed blocks).
  \<open>igniter\<close> is the program itself (configuration, licence signatures, revocation, a REST
  interface). \<open>transport-layer\<close> wraps QUIC libraries, \<open>telemetry_utils\<close> counts messages in
  channels, \<open>updater\<close> drives a container service.

  \<^bold>\<open>How the parts interact.\<close> Every node owns one node state, a map from keys to versioned values,
  and holds copies of the node states of all others. A round of gossip is SYN (a digest: per node
  its heartbeat, \<open>last_gc_version\<close> and \<open>max_version\<close>), SYN-ACK (the peer's digest and the delta
  the peer can offer) and ACK (the delta in the other direction). Heartbeats in digests feed the
  failure detector, which decides who is live, dead, no longer gossiped about, and forgotten.
  Deletions leave tombstones that are collected after a grace period; \<open>last_gc_version\<close> tells how
  far a copy has collected, and a copy that lags behind a collection is reset. The igniter
  publishes its licence signatures as key-values of its node state, and its REST interface
  verifies, counts and filters what the copies hold.

  \<^bold>\<open>Theories and sources\<close> (paths relative to \<open>src/\<close>).
  \<^item> \<open>Prelude\<close>: results with errors and panics, fixed-width integers, and ordered maps (the locale
    \<open>ordered_map\<close> and its interpretation on sorted association lists).
  \<^item> \<open>Types\<close>: \<open>chitchat/src/types.rs\<close>. \<open>Serialize\<close>: the primitive instances of
    \<open>chitchat/src/serialize.rs\<close>, each an interpretation of the locales \<open>codec\<close> (the contract of
    \<open>Serializable\<close> and \<open>Deserializable\<close>: what was written is read back, the announced length is
    the length) and \<open>parser\<close> (reading consumes its input and never panics). \<open>Compressed_Stream\<close>: the
    compressed stream writer and its reader in the same file. \<open>Digest\<close>, \<open>Delta\<close> and
    \<open>Delta_Correct\<close>: \<open>digest.rs\<close>, \<open>delta.rs\<close>. \<open>Message\<close>: \<open>message.rs\<close>.
  \<^item> \<open>Node_State\<close> and \<open>Node_State_Correct\<close>: \<open>NodeState\<close> of \<open>chitchat/src/state.rs\<close>.
    \<open>Cluster_State\<close>, \<open>Stale_Nodes\<close> and \<open>Partial_Delta\<close>: \<open>ClusterState\<close>, \<open>SortedStaleNodes\<close> and
    \<open>compute_partial_delta_respecting_mtu\<close> of the same file.
  \<^item> \<open>Replication\<close>, \<open>Replication_System\<close>: what copies of a node state mean with respect to the
    owner's history, and a transition system of owner, copies and deltas in flight.
    \<open>Replication_Flaws\<close>: runs in which the code loses or revives data.
  \<^item> \<open>Emitted_Deltas\<close>: what every computed delta holds. \<open>Gossip_Network\<close>: networks of nodes that run
    the server's loop and exchange the messages it sends, with the locale \<open>replicated_property\<close> for
    what holds of all copies on all nodes. \<open>Gossip_Handshake\<close>: the three messages of a round.
    \<open>Gossip_Runs\<close>: concrete runs. \<open>Gossip_Refinement\<close>: networks implement the transition system of
    \<open>Replication_System\<close>. \<open>Gossip_Properties\<close>: the properties of networks.
  \<^item> \<open>Listener\<close>: \<open>listener.rs\<close>. \<open>Failure_Detector\<close>: \<open>failure_detector.rs\<close>.
    \<open>Chitchat\<close>, \<open>Chitchat_Correct\<close>: \<open>lib.rs\<close> and \<open>configuration.rs\<close>. \<open>Gossip_Server\<close>: \<open>server.rs\<close>.
  \<^item> \<open>Licenses\<close>: \<open>igniter/src/lib.rs\<close>, \<open>config.rs\<close>, \<open>errors.rs\<close>. \<open>Revocation\<close>:
    \<open>igniter/src/utils.rs\<close>. \<open>Routes\<close>: \<open>igniter/src/open_api/routes.rs\<close>, \<open>Params::to_gossip\<close> and
    \<open>revoked_license_watcher.rs\<close>.
  \<^item> \<open>Igniter_Start\<close>: reading and printing the settings (\<open>igniter/src/config.rs\<close>, \<open>cli.rs\<close>), starting the
    gossip (\<open>igniter/src/gossip.rs\<close>, \<open>spawn_chitchat\<close> of \<open>server.rs\<close>), the updater
    (\<open>updater/src/lib.rs\<close>) and the process (\<open>bin/acki-nacki-igniter.rs\<close>). \<open>Igniter_Properties\<close>: its properties.
  \<^item> \<open>Transports\<close>: \<open>chitchat/src/transport/\<close> (in-process channels, UDP, the wrapper that drops messages, the
    socket over QUIC with its tasks). \<open>Transport_Wrappers\<close>: opening these transports, the wrapper that delays
    messages, and \<open>ChitchatHandle\<close> of \<open>server.rs\<close>. \<open>Framing\<close>: sending and reading a message in
    \<open>transport-layer/src/msquic/mod.rs\<close>.
  \<^item> \<open>Quic_Types\<close>, \<open>Quic_Buffer\<close>, \<open>Quic_Stream\<close>, \<open>Quic_Connection\<close>, \<open>Quic_Listener\<close>: \<open>buffer.rs\<close>, \<open>stream.rs\<close>,
    \<open>connection.rs\<close> and \<open>listener.rs\<close> of \<open>transport-layer/src/msquic/msquic_async/\<close>, which turn the callbacks of
    the C library msquic into futures. \<open>Quic_Stream_Correct\<close>, \<open>Quic_Stream_Memory\<close> and
    \<open>Quic_Stream_Waiters\<close> prove what streams guarantee over a transition system of calls and events;
    \<open>Quic_Accept\<close> does so for connections and listeners, with the locale \<open>wait_queue\<close> for the four
    queues tasks accept from. \<open>Quic_Handles\<close>: the handles \<open>Stream\<close>, \<open>ReadStream\<close> and \<open>WriteStream\<close>.
  \<^item> \<open>Endpoints\<close>: the two implementations of the traits of \<open>transport-layer/src/lib.rs\<close>
    (\<open>msquic/mod.rs\<close> with \<open>quic_settings.rs\<close>, \<open>wtransport/mod.rs\<close>), with the locale
    \<open>identified_connections\<close> for what both promise of identities. \<open>Transport_Properties\<close>: its
    properties and those of handles, wrappers and the server's handle.
  \<^item> \<open>Pkcs12_Kdf\<close>, \<open>Pkcs12\<close>: \<open>transport-layer/src/msquic/pkcs12.rs\<close> and \<open>build_pkcs12\<close>. \<open>Net_Layer\<close>:
    credentials, protocol negotiation and \<open>LiteServer\<close> of \<open>transport-layer/src\<close>. \<open>Text_Utils\<close>: its
    \<open>utils.rs\<close>. \<open>Telemetry\<close>: \<open>telemetry_utils/src\<close>. \<open>Network_Properties\<close>: the properties of these layers.

  \<^bold>\<open>Conventions.\<close> A struct is a record, an enum a datatype, a method a function that returns the
  changed state. A method that can fail or panic returns a \<open>result\<close>, which is \<open>Ok\<close>, \<open>Err\<close> or
  \<open>Panic\<close>; an assertion, a failed \<open>unwrap\<close> and a slice out of range are panics. Versions, heartbeats
  and timestamps are 64-bit words; \<open>usize\<close> is a natural number, with the wrap-around of
  subtraction written out where it can occur (\<open>usize_sub\<close>). Strings are lists of bytes. A clock
  reading is an argument of the operation that makes it, one reading per handler. Hash maps whose
  order matters to nobody are sets or sorted maps. Shuffles and random draws are arguments, so
  the theorems hold for all of them. The events that node states trigger are recorded in the
  state and delivered by the caller (\<open>deliver_events\<close>); that is where a callback list is walked.

  \<^bold>\<open>Parameters.\<close> Libraries outside the repository are arguments: zstd (record \<open>zstd\<close>, assumption
  \<open>zstd_ok\<close>: decompression undoes compression, and compression into a buffer stays within it), the
  random generator (\<open>gossip_rng\<close>, \<open>rng_ok\<close>), the resolver of host names, Ed25519, base64,
  hexadecimal and JSON (\<open>igniter_env\<close>, \<open>hex_ok\<close>, \<open>json_ok\<close>), the set of ranges a stream keeps
  (\<open>range_set_ops\<close>, locale \<open>range_set\<close>), hashes, ciphers and the DER encoder of the key container
  (\<open>crypto\<close>, \<open>crypto_ok\<close>), what a starting process reads of its surroundings (\<open>start_env\<close>,
  \<open>gossip_start_env\<close>), how the standard library prints strings and addresses (\<open>fmt_env\<close>), the container
  service (\<open>docker\<close>), what msquic's functions return (\<open>msquic_env\<close>). Each is instantiated by a
  concrete function in a witness. What TLS and WebTransport report is an argument in \<open>Endpoints\<close>, how
  resources of metrics are merged one in \<open>Telemetry\<close>. The QUIC library itself is the environment:
  its events are steps that can come in any order, subject to \<open>event_expected\<close> (data in order, no event
  after the last one), and what its functions return is an argument of the call.

  \<^bold>\<open>What is shown.\<close>
  \<^item> Networks of nodes (C1 to C3, C6): a round of gossip makes two nodes read the same of each other,
    every copy on every node stays consistent with what its owner wrote, the running nodes refine the
    abstract replication protocol, and no value is made up. Garbage collection keeps copies
    consistent (C7); without numbers, the same is shown of the transition system of one owner and
    its copies and of each operation of the owner.
  \<^item> Deltas (C4, C5, C11): computing a partial delta returns for datagrams of 100 to 65535 bytes, what
    it returns is a legal delta, ordered by staleness, that fits the datagram, and it tells
    everything when there is room.
  \<^item> QUIC streams (C8 to C10, C20): over every interleaving of calls and events the bytes handed out are
    the bytes received, memory given back to the library is no longer in use, no wake-up is lost; the
    reading and the writing half do not disturb each other.
  \<^item> Wire format (C12, C13): round trips, announced lengths, and the datagrams that make the
    reader panic.
  \<^item> The node (C14 to C18): a new node is sound, handlers and the server's loop keep it so, a server
    that is told to stop stops, what a SYN is answered.
  \<^item> The process (C23, C25, C26): what a node that starts publishes and shows, when a start succeeds,
    and that the settings it prints hide the secrets.
  \<^item> Messages over QUIC (C19, C22), the identities of the two ends (C21) and connections (C24).
  \<^item> Failure detection and the choice of peers (C27 to C30).
  \<^item> Licences (C31 to C34): acceptance, revocation, what the REST interface lists.
  \<^item> The key container (C35) and the formatting of errors (C37).
  \<^item> Places where the code falls short of what it means to do (C36, C38 to C40), each with a concrete
    input that reaches it.
  Theorems without a number (round trips of the compressed stream, of deltas and digests, setting and
  deleting a key, prefix scans, garbage collection of the detector, subscriptions and their events, accept queues, the
  outcome of building a key container, delayed messages, counted channels, settings without effect,
  further flaws) complete the components.

  \<^bold>\<open>Bounds.\<close> Loops are structural recursion or come with termination proofs (the block and item loops
  of the stream reader, the flush loop of the writer, the reading loop of a stream, draining a stream,
  replacing a pattern once). Two loops of the code can run forever and are partial functions into
  \<open>option\<close>: reading a framed message (C22 says when it returns) and replacing a pattern until none is
  left (C37 proves that it returns for the patterns used). No definition uses fuel. The bounds
  on the datagram size are those under which \<open>with_mtu\<close> does not panic and the block threshold fits
  16 bits; a receive event carries less than \<open>2 ^ 32\<close> bytes, as its buffers' lengths are summed in 32 bits.

  \<^bold>\<open>Not modelled.\<close> Libraries the code only calls: parsing of command-line arguments and YAML, the HTTP
  client and server, the container service, TLS, generating a self-signed certificate, the byte-level DER
  encoding (the container is a tree), the exporter of metrics. Logging, debug formatting, timers and the
  scheduling of tasks: which task of the process ends is an argument, and a delayed message may go out
  at any time after its delay. Futures that only forward to a poll function are that function,
  polled again after each batch of events. What is left of the sources is test code, helpers of
  tests, build scripts, imports and trait declarations. Floating point numbers
  of the failure detector are rational numbers; an infinite or undefined quotient is kept as such.
  A mutex guards the node's state in the code, so handlers run one at a time; the same holds for a
  stream, a connection and a listener.
\<close>

section \<open>Concrete inputs\<close>

text \<open>
  A small cluster on which the properties below are exercised: the owner \<open>node_a\<close> of theory
  \<open>Replication_Flaws\<close> has set one key, another node knows nothing of it yet.
\<close>

definition node_b :: chitchat_id where
  "node_b = ChitchatId ''b'' 0 (SocketAddrV4 1 1)"

definition fresh_copy :: node_state where
  "fresh_copy = node_state_new node_a []"

definition one_key :: node_state where
  "one_key = after_ops [OpSet ''x'' ''1''] fresh_copy"

definition one_key_world :: world where
  "one_key_world = (initial_world node_a)
     \<lparr>wd_history := wd_history (initial_world node_a) @ recorded fresh_copy ''x'' one_key,
      wd_copies := (wd_copies (initial_world node_a))(node_a := one_key)\<rparr>"

definition one_key_digest :: digest where
  "one_key_digest = \<lparr>node_digests = [(node_a, ns_digest fresh_copy)]\<rparr>"

lemma one_key_reachable: "reachable node_a one_key_world"
proof -
  have copy: "wd_copies (initial_world node_a) node_a = fresh_copy"
    by (simp add: initial_world_def fresh_copy_def)
  have "run_op (OpSet ''x'' ''1'') 0 (wd_copies (initial_world node_a) node_a) = Ok one_key"
    unfolding copy by code_simp
  moreover have "ns_max_version (wd_copies (initial_world node_a) node_a) \<noteq> - 1"
    unfolding copy by code_simp
  ultimately have "world_step node_a (initial_world node_a) ((initial_world node_a)
      \<lparr>wd_history := wd_history (initial_world node_a)
         @ recorded (wd_copies (initial_world node_a) node_a) (op_key (OpSet ''x'' ''1'')) one_key,
       wd_copies := (wd_copies (initial_world node_a))(node_a := one_key)\<rparr>)"
    by (rule owner_writes)
  then show ?thesis
    unfolding copy op_key.simps one_key_world_def [symmetric]
    by (rule next_step [OF start])
qed

lemma one_key_world_simps:
  "wd_copies one_key_world node_a = one_key" "wd_copies one_key_world node_b = fresh_copy"
  "wd_history one_key_world = recorded fresh_copy ''x'' one_key"
  by (simp_all add: one_key_world_def initial_world_def fresh_copy_def node_a_def node_b_def)

lemma one_key_inv: "ns_inv one_key" "owner (recorded fresh_copy ''x'' one_key) one_key"
proof -
  have "world_inv node_a one_key_world" by (rule reachable_inv [OF one_key_reachable])
  then show o: "owner (recorded fresh_copy ''x'' one_key) one_key"
    by (simp add: world_inv_def one_key_world_simps)
  then show "ns_inv one_key" using consistent_ns_inv by (auto simp: owner_def)
qed

definition one_key_cluster :: cluster_state where
  "one_key_cluster = \<lparr>cs_node_states = [(node_a, one_key)], cs_seed_addrs = {}\<rparr>"

lemma one_key_cluster_inv: "cs_inv one_key_cluster"
  using one_key_inv by (simp add: cs_inv_def one_key_cluster_def)

definition no_shuffle :: shuffle where
  "no_shuffle = (\<lambda>_ g. g)"

lemma no_shuffle_shuffles: "shuffles no_shuffle"
  by (simp add: shuffles_def no_shuffle_def)

definition empty_digest :: digest where
  "empty_digest = \<lparr>node_digests = []\<rparr>"

definition demo_config :: chitchat_config where
  "demo_config = \<lparr>cfg_chitchat_id = node_b, cfg_cluster_id = ''c'', cfg_gossip_interval = 500,
     cfg_listen_addr = SocketAddrV4 1 1, cfg_seed_nodes = [],
     cfg_failure_detector_config = failure_detector_config_default,
     cfg_marked_for_deletion_grace_period = 10, cfg_has_catchup_callback = False,
     cfg_extra_liveness_predicate = None\<rparr>"

text \<open>A node that knows the owner's state, with unit callbacks and datagrams of 400 bytes.\<close>

definition demo_node :: "unit chitchat" where
  "demo_node = \<lparr>ch_config = demo_config, ch_cluster_state = one_key_cluster,
     ch_listeners = inner_listeners_default,
     ch_failure_detector = failure_detector_new failure_detector_config_default,
     ch_previous_live_nodes = [], ch_live_nodes_watcher = [],
     ch_max_datagram_payload_size = 400, ch_catchup_runs = 0\<rparr>"

lemma demo_node_inv: "ch_inv demo_node"
  using one_key_cluster_inv fd_inv_new [of failure_detector_config_default] listeners_inv_default
  by (simp add: ch_inv_def demo_node_def failure_detector_config_default_def)

section \<open>Replication\<close>

text \<open>
  After a node applied the owner's answer to its digest, when that answer was not cut to a
  datagram, it reads the same value as the owner for every key, in every state the cluster can
  reach with deltas delayed, duplicated, reordered or lost. Two situations are excluded: a key
  whose last write made it expire (each copy drops it at a time of its own), and a node whose
  \<open>max_version\<close> is exactly the version up to which the owner collected while it collected less
  itself (see \<open>incremental_delta_loses_keys\<close>).
\<close>

theorem owner_exchange_converges:
  assumes "reachable i w"
    and "delta_from_version dg i (wd_copies w i) = Some from_v"
    and "bt_get (node_digests dg) i = Some (ns_digest (wd_copies w j))"
    and "uncut (wd_copies w i) from_v nd"
    and "\<not> (ns_max_version (wd_copies w j) = ns_last_gc_version (wd_copies w i)
      \<and> ns_last_gc_version (wd_copies w j) < ns_last_gc_version (wd_copies w i))"
    and "\<not> expiring (wd_history w) k"
  shows "ns_get (ns_apply_delta nd now (wd_copies w j)) k = ns_get (wd_copies w i) k"
  using exchange_with_owner [OF reachable_inv [OF assms(1)] assms(2-6)] .

theorem owner_exchange_converges_witness:
  "ns_get (ns_apply_delta (cut_delta 9 node_a one_key 0) 7 fresh_copy) ''x'' = Some ''1''"
proof -
  have "delta_from_version one_key_digest node_a one_key = Some 0"
    "bt_get (node_digests one_key_digest) node_a = Some (ns_digest fresh_copy)"
    "uncut one_key 0 (cut_delta 9 node_a one_key 0)"
    "\<not> (ns_max_version fresh_copy = ns_last_gc_version one_key
      \<and> ns_last_gc_version fresh_copy < ns_last_gc_version one_key)"
    "\<not> expiring (recorded fresh_copy ''x'' one_key) ''x''"
    by code_simp+
  then have "ns_get (ns_apply_delta (cut_delta 9 node_a one_key 0) 7 fresh_copy) ''x''
      = ns_get one_key ''x''"
    using owner_exchange_converges [OF one_key_reachable, of one_key_digest 0 node_b
        "cut_delta 9 node_a one_key 0" "''x''" 7]
    unfolding one_key_world_simps by blast
  also have "\<dots> = Some ''1''" by code_simp
  finally show ?thesis .
qed

text \<open>
  In every reachable state of the cluster every copy of a node's state is consistent with the
  node's history: it holds only writes the owner made, it holds the last write of every key up to
  its \<open>max_version\<close> unless that deleted the key and was collected, and it holds no older value of
  a key whose deletion it collected.
\<close>

theorem reachable_copies_consistent:
  assumes "reachable i w"
  shows "consistent (wd_history w) (wd_copies w j)"
  using reachable_inv [OF assms] by (simp add: world_inv_def copy_of_def)

theorem reachable_copies_consistent_witness:
  "consistent (wd_history one_key_world) (wd_copies one_key_world node_a)"
  using reachable_copies_consistent [OF one_key_reachable] .

text \<open>
  C4: the computation of a partial delta returns for every digest, every datagram size from 100
  to 65535 bytes and every shuffle, that is, no assertion of the builder, the writer or the
  serializer fails. Each node delta of the result is one the node's copy may emit for that digest
  (a prefix of its newer writes in version order, with its own \<open>last_gc_version\<close>), about a node
  not scheduled for deletion; serializing the delta meets the assertion on its announced length;
  and when every operation fits a block, the result fits the datagram.
\<close>

theorem partial_delta_returns:
  assumes "zstd_ok z" "shuffles sh" "cs_inv cs" "100 \<le> mtu" "mtu \<le> 65535"
  shows "\<exists>d bs. compute_partial_delta_respecting_mtu z sh dg mtu sched cs = Ok d
    \<and> (\<forall>nd \<in> set (node_deltas d). ndl_chitchat_id nd \<notin> sched \<and> (\<exists>s from_v.
         cs_node_state cs (ndl_chitchat_id nd) = Some s
         \<and> delta_from_version dg (ndl_chitchat_id nd) s = Some from_v \<and> emits s from_v nd))
    \<and> delta_serialize z d = Ok bs \<and> length bs = delta_serialized_len d
    \<and> ((\<forall>sn \<in> set (candidates dg sched cs). fits_block mtu sn) \<longrightarrow> length bs \<le> mtu)"
proof -
  obtain d bs where d: "compute_partial_delta_respecting_mtu z sh dg mtu sched cs = Ok d"
    "deltas_of (stale_list sh dg sched cs) (node_deltas d)" "delta_serialize z d = Ok bs"
    "length bs = delta_serialized_len d"
    "(\<forall>sn \<in> set (stale_list sh dg sched cs). fits_block mtu sn) \<longrightarrow> length bs \<le> mtu"
    using compute_partial_delta_ok [OF assms, of dg sched] by blast
  have "ndl_chitchat_id nd \<notin> sched \<and> (\<exists>s from_v. cs_node_state cs (ndl_chitchat_id nd) = Some s
      \<and> delta_from_version dg (ndl_chitchat_id nd) s = Some from_v \<and> emits s from_v nd)"
    if "nd \<in> set (node_deltas d)" for nd
    using deltas_of_emitted [OF assms(2,3) d(2) that] by blast
  then show ?thesis
    using d stale_list_iff [OF assms(2)] by blast
qed

theorem partial_delta_returns_witness:
  "\<exists>d. compute_partial_delta_respecting_mtu zstd_none no_shuffle empty_digest 200 {} one_key_cluster = Ok d
    \<and> (\<exists>bs. delta_serialize zstd_none d = Ok bs)"
  using partial_delta_returns [OF zstd_none_ok no_shuffle_shuffles one_key_cluster_inv, of 200
      empty_digest "{}"]
  by auto

text \<open>
  C5: a partial delta covers the stale nodes in decreasing order of staleness, whatever the
  shuffle of equally stale ones: the list walked holds each node that is behind exactly once, is
  sorted by staleness, and the deltas are those of its first nodes, complete but for the last.
\<close>

theorem partial_delta_order:
  assumes "zstd_ok z" "shuffles sh" "cs_inv cs" "100 \<le> mtu" "mtu \<le> 65535"
    and "compute_partial_delta_respecting_mtu z sh dg mtu sched cs = Ok d"
  shows "mset (stale_list sh dg sched cs) = mset (candidates dg sched cs)
    \<and> distinct (map sn_chitchat_id (stale_list sh dg sched cs))
    \<and> sorted_wrt (\<lambda>a b. the (stale_key b) \<le> the (stale_key a)) (stale_list sh dg sched cs)
    \<and> deltas_of (stale_list sh dg sched cs) (node_deltas d)"
  using compute_partial_delta_ok [OF assms(1-5), of dg sched] assms(3,6)
    into_iter_mset [OF assms(2), of dg sched cs]
    into_iter_sorted [OF assms(2) collect_wf, of dg sched cs]
    into_iter_distinct [OF assms(2), of cs dg sched]
  by (auto simp: stale_list_def cs_inv_def)

theorem partial_delta_order_witness:
  "\<exists>d. compute_partial_delta_respecting_mtu zstd_none no_shuffle empty_digest 200 {} one_key_cluster = Ok d
    \<and> deltas_of (stale_list no_shuffle empty_digest {} one_key_cluster) (node_deltas d)"
proof -
  obtain d where d: "compute_partial_delta_respecting_mtu zstd_none no_shuffle empty_digest 200 {}
      one_key_cluster = Ok d"
    using compute_partial_delta_ok [OF zstd_none_ok no_shuffle_shuffles one_key_cluster_inv,
        of 200 empty_digest "{}"] by auto
  show ?thesis
    using partial_delta_order [OF zstd_none_ok no_shuffle_shuffles one_key_cluster_inv _ _ d] d by simp
qed

text \<open>
  Every operation of the owner (\<open>set\<close>, \<open>set_with_ttl\<close>, \<open>delete\<close>, \<open>delete_after_ttl\<close>) that
  returns keeps the owner's state consistent with its history, extended by the write when there
  was one; and it keeps consistent every copy that knows no more than the owner.
\<close>

theorem owner_operations_consistent:
  assumes "owner H s" "run_op oper now s = Ok s'" "ns_max_version s \<noteq> - 1"
  shows "owner (H @ recorded s (op_key oper) s') s'
    \<and> (\<forall>c. copy_of H (ns_max_version s) c \<longrightarrow>
         copy_of (H @ recorded s (op_key oper) s') (ns_max_version s') c)"
  using run_op_owner [OF assms] .

theorem owner_operations_consistent_witness:
  "owner (recorded fresh_copy ''x'' one_key
      @ recorded one_key ''x'' (after_ops [OpDelete ''x''] one_key)) (after_ops [OpDelete ''x''] one_key)"
proof -
  have "run_op (OpDelete ''x'') 0 one_key = Ok (after_ops [OpDelete ''x''] one_key)"
    "ns_max_version one_key \<noteq> - 1"
    by code_simp+
  from owner_operations_consistent [OF one_key_inv(2) this] show ?thesis by simp
qed



section \<open>The wire format\<close>

text \<open>
  Appending an item no longer than a block to the compressed stream and finishing it
  succeeds, costs at most what \<open>serialized_len_upperbound_after\<close> announced, and reading the
  result returns all items appended so far.
\<close>

theorem compressed_stream_append:
  assumes "zstd_ok z" "csw_wf w" "csw_repr z w data"
    and "0 < length bs" "length bs \<le> csw_block_threshold w"
  shows "\<exists>bound w' out. serialized_len_upperbound_after w (length bs) = Ok bound
    \<and> csw_append z bs (length bs) w = Ok w' \<and> csw_finish z w' = Ok out \<and> length out \<le> bound
    \<and> (\<forall>rest. read_blocks z [] (out @ rest) = Ok (data @ bs, rest))"
proof -
  have len: "length bs \<le> 65535" using assms(2,5) by (simp add: csw_wf_def)
  obtain w' where w': "csw_append z bs (length bs) w = Ok w'" "csw_repr z w' (data @ bs)" "csw_wf w'"
    by (rule csw_append_ok [OF assms(1-3) len])
  obtain out where out: "csw_finish z w' = Ok out"
    "\<forall>rest. read_blocks z [] (out @ rest) = Ok (data @ bs, rest)"
    "length out \<le> length (csw_output w') + length (csw_uncompressed_block w') + 4"
    using csw_finish_ok [OF assms(1) w'(3,2)] by blast
  show ?thesis
    using w'(1) out csw_append_size [OF assms(1-3,5) len w'(1)] assms(4)
    by (auto simp: serialized_len_upperbound_after_def Let_def split: if_splits)
qed

theorem compressed_stream_append_witness:
  "\<exists>bound w' out. serialized_len_upperbound_after (with_block_threshold 100) 3 = Ok bound
    \<and> csw_append zstd_none [1, 2, 3] 3 (with_block_threshold 100) = Ok w'
    \<and> csw_finish zstd_none w' = Ok out \<and> length out \<le> bound"
  using compressed_stream_append [OF zstd_none_ok with_block_threshold_wf
      with_block_threshold_repr, of 100 "[1, 2, 3]"]
  by (auto simp: with_block_threshold_def numeral_3_eq_3)

text \<open>
  A well-formed delta that was serialized is read back as it was, and what follows it in the
  buffer is left alone.
\<close>

theorem delta_roundtrip:
  assumes "zstd_ok z" "delta_wf (node_deltas d)" "delta_serialize z d = Ok bs"
  shows "delta_deserialize z (bs @ rest) = Ok (d, rest)"
  using delta_deserialize_serialize [OF assms] .

theorem delta_roundtrip_witness:
  "delta_deserialize zstd_none ([0] @ [7, 7]) = Ok (delta_default, [7, 7])"
proof -
  have "delta_wf (node_deltas delta_default)"
    by (simp add: delta_wf_def delta_default_def get_operations_def)
  moreover have "delta_serialize zstd_none delta_default = Ok [0]"
    by (simp add: delta_serialize_def delta_default_def get_operations_def with_block_threshold_def
        csw_finish_def flush_block_def block_type_serialize_def u8_serialize_def)
  ultimately show ?thesis by (rule delta_roundtrip [OF zstd_none_ok])
qed

text \<open>
  A digest of at most 65535 nodes with valid identifiers is read back as it was, and its
  announced length is the length written.
\<close>

theorem digest_roundtrip:
  assumes "zstd_ok z" "digest_valid z d"
  shows "digest_deserialize z (digest_serialize z d @ rest) = Ok (d, rest)
    \<and> length (digest_serialize z d) = digest_serialized_len z d"
  using digest_codec.de_ser [of z d rest] digest_codec.ser_len [of z d] assms by blast

lemma empty_digest_valid: "digest_valid zstd_none empty_digest"
  by (simp add: digest_valid_def empty_digest_def digest_serialized_len_def digest_serialize_def
      zstd_none_def digest_serialize_uncompressed_def)

theorem digest_roundtrip_witness:
  "digest_deserialize zstd_none (digest_serialize zstd_none empty_digest @ [9]) = Ok (empty_digest, [9])"
  using digest_roundtrip [OF zstd_none_ok empty_digest_valid, of "[9]"] by blast

text \<open>
  C12: every message of the handshake that was serialized is read back as it was, and its
  announced length is the length written.
\<close>

theorem message_roundtrip:
  assumes "zstd_ok z" "message_valid z m" "message_serialize z m = Ok bs"
  shows "message_deserialize z (bs @ rest) = Ok (m, rest) \<and> length bs = message_serialized_len z m"
  using message_deserialize_serialize [OF assms] message_length [OF assms(3)] by blast

theorem message_roundtrip_witness:
  "message_deserialize zstd_none ((message_header TypeSyn @ digest_serialize zstd_none empty_digest
      @ str_serialize ''c'') @ []) = Ok (Syn ''c'' empty_digest, [])"
proof -
  have "message_valid zstd_none (Syn ''c'' empty_digest)"
    using empty_digest_valid by (simp add: str_valid_def as_bytes_def)
  from message_roundtrip [OF zstd_none_ok this, of _ "[]"] show ?thesis by simp
qed

text \<open>
  C13: the only datagram whose reading panics starts with the magic number, version 0 and the
  type SYN or SYN-ACK, and announces a digest longer than the datagram. Such a datagram does
  panic.
\<close>

theorem datagram_panic:
  "is_panic (message_deserialize z buf) \<longleftrightarrow>
    (\<exists>code rest. buf = 0x53 # 0xB0 # 0 # code # rest \<and> (code = 0 \<or> code = 1)
      \<and> 4 \<le> length rest \<and> length rest - 4 < le_nat (take 4 rest))"
proof
  assume "is_panic (message_deserialize z buf)"
  then show "\<exists>code rest. buf = 0x53 # 0xB0 # 0 # code # rest \<and> (code = 0 \<or> code = 1)
      \<and> 4 \<le> length rest \<and> length rest - 4 < le_nat (take 4 rest)"
    using message_deserialize_panic [of z buf] digest_deserialize_panic_iff by blast
next
  assume "\<exists>code rest. buf = 0x53 # 0xB0 # 0 # code # rest \<and> (code = 0 \<or> code = 1)
      \<and> 4 \<le> length rest \<and> length rest - 4 < le_nat (take 4 rest)"
  then show "is_panic (message_deserialize z buf)"
    using digest_deserialize_panic_iff
    by (fastforce simp: message_deserialize_def MAGIC_NUMBER_def is_panic_and_then)
qed

text \<open>
  C14: whatever bytes a peer sends, a message read from them and handled without a panic leaves
  the node's state sound: node states with entries in key order, no entry above \<open>max_version\<close> and
  no two entries of one version; no node both live and dead; sound sampling windows and listeners.
\<close>

theorem handled_datagram_keeps_invariant:
  assumes "ch_inv c" "message_deserialize z buf = Ok (m, rest)"
    and "process_message z sh now m c = Ok (reply, c')"
  shows "ch_inv c'"
proof -
  have "\<forall>nd \<in> set (message_deltas m). node_delta_wf nd"
    using message_deserialize_deltas_wf [OF assms(2)] .
  then show ?thesis using process_message_inv [OF assms(1) _ assms(3)] by blast
qed

theorem handled_datagram_keeps_invariant_witness:
  "ch_inv (update_self_heartbeat demo_node)"
proof -
  have "message_deserialize zstd_none [0x53, 0xB0, 0, 3] = Ok (BadCluster, [])"
    by (simp add: message_deserialize_def MAGIC_NUMBER_def)
  moreover have "process_message zstd_none no_shuffle 0 BadCluster demo_node
      = Ok (None, update_self_heartbeat demo_node)"
    by simp
  ultimately show ?thesis by (rule handled_datagram_keeps_invariant [OF demo_node_inv])
qed

text \<open>
  C15: the server's loop keeps the node's state sound over any sequence of received messages,
  gossip ticks, commands and shutdown, with any clock readings, random draws and shuffles, as long
  as no handler panics; every delta in a received message has increasing versions, which reading
  it guarantees.
\<close>

theorem server_run_keeps_invariant:
  assumes "ch_inv (sv_chitchat sv)" "\<forall>ev \<in> set evs. event_wf ev" "server_run z evs sv = Ok st"
  shows "ch_inv (sv_chitchat (run_server st))"
  using server_run_inv [OF assms] .

theorem server_run_keeps_invariant_witness:
  "ch_inv (sv_chitchat (run_server (Stopped \<lparr>sv_chitchat = update_self_heartbeat demo_node,
     sv_outbox = []\<rparr>)))"
proof (rule server_run_keeps_invariant)
  show "ch_inv (sv_chitchat \<lparr>sv_chitchat = demo_node, sv_outbox = []\<rparr>)"
    using demo_node_inv by simp
  show "\<forall>ev \<in> set [EventRecv 0 no_shuffle (SocketAddrV4 1 2) BadCluster, EventShutdown]. event_wf ev"
    by simp
  show "server_run zstd_none [EventRecv 0 no_shuffle (SocketAddrV4 1 2) BadCluster, EventShutdown]
      \<lparr>sv_chitchat = demo_node, sv_outbox = []\<rparr>
      = Ok (Stopped \<lparr>sv_chitchat = update_self_heartbeat demo_node, sv_outbox = []\<rparr>)"
    by (simp add: handle_message_def)
qed

text \<open>
  C17: creating a node returns a sound one: it knows itself only, every initial key reads as the
  last value given for it and no other key is set, and no node is live yet.
\<close>

theorem created_node_sound:
  assumes "with_chitchat_id_and_seeds cfg seeds kvs mtu = Ok c"
    and "0 < fd_sampling_window_size (cfg_failure_detector_config cfg)"
  shows "ch_inv c \<and> (\<exists>s. cs_node_states (ch_cluster_state c) = [(cfg_chitchat_id cfg, s)]
      \<and> (\<forall>k. ns_get s k = map_of (rev kvs) k))
    \<and> ch_config c = cfg \<and> ch_max_datagram_payload_size c = mtu \<and> ch_live_nodes_watcher c = []"
  by (rule created_node [OF assms]) simp

theorem created_node_sound_witness:
  "\<exists>c :: unit chitchat. with_chitchat_id_and_seeds demo_config {} [(''x'', ''1''), (''x'', ''2'')] 400 = Ok c
    \<and> ch_inv c"
proof -
  let ?kvs = "[(''x'', ''1''), (''x'', ''2'')]"
  have "case set_all ?kvs (inc_heartbeat (node_state_new node_b [])) of
      Ok s \<Rightarrow> \<not> (\<exists>ev\<in>set (ns_listeners s). kce_key ev \<noteq> [] \<and> \<not> first_byte_is_char (kce_key ev))
    | _ \<Rightarrow> False"
    by code_simp
  then obtain s where "set_all ?kvs (inc_heartbeat (node_state_new node_b [])) = Ok s"
    "\<not> (\<exists>ev\<in>set (ns_listeners s). kce_key ev \<noteq> [] \<and> \<not> first_byte_is_char (kce_key ev))"
    by (auto split: result.splits)
  then have "\<exists>c :: unit chitchat. with_chitchat_id_and_seeds demo_config {} ?kvs 400 = Ok c"
    by (simp add: with_chitchat_id_and_seeds_def demo_config_def with_seed_addrs_def
        node_state_or_new_def deliver_events_def self_node_state_def ch_update_cluster_def
        node_state_mut_def self_chitchat_id_def trigger_event_panic Let_def del: set_all.simps)
  moreover have "0 < fd_sampling_window_size (cfg_failure_detector_config demo_config)"
    by (simp add: demo_config_def failure_detector_config_default_def)
  ultimately show ?thesis
    using created_node_sound by blast
qed


lemma demo_sched: "ch_scheduled_for_deletion 0 (update_self_heartbeat demo_node) = {}"
  by (simp add: ch_scheduled_for_deletion_def scheduled_for_deletion_nodes_def
      update_self_heartbeat_def self_node_state_def ch_update_cluster_def demo_node_def
      failure_detector_new_def)

lemma demo_nodes:
  "cs_node_states (ch_cluster_state (update_self_heartbeat demo_node))
    = [(node_a, one_key), (node_b, inc_heartbeat (node_state_new node_b []))]"
  by (simp add: update_self_heartbeat_def self_node_state_def ch_update_cluster_def
      node_state_mut_def node_state_or_new_def self_chitchat_id_def demo_node_def demo_config_def
      one_key_cluster_def node_a_def node_b_def less_chitchat_id_def)

lemma node_id_lens:
  "chitchat_id_serialized_len node_a = 18" "chitchat_id_serialized_len node_b = 18"
  by (simp_all add: chitchat_id_serialized_len_def str_serialized_len_def as_bytes_def
      socket_addr_serialized_len_def u64_serialized_len_def u16_serialized_len_def node_a_def
      node_b_def)

lemma demo_digest_len:
  "digest_serialized_len zstd_none (ch_compute_digest {} (update_self_heartbeat demo_node)) = 90"
proof -
  have ids: "chitchat_id_valid node_a" "chitchat_id_valid node_b"
    by (simp_all add: chitchat_id_valid_def str_valid_def as_bytes_def socket_addr_valid_def
        node_a_def node_b_def)
  show ?thesis
    using chitchat_id_codec.ser_len [OF ids(1)] chitchat_id_codec.ser_len [OF ids(2)] node_id_lens
    by (simp add: digest_serialized_len_def digest_serialize_def zstd_none_def
        digest_serialize_uncompressed_def ch_compute_digest_def compute_digest_def demo_nodes
        bt_retain_def bt_map_values_def node_digest_codec.ser_len node_digest_serialized_len_def
        heartbeat_serialized_len_def u64_serialized_len_def)
qed



section \<open>Node states\<close>

text \<open>
  \<open>set\<close> panics exactly when the key does not hold the value yet and the version counter is
  exhausted. Otherwise it returns a sound state in which the key reads as the value and every
  other key reads as before.
\<close>

theorem set_correct:
  assumes "ns_inv s"
  shows "(is_panic (ns_set k v s) \<longleftrightarrow> \<not> already_set s k v \<and> ns_max_version s = - 1)
    \<and> (\<not> is_panic (ns_set k v s) \<longrightarrow> (\<exists>s'. ns_set k v s = Ok s' \<and> ns_inv s'
         \<and> (\<forall>j. ns_get s' j = (if j = k then Some v else ns_get s j))))"
proof -
  have "is_panic (ns_set k v s) \<longleftrightarrow> \<not> already_set s k v \<and> ns_max_version s = - 1"
    by (simp add: ns_set_cases)
  moreover have "\<exists>s'. ns_set k v s = Ok s'" if "\<not> is_panic (ns_set k v s)"
    using that by (auto simp: ns_set_cases split: if_splits)
  ultimately show ?thesis using ns_set_inv [OF assms] ns_set_get [OF assms] by blast
qed

theorem set_correct_witness:
  "\<exists>s'. ns_set ''y'' ''2'' one_key = Ok s' \<and> ns_get s' ''y'' = Some ''2'' \<and> ns_get s' ''x'' = Some ''1''"
proof -
  have "\<not> is_panic (ns_set ''y'' ''2'' one_key)" "ns_get one_key ''x'' = Some ''1''" by code_simp+
  then show ?thesis using set_correct [OF one_key_inv(1), of "''y''" "''2''"] by auto
qed

text \<open>
  A deleted key reads as absent, a key scheduled for deletion by a time to live stays
  readable, no other key is touched, and both operations keep the state sound while the version
  counter has room.
\<close>

theorem delete_correct:
  assumes "ns_inv s" "ns_max_version s \<noteq> - 1"
  shows "ns_get (ns_delete k now s) j = (if j = k then None else ns_get s j)
    \<and> ns_get (delete_after_ttl k now s) j
        = (if j = k then map_option vv_value (get_versioned s k) else ns_get s j)
    \<and> ns_inv (ns_delete k now s) \<and> ns_inv (delete_after_ttl k now s)"
  using ns_delete_get delete_after_ttl_get ns_delete_inv [OF assms] delete_after_ttl_inv [OF assms]
  by blast

theorem delete_correct_witness:
  "ns_get (ns_delete ''x'' 4 one_key) ''x'' = None
    \<and> ns_get (delete_after_ttl ''x'' 4 one_key) ''x'' = Some ''1''"
proof -
  have "ns_max_version one_key \<noteq> - 1" "map_option vv_value (get_versioned one_key ''x'') = Some ''1''"
    by code_simp+
  then show ?thesis using delete_correct [OF one_key_inv(1), of "''x''" 4 "''x''"] by simp
qed

text \<open>
  The range scan of \<open>iter_prefix\<close> visits, in key order, exactly the entries that are not
  deleted and whose key has the prefix.
\<close>

theorem iter_prefix_correct:
  assumes "ns_inv s"
  shows "iter_prefix s p = filter (\<lambda>(k, vv). prefix p k \<and> \<not> is_deleted vv) (ns_key_values s)"
  using iter_prefix_filter assms by (simp add: ns_inv_def)

theorem iter_prefix_correct_witness:
  "iter_prefix one_key ''x'' = ns_key_values one_key"
proof -
  have "filter (\<lambda>(k, vv). prefix ''x'' k \<and> \<not> is_deleted vv) (ns_key_values one_key)
      = ns_key_values one_key" by code_simp
  then show ?thesis using iter_prefix_correct [OF one_key_inv(1), of "''x''"] by simp
qed

section \<open>Failure detection\<close>





text \<open>
  C29: whatever was sampled of a node, there is a time after which the detector no longer takes
  it for alive unless another heartbeat arrives.
\<close>

theorem silent_node_is_detected:
  assumes "fd_inv fd"
  shows "\<exists>T. \<forall>now. T \<le> now \<longrightarrow> i \<notin> fd_live_nodes (update_node_liveness i now fd)"
  using silent_node_dies [OF assms, of i] update_node_liveness_live(1) by blast

text \<open>A detector with short intervals that heard of one node at 0 and at 1.\<close>

definition short_config :: failure_detector_config where
  "short_config = \<lparr>fd_phi_threshold = 8, fd_sampling_window_size = 2, fd_max_interval = 10,
     fd_initial_interval = 5, fd_dead_node_grace_period = 20\<rparr>"

definition heard_twice :: failure_detector where
  "heard_twice = (case fd_report_heartbeat node_a 0 (failure_detector_new short_config) of
     Ok fd \<Rightarrow> (case fd_report_heartbeat node_a 1 fd of Ok fd' \<Rightarrow> fd' | _ \<Rightarrow> fd)
   | _ \<Rightarrow> failure_detector_new short_config)"

lemma heard_twice_inv: "fd_inv heard_twice"
proof -
  have new: "fd_inv (failure_detector_new short_config)"
    by (rule fd_inv_new) (simp add: short_config_def)
  obtain fd where fd: "fd_report_heartbeat node_a 0 (failure_detector_new short_config) = Ok fd"
    "fd_inv fd"
    by (rule fd_report_heartbeat_ok [OF new])
  obtain fd' where "fd_report_heartbeat node_a 1 fd = Ok fd'" "fd_inv fd'"
    by (rule fd_report_heartbeat_ok [OF fd(2)])
  then show ?thesis using fd(1) by (simp add: heard_twice_def)
qed

theorem silent_node_is_detected_witness:
  "node_a \<in> fd_live_nodes (update_node_liveness node_a 2 heard_twice)
    \<and> (\<exists>T. \<forall>now. T \<le> now \<longrightarrow> node_a \<notin> fd_live_nodes (update_node_liveness node_a now heard_twice))"
proof -
  have "fd_is_alive node_a 2 heard_twice" by code_simp
  then show ?thesis
    using silent_node_is_detected [OF heard_twice_inv] update_node_liveness_live(1) by blast
qed

text \<open>
  Garbage collection of the detector returns exactly the nodes dead for at least the grace
  period, forgets them and their windows, and keeps all others.
\<close>

theorem detector_gc_correct:
  assumes "fd_inv fd" "garbage_collect now fd = (gone, fd')"
  shows "(i \<in> set gone \<longleftrightarrow> (\<exists>t. bt_get (fd_dead_nodes fd) i = Some t
        \<and> t + fd_dead_node_grace_period (fd_config fd) \<le> now))
    \<and> bt_get (fd_dead_nodes fd') i = (if i \<in> set gone then None else bt_get (fd_dead_nodes fd) i)
    \<and> (i \<in> set gone \<longrightarrow> bt_get (fd_node_samples fd') i = None)
    \<and> fd_inv fd'"
  using garbage_collect_iff [OF assms, of i] garbage_collect_inv [OF assms] by blast

theorem detector_gc_correct_witness:
  "node_a \<in> set (fst (garbage_collect 90 (update_node_liveness node_a 60 heard_twice)))"
proof -
  let ?fd = "update_node_liveness node_a 60 heard_twice"
  have "bt_get (fd_dead_nodes ?fd) node_a = Some 60"
    "fd_dead_node_grace_period (fd_config ?fd) = 20" by code_simp+
  then show ?thesis
    using detector_gc_correct [OF update_node_liveness_inv [OF heard_twice_inv],
        of 90 node_a 60 "fst (garbage_collect 90 ?fd)"
          "snd (garbage_collect 90 ?fd)" node_a] by simp
qed

section \<open>Listeners\<close>

text \<open>
  The range scan over subscribed prefixes reaches exactly the subscriptions whose prefix the
  key starts with, each with the rest of the key, for every key that is empty or starts with a
  one-byte character; for any other key the delivery panics.
\<close>

theorem trigger_event_correct:
  assumes "listeners_inv il"
  shows "(is_panic (trigger_event il ev) \<longleftrightarrow> kce_key ev \<noteq> [] \<and> \<not> first_byte_is_char (kce_key ev))
    \<and> (kce_key ev = [] \<or> first_byte_is_char (kce_key ev) \<longrightarrow> (\<exists>calls. trigger_event il ev = Ok calls
         \<and> (\<forall>cb ev'. (cb, ev') \<in> set calls \<longleftrightarrow> (\<exists>p idx. subscribed il p idx = Some cb
              \<and> prefix p (kce_key ev) \<and> ev' = ev\<lparr>kce_key := drop (length p) (kce_key ev)\<rparr>))))"
proof -
  have "is_panic (trigger_event il ev) \<longleftrightarrow> kce_key ev \<noteq> [] \<and> \<not> first_byte_is_char (kce_key ev)"
    by (simp add: trigger_event_def Let_def)
  moreover have "bt_wf (il_listeners il)" using assms by (simp add: listeners_inv_def)
  ultimately show ?thesis using trigger_event_matching matching_calls_iff [OF assms] by blast
qed

definition one_listener :: "nat inner_listeners" where
  "one_listener = snd (subscribe_event ''a'' 5 inner_listeners_default)"

lemma one_listener_inv: "listeners_inv one_listener"
  by (rule listeners_inv_subscribe [OF listeners_inv_default, of "''a''" 5
        "fst (subscribe_event ''a'' (5 :: nat) inner_listeners_default)"])
    (simp_all add: one_listener_def inner_listeners_default_def)

theorem trigger_event_correct_witness:
  "\<exists>calls. trigger_event one_listener \<lparr>kce_key = ''ab'', kce_value = ''1'', kce_node = node_a\<rparr> = Ok calls
    \<and> (5, \<lparr>kce_key = ''b'', kce_value = ''1'', kce_node = node_a\<rparr>) \<in> set calls"
proof -
  have "first_byte_is_char ''ab''" "subscribed one_listener ''a'' 0 = Some 5" by code_simp+
  moreover from this obtain calls where
    "trigger_event one_listener \<lparr>kce_key = ''ab'', kce_value = ''1'', kce_node = node_a\<rparr> = Ok calls"
    and "\<forall>cb ev'. (cb, ev') \<in> set calls \<longleftrightarrow> (\<exists>p idx. subscribed one_listener p idx = Some cb
      \<and> prefix p ''ab'' \<and> ev' = \<lparr>kce_key = drop (length p) ''ab'', kce_value = ''1'', kce_node = node_a\<rparr>)"
    using trigger_event_correct [OF one_listener_inv,
        of "\<lparr>kce_key = ''ab'', kce_value = ''1'', kce_node = node_a\<rparr>"] by auto
  ultimately show ?thesis by (intro exI [of _ calls]) (simp, intro exI [of _ "''a''"], auto)
qed

text \<open>
  A subscription gets a number no other one has, is added without touching the others, and
  dropping its handle removes it and nothing else; a handle made permanent removes nothing.
\<close>

theorem subscription_lifecycle:
  assumes "listeners_inv il" "subscribe_event p cb il = (h, il')" "il_listener_idx il \<noteq> - 1"
  shows "subscribed il (lh_prefix h) (lh_listener_id h) = None
    \<and> subscribed il' q j = (if q = p \<and> j = lh_listener_id h then Some cb else subscribed il q j)
    \<and> subscribed (handle_drop h il') q j = subscribed il q j
    \<and> handle_drop (handle_forever h) il' = il'
    \<and> listeners_inv il' \<and> listeners_inv (handle_drop h il')"
proof -
  have h: "lh_prefix h = p" "lh_attached h"
    using assms(2) by (auto simp: subscribe_event_def Let_def)
  note fresh = subscribe_fresh [OF assms(1,2)]
  note inv = listeners_inv_subscribe [OF assms]
  show ?thesis
    using h fresh inv listeners_inv_remove [OF inv] subscribed_subscribe [OF assms(2)]
    by (auto simp: handle_drop_def handle_forever_def subscribed_remove)
qed

theorem subscription_lifecycle_witness:
  "subscribed (handle_drop (fst (subscribe_event ''b'' 6 one_listener))
      (snd (subscribe_event ''b'' 6 one_listener))) ''a'' 0 = subscribed one_listener ''a'' 0"
proof -
  have "subscribe_event ''b'' 6 one_listener
      = (fst (subscribe_event ''b'' 6 one_listener), snd (subscribe_event ''b'' 6 one_listener))" by simp
  moreover have "il_listener_idx one_listener \<noteq> - 1" by code_simp
  ultimately show ?thesis
    using subscription_lifecycle [OF one_listener_inv, of "''b''" 6 _ _ "''a''" 0] by blast
qed

section \<open>Choosing peers\<close>

text \<open>
  C30: a round of gossip contacts at most three distinct peers, live ones when any is live and
  known ones otherwise, and at least one when there is any; a dead node is contacted only if it is
  dead, and certainly when more nodes are dead than live.
\<close>

theorem gossip_targets:
  assumes "rng_ok rng" "finite peers" "finite live" "finite dead"
    and "select_nodes_for_gossip rng peers live dead seeds = (nodes, d, s)"
  shows "distinct nodes \<and> length nodes \<le> 3
    \<and> set nodes \<subseteq> (if live = {} then peers else live)
    \<and> (live \<noteq> {} \<or> peers \<noteq> {} \<longrightarrow> nodes \<noteq> [])
    \<and> (d \<noteq> None \<longrightarrow> the d \<in> dead) \<and> (card live < card dead \<longrightarrow> d \<noteq> None)"
  using select_nodes_live [OF assms(1-3,5)] select_dead [OF assms(1,4,5)]
  by (simp add: GOSSIP_COUNT_def)

text \<open>
  Draws that take the smallest addresses: the first ones in order, and a draw of zero.
\<close>

definition least_rng :: gossip_rng where
  "least_rng = \<lparr>rng_choose_multiple = (\<lambda>A n. take n (sorted_list_of_set A)), rng_gen_dead = 0,
     rng_choose_dead = (\<lambda>A. find (\<lambda>_. True) (sorted_list_of_set A)), rng_gen_seed = 0,
     rng_choose_seed = (\<lambda>A. find (\<lambda>_. True) (sorted_list_of_set A))\<rparr>"

lemma least_rng_ok: "rng_ok least_rng"
proof -
  have "case find (\<lambda>_. True) (sorted_list_of_set A) of Some a \<Rightarrow> a \<in> A | None \<Rightarrow> A = {}"
    if "finite A" for A :: "socket_addr set"
    using that by (cases "sorted_list_of_set A") (auto, metis list.set_intros(1) set_sorted_list_of_set)
  then show ?thesis
    by (simp add: rng_ok_def least_rng_def set_take_subset [THEN order_trans] min.commute)
qed

theorem gossip_targets_witness:
  "case select_nodes_for_gossip least_rng {SocketAddrV4 1 1} {} {SocketAddrV4 2 1} {} of
     (nodes, d, s) \<Rightarrow> nodes \<noteq> [] \<and> d \<noteq> None"
proof -
  obtain nodes d s where "select_nodes_for_gossip least_rng {SocketAddrV4 1 1} {} {SocketAddrV4 2 1} {}
      = (nodes, d, s)" by (rule prod_cases3)
  then show ?thesis
    using gossip_targets [OF least_rng_ok, of "{SocketAddrV4 1 1}" "{}" "{SocketAddrV4 2 1}"
        "{}" nodes d s] by auto
qed

text \<open>
  A node that has no live peer contacts a seed in every round, whatever the draws, when a
  seed other than itself is known.
\<close>

theorem isolated_node_contacts_seed:
  assumes "rng_ok rng" "seeds \<noteq> {}" "finite seeds"
    and "select_nodes_for_gossip rng peers {} dead seeds = (nodes, d, s)"
  shows "s \<noteq> None \<and> the s \<in> seeds"
  using select_seed_when_isolated [OF assms] .

theorem isolated_node_contacts_seed_witness:
  "case select_nodes_for_gossip least_rng {} {} {} {SocketAddrV4 3 1} of
     (nodes, d, s) \<Rightarrow> s = Some (SocketAddrV4 3 1)"
proof -
  obtain nodes d s where sel: "select_nodes_for_gossip least_rng {} {} {} {SocketAddrV4 3 1}
      = (nodes, d, s)" by (rule prod_cases3)
  from isolated_node_contacts_seed [OF least_rng_ok _ _ sel] show ?thesis using sel by auto
qed

text \<open>
  A SYN of another cluster is answered with \<open>BadCluster\<close>, and nothing but the node's own
  heartbeat changes; a \<open>BadCluster\<close> is not answered.
\<close>

theorem other_cluster:
  assumes "cluster_id \<noteq> cfg_cluster_id (ch_config c)"
  shows "process_message z sh now (Syn cluster_id dg) c = Ok (Some BadCluster, update_self_heartbeat c)
    \<and> process_message z sh now BadCluster c = Ok (None, update_self_heartbeat c)
    \<and> (\<forall>i. i \<noteq> self_chitchat_id c \<longrightarrow> cs_node_state (ch_cluster_state (update_self_heartbeat c)) i
         = cs_node_state (ch_cluster_state c) i)"
  using other_cluster_rejected [OF assms]
  by (simp add: update_self_heartbeat_def self_node_state_def ch_update_cluster_def
      node_state_mut_def cs_node_state_def bt_get_insert)

theorem other_cluster_witness:
  "process_message zstd_none no_shuffle 0 (Syn ''d'' empty_digest) demo_node
    = Ok (Some BadCluster, update_self_heartbeat demo_node)"
  using other_cluster [of "''d''" demo_node] by (simp add: demo_node_def demo_config_def)

section \<open>Licences\<close>

text \<open>
  A licence and libraries under which every signature is good, for the concrete inputs below: hex
  decoding checks the length only, and the JSON decoders know one document each.
\<close>

definition demo_key :: string where
  "demo_key = replicate 64 (CHR ''0'')"

definition demo_signature :: licence_signature where
  "demo_signature = \<lparr>ls_license_id = ''7'', ls_license_owner_pubkey = demo_key,
     ls_provider_pubkey = demo_key, ls_delegation_sig = '''', ls_delegation_confirm_sig = '''',
     ls_timestamp = 12, ls_license_proof_sig = ''''\<rparr>"

definition demo_env :: igniter_env where
  "demo_env = \<lparr>ed25519_verify = (\<lambda>_ _ _. True), base64_decode = (\<lambda>s. Some (str_bytes s)),
     hex_decode = (\<lambda>s. if even (length s) then Some (replicate (length s div 2) 0) else None),
     json_of_signatures = (\<lambda>_. ''s''), signatures_of_json = (\<lambda>_. Some [demo_signature]),
     json_of_licences = (\<lambda>_. ''l''),
     licences_of_json = (\<lambda>_. Some (derive_licences (VerifiedSignatures [demo_signature]))),
     json_of_proxies = (\<lambda>_. ''p''), proxies_of_json = (\<lambda>_. Some []),
     backend_verifying_key = demo_key, cargo_pkg_version = ''1''\<rparr>"

lemma demo_key_decoded: "key_of_hex demo_env demo_key = Some (replicate 32 0)"
  by (simp add: key_of_hex_def demo_env_def demo_key_def)

lemma demo_signature_valid: "signatures_valid demo_env pk own bls demo_signature"
  using demo_key_decoded
  by (simp add: signatures_valid_def demo_signature_def) (simp add: demo_env_def)

text \<open>
  C31: a set of licence signatures is accepted exactly when there are between one and twenty,
  their licence ids are distinct, the backend's key can be read, and each licence carries a proof
  signed by the backend, a delegation signed by the owner and a confirmation signed by the
  provider that names the keys of the block keeper node.
\<close>

theorem licences_accepted_iff:
  "verified_signatures_create env sigs backend node_pubkey bls = Inr v \<longleftrightarrow>
     v = VerifiedSignatures sigs \<and> 1 \<le> length sigs \<and> length sigs \<le> 20
     \<and> distinct (map ls_license_id sigs)
     \<and> (\<exists>pk. key_of_hex env backend = Some pk
          \<and> (\<forall>sig \<in> set sigs. signatures_valid env pk node_pubkey bls sig))"
  by (simp add: verified_signatures_create_iff MAX_ALLOWED_LICENSES_def)

theorem licences_accepted_iff_witness:
  "verified_signatures_create demo_env [demo_signature] demo_key ''w'' ''b''
    = Inr (VerifiedSignatures [demo_signature])"
  using licences_accepted_iff [of demo_env "[demo_signature]" demo_key "''w''" "''b''"
      "VerifiedSignatures [demo_signature]"] demo_key_decoded demo_signature_valid by simp

text \<open>
  The table of licences derived from verified signatures is keyed in order by owner, counts
  for each owner that has any the licences it owns, and its counts add up to the number of
  licences.
\<close>

theorem licence_counts:
  "bt_wf (derive_licences (VerifiedSignatures sigs))
    \<and> bt_get (derive_licences (VerifiedSignatures sigs)) k =
        (let n = length (filter (\<lambda>sig. ls_license_owner_pubkey sig = k) sigs)
         in if n = 0 then None else Some (int n))
    \<and> sum_list (map snd (derive_licences (VerifiedSignatures sigs))) = int (length sigs)"
  using derive_licences_wf derive_licences_count derive_licences_sum by blast

text \<open>
  C32: removing outdated delegations keeps of every licence delegations with the latest timestamp
  only, at least one of each licence, no licence twice under one provider and no provider without
  licences; it reports as revoked exactly the delegations that have a later one.
\<close>

theorem revocation_correct:
  assumes "vn_remove_outdated data = (data', revoked)"
  shows "(\<forall>sig \<in> set (all_items vn_signatures data'). sig \<in> set (all_items vn_signatures data)
        \<and> latest_in ls_license_id ls_timestamp (all_items vn_signatures data) sig)
    \<and> ls_license_id ` set (all_items vn_signatures data') = ls_license_id ` set (all_items vn_signatures data)
    \<and> (\<forall>s \<in> set data'. vn_signatures s \<noteq> [] \<and> distinct (map ls_license_id (vn_signatures s)))
    \<and> (\<forall>r. r \<in> set revoked \<longleftrightarrow> (\<exists>s \<in> set data. \<exists>sig \<in> set (vn_signatures s).
        \<not> latest_in ls_license_id ls_timestamp (all_items vn_signatures data) sig
        \<and> r = \<lparr>rl_license_id = ls_license_id sig, rl_provider_pubkey = vn_pubkey s,
               rl_timestamp = ls_timestamp sig\<rparr>))"
proof -
  note removed = assms [unfolded vn_remove_outdated_def]
  show ?thesis
    using vn.kept_latest [OF removed] vn.kept_ids [OF removed] vn.no_empty [OF removed]
      vn.revoked_iff [OF removed] by blast
qed

text \<open>Two providers hold a delegation of one licence, the second a later one.\<close>

definition two_providers :: "verified_node_state_no_licenses list" where
  "two_providers = [\<lparr>vn_pubkey = ''u'', vn_bls_key = '''', vn_signatures = [demo_signature],
       vn_version = ''1''\<rparr>,
     \<lparr>vn_pubkey = ''v'', vn_bls_key = '''',
       vn_signatures = [demo_signature\<lparr>ls_timestamp := 13\<rparr>], vn_version = ''1''\<rparr>]"

theorem revocation_correct_witness:
  "\<lparr>rl_license_id = ''7'', rl_provider_pubkey = ''u'', rl_timestamp = 12\<rparr>
    \<in> set (snd (vn_remove_outdated two_providers))"
proof -
  have "\<not> latest_in ls_license_id ls_timestamp (all_items vn_signatures two_providers) demo_signature"
    by (auto simp: latest_in_def all_items_def two_providers_def demo_signature_def)
  moreover have "vn_remove_outdated two_providers
      = (fst (vn_remove_outdated two_providers), snd (vn_remove_outdated two_providers))" by simp
  from revocation_correct [OF this] have
    "r \<in> set (snd (vn_remove_outdated two_providers)) \<longleftrightarrow> (\<exists>s \<in> set two_providers.
        \<exists>sig \<in> set (vn_signatures s).
        \<not> latest_in ls_license_id ls_timestamp (all_items vn_signatures two_providers) sig
        \<and> r = \<lparr>rl_license_id = ls_license_id sig, rl_provider_pubkey = vn_pubkey s,
               rl_timestamp = ls_timestamp sig\<rparr>)" for r by blast
  ultimately show ?thesis by (auto simp: two_providers_def demo_signature_def)
qed

text \<open>
  C33: the node state of a node that published its configuration is listed by every other node,
  when its copy holds what was published, JSON encoding can be undone, and no other node state
  with accepted signatures claims the same public key with other licences.
\<close>

theorem published_node_listed:
  assumes "json_ok env config" "to_gossip env config keys = Inr kvs"
    and "s \<in> set (snap_node_states (state_snapshot c))" "holds_published (key_values s) kvs"
    and "\<forall>s' \<in> set (snap_node_states (state_snapshot c)). \<forall>d.
      from_gossip env (key_values s') = Inr d \<and> vn_pubkey d = wc_pubkey (kc_wallet keys)
        \<longrightarrow> vn_signatures d = ic_signatures config"
  shows "s \<in> set (ar_node_states (api_index env c))"
  using index_keeps_published [OF assms(1-4)] assms(3,5)
  by (simp add: api_index_def get_verified_state_def case_prod_beta Let_def)

definition demo_keys :: keys_config where
  "demo_keys = \<lparr>kc_wallet = \<lparr>wc_pubkey = ''w'', wc_secret = ''''\<rparr>,
     kc_bls = \<lparr>bc_pubkey = ''b'', bc_secret = '''', bc_rnd = ''''\<rparr>\<rparr>"

definition demo_igniter_config :: igniter_config where
  "demo_igniter_config = \<lparr>ic_cluster_id = ''c'', ic_proxies = [], ic_listen_addr = SocketAddrV4 1 1,
     ic_api_addr = SocketAddrV4 1 2, ic_advertise_addr = SocketAddrV4 1 1, ic_seeds = [],
     ic_node_id = None, ic_interval = 500, ic_signatures = [demo_signature], ic_auto_update = False\<rparr>"

definition demo_published :: "(string \<times> string) list" where
  "demo_published = [(key_pubkey, ''w''), (key_bls_pubkey, ''b''), (key_proxies, ''p''),
     (key_version, ''1''), (key_signatures, ''s''), (key_licenses, ''l'')]"

definition published_copy :: node_state where
  "published_copy = after_ops (map (\<lambda>(k, v). OpSet k v) demo_published) fresh_copy"

definition listing_node :: "unit chitchat" where
  "listing_node = demo_node\<lparr>ch_cluster_state := \<lparr>cs_node_states = [(node_a, published_copy)],
     cs_seed_addrs = {}\<rparr>\<rparr>"

lemma demo_json_ok: "json_ok demo_env demo_igniter_config"
  by (simp add: json_ok_def demo_env_def demo_igniter_config_def)

lemma demo_to_gossip: "to_gossip demo_env demo_igniter_config demo_keys = Inr demo_published"
proof -
  have "verified_signatures_create demo_env [demo_signature] demo_key ''w'' ''b''
      = Inr (VerifiedSignatures [demo_signature])"
    using demo_key_decoded demo_signature_valid
    by (simp add: verified_signatures_create_iff MAX_ALLOWED_LICENSES_def)
  moreover have "backend_verifying_key demo_env = demo_key" by (simp add: demo_env_def)
  ultimately show ?thesis
    by (simp add: to_gossip_def Let_def demo_igniter_config_def demo_keys_def demo_published_def
        check_proxy_socket_addresses_def require_def)
      (simp add: demo_env_def)
qed

lemma published_copy_holds: "holds_published (key_values published_copy) demo_published"
  by code_simp

lemma listing_node_states: "snap_node_states (state_snapshot listing_node) = [published_copy]"
  by (simp add: state_snapshot_def cluster_state_snapshot_of_def listing_node_def)

theorem published_node_listed_witness:
  "published_copy \<in> set (ar_node_states (api_index demo_env listing_node))"
proof (rule published_node_listed [OF demo_json_ok demo_to_gossip _ published_copy_holds])
  show "published_copy \<in> set (snap_node_states (state_snapshot listing_node))"
    by (simp add: listing_node_states)
  show "\<forall>s' \<in> set (snap_node_states (state_snapshot listing_node)). \<forall>d.
      from_gossip demo_env (key_values s') = Inr d \<and> vn_pubkey d = wc_pubkey (kc_wallet demo_keys)
        \<longrightarrow> vn_signatures d = ic_signatures demo_igniter_config"
    using published_from_gossip [OF demo_json_ok demo_to_gossip published_copy_holds]
    by (simp add: listing_node_states)
qed

text \<open>
  C34: a node state that is listed carries accepted signatures, bound to the node's own keys, a
  table of licences that agrees with the signatures of a verified node state of the same public
  key, and at most ten proxies none of which has a certificate without an address.
\<close>

theorem listed_node_verified:
  assumes "s \<in> set (ar_node_states (api_index env c))"
  shows "\<exists>d pk. s \<in> set (snap_node_states (state_snapshot c)) \<and> from_gossip env (key_values s) = Inr d
    \<and> key_of_hex env (backend_verifying_key env) = Some pk
    \<and> 1 \<le> length (vn_signatures d) \<and> length (vn_signatures d) \<le> MAX_ALLOWED_LICENSES
    \<and> (\<forall>sig \<in> set (vn_signatures d). signatures_valid env pk (vn_pubkey d) (vn_bls_key d) sig)
    \<and> (\<exists>v \<in> set (fst (get_verified_state env c)). vs_pubkey v = vn_pubkey d
         \<and> validate_licenses env (key_values s) (vs_licenses v))
    \<and> check_proxy_socket_addresses env (bt_get (key_values s) key_proxies)"
proof -
  have keeps: "index_keeps env (fst (get_verified_state env c)) s"
    and mem: "s \<in> set (snap_node_states (state_snapshot c))"
    using assms by (auto simp: api_index_def case_prod_beta Let_def)
  from keeps obtain d v where d: "from_gossip env (key_values s) = Inr d"
    and v: "find (\<lambda>v. vs_pubkey v = vn_pubkey d) (fst (get_verified_state env c)) = Some v"
    "validate_licenses env (key_values s) (vs_licenses v)"
    "check_proxy_socket_addresses env (bt_get (key_values s) key_proxies)"
    by (auto simp: index_keeps_def Let_def split: sum.splits option.splits)
  from v(1) have "v \<in> set (fst (get_verified_state env c))" "vs_pubkey v = vn_pubkey d"
    by (auto simp: find_Some_iff)
  then show ?thesis using from_gossip_verified [OF d] d v(2,3) mem by blast
qed

theorem listed_node_verified_witness:
  "\<exists>d. from_gossip demo_env (key_values published_copy) = Inr d \<and> 1 \<le> length (vn_signatures d)"
proof -
  have "index_keeps demo_env (fst (extract_verified_state_without_licences demo_env [published_copy]))
      published_copy"
    by (rule index_keeps_published [OF demo_json_ok demo_to_gossip _ published_copy_holds])
      (use published_from_gossip [OF demo_json_ok demo_to_gossip published_copy_holds] in auto)
  then have "published_copy \<in> set (ar_node_states (api_index demo_env listing_node))"
    by (simp add: api_index_def case_prod_beta Let_def get_verified_state_def listing_node_states)
  from listed_node_verified [OF this] show ?thesis by blast
qed

section \<open>Where the code falls short\<close>

text \<open>
  C38: a replica whose \<open>max_version\<close> equals the version up to which the sender collected, and
  which collected less itself, is sent an incremental delta. The code logs such a delta as
  inapplicable and ignored, but goes on to treat it as a reset: every key that is not in the delta
  is lost, although the sender still has it.
\<close>

theorem incremental_delta_loses_keys:
  assumes "ns_max_version R = ns_last_gc_version S" "ns_last_gc_version R < ns_last_gc_version S"
    and "delta_from_version dg i S = Some from_v" "bt_get (node_digests dg) i = Some (ns_digest R)"
    and "emits S from_v nd" "ndl_key_values nd \<noteq> []" "k \<notin> kvm_key ` set (ndl_key_values nd)"
  shows "from_v = ns_max_version R \<and> ns_get (ns_apply_delta nd now R) k = None"
proof -
  have "from_v = ns_max_version R"
    using assms(1,3,4)
    by (auto simp: delta_from_version_def ns_digest_def Let_def split: if_splits)
  then show ?thesis using inapplicable_delta_loses assms by blast
qed

definition lossy_owner :: node_state where
  "lossy_owner = after_ops [OpSet ''z'' ''1''] (gc_keys_marked_for_deletion 1 0
     (after_ops [OpSet ''x'' ''1'', OpSet ''y'' ''1'', OpDelete ''y''] fresh_copy))"

definition lossy_replica :: node_state where
  "lossy_replica = gossip 9 node_a
     (after_ops [OpSet ''x'' ''1'', OpSet ''y'' ''1'', OpDelete ''y''] fresh_copy) fresh_copy"

theorem incremental_delta_loses_keys_witness:
  "ns_get lossy_owner ''x'' = Some ''1'' \<and> ns_get lossy_replica ''x'' = Some ''1''
    \<and> ns_get (ns_apply_delta (cut_delta 9 node_a lossy_owner 3) 0 lossy_replica) ''x'' = None"
proof -
  have "ns_max_version lossy_replica = ns_last_gc_version lossy_owner"
    "ns_last_gc_version lossy_replica < ns_last_gc_version lossy_owner"
    "delta_from_version \<lparr>node_digests = [(node_a, ns_digest lossy_replica)]\<rparr> node_a lossy_owner = Some 3"
    "bt_get (node_digests \<lparr>node_digests = [(node_a, ns_digest lossy_replica)]\<rparr>) node_a
      = Some (ns_digest lossy_replica)"
    by code_simp+
  note lost = incremental_delta_loses_keys [OF this cut_delta_emits]
  have "ndl_key_values (cut_delta 9 node_a lossy_owner 3) \<noteq> []"
    "''x'' \<notin> kvm_key ` set (ndl_key_values (cut_delta 9 node_a lossy_owner 3))"
    "ns_get lossy_owner ''x'' = Some ''1''" "ns_get lossy_replica ''x'' = Some ''1''"
    by code_simp+
  then show ?thesis using lost by blast
qed


text \<open>
  A delta without key-values changes nothing outside a reset, whatever \<open>max_version\<close> it
  announces: a replica behind by collected deletions only stays behind and is sent such a delta in
  every round.
\<close>

theorem empty_delta_ignored:
  assumes "ndl_key_values nd = []"
    and "ndl_last_gc_version nd < ns_max_version R \<or> ndl_last_gc_version nd \<le> ns_last_gc_version R"
  shows "ns_apply_delta nd now R = R"
  using max_version_ignored [OF assms] .

theorem empty_delta_ignored_witness:
  "ns_max_version (snd run_stuck) < ns_max_version (fst run_stuck)
    \<and> delta_from_version \<lparr>node_digests = [(node_a, ns_digest (snd run_stuck))]\<rparr> node_a (fst run_stuck)
        = Some 1
    \<and> ns_apply_delta (cut_delta 9 node_a (fst run_stuck) 1) 0 (snd run_stuck) = snd run_stuck"
proof -
  have "ndl_key_values (cut_delta 9 node_a (fst run_stuck) 1) = []"
    "ndl_last_gc_version (cut_delta 9 node_a (fst run_stuck) 1) < ns_max_version (snd run_stuck)
      \<or> ndl_last_gc_version (cut_delta 9 node_a (fst run_stuck) 1) \<le> ns_last_gc_version (snd run_stuck)"
    "ns_max_version (snd run_stuck) < ns_max_version (fst run_stuck)"
    "delta_from_version \<lparr>node_digests = [(node_a, ns_digest (snd run_stuck))]\<rparr> node_a (fst run_stuck)
      = Some 1"
    by code_simp+
  then show ?thesis using empty_delta_ignored by blast
qed

text \<open>
  For an item longer than a block the announced upper bound of the stream is too small: 40000
  bytes that do not compress are announced as 40007 and take 40010.
\<close>

theorem upper_bound_too_small:
  assumes "length bs = 40000"
  shows "serialized_len_upperbound_after (with_block_threshold 16384) (length bs) = Ok 40007
    \<and> (\<exists>w out. csw_append zstd_none bs (length bs) (with_block_threshold 16384) = Ok w
         \<and> csw_finish zstd_none w = Ok out \<and> length out = 40010)"
  using upperbound_exceeded [OF assms] assms by simp

theorem upper_bound_too_small_witness:
  "\<exists>w out. csw_append zstd_none (replicate 40000 1) 40000 (with_block_threshold 16384) = Ok w
    \<and> csw_finish zstd_none w = Ok out \<and> length out = 40010"
  using upper_bound_too_small [of "replicate 40000 1"] by (simp only: length_replicate simp_thms)

text \<open>
  A delta about an unknown node with one value under a key whose first character takes more
  than one byte makes the handler panic, whether or not anything is subscribed.
\<close>

theorem non_ascii_key_panic:
  assumes "ch_inv c" "cs_node_state (ch_cluster_state c) (ndl_chitchat_id nd) = None"
    and "node_deltas d = [nd]" "ndl_from_version_excluded nd = 0" "ndl_last_gc_version nd = 0"
    and "ndl_key_values nd = [kv]" "0 < kvm_version kv" "kvm_status kv = MutSet"
    and "kvm_key kv \<noteq> []" "\<not> first_byte_is_char (kvm_key kv)"
    and "ndl_chitchat_id nd \<noteq> self_chitchat_id c"
  shows "is_panic (process_message z sh now (Ack d) c)"
proof -
  have "cs_node_state (ch_cluster_state (update_self_heartbeat c)) (ndl_chitchat_id nd) = None"
    using assms(2,11) by (simp add: update_self_heartbeat_def self_node_state_def
        ch_update_cluster_def node_state_mut_def cs_node_state_def bt_get_insert)
  from non_ascii_key_panics [OF this ch_inv_update_self_heartbeat [OF assms(1)] assms(3,7,8,4-6,9,10)]
  show ?thesis by (simp add: Let_def is_panic_and_then)
qed

definition accented_delta :: node_delta where
  "accented_delta = \<lparr>ndl_chitchat_id = ChitchatId ''n'' 0 (SocketAddrV4 9 9),
     ndl_from_version_excluded = 0, ndl_last_gc_version = 0,
     ndl_key_values = [\<lparr>kvm_key = [char_of (195 :: nat), char_of (169 :: nat)], kvm_value = ''1'',
       kvm_version = 1, kvm_status = MutSet\<rparr>],
     ndl_max_version = None\<rparr>"

theorem non_ascii_key_panic_witness:
  "is_panic (process_message zstd_none no_shuffle 0 (Ack \<lparr>node_deltas = [accented_delta], delta_serialized_len = 0\<rparr>) demo_node)"
proof (rule non_ascii_key_panic [OF demo_node_inv, where nd = accented_delta])
  show "\<not> first_byte_is_char (kvm_key \<lparr>kvm_key = [char_of (195 :: nat), char_of (169 :: nat)],
      kvm_value = ''1'', kvm_version = 1, kvm_status = MutSet\<rparr>)" by code_simp
qed (simp_all add: accented_delta_def demo_node_def demo_config_def one_key_cluster_def
    cs_node_state_def node_a_def node_b_def self_chitchat_id_def)

text \<open>
  A delegation signature is good for every licence id and timestamp whose concatenation is
  the same, so that a delegation of one licence passes the check for another.
\<close>

theorem delegation_signature_ambiguous:
  assumes "check_delegation_sig env sig = Inr ()"
    and "i @ decimal (unat t) = ls_license_id sig @ decimal (unat (ls_timestamp sig))"
  shows "check_delegation_sig env (sig\<lparr>ls_license_id := i, ls_timestamp := t\<rparr>) = Inr ()"
  using delegation_sig_transfers [OF assms] .

theorem delegation_signature_ambiguous_witness:
  "check_delegation_sig demo_env (demo_signature\<lparr>ls_license_id := ''71'', ls_timestamp := 2\<rparr>) = Inr ()"
proof (rule delegation_signature_ambiguous)
  show "check_delegation_sig demo_env demo_signature = Inr ()"
    using demo_key_decoded
    by (simp add: check_delegation_sig_def checked_then_Inr demo_signature_def) (simp add: demo_env_def)
  show "''71'' @ decimal (unat (2 :: u64)) = ls_license_id demo_signature @ decimal (unat (ls_timestamp demo_signature))"
    by (simp add: demo_signature_def decimal_12)
qed

text \<open>
  The export lists every verified delegation, those included that the same data reports as
  revoked: the list without outdated delegations is computed and dropped.
\<close>

theorem export_lists_revoked:
  assumes "d \<in> set (verified_inputs env (snap_node_states (state_snapshot c)))"
    and "sig \<in> set (vn_signatures d)"
    and "\<not> latest_in ls_license_id ls_timestamp
      (all_items vn_signatures (verified_inputs env (snap_node_states (state_snapshot c)))) sig"
  shows "(\<exists>v \<in> set (export_state env c). vs_pubkey v = vn_pubkey d \<and> sig \<in> set (vs_signatures v))
    \<and> \<lparr>rl_license_id = ls_license_id sig, rl_provider_pubkey = vn_pubkey d,
        rl_timestamp = ls_timestamp sig\<rparr> \<in> set (snd (get_verified_state env c))"
proof -
  let ?st = "verified_inputs env (snap_node_states (state_snapshot c))"
  have snd: "snd (get_verified_state env c) = snd (vn_remove_outdated ?st)"
    by (simp add: get_verified_state_def extract_verified_state_without_licences_def from_state_def
        case_prod_beta Let_def)
  have "remove_with_outdated_timestamps ls_license_id ls_timestamp vn_signatures
      (\<lambda>v s. s\<lparr>vn_signatures := v\<rparr>) vn_pubkey ?st
      = (fst (vn_remove_outdated ?st), snd (vn_remove_outdated ?st))"
    by (simp add: vn_remove_outdated_def)
  from vn.revoked_iff [OF this] have "\<lparr>rl_license_id = ls_license_id sig,
      rl_provider_pubkey = vn_pubkey d, rl_timestamp = ls_timestamp sig\<rparr>
      \<in> set (snd (vn_remove_outdated ?st))" using assms by blast
  moreover have "export_state env c = fst (from_state ?st)"
    by (simp add: export_state_def get_verified_state_def extract_verified_state_without_licences_def)
  ultimately show ?thesis unfolding snd using export_keeps_revoked [OF assms(1,2)] by simp
qed

text \<open>Two nodes that hold the licence of the same owner, the second by a later delegation.\<close>

definition redelegated_env :: igniter_env where
  "redelegated_env = demo_env\<lparr>signatures_of_json := (\<lambda>s. Some [if s = ''s'' then demo_signature
     else demo_signature\<lparr>ls_timestamp := 13\<rparr>])\<rparr>"

definition redelegated_copy :: node_state where
  "redelegated_copy = after_ops [OpSet key_pubkey ''v'', OpSet key_signatures ''t''] published_copy"

definition redelegated_node :: "unit chitchat" where
  "redelegated_node = demo_node\<lparr>ch_cluster_state := \<lparr>cs_node_states =
     [(node_a, published_copy), (node_b, redelegated_copy)], cs_seed_addrs = {}\<rparr>\<rparr>"

lemma redelegated_inputs:
  "verified_inputs redelegated_env (snap_node_states (state_snapshot redelegated_node)) =
     [\<lparr>vn_pubkey = ''w'', vn_bls_key = ''b'', vn_signatures = [demo_signature], vn_version = ''1''\<rparr>,
      \<lparr>vn_pubkey = ''v'', vn_bls_key = ''b'', vn_signatures = [demo_signature\<lparr>ls_timestamp := 13\<rparr>],
       vn_version = ''1''\<rparr>]"
proof -
  have key: "key_of_hex redelegated_env demo_key = Some (replicate 32 0)"
    by (simp add: key_of_hex_def redelegated_env_def demo_env_def demo_key_def)
  have "signatures_valid redelegated_env pk own bls demo_signature"
    "signatures_valid redelegated_env pk own bls (demo_signature\<lparr>ls_timestamp := 13\<rparr>)" for pk own bls
    using key by (simp_all add: signatures_valid_def demo_signature_def)
      (simp_all add: redelegated_env_def demo_env_def)
  moreover have "backend_verifying_key redelegated_env = demo_key"
    by (simp add: redelegated_env_def demo_env_def)
  ultimately have create: "verified_signatures_create redelegated_env [sig]
      (backend_verifying_key redelegated_env) own bls = Inr (VerifiedSignatures [sig])"
    if "sig \<in> {demo_signature, demo_signature\<lparr>ls_timestamp := 13\<rparr>}" for sig own bls
    using that key by (auto simp: verified_signatures_create_iff MAX_ALLOWED_LICENSES_def)
  have read: "map (\<lambda>s. map (bt_get (key_values s)) [key_pubkey, key_bls_pubkey, key_signatures, key_version])
      [published_copy, redelegated_copy] = [[Some ''w'', Some ''b'', Some ''s'', Some ''1''],
        [Some ''v'', Some ''b'', Some ''t'', Some ''1'']]" by code_simp
  have json: "signatures_of_json redelegated_env ''s'' = Some [demo_signature]"
    "signatures_of_json redelegated_env ''t'' = Some [demo_signature\<lparr>ls_timestamp := 13\<rparr>]"
    by (simp_all add: redelegated_env_def)
  show ?thesis
    using create read json
    by (simp add: verified_inputs_def state_snapshot_def cluster_state_snapshot_of_def
        redelegated_node_def from_gossip_def ok_or_def List.map_filter_simps)
qed

theorem export_lists_revoked_witness:
  "\<lparr>rl_license_id = ''7'', rl_provider_pubkey = ''w'', rl_timestamp = 12\<rparr>
      \<in> set (snd (get_verified_state redelegated_env redelegated_node))
    \<and> (\<exists>v \<in> set (export_state redelegated_env redelegated_node). demo_signature \<in> set (vs_signatures v))"
proof -
  have "\<not> latest_in ls_license_id ls_timestamp (all_items vn_signatures
      (verified_inputs redelegated_env (snap_node_states (state_snapshot redelegated_node)))) demo_signature"
    unfolding redelegated_inputs by (auto simp: latest_in_def all_items_def demo_signature_def)
  from export_lists_revoked [OF _ _ this, of "\<lparr>vn_pubkey = ''w'', vn_bls_key = ''b'',
      vn_signatures = [demo_signature], vn_version = ''1''\<rparr>"]
  show ?thesis by (auto simp: redelegated_inputs) (simp_all add: demo_signature_def)
qed

text \<open>
  C40: when the digest of a reply takes the datagram up, the room left for the delta wraps around:
  the delta is computed for a limit of at least \<open>2 ^ 63\<close> bytes, that is, for none.
\<close>

theorem oversized_digest_no_limit:
  assumes "report_heartbeats_in_digest now dg (update_self_heartbeat c) = Ok c1"
    and "1 \<le> ch_max_datagram_payload_size c1"
    and "ch_max_datagram_payload_size c1
      \<le> digest_serialized_len z (ch_compute_digest (ch_scheduled_for_deletion now c1) c1)"
    and "digest_serialized_len z (ch_compute_digest (ch_scheduled_for_deletion now c1) c1) < 2 ^ 63"
  shows "\<exists>mtu. 2 ^ 63 \<le> mtu \<and> process_message z sh now (Syn (cfg_cluster_id (ch_config c)) dg) c
    = and_then (compute_partial_delta_respecting_mtu z sh dg mtu (ch_scheduled_for_deletion now c1)
        (ch_cluster_state c1))
        (\<lambda>d. Ok (Some (SynAck (ch_compute_digest (ch_scheduled_for_deletion now c1) c1) d), c1))"
  using oversized_digest_wraps [OF assms(2-4)] assms(1) update_self_heartbeat_frame [of c]
  by (intro exI [of _ "usize_sub (usize_sub (ch_max_datagram_payload_size c1) 1)
      (digest_serialized_len z (ch_compute_digest (ch_scheduled_for_deletion now c1) c1))"])
    (simp add: Let_def same_frame_def)

theorem oversized_digest_no_limit_witness:
  "\<exists>mtu. 2 ^ 63 \<le> mtu \<and> process_message zstd_none no_shuffle 0 (Syn ''c'' empty_digest)
      (demo_node\<lparr>ch_max_datagram_payload_size := 90\<rparr>)
    = and_then (compute_partial_delta_respecting_mtu zstd_none no_shuffle empty_digest mtu {}
        (ch_cluster_state (update_self_heartbeat demo_node)))
        (\<lambda>d. Ok (Some (SynAck (ch_compute_digest {} (update_self_heartbeat demo_node)) d),
          (update_self_heartbeat demo_node)\<lparr>ch_max_datagram_payload_size := 90\<rparr>))"
proof -
  let ?c1 = "(update_self_heartbeat demo_node)\<lparr>ch_max_datagram_payload_size := 90\<rparr>"
  have upd: "update_self_heartbeat (demo_node\<lparr>ch_max_datagram_payload_size := 90\<rparr>) = ?c1"
    by (simp add: update_self_heartbeat_def self_node_state_def ch_update_cluster_def
        self_chitchat_id_def)
  have same: "ch_scheduled_for_deletion 0 ?c1 = {}"
    "ch_compute_digest {} ?c1 = ch_compute_digest {} (update_self_heartbeat demo_node)"
    using demo_sched by (simp_all add: ch_scheduled_for_deletion_def ch_compute_digest_def)
  have "report_heartbeats_in_digest 0 empty_digest
      (update_self_heartbeat (demo_node\<lparr>ch_max_datagram_payload_size := 90\<rparr>)) = Ok ?c1"
    unfolding upd by (simp add: report_heartbeats_in_digest_def empty_digest_def)
  from oversized_digest_no_limit [OF this, of zstd_none no_shuffle] show ?thesis
    unfolding same using demo_digest_len by (simp add: demo_node_def demo_config_def)
qed

end
